(* ===== verification/OctoxPrelude.thy ===== *)
theory OctoxPrelude
  imports Main "HOL-Library.Word"
begin

text \<open>
  The vocabulary the component theories share: Rust's machine integers as words, a
  panic as a value, the checked operations of a debug build (the profile
  \<^verbatim>\<open>cargo build\<close> uses, in which an integer overflow and an out-of-range
  index panic), and the generic facts about lists, intervals of addresses and words that
  several components need.
\<close>

unbundle bit_operations_syntax

section \<open>Types and outcomes\<close>

type_synonym u8 = "8 word"
type_synonym u16 = "16 word"
type_synonym u32 = "32 word"
type_synonym usize = "64 word"

text \<open>
  A Rust computation that may panic is a sum: \<^term>\<open>Inl\<close> holds the panic, \<^term>\<open>Inr\<close>
  the value. \<open>Result\<close> and \<open>Option\<close> of the source are values (an option or a sum of
  their own) under \<^term>\<open>Inr\<close>, so an error return is never confused with a panic. A read whose
  behaviour Rust leaves undefined is a panic of its own, \<open>Undefined\<close>.
\<close>

datatype panic =
    Panic string
  | AssertFailed string
  | Unreachable
  | UnwrapNone
  | Overflow
  | OutOfBounds
  | Undefined

type_synonym 'a rust = "panic + 'a"

fun rbind :: "'a rust \<Rightarrow> ('a \<Rightarrow> 'b rust) \<Rightarrow> 'b rust" where
  "rbind (Inl e) f = Inl e"
| "rbind (Inr x) f = f x"

definition rassert :: "bool \<Rightarrow> string \<Rightarrow> unit rust" where
  "rassert b msg = (if b then Inr () else Inl (AssertFailed msg))"

definition unwrap :: "'a option \<Rightarrow> 'a rust" where
  "unwrap x = (case x of None \<Rightarrow> Inl UnwrapNone | Some v \<Rightarrow> Inr v)"

text \<open>
  Arithmetic on \<open>usize\<close> values held as natural numbers, which panics when it overflows, and
  indexing and slicing.
\<close>

definition uadd :: "nat \<Rightarrow> nat \<Rightarrow> nat rust" where
  "uadd a b = (if a + b < 2 ^ 64 then Inr (a + b) else Inl Overflow)"

definition umul :: "nat \<Rightarrow> nat \<Rightarrow> nat rust" where
  "umul a b = (if a * b < 2 ^ 64 then Inr (a * b) else Inl Overflow)"

definition usub :: "nat \<Rightarrow> nat \<Rightarrow> nat rust" where
  "usub a b = (if b \<le> a then Inr (a - b) else Inl Overflow)"

definition index :: "'a list \<Rightarrow> nat \<Rightarrow> 'a rust" where
  "index xs i = (if i < length xs then Inr (xs ! i) else Inl OutOfBounds)"

definition index_set :: "'a list \<Rightarrow> nat \<Rightarrow> 'a \<Rightarrow> 'a list rust" where
  "index_set xs i v = (if i < length xs then Inr (xs[i := v]) else Inl OutOfBounds)"

text \<open>\<^verbatim>\<open>&xs[a..b]\<close>, and \<^verbatim>\<open>copy_from_slice\<close> into \<^verbatim>\<open>xs[a..a + ys.len()]\<close>.\<close>

definition slice :: "'a list \<Rightarrow> nat \<Rightarrow> nat \<Rightarrow> 'a list rust" where
  "slice xs a b = (if a \<le> b \<and> b \<le> length xs then Inr (take (b - a) (drop a xs)) else Inl OutOfBounds)"

definition overwrite :: "'a list \<Rightarrow> nat \<Rightarrow> 'a list \<Rightarrow> 'a list" where
  "overwrite xs a ys = take a xs @ ys @ drop (a + length ys) xs"

named_theorems rust_defs

lemmas [rust_defs] = rassert_def unwrap_def uadd_def umul_def usub_def index_def index_set_def slice_def

lemma rbind_Inr_iff [simp]:
  "rbind m f = Inr y \<longleftrightarrow> (\<exists>x. m = Inr x \<and> f x = Inr y)"
  by (cases m) auto

lemma rbind_cong [fundef_cong]:
  "m = m' \<Longrightarrow> (\<And>x. m' = Inr x \<Longrightarrow> f x = f' x) \<Longrightarrow> rbind m f = rbind m' f'"
  by (cases m') auto

lemma rbind_assoc: "rbind (rbind m f) g = rbind m (\<lambda>x. rbind (f x) g)"
  by (cases m) auto

lemma unwrap_Some [simp]: "unwrap (Some v) = Inr v"
  by (simp add: unwrap_def)

lemma unwrap_Inr_iff [simp]: "unwrap x = Inr v \<longleftrightarrow> x = Some v"
  by (auto simp: unwrap_def split: option.splits)

lemma rassert_Inr_iff [simp]: "rassert b msg = Inr u \<longleftrightarrow> b"
  by (auto simp: rassert_def)

lemma rassert_True [simp]: "rassert True msg = Inr ()"
  by (simp add: rassert_def)

lemma usub_le [simp]: "b \<le> a \<Longrightarrow> usub a b = Inr (a - b)"
  by (simp add: usub_def)

lemma uadd_lt [simp]: "a + b < 2 ^ 64 \<Longrightarrow> uadd a b = Inr (a + b)"
  by (simp add: uadd_def)

lemma uadd_Inr_iff: "uadd a b = Inr c \<longleftrightarrow> c = a + b \<and> c < 2 ^ 64"
  by (auto simp: uadd_def)

lemma umul_Inr_iff: "umul a b = Inr c \<longleftrightarrow> c = a * b \<and> c < 2 ^ 64"
  by (auto simp: umul_def)

lemma usub_Inr_iff: "usub a b = Inr c \<longleftrightarrow> b \<le> a \<and> c = a - b"
  by (auto simp: usub_def)

lemma slice_le [simp]:
  "a \<le> b \<Longrightarrow> b \<le> length xs \<Longrightarrow> slice xs a b = Inr (take (b - a) (drop a xs))"
  by (simp add: slice_def)

lemma length_overwrite [simp]: "a + length ys \<le> length xs \<Longrightarrow> length (overwrite xs a ys) = length xs"
  by (simp add: overwrite_def)

lemma nth_overwrite:
  "a + length ys \<le> length xs \<Longrightarrow> i < length xs \<Longrightarrow>
   overwrite xs a ys ! i = (if a \<le> i \<and> i < a + length ys then ys ! (i - a) else xs ! i)"
  by (auto simp: overwrite_def nth_append min_def)

lemma index_lt [simp]: "i < length xs \<Longrightarrow> index xs i = Inr (xs ! i)"
  by (simp add: index_def)

lemma index_set_lt [simp]: "i < length xs \<Longrightarrow> index_set xs i v = Inr (xs[i := v])"
  by (simp add: index_set_def)

section \<open>Words\<close>

lemma word_bits_eq_iff:
  fixes x y :: "'a::len word"
  shows "x = y \<longleftrightarrow> (\<forall>n < LENGTH('a). bit x n = bit y n)"
  by (auto intro: bit_word_eqI)

end
