(* ===== verification/LinkedList.thy ===== *)
theory LinkedList
  imports OctoxPrelude
begin

text \<open>
  \<^verbatim>\<open>src/kernel/list.rs\<close>: the doubly linked circular list that threads the free
  blocks of the buddy allocator. A node is an address; the \<^verbatim>\<open>next\<close> and
  \<^verbatim>\<open>prev\<close> fields of all nodes live in one store, since the lists of all block
  sizes share the memory they manage and an operation on one of them must be shown to
  leave the others alone.
\<close>

section \<open>The store and the operations\<close>

record list_store =
  lnext :: "nat \<Rightarrow> nat"
  lprev :: "nat \<Rightarrow> nat"

definition List_init :: "nat \<Rightarrow> list_store \<Rightarrow> list_store" where
  "List_init self h =
     (let h1 = h\<lparr>lprev := (lprev h)(self := self)\<rparr>
      in h1\<lparr>lnext := (lnext h1)(self := self)\<rparr>)"

definition List_is_empty :: "nat \<Rightarrow> list_store \<Rightarrow> bool" where
  "List_is_empty self h \<longleftrightarrow> lnext h self = self"

definition List_remove :: "nat \<Rightarrow> list_store \<Rightarrow> list_store" where
  "List_remove e h =
     (let h1 = h\<lparr>lnext := (lnext h)(lprev h e := lnext h e)\<rparr>
      in h1\<lparr>lprev := (lprev h1)(lnext h1 e := lprev h1 e)\<rparr>)"

definition List_pop :: "nat \<Rightarrow> list_store \<Rightarrow> nat option \<times> list_store" where
  "List_pop self h =
     (if List_is_empty self h then (None, h)
      else let raw_addr = lnext h self
           in (Some raw_addr, List_remove (lnext h self) h))"

definition List_push :: "nat \<Rightarrow> nat \<Rightarrow> list_store \<Rightarrow> list_store" where
  "List_push self raw_addr h =
     (let e = raw_addr;
          h1 = h\<lparr>lprev := (lprev h)(e := self), lnext := (lnext h)(e := lnext h self)\<rparr>;
          h2 = h1\<lparr>lprev := (lprev h1)(lnext h1 self := e)\<rparr>
      in h2\<lparr>lnext := (lnext h2)(self := e)\<rparr>)"

section \<open>Segments and rings\<close>

text \<open>
  \<open>lseg h a xs b\<close>: from node \<open>a\<close> the \<open>next\<close> links run through \<open>xs\<close> to \<open>b\<close>, and the
  \<open>prev\<close> links run back. A list with sentinel \<open>s\<close> and elements \<open>xs\<close> is a segment from
  \<open>s\<close> to itself through distinct nodes.
\<close>

fun lseg :: "list_store \<Rightarrow> nat \<Rightarrow> nat list \<Rightarrow> nat \<Rightarrow> bool" where
  "lseg h a [] b \<longleftrightarrow> lnext h a = b \<and> lprev h b = a"
| "lseg h a (x # xs) b \<longleftrightarrow> lnext h a = x \<and> lprev h x = a \<and> lseg h x xs b"

definition dlist :: "list_store \<Rightarrow> nat \<Rightarrow> nat list \<Rightarrow> bool" where
  "dlist h s xs \<longleftrightarrow> distinct (s # xs) \<and> lseg h s xs s"

lemma lseg_append:
  "lseg h a (xs @ e # ys) b \<longleftrightarrow> lseg h a xs e \<and> lseg h e ys b"
  by (induction xs arbitrary: a) auto

text \<open>A segment reads \<open>next\<close> at its start and inner nodes, \<open>prev\<close> at its inner nodes and end.\<close>

lemma lseg_cong:
  assumes "\<And>y. y \<in> insert a (set xs) \<Longrightarrow> lnext h' y = lnext h y"
    and "\<And>y. y \<in> insert b (set xs) \<Longrightarrow> lprev h' y = lprev h y"
  shows "lseg h' a xs b = lseg h a xs b"
  using assms by (induction xs arbitrary: a) auto

lemma lseg_next_in: "lseg h a xs b \<Longrightarrow> lnext h a \<in> insert b (set xs)"
  by (cases xs) auto

lemma lseg_prev_in: "lseg h a xs b \<Longrightarrow> lprev h b \<in> insert a (set xs)"
  by (induction xs arbitrary: a) auto

lemma dlist_empty_iff: "dlist h s xs \<Longrightarrow> List_is_empty s h \<longleftrightarrow> xs = []"
  by (cases xs) (auto simp: dlist_def List_is_empty_def)

lemma dlist_init: "dlist (List_init s h) s []"
  by (simp add: dlist_def List_init_def)

lemma dlist_push:
  assumes "dlist h s xs" and "e \<notin> insert s (set xs)"
  shows "dlist (List_push s e h) s (e # xs)"
proof (cases xs)
  case Nil
  with assms show ?thesis by (simp add: dlist_def List_push_def)
next
  case (Cons x ys)
  with assms have "lseg (List_push s e h) x ys s = lseg h x ys s"
    by (intro lseg_cong) (auto simp: List_push_def dlist_def)
  with assms Cons show ?thesis by (auto simp: dlist_def List_push_def)
qed

lemma dlist_remove:
  assumes "dlist h s (xs @ e # ys)"
  shows "dlist (List_remove e h) s (xs @ ys)"
proof -
  from assms have d: "distinct (s # xs @ e # ys)" and l: "lseg h s xs e" and r: "lseg h e ys s"
    by (auto simp: dlist_def lseg_append)
  let ?p = "lprev h e" and ?n = "lnext h e"
  have p: "?p \<in> insert s (set xs)" and n: "?n \<in> insert s (set ys)"
    using l r by (auto dest: lseg_prev_in lseg_next_in)
  have "lseg (List_remove e h) s (xs @ ys) s"
  proof (cases xs rule: rev_cases)
    case Nil
    show ?thesis
    proof (cases ys)
      case Nil
      with \<open>xs = []\<close> l r d show ?thesis by (auto simp: List_remove_def)
    next
      case (Cons y zs)
      have "lseg (List_remove e h) y zs s = lseg h y zs s"
        using \<open>xs = []\<close> Cons d l r by (intro lseg_cong) (auto simp: List_remove_def)
      with \<open>xs = []\<close> Cons d l r show ?thesis by (auto simp: List_remove_def)
    qed
  next
    case (snoc ws w)
    have pw: "?p = w" using l snoc by (simp add: lseg_append)
    have left: "lseg (List_remove e h) s ws w = lseg h s ws w"
      using snoc d n pw by (intro lseg_cong) (auto simp: List_remove_def)
    show ?thesis
    proof (cases ys)
      case Nil
      with snoc l r d pw left show ?thesis by (auto simp: List_remove_def lseg_append)
    next
      case (Cons y zs)
      have "lseg (List_remove e h) y zs s = lseg h y zs s"
        using snoc Cons d l r pw by (intro lseg_cong) (auto simp: List_remove_def)
      with snoc Cons l r d pw left show ?thesis
        by (auto simp: List_remove_def lseg_append)
    qed
  qed
  with d show ?thesis by (auto simp: dlist_def)
qed

text \<open>An operation on one ring leaves every ring on other nodes as it is.\<close>

lemma dlist_cong:
  assumes "dlist h s ys" and "\<And>y. y \<in> insert s (set ys) \<Longrightarrow> lnext h' y = lnext h y \<and> lprev h' y = lprev h y"
  shows "dlist h' s ys"
  using assms lseg_cong[of s ys h' h s] by (simp add: dlist_def)

lemma dlist_init_frame:
  "dlist h s' ys \<Longrightarrow> s \<notin> insert s' (set ys) \<Longrightarrow> dlist (List_init s h) s' ys"
  by (erule dlist_cong) (auto simp: List_init_def)

lemma dlist_push_frame:
  assumes "dlist h s xs" and "dlist h s' ys"
    and "insert s (set xs) \<inter> insert s' (set ys) = {}" and "e \<notin> insert s' (set ys)"
  shows "dlist (List_push s e h) s' ys"
proof -
  have "lnext h s \<in> insert s (set xs)"
    using assms(1) by (auto simp: dlist_def dest: lseg_next_in)
  with assms show ?thesis
    by (intro dlist_cong[OF assms(2)]) (auto simp: List_push_def)
qed

lemma dlist_remove_frame:
  assumes "dlist h s xs" and "e \<in> set xs" and "dlist h s' ys"
    and "insert s (set xs) \<inter> insert s' (set ys) = {}"
  shows "dlist (List_remove e h) s' ys"
proof -
  obtain as bs where xs: "xs = as @ e # bs" using assms(2) by (auto dest: split_list)
  have "lprev h e \<in> insert s (set as)" "lnext h e \<in> insert s (set bs)"
    using assms(1) xs by (auto simp: dlist_def lseg_append dest: lseg_prev_in lseg_next_in)
  with assms xs show ?thesis
    by (intro dlist_cong[OF assms(3)]) (auto simp: List_remove_def)
qed

section \<open>The interface of the free lists\<close>

text \<open>
  What the allocator relies on: each operation acts on the sequence of one list and keeps
  the sequences of all lists whose nodes are other nodes. The client's own notion is a
  \<^emph>\<open>family\<close> of lists, one per block size, no two of which share a node.
\<close>

definition list_family ::
  "('h \<Rightarrow> nat \<Rightarrow> nat list \<Rightarrow> bool) \<Rightarrow> 'h \<Rightarrow> (nat \<Rightarrow> nat) \<Rightarrow> nat \<Rightarrow> (nat \<Rightarrow> nat list) \<Rightarrow> bool" where
  "list_family elems h s n F \<longleftrightarrow>
     (\<forall>k<n. elems h (s k) (F k)) \<and>
     (\<forall>j<n. \<forall>k<n. j \<noteq> k \<longrightarrow> insert (s j) (set (F j)) \<inter> insert (s k) (set (F k)) = {})"

lemma list_family_elems: "list_family elems h s n F \<Longrightarrow> k < n \<Longrightarrow> elems h (s k) (F k)"
  by (simp add: list_family_def)

lemma list_family_disjoint:
  "list_family elems h s n F \<Longrightarrow> j < n \<Longrightarrow> k < n \<Longrightarrow> j \<noteq> k \<Longrightarrow>
   insert (s j) (set (F j)) \<inter> insert (s k) (set (F k)) = {}"
  by (simp add: list_family_def)

locale intrusive_list =
  fixes init :: "nat \<Rightarrow> 'h \<Rightarrow> 'h"
    and is_empty :: "nat \<Rightarrow> 'h \<Rightarrow> bool"
    and push :: "nat \<Rightarrow> nat \<Rightarrow> 'h \<Rightarrow> 'h"
    and pop :: "nat \<Rightarrow> 'h \<Rightarrow> nat option \<times> 'h"
    and remove :: "nat \<Rightarrow> 'h \<Rightarrow> 'h"
    and elems :: "'h \<Rightarrow> nat \<Rightarrow> nat list \<Rightarrow> bool"
  assumes distinct_nodes: "elems h s xs \<Longrightarrow> distinct (s # xs)"
    and init_elems: "elems (init s h) s []"
    and is_empty_iff: "elems h s xs \<Longrightarrow> is_empty s h \<longleftrightarrow> xs = []"
    and push_elems: "elems h s xs \<Longrightarrow> e \<notin> insert s (set xs) \<Longrightarrow> elems (push s e h) s (e # xs)"
    and pop_Nil: "elems h s [] \<Longrightarrow> pop s h = (None, h)"
    and pop_Cons: "elems h s (x # xs) \<Longrightarrow> pop s h = (Some x, remove x h)"
    and remove_elems: "elems h s (xs @ e # ys) \<Longrightarrow> elems (remove e h) s (xs @ ys)"
    and init_frame: "elems h s' ys \<Longrightarrow> s \<notin> insert s' (set ys) \<Longrightarrow> elems (init s h) s' ys"
    and push_frame: "elems h s xs \<Longrightarrow> elems h s' ys \<Longrightarrow>
      insert s (set xs) \<inter> insert s' (set ys) = {} \<Longrightarrow> e \<notin> insert s' (set ys) \<Longrightarrow>
      elems (push s e h) s' ys"
    and remove_frame: "elems h s xs \<Longrightarrow> e \<in> set xs \<Longrightarrow> elems h s' ys \<Longrightarrow>
      insert s (set xs) \<inter> insert s' (set ys) = {} \<Longrightarrow> elems (remove e h) s' ys"
begin

lemma family_push:
  assumes fam: "list_family elems h s n F" and k: "k < n"
    and fresh: "\<forall>j<n. e \<notin> insert (s j) (set (F j))"
  shows "list_family elems (push (s k) e h) s n (F(k := e # F k))"
proof -
  have "elems (push (s k) e h) (s j) ((F(k := e # F k)) j)" if "j < n" for j
  proof (cases "j = k")
    case True
    with fam k fresh show ?thesis by (simp add: list_family_def push_elems)
  next
    case False
    have "elems (push (s k) e h) (s j) (F j)"
      using False fresh that
      by (intro push_frame[OF list_family_elems[OF fam k] list_family_elems[OF fam that]
          list_family_disjoint[OF fam k that]]) simp_all
    with False show ?thesis by simp
  qed
  moreover have "insert (s i) (set ((F(k := e # F k)) i)) \<inter> insert (s j) (set ((F(k := e # F k)) j)) = {}"
    if "i < n" "j < n" "i \<noteq> j" for i j
    using list_family_disjoint[OF fam that] fresh that by auto
  ultimately show ?thesis by (simp add: list_family_def)
qed

lemma remove1_elems:
  assumes "elems h s xs" and "e \<in> set xs"
  shows "elems (remove e h) s (remove1 e xs)"
proof -
  from assms(2) obtain as bs where xs: "xs = as @ e # bs" by (auto dest: split_list)
  with distinct_nodes[OF assms(1)] have "remove1 e xs = as @ bs" by (simp add: remove1_append)
  with assms(1) xs show ?thesis by (simp add: remove_elems)
qed

lemma family_remove:
  assumes fam: "list_family elems h s n F" and k: "k < n" and e: "e \<in> set (F k)"
  shows "list_family elems (remove e h) s n (F(k := remove1 e (F k)))"
proof -
  have "elems (remove e h) (s j) ((F(k := remove1 e (F k))) j)" if "j < n" for j
  proof (cases "j = k")
    case True
    with fam k e show ?thesis by (simp add: list_family_def remove1_elems)
  next
    case False
    have "elems (remove e h) (s j) (F j)"
      using False
      by (intro remove_frame[OF list_family_elems[OF fam k] e list_family_elems[OF fam that]
          list_family_disjoint[OF fam k that]]) simp
    with False show ?thesis by simp
  qed
  moreover have "insert (s i) (set ((F(k := remove1 e (F k))) i)) \<inter>
      insert (s j) (set ((F(k := remove1 e (F k))) j)) = {}"
    if "i < n" "j < n" "i \<noteq> j" for i j
    using list_family_disjoint[OF fam that] set_remove1_subset[of e "F k"] by auto
  ultimately show ?thesis by (simp add: list_family_def)
qed

lemma family_pop:
  assumes fam: "list_family elems h s n F" and k: "k < n" and x: "F k = x # xs"
  shows "pop (s k) h = (Some x, remove x h)"
    and "list_family elems (remove x h) s n (F(k := xs))"
proof -
  show "pop (s k) h = (Some x, remove x h)"
    using fam k x by (auto simp: list_family_def intro!: pop_Cons)
  show "list_family elems (remove x h) s n (F(k := xs))"
    using family_remove[OF fam k, of x] x by simp
qed

lemma family_init:
  assumes fam: "list_family elems h s n F"
    and fresh: "\<forall>j<n. s n \<notin> insert (s j) (set (F j))"
  shows "list_family elems (init (s n) h) s (Suc n) (F(n := []))"
proof -
  have "elems (init (s n) h) (s j) ((F(n := [])) j)" if "j < Suc n" for j
  proof (cases "j = n")
    case False
    with that have j: "j < n" by simp
    with fresh False show ?thesis by (simp add: init_frame[OF list_family_elems[OF fam j]])
  qed (simp add: init_elems)
  moreover have "insert (s i) (set ((F(n := [])) i)) \<inter> insert (s j) (set ((F(n := [])) j)) = {}"
    if "i < Suc n" "j < Suc n" "i \<noteq> j" for i j
    using that fresh list_family_disjoint[OF fam, of i j] by (auto simp: less_Suc_eq)
  ultimately show ?thesis by (simp add: list_family_def)
qed

lemma family_is_empty:
  "list_family elems h s n F \<Longrightarrow> k < n \<Longrightarrow> is_empty (s k) h \<longleftrightarrow> F k = []"
  by (auto simp: list_family_def is_empty_iff)

end

interpretation kl: intrusive_list List_init List_is_empty List_push List_pop List_remove dlist
proof (unfold_locales, goal_cases)
  case 1 then show ?case by (simp add: dlist_def)
next
  case 2 show ?case by (rule dlist_init)
next
  case 3 then show ?case by (rule dlist_empty_iff)
next
  case 4 then show ?case by (rule dlist_push)
next
  case (5 h s) then show ?case by (simp add: List_pop_def dlist_empty_iff)
next
  case (6 h s x xs) then show ?case
    by (simp add: List_pop_def dlist_empty_iff Let_def) (simp add: dlist_def)
next
  case 7 then show ?case by (rule dlist_remove)
next
  case 8 then show ?case by (rule dlist_init_frame)
next
  case 9 then show ?case by (rule dlist_push_frame)
next
  case 10 then show ?case by (rule dlist_remove_frame)
qed

end
