(* ===== verification/BuddySpec.thy ===== *)
theory BuddySpec
  imports OctoxPrelude
begin

text \<open>
  The abstract buddy system behind \<^verbatim>\<open>src/kernel/buddy.rs\<close>: blocks of size class
  \<open>k\<close> numbered \<open>i\<close>, an \<open>allocated\<close> bit \<open>A k i\<close> and a \<open>split\<close> bit \<open>S k i\<close> per block, and
  the set \<open>F k\<close> of the blocks on the free list of size \<open>k\<close>. The invariant says which
  combinations of bits are legal, the four steps (take, split, merge, release) are what one
  iteration of the code's loops does to the bits, and the blocks in use are the allocated
  blocks that are not split.
\<close>

section \<open>Bits and the invariant\<close>

type_synonym bits = "nat \<Rightarrow> nat \<Rightarrow> bool"

definition setbit :: "bits \<Rightarrow> nat \<Rightarrow> nat \<Rightarrow> bool \<Rightarrow> bits" where
  "setbit B k i v = B(k := (B k)(i := v))"

lemma setbit_apply [simp]: "setbit B k i v k' i' = (if k' = k \<and> i' = i then v else B k' i')"
  by (simp add: setbit_def)

definition buddy_of :: "nat \<Rightarrow> nat" where
  "buddy_of i = (if i mod 2 = 0 then i + 1 else i - 1)"

text \<open>A block exists at size \<open>k\<close> when its parent is split (the whole memory always exists).\<close>

definition present :: "nat \<Rightarrow> bits \<Rightarrow> nat \<Rightarrow> nat \<Rightarrow> bool" where
  "present m S k i \<longleftrightarrow> k \<le> m \<and> i < 2 ^ (m - k) \<and> (k = m \<or> S (Suc k) (i div 2))"

definition binv :: "nat \<Rightarrow> bits \<Rightarrow> bits \<Rightarrow> (nat \<Rightarrow> nat set) \<Rightarrow> bool" where
  "binv m A S F \<longleftrightarrow>
     (\<forall>k i. S k i \<longrightarrow> 0 < k \<and> A k i) \<and>
     (\<forall>k i. A k i \<longrightarrow> present m S k i) \<and>
     (\<forall>k i. S (Suc k) i \<longrightarrow> A k (2 * i) \<or> A k (2 * i + 1)) \<and>
     (\<forall>k. F k = {i. present m S k i \<and> \<not> A k i})"

definition in_use :: "bits \<Rightarrow> bits \<Rightarrow> (nat \<times> nat) set" where
  "in_use A S = {(k, i). A k i \<and> \<not> S k i}"

text \<open>The smallest blocks a block covers.\<close>

definition cells :: "nat \<Rightarrow> nat \<Rightarrow> nat set" where
  "cells k i = {i * 2 ^ k ..< (i + 1) * 2 ^ k}"

lemma cells_iff: "x \<in> cells k i \<longleftrightarrow> x div 2 ^ k = i"
proof -
  have "x div 2 ^ k = i \<longleftrightarrow> i * 2 ^ k \<le> x \<and> x < (i + 1) * 2 ^ k"
    by (metis div_nat_eqI dividend_less_times_div mult.commute times_div_less_eq_dividend
        add.commute plus_1_eq_Suc mult_Suc_right less_add_eq_less zero_less_numeral zero_less_power
        dividend_less_div_times)
  then show ?thesis by (auto simp: cells_def)
qed

lemma div_pow_add: "x div 2 ^ (k + d) = x div 2 ^ k div (2::nat) ^ d"
  by (simp add: power_add div_mult2_eq)

lemma div_pow_Suc: "x div 2 ^ Suc k = x div 2 ^ k div (2::nat)"
  using div_pow_add[of x k 1] by simp

lemma buddy_of_facts:
  "buddy_of i div 2 = i div 2" "buddy_of i \<noteq> i" "buddy_of (buddy_of i) = i"
  by (auto simp: buddy_of_def) presburger+

lemma half_cases: "i div 2 = (j::nat) \<Longrightarrow> i = 2 * j \<or> i = 2 * j + 1"
  by presburger

lemma buddy_of_double [simp]: "buddy_of (2 * i) = 2 * i + 1" "buddy_of (Suc (2 * i)) = 2 * i"
  by (auto simp: buddy_of_def)

lemma same_half: "j div 2 = i div 2 \<Longrightarrow> j = i \<or> j = buddy_of i"
  by (auto simp: buddy_of_def) presburger+

lemma half_bound: "k < m \<Longrightarrow> i < 2 ^ (m - k) \<longleftrightarrow> i div 2 < (2::nat) ^ (m - Suc k)"
  by (metis Suc_diff_Suc less_mult_imp_div_less div_less_iff_less_mult mult.commute power_Suc
      zero_less_numeral)

lemma buddy_bound: "k < m \<Longrightarrow> i < 2 ^ (m - k) \<Longrightarrow> buddy_of i < 2 ^ (m - k)"
  by (simp add: half_bound buddy_of_facts)

section \<open>What the invariant gives\<close>

lemma binv_S: "binv m A S F \<Longrightarrow> S k i \<Longrightarrow> 0 < k \<and> A k i"
  and binv_A: "binv m A S F \<Longrightarrow> A k i \<Longrightarrow> present m S k i"
  and binv_pair: "binv m A S F \<Longrightarrow> S (Suc k) i \<Longrightarrow> A k (2 * i) \<or> A k (2 * i + 1)"
  and binv_F: "binv m A S F \<Longrightarrow> F k = {i. present m S k i \<and> \<not> A k i}"
  by (simp_all add: binv_def)

lemma presentD: "present m S k i \<Longrightarrow> k \<le> m" "present m S k i \<Longrightarrow> i < 2 ^ (m - k)"
  by (simp_all add: present_def)

text \<open>Every proper ancestor of a block that exists is split.\<close>

lemma ancestors_split:
  assumes inv: "binv m A S F" and p: "present m S k i" and d: "0 < d" "k + d \<le> m"
  shows "S (k + d) (i div 2 ^ d)"
  using d
proof (induction d)
  case 0
  then show ?case by simp
next
  case (Suc d)
  have "present m S (k + d) (i div 2 ^ d)"
  proof (cases "d = 0")
    case True
    with p show ?thesis by simp
  next
    case False
    with Suc inv show ?thesis by (auto dest: binv_S binv_A)
  qed
  with Suc.prems show ?case by (simp add: present_def div_pow_add[of _ d 1, simplified])
qed

lemma unsplit_disjoint_le:
  assumes inv: "binv m A S F" and p: "present m S k i" and q: "present m S k' i'"
    and "\<not> S k' i'" and "k \<le> k'" and x: "x \<in> cells k i" "x \<in> cells k' i'"
  shows "k = k' \<and> i = i'"
proof (cases "k = k'")
  case True
  with x show ?thesis by (simp add: cells_iff)
next
  case False
  define d where "d = k' - k"
  from False \<open>k \<le> k'\<close> have d: "0 < d" "k' = k + d" by (simp_all add: d_def)
  have "i' = i div 2 ^ d" using x d by (auto simp: cells_iff div_pow_add)
  with ancestors_split[OF inv p d(1)] d q \<open>\<not> S k' i'\<close> show ?thesis
    by (auto dest: presentD)
qed

theorem unsplit_disjoint:
  assumes "binv m A S F" and "present m S k i" and "present m S k' i'"
    and "\<not> S k i" and "\<not> S k' i'" and "(k, i) \<noteq> (k', i')"
  shows "cells k i \<inter> cells k' i' = {}"
  using assms unsplit_disjoint_le[of m A S F k i k' i'] unsplit_disjoint_le[of m A S F k' i' k i]
  by (cases "k \<le> k'") auto

lemma in_use_present: "binv m A S F \<Longrightarrow> (k, i) \<in> in_use A S \<Longrightarrow> present m S k i"
  by (auto simp: in_use_def dest: binv_A)

lemma free_present: "binv m A S F \<Longrightarrow> i \<in> F k \<Longrightarrow> present m S k i \<and> \<not> A k i \<and> \<not> S k i"
  by (auto simp: binv_F dest: binv_S)

text \<open>No memory is lost: every smallest block lies in a block in use or on a free list.\<close>

theorem cells_covered:
  assumes inv: "binv m A S F" and x: "x < 2 ^ m"
  shows "\<exists>k i. x \<in> cells k i \<and> ((k, i) \<in> in_use A S \<or> i \<in> F k)"
proof -
  have ex: "present m S m (x div 2 ^ m)" using x by (simp add: present_def)
  define k where "k = (LEAST k. present m S k (x div 2 ^ k))"
  have p: "present m S k (x div 2 ^ k)" unfolding k_def by (rule LeastI, rule ex)
  have "\<not> S k (x div 2 ^ k)"
  proof
    assume s: "S k (x div 2 ^ k)"
    with inv have "0 < k" by (auto dest: binv_S)
    then obtain j where j: "k = Suc j" by (cases k) auto
    have "present m S j (x div 2 ^ j)"
      using s j p unfolding j div_pow_Suc by (auto simp: present_def half_bound)
    with j have "k \<le> j" unfolding k_def by (intro Least_le)
    with j show False by simp
  qed
  with p inv show ?thesis by (auto simp: cells_iff in_use_def binv_F)
qed

text \<open>An allocated block holds a block in use, possibly itself.\<close>

lemma allocated_has_used:
  assumes inv: "binv m A S F" and a: "A k i"
  shows "\<exists>k' i'. (k', i') \<in> in_use A S \<and> cells k' i' \<subseteq> cells k i"
  using a
proof (induction k arbitrary: i)
  case 0
  with inv have "(0, i) \<in> in_use A S" by (auto simp: in_use_def dest: binv_S)
  then show ?case by blast
next
  case (Suc k)
  show ?case
  proof (cases "S (Suc k) i")
    case False
    with Suc have "(Suc k, i) \<in> in_use A S" by (simp add: in_use_def)
    then show ?thesis by blast
  next
    case True
    then obtain j where j: "A k j" "j div 2 = i" using binv_pair[OF inv True] by auto
    have "cells k j \<subseteq> cells (Suc k) i" using j(2)
      by (auto simp: cells_iff div_pow_Suc simp del: power_Suc)
    with Suc.IH[OF j(1)] show ?thesis by blast
  qed
qed

text \<open>A block none of whose memory is in use lies in a free block at least as big.\<close>

lemma unused_in_free:
  assumes inv: "binv m A S F" and k: "k \<le> m" and i: "i < 2 ^ (m - k)"
    and unused: "\<forall>(k', i')\<in>in_use A S. cells k' i' \<inter> cells k i = {}"
  shows "\<exists>k'\<ge>k. k' \<le> m \<and> F k' \<noteq> {}"
proof -
  let ?P = "\<lambda>d. k + d \<le> m \<and> present m S (k + d) (i div 2 ^ d)"
  have ib: "i div 2 ^ d < 2 ^ (m - (k + d))" if "k + d \<le> m" for d
    using i that by (simp add: less_mult_imp_div_less flip: power_add)
  have ex: "?P (m - k)" using k ib[of "m - k"] by (simp add: present_def)
  define d where "d = (LEAST d. ?P d)"
  have p: "?P d" unfolding d_def by (rule LeastI, rule ex)
  have sub: "cells k i \<subseteq> cells (k + d) (i div 2 ^ d)" by (auto simp: cells_iff div_pow_add)
  have ne: "i * 2 ^ k \<in> cells k i" by (simp add: cells_iff)
  have "\<not> A (k + d) (i div 2 ^ d)"
  proof
    assume a: "A (k + d) (i div 2 ^ d)"
    show False
    proof (cases d)
      case 0
      with a have "A k i" by simp
      from allocated_has_used[OF inv this] obtain k' i'
        where u: "(k', i') \<in> in_use A S" "cells k' i' \<subseteq> cells k i" by blast
      moreover have "i' * 2 ^ k' \<in> cells k' i'" by (simp add: cells_iff)
      ultimately show False using unused by blast
    next
      case (Suc e)
      have "\<not> ?P e" using Suc not_less_Least[of e ?P] by (simp add: d_def)
      with p Suc ib[of e] have "\<not> S (k + d) (i div 2 ^ d)"
        using div_pow_Suc[of i e] by (auto simp: present_def)
      with a have "(k + d, i div 2 ^ d) \<in> in_use A S" by (simp add: in_use_def)
      with unused sub ne show False by blast
    qed
  qed
  with p inv have "i div 2 ^ d \<in> F (k + d)" by (auto simp: binv_F)
  with p show ?thesis by (intro exI[of _ "k + d"]) auto
qed

text \<open>Inside a block that is not split no smaller block is split.\<close>

lemma unsplit_below:
  assumes inv: "binv m A S F" and p: "present m S k i" and s: "\<not> S k i" and "j \<le> k"
    and x: "x \<in> cells k i"
  shows "\<not> S j (x div 2 ^ j)"
proof
  assume sj: "S j (x div 2 ^ j)"
  then have pj: "present m S j (x div 2 ^ j)" using inv by (blast dest: binv_S binv_A)
  define d where "d = k - j"
  have d: "k = j + d" using \<open>j \<le> k\<close> by (simp add: d_def)
  have "x div 2 ^ j div 2 ^ d = i" using x d by (simp add: cells_iff div_pow_add)
  then show False
    using ancestors_split[OF inv pj, of d] d s sj p by (cases "d = 0") (auto dest: presentD)
qed

section \<open>The steps\<close>

lemma present_same: "(\<And>j. S' (Suc k) j = S (Suc k) j) \<Longrightarrow> present m S' k i = present m S k i"
  by (simp add: present_def)

lemma take_step:
  assumes "binv m A S F" and "i \<in> F k"
  shows "binv m (setbit A k i True) S (F(k := F k - {i}))"
  using assms unfolding binv_def by auto

lemma take_in_use:
  assumes "binv m A S F" and "i \<in> F k"
  shows "in_use (setbit A k i True) S = insert (k, i) (in_use A S)"
  using free_present[OF assms] by (auto simp: in_use_def)

lemma release_step:
  assumes inv: "binv m A S F" and use: "(k, i) \<in> in_use A S" and k: "k < m"
    and b: "A k (buddy_of i)"
  shows "binv m (setbit A k i False) S (F(k := insert i (F k)))"
proof -
  from use have a: "A k i" "\<not> S k i" by (auto simp: in_use_def)
  have "setbit A k i False k' (2 * i') \<or> setbit A k i False k' (2 * i' + 1)" if "S (Suc k') i'" for k' i'
    using binv_pair[OF inv that] b buddy_of_facts[of i] by auto
  moreover have "0 < k' \<and> setbit A k i False k' i'" if "S k' i'" for k' i'
    using binv_S[OF inv that] that a by auto
  ultimately show ?thesis
    using inv a unfolding binv_def by auto
qed

lemma release_in_use:
  "in_use (setbit A k i False) S = in_use A S - {(k, i)}"
  by (auto simp: in_use_def)

lemma split_step:
  assumes inv: "binv m A S F" and use: "(Suc k, i) \<in> in_use A S"
  shows "binv m (setbit A k (2 * i) True) (setbit S (Suc k) i True)
           (F(k := insert (2 * i + 1) (F k)))"
proof -
  let ?A = "setbit A k (2 * i) True" and ?S = "setbit S (Suc k) i True"
  from use have a: "A (Suc k) i" "\<not> S (Suc k) i" by (auto simp: in_use_def)
  have pr: "present m S (Suc k) i" using inv a by (blast dest: binv_A)
  then have km: "k < m" and ib: "i < 2 ^ (m - Suc k)" by (auto simp: present_def)
  have none: "\<not> A k (2 * i)" "\<not> A k (2 * i + 1)"
    using a km by (auto dest!: binv_A[OF inv] simp: present_def)
  have pres: "present m ?S k' i' \<longleftrightarrow> present m S k' i' \<or> k' = k \<and> i' div 2 = i" for k' i'
    using km ib by (auto simp: present_def half_bound)
  have 1: "\<forall>k' i'. ?S k' i' \<longrightarrow> 0 < k' \<and> ?A k' i'"
    using a by (auto dest: binv_S[OF inv])
  have 2: "\<forall>k' i'. ?A k' i' \<longrightarrow> present m ?S k' i'"
    unfolding pres using binv_A[OF inv] by auto
  have 3: "\<forall>k' i'. ?S (Suc k') i' \<longrightarrow> ?A k' (2 * i') \<or> ?A k' (2 * i' + 1)"
    using binv_pair[OF inv] by auto
  have "F k = {j. present m S k j \<and> \<not> A k j}" using inv by (rule binv_F)
  then have 4: "\<forall>k'. (F(k := insert (2 * i + 1) (F k))) k' = {j. present m ?S k' j \<and> \<not> ?A k' j}"
    unfolding pres using none a km binv_F[OF inv] by (auto simp: present_def dest!: half_cases)
  from 1 2 3 4 show ?thesis unfolding binv_def by blast
qed

lemma split_in_use:
  assumes inv: "binv m A S F" and use: "(Suc k, i) \<in> in_use A S"
  shows "in_use (setbit A k (2 * i) True) (setbit S (Suc k) i True)
     = insert (k, 2 * i) (in_use A S - {(Suc k, i)})"
proof -
  have "\<not> S k (2 * i)"
    using use by (auto simp: in_use_def present_def dest!: binv_S[OF inv] binv_A[OF inv])
  then show ?thesis by (auto simp: in_use_def)
qed

lemma merge_step:
  assumes inv: "binv m A S F" and use: "(k, i) \<in> in_use A S" and k: "k < m"
    and b: "\<not> A k (buddy_of i)"
  shows "buddy_of i \<in> F k"
    and "binv m (setbit A k i False) (setbit S (Suc k) (i div 2) False) (F(k := F k - {buddy_of i}))"
proof -
  let ?A = "setbit A k i False" and ?S = "setbit S (Suc k) (i div 2) False"
  from use have a: "A k i" "\<not> S k i" by (auto simp: in_use_def)
  have pr: "present m S k i" using inv a by (blast dest: binv_A)
  then have s: "S (Suc k) (i div 2)" and ib: "i < 2 ^ (m - k)" using k by (auto simp: present_def)
  show bF: "buddy_of i \<in> F k"
    using binv_F[OF inv, of k] b s k ib by (simp add: present_def buddy_of_facts buddy_bound)
  have pres: "present m ?S k' i' \<longleftrightarrow> present m S k' i' \<and> \<not> (k' = k \<and> i' div 2 = i div 2)" for k' i'
    using k by (auto simp: present_def)
  have only: "\<not> A k j" if "j div 2 = i div 2" "j \<noteq> i" for j
    using that b by (auto dest: same_half)
  have 1: "\<forall>k' i'. ?S k' i' \<longrightarrow> 0 < k' \<and> ?A k' i'"
    using a by (auto dest: binv_S[OF inv])
  have 2: "\<forall>k' i'. ?A k' i' \<longrightarrow> present m ?S k' i'"
    unfolding pres using binv_A[OF inv] only by auto
  have 3: "\<forall>k' i'. ?S (Suc k') i' \<longrightarrow> ?A k' (2 * i') \<or> ?A k' (2 * i' + 1)"
  proof (intro allI impI)
    fix k' i' assume "?S (Suc k') i'"
    then have "S (Suc k') i'" and "k' = k \<Longrightarrow> i' \<noteq> i div 2" by (auto split: if_splits)
    with binv_pair[OF inv, of k' i'] show "?A k' (2 * i') \<or> ?A k' (2 * i' + 1)" by auto
  qed
  have 4: "\<forall>k'. (F(k := F k - {buddy_of i})) k' = {j. present m ?S k' j \<and> \<not> ?A k' j}"
    unfolding pres using binv_F[OF inv] a by (auto dest: same_half simp: buddy_of_facts)
  from 1 2 3 4 show "binv m ?A ?S (F(k := F k - {buddy_of i}))" unfolding binv_def by blast
qed

lemma merge_in_use:
  assumes inv: "binv m A S F" and use: "(k, i) \<in> in_use A S" and k: "k < m"
    and b: "\<not> A k (buddy_of i)"
  shows "in_use (setbit A k i False) (setbit S (Suc k) (i div 2) False)
    = insert (Suc k, i div 2) (in_use A S - {(k, i)})"
proof -
  have "S (Suc k) (i div 2)" "A (Suc k) (i div 2)"
    using use k by (auto simp: in_use_def present_def dest!: binv_A[OF inv] dest: binv_S[OF inv])
  then show ?thesis by (auto simp: in_use_def)
qed

end
