(* ===== verification/Buddy.thy ===== *)
theory Buddy
  imports LinkedList BuddySpec
begin

text \<open>
  \<^verbatim>\<open>src/kernel/buddy.rs\<close> and \<^verbatim>\<open>src/kernel/kalloc.rs\<close>: the buddy
  allocator as the code has it. The \<^verbatim>\<open>sizes\<close> array, the bitmaps inside it (bytes,
  one bit per block) and the free lists (links in the list store) are explicit. Addresses
  and counts are natural numbers: they stay below the end of physical memory, so only
  subtraction, array accesses and \<^verbatim>\<open>next_power_of_two\<close> can overflow, and these are
  checked. Printing is left out.
\<close>

section \<open>State\<close>

record szinfo =
  sz_free :: nat \<comment> \<open>address of the list head\<close>
  sz_alloc :: "u8 list option"
  sz_split :: "u8 list option"

record buddy =
  bd_initialized :: bool
  bd_base :: nat
  bd_end :: nat
  bd_nsize :: nat
  bd_sizes :: "szinfo list option"

record layout =
  ly_size :: nat
  ly_align :: nat

definition LEAF_SIZE :: nat where "LEAF_SIZE = 16"

definition MAX_ALIGN :: nat where "MAX_ALIGN = 4096"

definition SZINFO_BYTES :: nat where "SZINFO_BYTES = 48"

definition Buddy_new :: buddy where
  "Buddy_new = \<lparr>bd_initialized = False, bd_base = 0, bd_end = 0, bd_nsize = 0, bd_sizes = None\<rparr>"

section \<open>Arithmetic\<close>

definition round_up :: "nat \<Rightarrow> nat \<Rightarrow> nat rust" where
  "round_up n sz = rbind (usub n 1) (\<lambda>d. Inr ((d div sz + 1) * sz))"

definition round_down :: "nat \<Rightarrow> nat \<Rightarrow> nat" where
  "round_down n sz = (n div sz) * sz"

fun log2_loop :: "nat \<Rightarrow> nat \<Rightarrow> nat" where
  "log2_loop n k = (if n > 1 then log2_loop (n div 2) (k + 1) else k)"

declare log2_loop.simps [simp del]

definition log2 :: "nat \<Rightarrow> nat" where
  "log2 n = log2_loop n 0"

definition max_size :: "buddy \<Rightarrow> nat rust" where
  "max_size b = usub (bd_nsize b) 1"

definition blk_size :: "nat \<Rightarrow> nat" where
  "blk_size k = 2 ^ k * LEAF_SIZE"

definition nblk :: "buddy \<Rightarrow> nat \<Rightarrow> nat rust" where
  "nblk b k = rbind (max_size b) (\<lambda>m. rbind (usub m k) (\<lambda>d. Inr (2 ^ d)))"

text \<open>\<^verbatim>\<open>usize::next_power_of_two\<close> and \<^verbatim>\<open>usize::trailing_zeros\<close>.\<close>

function next_pow2_from :: "nat \<Rightarrow> nat \<Rightarrow> nat" where
  "next_pow2_from p n = (if p < n \<and> 0 < p then next_pow2_from (2 * p) n else p)"
  by pat_completeness auto
termination
  by (relation "measure (\<lambda>(p, n). n - p)") auto

declare next_pow2_from.simps [simp del]

definition next_power_of_two :: "nat \<Rightarrow> nat rust" where
  "next_power_of_two n = (if n \<le> 2 ^ 63 then Inr (next_pow2_from 1 n) else Inl Overflow)"

fun trailing_zeros :: "nat \<Rightarrow> nat" where
  "trailing_zeros n = (if n = 0 then 64 else if odd n then 0 else Suc (trailing_zeros (n div 2)))"

declare trailing_zeros.simps [simp del]

definition firstk :: "nat \<Rightarrow> nat rust" where
  "firstk n = rbind (next_power_of_two n) (\<lambda>p. Inr (trailing_zeros (p div LEAF_SIZE)))"

definition blk_index :: "buddy \<Rightarrow> nat \<Rightarrow> nat \<Rightarrow> nat rust" where
  "blk_index b k p = rbind (usub p (bd_base b)) (\<lambda>d. Inr (d div blk_size k))"

definition addr :: "buddy \<Rightarrow> nat \<Rightarrow> nat \<Rightarrow> nat" where
  "addr b k bi = bd_base b + bi * blk_size k"

definition blk_index_next :: "buddy \<Rightarrow> nat \<Rightarrow> nat \<Rightarrow> nat rust" where
  "blk_index_next b k p =
     rbind (usub p (bd_base b))
       (\<lambda>d. let n = d div blk_size k
            in Inr (if d mod blk_size k \<noteq> 0 then n + 1 else n))"

section \<open>Bitmaps\<close>

definition bit_set :: "u8 list option \<Rightarrow> nat \<Rightarrow> bool \<Rightarrow> u8 list option rust" where
  "bit_set array i set_or_clear =
     (case array of
        None \<Rightarrow> Inr None
      | Some a \<Rightarrow>
          (let m = push_bit (i mod 8) 1
           in if i div 8 < length a
              then Inr (Some (a[i div 8 :=
                     (if set_or_clear then a ! (i div 8) OR m else a ! (i div 8) AND NOT m)]))
              else Inl Unreachable))"

definition bit_isset :: "u8 list option \<Rightarrow> nat \<Rightarrow> bool" where
  "bit_isset array i =
     (case array of
        None \<Rightarrow> False
      | Some a \<Rightarrow>
          (let m = push_bit (i mod 8) 1
           in if i div 8 < length a then a ! (i div 8) AND m = m else False))"

text \<open>\<^verbatim>\<open>sizes[k].alloc.bit_set(bi, v)\<close> and its like for \<^verbatim>\<open>split\<close>.\<close>

definition alloc_bit_set :: "szinfo list \<Rightarrow> nat \<Rightarrow> nat \<Rightarrow> bool \<Rightarrow> szinfo list rust" where
  "alloc_bit_set ss k bi v =
     rbind (index ss k) (\<lambda>s. rbind (bit_set (sz_alloc s) bi v) (\<lambda>a. Inr (ss[k := s\<lparr>sz_alloc := a\<rparr>])))"

definition split_bit_set :: "szinfo list \<Rightarrow> nat \<Rightarrow> nat \<Rightarrow> bool \<Rightarrow> szinfo list rust" where
  "split_bit_set ss k bi v =
     rbind (index ss k) (\<lambda>s. rbind (bit_set (sz_split s) bi v) (\<lambda>a. Inr (ss[k := s\<lparr>sz_split := a\<rparr>])))"

section \<open>Allocation\<close>

text \<open>The scan for the first size, from \<open>fk\<close> on, with a free block.\<close>

fun find_free :: "szinfo list \<Rightarrow> list_store \<Rightarrow> nat \<Rightarrow> nat" where
  "find_free [] h k = k"
| "find_free (szinfo # rest) h k =
     (if \<not> List_is_empty (sz_free szinfo) h then k else find_free rest h (k + 1))"

text \<open>The loop that splits the block at \<open>p\<close> from size \<open>k\<close> down to \<open>fk\<close>.\<close>

fun split_loop ::
  "buddy \<Rightarrow> nat \<Rightarrow> nat \<Rightarrow> nat \<Rightarrow> szinfo list \<Rightarrow> list_store \<Rightarrow> (szinfo list \<times> list_store) rust" where
  "split_loop b fk p 0 ss h = Inr (ss, h)"
| "split_loop b fk p (Suc j) ss h =
     (if Suc j > fk then
        let q = p + blk_size j
        in rbind (blk_index b (Suc j) p) (\<lambda>bi.
           rbind (split_bit_set ss (Suc j) bi True) (\<lambda>ss1.
           rbind (blk_index b j p) (\<lambda>bj.
           rbind (alloc_bit_set ss1 j bj True) (\<lambda>ss2.
           rbind (index ss2 j) (\<lambda>s.
           split_loop b fk p j ss2 (List_push (sz_free s) q h))))))
      else Inr (ss, h))"

definition Buddy_alloc ::
  "buddy \<Rightarrow> list_store \<Rightarrow> layout \<Rightarrow> (nat option \<times> buddy \<times> list_store) rust" where
  "Buddy_alloc b h l =
     (case bd_sizes b of
        None \<Rightarrow> Inr (None, b, h)
      | Some ss \<Rightarrow>
          if ly_align l > MAX_ALIGN then Inr (None, b, h)
          else rbind (firstk (ly_size l)) (\<lambda>fk.
            if fk > bd_nsize b \<or> bd_nsize b > length ss then Inl OutOfBounds
            else let k = find_free (drop fk (take (bd_nsize b) ss)) h fk
            in if k \<ge> bd_nsize b then Inr (None, b, h)
            else rbind (index ss k) (\<lambda>sk.
              case List_pop (sz_free sk) h of
                (None, h1) \<Rightarrow> Inr (None, b, h1)
              | (Some p, h1) \<Rightarrow>
                  rbind (blk_index b k p) (\<lambda>bi.
                  rbind (alloc_bit_set ss k bi True) (\<lambda>ss1.
                  rbind (split_loop b fk p k ss1 h1) (\<lambda>(ss2, h2).
                  Inr (if p = 0 then None else Some p, b\<lparr>bd_sizes := Some ss2\<rparr>, h2)))))))"

section \<open>Deallocation\<close>

fun size_loop :: "buddy \<Rightarrow> nat \<Rightarrow> szinfo list \<Rightarrow> nat \<Rightarrow> nat rust" where
  "size_loop b k [] p = Inr 0"
| "size_loop b k (szinfo1 # rest) p =
     rbind (blk_index b (k + 1) p) (\<lambda>bi.
       if bit_isset (sz_split szinfo1) bi then Inr k else size_loop b (k + 1) rest p)"

definition Buddy_size :: "buddy \<Rightarrow> nat \<Rightarrow> nat rust" where
  "Buddy_size b p =
     (case bd_sizes b of None \<Rightarrow> Inr 0 | Some ss \<Rightarrow> size_loop b 0 (drop 1 ss) p)"

text \<open>
  One pass over \<^verbatim>\<open>k in size(p)..max_size()\<close>; the first argument is the number of
  sizes left. The result is the block to put on a free list and its size.
\<close>

fun merge_loop ::
  "nat \<Rightarrow> buddy \<Rightarrow> nat \<Rightarrow> nat \<Rightarrow> nat \<Rightarrow> szinfo list \<Rightarrow> list_store \<Rightarrow>
   (nat \<times> nat \<times> szinfo list \<times> list_store) rust" where
  "merge_loop 0 b k p fk ss h = Inr (p, fk, ss, h)"
| "merge_loop (Suc n) b k p fk ss h =
     rbind (blk_index b k p) (\<lambda>bi.
     let buddy = (if bi mod 2 = 0 then bi + 1 else bi - 1)
     in rbind (alloc_bit_set ss k bi False) (\<lambda>ss1.
        rbind (index ss1 k) (\<lambda>s.
        if bit_isset (sz_alloc s) buddy then Inr (p, fk, ss1, h)
        else
          let q = addr b k buddy;
              h1 = List_remove q h;
              p1 = (if buddy mod 2 = 0 then q else p)
          in rbind (blk_index b (k + 1) p1) (\<lambda>bj.
             rbind (split_bit_set ss1 (k + 1) bj False) (\<lambda>ss2.
             merge_loop n b (k + 1) p1 (fk + 1) ss2 h1)))))"

definition Buddy_dealloc ::
  "buddy \<Rightarrow> list_store \<Rightarrow> nat \<Rightarrow> (buddy \<times> list_store) rust" where
  "Buddy_dealloc b h p0 =
     rbind (Buddy_size b p0) (\<lambda>fk0.
     case bd_sizes b of
       None \<Rightarrow> Inr (b, h)
     | Some ss \<Rightarrow>
         rbind (Buddy_size b p0) (\<lambda>k0.
         rbind (max_size b) (\<lambda>m.
         rbind (merge_loop (m - k0) b k0 p0 fk0 ss h) (\<lambda>(p, fk, ss1, h1).
         rbind (index ss1 fk) (\<lambda>s.
         Inr (b\<lparr>bd_sizes := Some ss1\<rparr>, List_push (sz_free s) p h1))))))"

section \<open>Initialisation\<close>

text \<open>Mark the blocks \<open>bi ..< bj\<close> of one size; the first argument counts them.\<close>

fun mark_blocks :: "nat \<Rightarrow> nat \<Rightarrow> nat \<Rightarrow> szinfo \<Rightarrow> szinfo rust" where
  "mark_blocks 0 k bi s = Inr s"
| "mark_blocks (Suc n) k bi s =
     rbind (if k > 0 then bit_set (sz_split s) bi True else Inr (sz_split s)) (\<lambda>sp.
     rbind (bit_set (sz_alloc s) bi True) (\<lambda>al.
     mark_blocks n k (bi + 1) (s\<lparr>sz_split := sp, sz_alloc := al\<rparr>)))"

fun mark_sizes :: "buddy \<Rightarrow> nat \<Rightarrow> szinfo list \<Rightarrow> nat \<Rightarrow> nat \<Rightarrow> szinfo list rust" where
  "mark_sizes b k [] start stop = Inr []"
| "mark_sizes b k (s # rest) start stop =
     rbind (blk_index b k start) (\<lambda>bi.
     rbind (blk_index_next b k stop) (\<lambda>bj.
     rbind (mark_blocks (bj - bi) k bi s) (\<lambda>s1.
     rbind (mark_sizes b (k + 1) rest start stop) (\<lambda>rest1.
     Inr (s1 # rest1)))))"

definition mark :: "buddy \<Rightarrow> nat \<Rightarrow> nat \<Rightarrow> buddy rust" where
  "mark b start stop =
     rbind (rassert (start mod LEAF_SIZE = 0) ''assert_eq'') (\<lambda>_.
     rbind (rassert (stop mod LEAF_SIZE = 0) ''assert_eq'') (\<lambda>_.
     rbind (unwrap (bd_sizes b)) (\<lambda>ss.
     rbind (mark_sizes b 0 ss start stop) (\<lambda>ss1.
     Inr (b\<lparr>bd_sizes := Some ss1\<rparr>)))))"

definition initfree_pair :: "buddy \<Rightarrow> list_store \<Rightarrow> nat \<Rightarrow> nat \<Rightarrow> (nat \<times> list_store) rust" where
  "initfree_pair b h k bi =
     (let buddy = (if bi mod 2 = 0 then bi + 1 else bi - 1)
      in case bd_sizes b of
           None \<Rightarrow> Inr (0, h)
         | Some ss \<Rightarrow>
             rbind (index ss k) (\<lambda>s.
             if bit_isset (sz_alloc s) bi \<noteq> bit_isset (sz_alloc s) buddy then
               if bit_isset (sz_alloc s) bi
               then Inr (blk_size k, List_push (sz_free s) (addr b k buddy) h)
               else Inr (blk_size k, List_push (sz_free s) (addr b k bi) h)
             else Inr (0, h)))"

text \<open>The loop \<^verbatim>\<open>for k in 0..max_size()\<close>; the first argument counts the sizes left.\<close>

fun initfree_loop ::
  "nat \<Rightarrow> buddy \<Rightarrow> list_store \<Rightarrow> nat \<Rightarrow> nat \<Rightarrow> nat \<Rightarrow> nat \<Rightarrow> (nat \<times> list_store) rust" where
  "initfree_loop 0 b h k bd_left bd_right free = Inr (free, h)"
| "initfree_loop (Suc n) b h k bd_left bd_right free =
     rbind (blk_index_next b k bd_left) (\<lambda>left.
     rbind (blk_index b k bd_right) (\<lambda>right.
     rbind (initfree_pair b h k left) (\<lambda>(f1, h1).
     rbind (if left < right then initfree_pair b h1 k right else Inr (0, h1)) (\<lambda>(f2, h2).
     initfree_loop n b h2 (k + 1) bd_left bd_right (free + f1 + f2)))))"

definition initfree :: "buddy \<Rightarrow> list_store \<Rightarrow> nat \<Rightarrow> (nat \<times> list_store) rust" where
  "initfree b h bd_left =
     rbind (max_size b) (\<lambda>m. initfree_loop m b h 0 bd_left (bd_end b) 0)"

definition mark_data_structures :: "buddy \<Rightarrow> nat \<Rightarrow> (nat \<times> buddy) rust" where
  "mark_data_structures b p =
     rbind (usub p (bd_base b)) (\<lambda>meta.
     rbind (mark b (bd_base b) p) (\<lambda>b1. Inr (meta, b1)))"

definition mark_unavailable :: "buddy \<Rightarrow> (nat \<times> buddy) rust" where
  "mark_unavailable b =
     rbind (max_size b) (\<lambda>m.
     rbind (usub (bd_end b) (bd_base b)) (\<lambda>managed.
     rbind (usub (blk_size m) managed) (\<lambda>u.
     rbind (if u > 0 then round_up u LEAF_SIZE else Inr u) (\<lambda>unavailable.
     rbind (mark b (bd_end b) (bd_base b + blk_size m)) (\<lambda>b1.
     Inr (unavailable, b1))))))"

text \<open>
  \<^verbatim>\<open>init_nonnull_slice\<close>: the slice is carved out at \<open>p\<close> and zeroed; of the zeroed
  memory the list store sees the links. The value returned is the next free address.
\<close>

definition init_nonnull_slice :: "nat \<Rightarrow> nat \<Rightarrow> nat \<Rightarrow> list_store \<Rightarrow> (nat \<times> list_store) rust" where
  "init_nonnull_slice elem_bytes p len h =
     (if p = 0 then Inl UnwrapNone
      else let p1 = p + elem_bytes * len;
               zero = (\<lambda>f a. if p \<le> a \<and> a < p1 then 0 else f a)
           in Inr (p1, h\<lparr>lnext := zero (lnext h), lprev := zero (lprev h)\<rparr>))"

fun init_alloc_arrays ::
  "buddy \<Rightarrow> nat \<Rightarrow> nat \<Rightarrow> szinfo list \<Rightarrow> list_store \<Rightarrow> (nat \<times> szinfo list \<times> list_store) rust" where
  "init_alloc_arrays b k p [] h = Inr (p, [], h)"
| "init_alloc_arrays b k p (s # rest) h =
     (let h1 = List_init (sz_free s) h
      in rbind (nblk b k) (\<lambda>n. rbind (round_up n 8) (\<lambda>r.
         let sz = r div 8
         in rbind (init_nonnull_slice 1 p sz h1) (\<lambda>(p1, h2).
            rbind (init_alloc_arrays b (k + 1) p1 rest h2) (\<lambda>(p2, rest1, h3).
            Inr (p2, s\<lparr>sz_alloc := Some (replicate sz 0)\<rparr> # rest1, h3))))))"

fun init_split_arrays ::
  "buddy \<Rightarrow> nat \<Rightarrow> nat \<Rightarrow> szinfo list \<Rightarrow> list_store \<Rightarrow> (nat \<times> szinfo list \<times> list_store) rust" where
  "init_split_arrays b k p [] h = Inr (p, [], h)"
| "init_split_arrays b k p (s # rest) h =
     rbind (nblk b k) (\<lambda>n. rbind (round_up n 8) (\<lambda>r.
       let sz = r div 8
       in rbind (init_nonnull_slice 1 p sz h) (\<lambda>(p1, h1).
          rbind (init_split_arrays b (k + 1) p1 rest h1) (\<lambda>(p2, rest1, h2).
          Inr (p2, s\<lparr>sz_split := Some (replicate sz 0)\<rparr> # rest1, h2)))))"

text \<open>
  \<^verbatim>\<open>init\<close>, in the code's three parts: the range and the number of sizes, the
  arrays carved out of the start of the range, and the marks, the free lists and the final
  check. \<open>free_off\<close> is the offset of the field \<^verbatim>\<open>free\<close> in
  \<^verbatim>\<open>SzInfo\<close>, which the compiler chooses. The outer sum is the panic, the inner one
  the \<^verbatim>\<open>Result\<close> of the source.
\<close>

definition init_range :: "buddy \<Rightarrow> nat \<Rightarrow> nat \<Rightarrow> buddy rust" where
  "init_range b base0 end0 =
     rbind (round_up base0 (max LEAF_SIZE MAX_ALIGN)) (\<lambda>p.
     rbind (usub (round_down end0 (max LEAF_SIZE MAX_ALIGN)) p) (\<lambda>total.
     let b1 = b\<lparr>bd_base := p, bd_end := round_down end0 (max LEAF_SIZE MAX_ALIGN),
                bd_nsize := log2 (total div LEAF_SIZE) + 1\<rparr>
     in rbind (max_size b1) (\<lambda>m.
        Inr (if total > blk_size m then b1\<lparr>bd_nsize := bd_nsize b1 + 1\<rparr> else b1))))"

definition init_arrays ::
  "nat \<Rightarrow> buddy \<Rightarrow> list_store \<Rightarrow> (nat \<times> buddy \<times> list_store) rust" where
  "init_arrays free_off b h =
     (let n = bd_nsize b;
          p = bd_base b;
          ss0 = map (\<lambda>k. \<lparr>sz_free = p + k * SZINFO_BYTES + free_off,
                          sz_alloc = None, sz_split = None\<rparr>) [0..<n]
      in rbind (init_nonnull_slice SZINFO_BYTES p n h) (\<lambda>(p1, h1).
         rbind (init_alloc_arrays b 0 p1 ss0 h1) (\<lambda>(p2, ss1, h2).
         rbind (init_split_arrays b 1 p2 (drop 1 ss1) h2) (\<lambda>(p3, ss2, h3).
         rbind (round_up p3 LEAF_SIZE) (\<lambda>p4.
         Inr (p4, b\<lparr>bd_sizes := Some (take 1 ss1 @ ss2)\<rparr>, h3))))))"

definition init_free_lists ::
  "buddy \<Rightarrow> list_store \<Rightarrow> nat \<Rightarrow> ((string + unit) \<times> buddy \<times> list_store) rust" where
  "init_free_lists b h p =
     rbind (mark_data_structures b p) (\<lambda>(meta, b1).
     rbind (mark_unavailable b1) (\<lambda>(unavailable, b2).
     rbind (max_size b2) (\<lambda>m.
     rbind (usub (bd_base b2 + blk_size m) unavailable) (\<lambda>e.
     rbind (initfree (b2\<lparr>bd_end := e\<rparr>) h p) (\<lambda>(free, h1).
     rbind (usub (blk_size m) meta) (\<lambda>t.
     rbind (usub t unavailable) (\<lambda>expected.
     if free \<noteq> expected
     then Inr (Inl ''allocator bug: free != total - meta - unavailable'', b2\<lparr>bd_end := e\<rparr>, h1)
     else Inr (Inr (), b2\<lparr>bd_end := e, bd_initialized := True\<rparr>, h1))))))))"

definition Buddy_init ::
  "nat \<Rightarrow> buddy \<Rightarrow> list_store \<Rightarrow> nat \<Rightarrow> nat \<Rightarrow> ((string + unit) \<times> buddy \<times> list_store) rust" where
  "Buddy_init free_off b h base0 end0 =
     (if bd_initialized b then Inr (Inl ''allocator init called twice'', b, h)
      else rbind (init_range b base0 end0) (\<lambda>b1.
           rbind (init_arrays free_off b1 h) (\<lambda>(p, b2, h1).
           init_free_lists b2 h1 p)))"

section \<open>The kernel's global allocator\<close>

text \<open>\<^verbatim>\<open>kalloc.rs\<close>: the null pointer stands for failure; \<^verbatim>\<open>init\<close> unwraps.\<close>

definition Kmem_alloc :: "buddy \<Rightarrow> list_store \<Rightarrow> layout \<Rightarrow> (nat \<times> buddy \<times> list_store) rust" where
  "Kmem_alloc b h l =
     rbind (Buddy_alloc b h l) (\<lambda>(r, b1, h1).
       Inr (case r of None \<Rightarrow> 0 | Some p \<Rightarrow> p, b1, h1))"

definition Kmem_dealloc :: "buddy \<Rightarrow> list_store \<Rightarrow> nat \<Rightarrow> (buddy \<times> list_store) rust" where
  "Kmem_dealloc b h p = Buddy_dealloc b h p"

definition PHYSTOP :: nat where "PHYSTOP = 0x80000000 + 128 * 1024 * 1024"

definition kalloc_init :: "nat \<Rightarrow> buddy \<Rightarrow> list_store \<Rightarrow> nat \<Rightarrow> (buddy \<times> list_store) rust" where
  "kalloc_init free_off b h kernel_end =
     rbind (Buddy_init free_off b h kernel_end PHYSTOP) (\<lambda>(r, b1, h1).
       case r of Inl e \<Rightarrow> Inl (Panic e) | Inr _ \<Rightarrow> Inr (b1, h1))"

end
