(* ===== verification/BuddyBits.thy ===== *)
theory BuddyBits
  imports Buddy
begin

text \<open>
  The arithmetic and the bitmaps of the buddy allocator: the size class computed for a
  request, the logarithm of the initialisation, rounding, and the reads of a bitmap after a
  write.
\<close>

section \<open>Size classes\<close>

lemma next_pow2_from_spec:
  assumes "0 < p"
  shows "\<exists>j. next_pow2_from p n = p * 2 ^ j \<and> n \<le> p * 2 ^ j \<and> (j = 0 \<or> p * 2 ^ (j - 1) < n)"
  using assms
proof (induction p n rule: next_pow2_from.induct)
  case (1 p n)
  show ?case
  proof (cases "p < n")
    case True
    with 1 obtain j where j: "next_pow2_from (2 * p) n = 2 * p * 2 ^ j" "n \<le> 2 * p * 2 ^ j"
      "j = 0 \<or> 2 * p * 2 ^ (j - 1) < n" by auto
    then have "p * 2 ^ (Suc j - 1) < n" using True by (cases j) auto
    with True j "1.prems" show ?thesis
      by (intro exI[of _ "Suc j"]) (simp add: next_pow2_from.simps[of p n])
  next
    case False
    then show ?thesis by (intro exI[of _ 0]) (simp add: next_pow2_from.simps[of p n])
  qed
qed

lemma trailing_zeros_pow2 [simp]: "trailing_zeros (2 ^ k) = k"
proof (induction k)
  case 0
  show ?case by (simp add: trailing_zeros.simps)
next
  case (Suc k)
  then show ?case by (subst trailing_zeros.simps) simp
qed

lemma trailing_zeros_0 [simp]: "trailing_zeros 0 = 64"
  by (simp add: trailing_zeros.simps)

text \<open>
  From nine bytes on, \<^verbatim>\<open>firstk\<close> is the smallest size class whose blocks hold the
  request.
\<close>

lemma firstk_spec:
  assumes "8 < n" and "n \<le> 2 ^ 63"
  shows "\<exists>k. firstk n = Inr k \<and> n \<le> blk_size k \<and> (\<forall>j<k. blk_size j < n)"
proof -
  obtain e where e: "next_pow2_from 1 n = 2 ^ e" "n \<le> 2 ^ e" "e = 0 \<or> 2 ^ (e - 1) < n"
    using next_pow2_from_spec[of 1 n] by auto
  have "4 \<le> e"
  proof (rule ccontr)
    assume "\<not> 4 \<le> e"
    then have "(2::nat) ^ e \<le> 2 ^ 3" by (intro power_increasing) auto
    with e assms show False by simp
  qed
  define k where "k = e - 4"
  with \<open>4 \<le> e\<close> have ek: "e = k + 4" by simp
  have "firstk n = Inr k"
    using assms e by (simp add: firstk_def next_power_of_two_def LEAF_SIZE_def ek power_add)
  moreover have "n \<le> blk_size k" using e by (simp add: ek power_add blk_size_def LEAF_SIZE_def)
  moreover have "blk_size j < n" if "j < k" for j
  proof -
    have "blk_size j = 2 ^ (j + 4)" by (simp add: blk_size_def LEAF_SIZE_def power_add)
    also have "\<dots> \<le> (2::nat) ^ (e - 1)" using that ek by (intro power_increasing) auto
    also have "\<dots> < n" using e ek by auto
    finally show ?thesis .
  qed
  ultimately show ?thesis by blast
qed

lemma firstk_small:
  assumes "n \<le> 8"
  shows "firstk n = Inr 64"
proof -
  obtain e where e: "next_pow2_from 1 n = 2 ^ e" "e = 0 \<or> 2 ^ (e - 1) < n"
    using next_pow2_from_spec[of 1 n] by auto
  have "e < 4"
  proof (rule ccontr)
    assume "\<not> e < 4"
    then have "(2::nat) ^ 3 \<le> 2 ^ (e - 1)" by (intro power_increasing) auto
    with e assms \<open>\<not> e < 4\<close> show False by simp
  qed
  then have "(2::nat) ^ e div 16 = 0"
    using power_strict_increasing[of e 4 "2::nat"] by simp
  moreover have "n \<le> 2 ^ 63" using assms by simp
  ultimately show ?thesis
    using e by (simp add: firstk_def next_power_of_two_def LEAF_SIZE_def)
qed

lemma log2_loop_spec: "0 < n \<Longrightarrow> \<exists>j. log2_loop n k = k + j \<and> 2 ^ j \<le> n \<and> n < 2 ^ Suc j"
proof (induction n k rule: log2_loop.induct)
  case (1 n k)
  show ?case
  proof (cases "1 < n")
    case True
    with 1 obtain j where j: "log2_loop (n div 2) (k + 1) = k + 1 + j" "2 ^ j \<le> n div 2"
      "n div 2 < 2 ^ Suc j" by auto
    with True show ?thesis
      by (intro exI[of _ "Suc j"]) (simp add: log2_loop.simps[of n k], linarith)
  next
    case False
    with "1.prems" show ?thesis by (intro exI[of _ 0]) (simp add: log2_loop.simps[of n k])
  qed
qed

lemma log2_spec: "0 < n \<Longrightarrow> 2 ^ log2 n \<le> n \<and> n < 2 ^ Suc (log2 n)"
  using log2_loop_spec[of n 0] by (auto simp: log2_def)

lemma round_up_spec:
  assumes "0 < n" and "0 < sz"
  shows "\<exists>r. round_up n sz = Inr r \<and> r mod sz = 0 \<and> n \<le> r \<and> r < n + sz"
proof -
  let ?q = "(n - 1) div sz"
  have "?q * sz + (n - 1) mod sz = n - 1" by simp
  moreover have "(n - 1) mod sz < sz" using assms by simp
  ultimately have "n \<le> ?q * sz + sz" "?q * sz + sz < n + sz" using assms(1) by linarith+
  then have "n \<le> (?q + 1) * sz" "(?q + 1) * sz < n + sz" by (simp_all add: algebra_simps)
  with assms show ?thesis by (simp add: round_up_def)
qed

lemma round_down_spec:
  assumes "0 < sz"
  shows "round_down n sz \<le> n \<and> n < round_down n sz + sz \<and> round_down n sz mod sz = 0"
proof -
  have "n div sz * sz + n mod sz = n" by simp
  moreover have "n mod sz < sz" using assms by simp
  ultimately show ?thesis unfolding round_down_def by (metis add_left_mono le_add1 mod_mult_self2_is_0 nat_add_left_cancel_less)
qed

section \<open>Bitmaps\<close>

lemma and_mask_eq_iff: "n < 8 \<Longrightarrow> (b::u8) AND 2 ^ n = 2 ^ n \<longleftrightarrow> bit b n"
  by (auto simp: bit_and_iff bit_exp_iff word_bits_eq_iff)

lemma bit_isset_Some:
  "bit_isset (Some a) i \<longleftrightarrow> i div 8 < length a \<and> bit (a ! (i div 8)) (i mod 8)"
  by (simp add: bit_isset_def Let_def and_mask_eq_iff)

lemma bit_isset_None [simp]: "\<not> bit_isset None i"
  by (simp add: bit_isset_def)

lemma index_eq_iff: "i = j \<longleftrightarrow> i div 8 = j div 8 \<and> i mod 8 = j mod (8::nat)"
  by (metis div_mult_mod_eq)

lemma bit_set_Some:
  assumes "i div 8 < length a"
  obtains a' where "bit_set (Some a) i v = Inr (Some a')" and "length a' = length a"
    and "\<And>j. bit_isset (Some a') j = (if j = i then v else bit_isset (Some a) j)"
proof -
  define w where "w = (if v then a ! (i div 8) OR push_bit (i mod 8) 1
                       else a ! (i div 8) AND NOT (push_bit (i mod 8) 1))"
  have w: "bit w n = (if n = i mod 8 then v else bit (a ! (i div 8)) n)" if "n < 8" for n
    using that by (auto simp: w_def bit_or_iff bit_and_iff bit_not_iff bit_exp_iff)
  have 1: "bit_set (Some a) i v = Inr (Some (a[i div 8 := w]))"
    using assms by (simp add: bit_set_def Let_def w_def)
  have 2: "bit_isset (Some (a[i div 8 := w])) j = (if j = i then v else bit_isset (Some a) j)" for j
    using assms w[of "j mod 8"] by (auto simp: bit_isset_Some nth_list_update index_eq_iff[of j i])
  show thesis by (rule that[OF 1 _ 2]) simp
qed

end
