(* ===== verification/BuddyProofs.thy ===== *)
theory BuddyProofs
  imports BuddyBits
begin

text \<open>
  The allocator of \<^verbatim>\<open>buddy.rs\<close> refines the abstract buddy system: its bitmaps and
  free lists represent bits and free sets that satisfy the invariant, every iteration of its
  loops is one abstract step, and so allocation and deallocation act on the set of blocks in
  use as their callers expect.
\<close>

section \<open>The representation\<close>

definition top_size :: "szinfo list \<Rightarrow> nat" where
  "top_size ss = length ss - 1"

definition alloc_bits :: "szinfo list \<Rightarrow> bits" where
  "alloc_bits ss k i \<longleftrightarrow>
     k < length ss \<and> i < 2 ^ (top_size ss - k) \<and> bit_isset (sz_alloc (ss ! k)) i"

definition split_bits :: "szinfo list \<Rightarrow> bits" where
  "split_bits ss k i \<longleftrightarrow>
     k < length ss \<and> i < 2 ^ (top_size ss - k) \<and> bit_isset (sz_split (ss ! k)) i"

definition wf_sizes :: "buddy \<Rightarrow> szinfo list \<Rightarrow> bool" where
  "wf_sizes b ss \<longleftrightarrow>
     0 < bd_nsize b \<and> length ss = bd_nsize b \<and> sz_split (ss ! 0) = None \<and>
     (\<forall>k<length ss. \<exists>a. sz_alloc (ss ! k) = Some a \<and> 2 ^ (top_size ss - k) \<le> 8 * length a) \<and>
     (\<forall>k<length ss. 0 < k \<longrightarrow>
        (\<exists>a. sz_split (ss ! k) = Some a \<and> 2 ^ (top_size ss - k) \<le> 8 * length a))"

text \<open>
  The first \<open>r\<close> smallest blocks hold the allocator's own arrays, the list heads among them:
  they are in use for good.
\<close>

definition brel ::
  "nat \<Rightarrow> buddy \<Rightarrow> szinfo list \<Rightarrow> list_store \<Rightarrow> (nat \<Rightarrow> nat set) \<Rightarrow> (nat \<Rightarrow> nat list) \<Rightarrow> bool" where
  "brel r b ss h F L \<longleftrightarrow>
     wf_sizes b ss \<and>
     0 < bd_base b \<and> bd_base b mod MAX_ALIGN = 0 \<and>
     binv (top_size ss) (alloc_bits ss) (split_bits ss) F \<and>
     list_family dlist h (\<lambda>k. sz_free (ss ! k)) (length ss) L \<and>
     (\<forall>k<length ss. set (L k) = addr b k ` F k) \<and>
     0 < r \<and> (\<forall>j<r. (0, j) \<in> in_use (alloc_bits ss) (split_bits ss)) \<and>
     (\<forall>k<length ss. bd_base b \<le> sz_free (ss ! k) \<and> sz_free (ss ! k) < bd_base b + r * LEAF_SIZE)"

definition used_blocks :: "buddy \<Rightarrow> (nat \<times> nat) set" where
  "used_blocks b =
     (case bd_sizes b of None \<Rightarrow> {} | Some ss \<Rightarrow> in_use (alloc_bits ss) (split_bits ss))"

definition buddy_inv :: "nat \<Rightarrow> buddy \<Rightarrow> list_store \<Rightarrow> bool" where
  "buddy_inv r b h \<longleftrightarrow> (\<exists>ss F L. bd_sizes b = Some ss \<and> brel r b ss h F L)"

lemma brelD:
  assumes "brel r b ss h F L"
  shows "wf_sizes b ss" "0 < bd_base b" "bd_base b mod MAX_ALIGN = 0"
    "binv (top_size ss) (alloc_bits ss) (split_bits ss) F"
    "list_family dlist h (\<lambda>k. sz_free (ss ! k)) (length ss) L"
    "\<And>k. k < length ss \<Longrightarrow> set (L k) = addr b k ` F k"
    "0 < r" "\<And>j. j < r \<Longrightarrow> (0, j) \<in> in_use (alloc_bits ss) (split_bits ss)"
    "\<And>k. k < length ss \<Longrightarrow> bd_base b \<le> sz_free (ss ! k) \<and> sz_free (ss ! k) < bd_base b + r * LEAF_SIZE"
  using assms by (auto simp: brel_def)

lemma wf_sizesD:
  assumes "wf_sizes b ss"
  shows "0 < length ss" "length ss = bd_nsize b" "length ss = Suc (top_size ss)"
    "max_size b = Inr (top_size ss)" "top_size ss = bd_nsize b - 1" "0 < bd_nsize b"
  using assms by (auto simp: wf_sizes_def top_size_def max_size_def)

lemma top_size_le: "wf_sizes b ss \<Longrightarrow> k \<le> top_size ss \<longleftrightarrow> k < length ss"
  by (auto dest: wf_sizesD)

section \<open>Writes of one bit\<close>

lemma bits_update:
  assumes "length ss' = length ss" and "k < length ss" and "i < 2 ^ (top_size ss - k)"
    and "\<And>j. j \<noteq> k \<Longrightarrow> ss' ! j = ss ! j"
  shows "(\<And>j. bit_isset (sz_alloc (ss' ! k)) j = (if j = i then v else bit_isset (sz_alloc (ss ! k)) j))
      \<Longrightarrow> alloc_bits ss' = setbit (alloc_bits ss) k i v"
    and "(\<And>j. bit_isset (sz_split (ss' ! k)) j = (if j = i then v else bit_isset (sz_split (ss ! k)) j))
      \<Longrightarrow> split_bits ss' = setbit (split_bits ss) k i v"
    and "sz_alloc (ss' ! k) = sz_alloc (ss ! k) \<Longrightarrow> alloc_bits ss' = alloc_bits ss"
    and "sz_split (ss' ! k) = sz_split (ss ! k) \<Longrightarrow> split_bits ss' = split_bits ss"
proof -
  have nth: "ss' ! j = ss ! j \<or> j = k" for j using assms(4) by blast
  have top: "top_size ss' = top_size ss" using assms(1) by (simp add: top_size_def)
  show "alloc_bits ss' = setbit (alloc_bits ss) k i v"
    if "\<And>j. bit_isset (sz_alloc (ss' ! k)) j = (if j = i then v else bit_isset (sz_alloc (ss ! k)) j)"
  proof (intro ext)
    fix k' i' show "alloc_bits ss' k' i' = setbit (alloc_bits ss) k i v k' i'"
      using nth[of k'] assms that[of i'] top by (auto simp: alloc_bits_def)
  qed
  show "split_bits ss' = setbit (split_bits ss) k i v"
    if "\<And>j. bit_isset (sz_split (ss' ! k)) j = (if j = i then v else bit_isset (sz_split (ss ! k)) j)"
  proof (intro ext)
    fix k' i' show "split_bits ss' k' i' = setbit (split_bits ss) k i v k' i'"
      using nth[of k'] assms that[of i'] top by (auto simp: split_bits_def)
  qed
  show "alloc_bits ss' = alloc_bits ss" if "sz_alloc (ss' ! k) = sz_alloc (ss ! k)"
  proof (intro ext)
    fix k' i' show "alloc_bits ss' k' i' = alloc_bits ss k' i'"
      using nth[of k'] assms(1) that top by (auto simp: alloc_bits_def)
  qed
  show "split_bits ss' = split_bits ss" if "sz_split (ss' ! k) = sz_split (ss ! k)"
  proof (intro ext)
    fix k' i' show "split_bits ss' k' i' = split_bits ss k' i'"
      using nth[of k'] assms(1) that top by (auto simp: split_bits_def)
  qed
qed

lemma index_in_bitmap: "i < 2 ^ n \<Longrightarrow> 2 ^ n \<le> 8 * length a \<Longrightarrow> i div 8 < length a"
  by (rule less_mult_imp_div_less) (simp add: mult.commute)

lemma alloc_bit_set_ok:
  assumes wf: "wf_sizes b ss" and k: "k \<le> top_size ss" and i: "i < 2 ^ (top_size ss - k)"
  obtains ss' where "alloc_bit_set ss k i v = Inr ss'" and "wf_sizes b ss'"
    and "alloc_bits ss' = setbit (alloc_bits ss) k i v" and "split_bits ss' = split_bits ss"
    and "length ss' = length ss" and "top_size ss' = top_size ss"
    and "\<And>j. sz_free (ss' ! j) = sz_free (ss ! j)"
proof -
  from wf k have kl: "k < length ss" by (simp add: top_size_le)
  with wf obtain a where a: "sz_alloc (ss ! k) = Some a" "2 ^ (top_size ss - k) \<le> 8 * length a"
    by (auto simp: wf_sizes_def)
  obtain a' where a': "bit_set (Some a) i v = Inr (Some a')" "length a' = length a"
    "\<And>j. bit_isset (Some a') j = (if j = i then v else bit_isset (Some a) j)"
    using bit_set_Some[OF index_in_bitmap[OF i a(2)]] by metis
  define ss' where "ss' = ss[k := (ss ! k)\<lparr>sz_alloc := Some a'\<rparr>]"
  have eq: "alloc_bit_set ss k i v = Inr ss'"
    using kl a a' by (simp add: alloc_bit_set_def ss'_def)
  have len: "length ss' = length ss" and nth: "\<And>j. j \<noteq> k \<Longrightarrow> ss' ! j = ss ! j"
    and at: "ss' ! k = (ss ! k)\<lparr>sz_alloc := Some a'\<rparr>"
    using kl by (auto simp: ss'_def)
  have top: "top_size ss' = top_size ss" using len by (simp add: top_size_def)
  have nth': "ss' ! j = (if j = k then (ss ! k)\<lparr>sz_alloc := Some a'\<rparr> else ss ! j)" for j
    using nth at by auto
  have wf': "wf_sizes b ss'"
    using wf a a'(2) unfolding wf_sizes_def len top nth' by auto
  have bits: "alloc_bits ss' = setbit (alloc_bits ss) k i v" "split_bits ss' = split_bits ss"
    using bits_update[OF len kl i nth] a a'(3) at by simp_all
  have free: "\<And>j. sz_free (ss' ! j) = sz_free (ss ! j)" by (simp add: nth')
  show thesis by (rule that[OF eq wf' bits len top free])
qed

lemma split_bit_set_ok:
  assumes wf: "wf_sizes b ss" and k: "k \<le> top_size ss" "0 < k" and i: "i < 2 ^ (top_size ss - k)"
  obtains ss' where "split_bit_set ss k i v = Inr ss'" and "wf_sizes b ss'"
    and "split_bits ss' = setbit (split_bits ss) k i v" and "alloc_bits ss' = alloc_bits ss"
    and "length ss' = length ss" and "top_size ss' = top_size ss"
    and "\<And>j. sz_free (ss' ! j) = sz_free (ss ! j)"
proof -
  from wf k have kl: "k < length ss" by (simp add: top_size_le)
  with wf k obtain a where a: "sz_split (ss ! k) = Some a" "2 ^ (top_size ss - k) \<le> 8 * length a"
    by (auto simp: wf_sizes_def)
  obtain a' where a': "bit_set (Some a) i v = Inr (Some a')" "length a' = length a"
    "\<And>j. bit_isset (Some a') j = (if j = i then v else bit_isset (Some a) j)"
    using bit_set_Some[OF index_in_bitmap[OF i a(2)]] by metis
  define ss' where "ss' = ss[k := (ss ! k)\<lparr>sz_split := Some a'\<rparr>]"
  have eq: "split_bit_set ss k i v = Inr ss'"
    using kl a a' by (simp add: split_bit_set_def ss'_def)
  have len: "length ss' = length ss" and nth: "\<And>j. j \<noteq> k \<Longrightarrow> ss' ! j = ss ! j"
    and at: "ss' ! k = (ss ! k)\<lparr>sz_split := Some a'\<rparr>"
    using kl by (auto simp: ss'_def)
  have top: "top_size ss' = top_size ss" using len by (simp add: top_size_def)
  have nth': "ss' ! j = (if j = k then (ss ! k)\<lparr>sz_split := Some a'\<rparr> else ss ! j)" for j
    using nth at by auto
  have wf': "wf_sizes b ss'"
    using wf a a'(2) k unfolding wf_sizes_def len top nth' by auto
  have bits: "split_bits ss' = setbit (split_bits ss) k i v" "alloc_bits ss' = alloc_bits ss"
    using bits_update[OF len kl i nth] a a'(3) at by simp_all
  have free: "\<And>j. sz_free (ss' ! j) = sz_free (ss ! j)" by (simp add: nth')
  show thesis by (rule that[OF eq wf' bits len top free])
qed

section \<open>Addresses\<close>

lemma blk_size_pos [simp]: "0 < blk_size k"
  by (simp add: blk_size_def LEAF_SIZE_def)

lemma blk_index_addr [simp]: "blk_index b k (addr b k i) = Inr i"
  by (simp add: blk_index_def addr_def)

lemma blk_size_Suc: "blk_size (Suc k) = 2 * blk_size k"
  by (simp add: blk_size_def)

lemma addr_double: "addr b (Suc k) i = addr b k (2 * i)"
  by (simp add: addr_def blk_size_Suc)

lemma addr_odd: "addr b (Suc k) i + blk_size k = addr b k (2 * i + 1)"
  by (simp add: addr_def blk_size_Suc)

lemma addr_cell: "addr b k i = bd_base b + i * 2 ^ k * LEAF_SIZE"
  by (simp add: addr_def blk_size_def)

lemma blk_index_cell: "blk_index b k (bd_base b + x * LEAF_SIZE) = Inr (x div 2 ^ k)"
  by (simp add: blk_index_def blk_size_def LEAF_SIZE_def mult.commute[of _ "16::nat"] div_mult2_eq)

lemma addr_eq_cells: "addr b k i = addr b k' i' \<Longrightarrow> cells k i \<inter> cells k' i' \<noteq> {}"
proof -
  assume "addr b k i = addr b k' i'"
  then have "i * 2 ^ k = i' * 2 ^ k'" by (simp add: addr_cell LEAF_SIZE_def)
  moreover have "i * 2 ^ k \<in> cells k i" "i' * 2 ^ k' \<in> cells k' i'"
    by (simp_all add: cells_iff)
  ultimately show ?thesis by auto
qed

lemma addr_inj: "addr b k i = addr b k j \<longleftrightarrow> i = j"
  by (simp add: addr_def blk_size_def LEAF_SIZE_def)

section \<open>Steps of the representation\<close>

lemma isset_alloc_bits:
  "wf_sizes b ss \<Longrightarrow> k \<le> top_size ss \<Longrightarrow> i < 2 ^ (top_size ss - k) \<Longrightarrow>
   bit_isset (sz_alloc (ss ! k)) i = alloc_bits ss k i"
  by (simp add: alloc_bits_def top_size_le)

lemma isset_split_bits:
  "wf_sizes b ss \<Longrightarrow> k \<le> top_size ss \<Longrightarrow> i < 2 ^ (top_size ss - k) \<Longrightarrow>
   bit_isset (sz_split (ss ! k)) i = split_bits ss k i"
  by (simp add: split_bits_def top_size_le)

text \<open>No list node and no list head lies at the start of a cell of a client's block.\<close>

lemma fresh_cell:
  assumes rel: "brel r b ss h F L" and use: "(k, i) \<in> in_use (alloc_bits ss) (split_bits ss)"
    and client: "k = 0 \<longrightarrow> r \<le> i" and x: "x \<in> cells k i"
  shows "\<forall>j<length ss. bd_base b + x * LEAF_SIZE \<notin> insert (sz_free (ss ! j)) (set (L j))"
proof (intro allI impI)
  fix j assume j: "j < length ss"
  note inv = brelD(4)[OF rel]
  have pk: "present (top_size ss) (split_bits ss) k i" "\<not> split_bits ss k i"
    using in_use_present[OF inv use] use by (auto simp: in_use_def)
  have "x \<ge> r"
  proof (rule ccontr)
    assume "\<not> r \<le> x"
    then have m: "(0, x) \<in> in_use (alloc_bits ss) (split_bits ss)" using brelD(8)[OF rel] by simp
    have "x \<in> cells 0 x" by (simp add: cells_iff)
    moreover have "(k, i) \<noteq> (0, x)" using client \<open>\<not> r \<le> x\<close> by auto
    ultimately show False
      using unsplit_disjoint[OF inv pk(1) in_use_present[OF inv m] pk(2)] m x
      by (auto simp: in_use_def)
  qed
  then have "bd_base b + x * LEAF_SIZE \<noteq> sz_free (ss ! j)"
    using brelD(9)[OF rel j] by (auto simp: LEAF_SIZE_def)
  moreover have "bd_base b + x * LEAF_SIZE \<notin> addr b j ` F j"
  proof
    assume "bd_base b + x * LEAF_SIZE \<in> addr b j ` F j"
    then obtain i' where i': "i' \<in> F j" "x = i' * 2 ^ j" by (auto simp: addr_cell LEAF_SIZE_def)
    have f: "present (top_size ss) (split_bits ss) j i'" "\<not> alloc_bits ss j i'" "\<not> split_bits ss j i'"
      using free_present[OF inv i'(1)] by auto
    have "(k, i) \<noteq> (j, i')" using f(2) use by (auto simp: in_use_def)
    moreover have "x \<in> cells j i'" using i'(2) by (simp add: cells_iff)
    ultimately show False using unsplit_disjoint[OF inv pk(1) f(1) pk(2) f(3)] x by auto
  qed
  ultimately show "bd_base b + x * LEAF_SIZE \<notin> insert (sz_free (ss ! j)) (set (L j))"
    using brelD(6)[OF rel j] by auto
qed

lemma brelI:
  assumes rel: "brel r b ss h F L" and wf: "wf_sizes b ss'" and len: "length ss' = length ss"
    and free: "\<And>j. sz_free (ss' ! j) = sz_free (ss ! j)"
    and inv: "binv (top_size ss) (alloc_bits ss') (split_bits ss') F'"
    and fam: "list_family dlist h' (\<lambda>k. sz_free (ss ! k)) (length ss) L'"
    and sets: "\<And>k. k < length ss \<Longrightarrow> set (L' k) = addr b k ` F' k"
    and meta: "\<And>j. j < r \<Longrightarrow> (0, j) \<in> in_use (alloc_bits ss') (split_bits ss')"
  shows "brel r b ss' h' F' L'"
  using brelD[OF rel] assms by (auto simp: brel_def top_size_def)

lemma family_distinct: "list_family dlist h s n L \<Longrightarrow> k < n \<Longrightarrow> distinct (L k)"
  by (auto simp: list_family_def dlist_def)

lemma brel_take:
  assumes rel: "brel r b ss h F L" and k: "k \<le> top_size ss" and L: "L k = p # xs"
  obtains i ss' where "p = addr b k i" and "i \<in> F k" and "alloc_bit_set ss k i True = Inr ss'"
    and "brel r b ss' (List_remove p h) (F(k := F k - {i})) (L(k := xs))"
    and "List_pop (sz_free (ss ! k)) h = (Some p, List_remove p h)"
    and "in_use (alloc_bits ss') (split_bits ss') = insert (k, i) (in_use (alloc_bits ss) (split_bits ss))"
    and "length ss' = length ss"
proof -
  note wf = brelD(1)[OF rel] and inv = brelD(4)[OF rel] and fam = brelD(5)[OF rel]
  have kl: "k < length ss" using k wf by (simp add: top_size_le)
  have s: "set (L k) = addr b k ` F k" using brelD(6)[OF rel kl] .
  with L obtain i where i: "p = addr b k i" "i \<in> F k" by fastforce
  have ib: "i < 2 ^ (top_size ss - k)" using free_present[OF inv i(2)] by (auto dest: presentD)
  obtain ss' where ss': "alloc_bit_set ss k i True = Inr ss'" "wf_sizes b ss'"
    "alloc_bits ss' = setbit (alloc_bits ss) k i True" "split_bits ss' = split_bits ss"
    "length ss' = length ss" "top_size ss' = top_size ss" "\<And>j. sz_free (ss' ! j) = sz_free (ss ! j)"
    by (rule alloc_bit_set_ok[OF wf k ib, of True]) blast
  have use: "in_use (alloc_bits ss') (split_bits ss') = insert (k, i) (in_use (alloc_bits ss) (split_bits ss))"
    using take_in_use[OF inv i(2)] ss' by simp
  have xs: "set xs = addr b k ` (F k - {i})"
  proof -
    have "p \<notin> set xs" using family_distinct[OF fam kl] L by simp
    then have "set xs = set (L k) - {p}" using L by simp
    also have "\<dots> = addr b k ` (F k - {i})" by (auto simp: s i(1) addr_inj)
    finally show ?thesis .
  qed
  have "brel r b ss' (List_remove p h) (F(k := F k - {i})) (L(k := xs))"
    using ss' take_step[OF inv i(2)] kl.family_pop(2)[OF fam kl L] xs brelD(6,8)[OF rel] use
    by (intro brelI[OF rel]) auto
  then show thesis
    using that[OF i ss'(1)] kl.family_pop(1)[OF fam kl L] use ss'(5) by blast
qed

lemma addr_buddy:
  "addr b (Suc k) (i div 2) = (if buddy_of i mod 2 = 0 then addr b k (buddy_of i) else addr b k i)"
proof -
  have "2 * (i div 2) = (if buddy_of i mod 2 = 0 then buddy_of i else i)"
    by (simp add: buddy_of_def) presburger
  then show ?thesis by (simp add: addr_double)
qed

lemma brel_split:
  assumes rel: "brel r b ss h F L" and use: "(Suc k, i) \<in> in_use (alloc_bits ss) (split_bits ss)"
  obtains ss1 ss2 where "split_bit_set ss (Suc k) i True = Inr ss1"
    and "alloc_bit_set ss1 k (2 * i) True = Inr ss2"
    and "brel r b ss2 (List_push (sz_free (ss2 ! k)) (addr b k (2 * i + 1)) h)
           (F(k := insert (2 * i + 1) (F k))) (L(k := addr b k (2 * i + 1) # L k))"
    and "in_use (alloc_bits ss2) (split_bits ss2)
           = insert (k, 2 * i) (in_use (alloc_bits ss) (split_bits ss) - {(Suc k, i)})"
    and "length ss2 = length ss"
proof -
  note wf = brelD(1)[OF rel] and inv = brelD(4)[OF rel] and fam = brelD(5)[OF rel]
  have pr: "Suc k \<le> top_size ss" "i < 2 ^ (top_size ss - Suc k)"
    using in_use_present[OF inv use] by (auto dest: presentD)
  then have km: "k < top_size ss" "k \<le> top_size ss" by auto
  have kl: "k < length ss" using km wf by (simp add: top_size_le)
  obtain ss1 where ss1: "split_bit_set ss (Suc k) i True = Inr ss1" "wf_sizes b ss1"
    "split_bits ss1 = setbit (split_bits ss) (Suc k) i True" "alloc_bits ss1 = alloc_bits ss"
    "length ss1 = length ss" "top_size ss1 = top_size ss" "\<And>j. sz_free (ss1 ! j) = sz_free (ss ! j)"
    by (rule split_bit_set_ok[OF wf pr(1) _ pr(2), of True]) (simp, blast)
  have i2: "2 * i < 2 ^ (top_size ss1 - k)" using pr km ss1(6) by (simp add: half_bound)
  have k1: "k \<le> top_size ss1" using km ss1(6) by simp
  obtain ss2 where ss2: "alloc_bit_set ss1 k (2 * i) True = Inr ss2" "wf_sizes b ss2"
    "alloc_bits ss2 = setbit (alloc_bits ss1) k (2 * i) True" "split_bits ss2 = split_bits ss1"
    "length ss2 = length ss1" "top_size ss2 = top_size ss1" "\<And>j. sz_free (ss2 ! j) = sz_free (ss1 ! j)"
    by (rule alloc_bit_set_ok[OF ss1(2) k1 i2, of True]) blast
  have use2: "in_use (alloc_bits ss2) (split_bits ss2)
      = insert (k, 2 * i) (in_use (alloc_bits ss) (split_bits ss) - {(Suc k, i)})"
    using split_in_use[OF inv use] by (simp add: ss1 ss2)
  have inv2: "binv (top_size ss) (alloc_bits ss2) (split_bits ss2) (F(k := insert (2 * i + 1) (F k)))"
    using split_step[OF inv use] by (simp add: ss1 ss2)
  have c: "(2 * i + 1) * 2 ^ k \<in> cells (Suc k) i"
    by (simp only: cells_iff div_pow_Suc) simp
  have fresh: "\<forall>j<length ss. addr b k (2 * i + 1) \<notin> insert (sz_free (ss ! j)) (set (L j))"
    using fresh_cell[OF rel use _ c] by (simp only: addr_cell) simp
  have "brel r b ss2 (List_push (sz_free (ss2 ! k)) (addr b k (2 * i + 1)) h)
      (F(k := insert (2 * i + 1) (F k))) (L(k := addr b k (2 * i + 1) # L k))"
    using inv2 ss2 ss1 kl.family_push[OF fam kl fresh] brelD(6,8)[OF rel] use2
    by (intro brelI[OF rel]) auto
  then show thesis using that[OF ss1(1) ss2(1)] use2 ss1(5) ss2(5) by simp
qed

lemma brel_release:
  assumes rel: "brel r b ss h F L" and use: "(k, i) \<in> in_use (alloc_bits ss) (split_bits ss)"
    and client: "k = 0 \<longrightarrow> r \<le> i" and k: "k < top_size ss" and buddy: "alloc_bits ss k (buddy_of i)"
    and ss': "alloc_bit_set ss k i False = Inr ss'"
  shows "brel r b ss' (List_push (sz_free (ss' ! k)) (addr b k i) h)
           (F(k := insert i (F k))) (L(k := addr b k i # L k))"
    and "in_use (alloc_bits ss') (split_bits ss') = in_use (alloc_bits ss) (split_bits ss) - {(k, i)}"
proof -
  note wf = brelD(1)[OF rel] and inv = brelD(4)[OF rel] and fam = brelD(5)[OF rel]
  have kt: "k \<le> top_size ss" and ib: "i < 2 ^ (top_size ss - k)"
    using in_use_present[OF inv use] by (auto dest: presentD)
  have kl: "k < length ss" using kt wf by (simp add: top_size_le)
  have s: "wf_sizes b ss'" "alloc_bits ss' = setbit (alloc_bits ss) k i False"
    "split_bits ss' = split_bits ss" "length ss' = length ss"
    "\<And>j. sz_free (ss' ! j) = sz_free (ss ! j)"
    using alloc_bit_set_ok[OF wf kt ib, of False] ss' by (metis sum.inject(2))+
  show use': "in_use (alloc_bits ss') (split_bits ss') = in_use (alloc_bits ss) (split_bits ss) - {(k, i)}"
    using release_in_use by (simp add: s)
  have inv': "binv (top_size ss) (alloc_bits ss') (split_bits ss') (F(k := insert i (F k)))"
    using release_step[OF inv use k buddy] by (simp add: s)
  have c: "i * 2 ^ k \<in> cells k i" by (simp add: cells_iff)
  have fresh: "\<forall>j<length ss. addr b k i \<notin> insert (sz_free (ss ! j)) (set (L j))"
    using fresh_cell[OF rel use client c] by (simp only: addr_cell)
  show "brel r b ss' (List_push (sz_free (ss' ! k)) (addr b k i) h)
      (F(k := insert i (F k))) (L(k := addr b k i # L k))"
    using inv' s kl.family_push[OF fam kl fresh] brelD(6,8)[OF rel] use' client
    by (intro brelI[OF rel]) auto
qed

lemma brel_merge:
  assumes rel: "brel r b ss h F L" and use: "(k, i) \<in> in_use (alloc_bits ss) (split_bits ss)"
    and client: "k = 0 \<longrightarrow> r \<le> i" and k: "k < top_size ss" and buddy: "\<not> alloc_bits ss k (buddy_of i)"
    and ss1: "alloc_bit_set ss k i False = Inr ss1"
  obtains ss2 where "split_bit_set ss1 (Suc k) (i div 2) False = Inr ss2"
    and "brel r b ss2 (List_remove (addr b k (buddy_of i)) h)
           (F(k := F k - {buddy_of i})) (L(k := remove1 (addr b k (buddy_of i)) (L k)))"
    and "in_use (alloc_bits ss2) (split_bits ss2)
           = insert (Suc k, i div 2) (in_use (alloc_bits ss) (split_bits ss) - {(k, i)})"
    and "length ss2 = length ss"
proof -
  note wf = brelD(1)[OF rel] and inv = brelD(4)[OF rel] and fam = brelD(5)[OF rel]
  let ?q = "addr b k (buddy_of i)"
  have kt: "k \<le> top_size ss" and ib: "i < 2 ^ (top_size ss - k)"
    using in_use_present[OF inv use] by (auto dest: presentD)
  have kl: "k < length ss" using kt wf by (simp add: top_size_le)
  have s: "wf_sizes b ss1" "alloc_bits ss1 = setbit (alloc_bits ss) k i False"
    "split_bits ss1 = split_bits ss" "length ss1 = length ss" "top_size ss1 = top_size ss"
    "\<And>j. sz_free (ss1 ! j) = sz_free (ss ! j)"
    using alloc_bit_set_ok[OF wf kt ib, of False] ss1 by (metis sum.inject(2))+
  have k1: "Suc k \<le> top_size ss1" and i1: "i div 2 < 2 ^ (top_size ss1 - Suc k)"
    using k ib s(5) by (simp_all add: half_bound)
  obtain ss2 where ss2: "split_bit_set ss1 (Suc k) (i div 2) False = Inr ss2" "wf_sizes b ss2"
    "split_bits ss2 = setbit (split_bits ss1) (Suc k) (i div 2) False" "alloc_bits ss2 = alloc_bits ss1"
    "length ss2 = length ss1" "top_size ss2 = top_size ss1" "\<And>j. sz_free (ss2 ! j) = sz_free (ss1 ! j)"
    by (rule split_bit_set_ok[OF s(1) k1 _ i1, of False]) (simp, blast)
  note m = merge_step[OF inv use k buddy]
  have use2: "in_use (alloc_bits ss2) (split_bits ss2)
      = insert (Suc k, i div 2) (in_use (alloc_bits ss) (split_bits ss) - {(k, i)})"
    using merge_in_use[OF inv use k buddy] by (simp add: s ss2)
  have sets: "set (L k) = addr b k ` F k" using brelD(6)[OF rel kl] .
  with m(1) have q: "?q \<in> set (L k)" by simp
  have "set (remove1 ?q (L k)) = addr b k ` (F k - {buddy_of i})"
    using family_distinct[OF fam kl] by (auto simp: set_remove1_eq sets addr_inj)
  then have "brel r b ss2 (List_remove ?q h) (F(k := F k - {buddy_of i})) (L(k := remove1 ?q (L k)))"
    using m(2) s ss2 kl.family_remove[OF fam kl q] brelD(6,8)[OF rel] use2 client
    by (intro brelI[OF rel]) auto
  then show thesis using that[OF ss2(1)] use2 s(4) ss2(5) by simp
qed

end
