(* ===== verification/BuddyCorrect.thy ===== *)
theory BuddyCorrect
  imports BuddyProofs
begin

text \<open>
  Correctness of the two entry points of \<^verbatim>\<open>buddy.rs\<close>: by induction over the code's
  loops, \<^verbatim>\<open>alloc\<close> adds one block of the right size to the blocks in use, or reports
  that none exists, and \<^verbatim>\<open>dealloc\<close> removes the block it is given.
\<close>

section \<open>The loops\<close>

lemma find_free_spec:
  assumes "list_family dlist h (\<lambda>k. sz_free (ss ! k)) (length ss) L" and "j \<le> length ss"
  shows "j \<le> find_free (drop j ss) h j \<and> find_free (drop j ss) h j \<le> length ss \<and>
    (\<forall>k. j \<le> k \<and> k < find_free (drop j ss) h j \<longrightarrow> L k = []) \<and>
    (find_free (drop j ss) h j < length ss \<longrightarrow> L (find_free (drop j ss) h j) \<noteq> [])"
  using assms(2)
proof (induction "length ss - j" arbitrary: j)
  case 0
  then show ?case by auto
next
  case (Suc n)
  then have j: "j < length ss" by simp
  have d: "drop j ss = ss ! j # drop (Suc j) ss" using j by (simp add: Cons_nth_drop_Suc)
  have e: "List_is_empty (sz_free (ss ! j)) h \<longleftrightarrow> L j = []"
    using kl.family_is_empty[OF assms(1) j] .
  show ?case
  proof (cases "L j = []")
    case True
    have "n = length ss - Suc j" "Suc j \<le> length ss" using Suc.hyps(2) j by auto
    note IH = Suc.hyps(1)[OF this]
    have "L k = []" if "j \<le> k" "k < find_free (drop (Suc j) ss) h (Suc j)" for k
      using that IH True by (cases "k = j") auto
    with IH True show ?thesis by (simp add: d e)
  next
    case False
    with j show ?thesis by (auto simp: d e)
  qed
qed

lemma split_loop_ok:
  assumes "brel r b ss h F L" and "(k, i) \<in> in_use (alloc_bits ss) (split_bits ss)" and "fk \<le> k"
  shows "\<exists>ss' h' F' L'. split_loop b fk (addr b k i) k ss h = Inr (ss', h') \<and> brel r b ss' h' F' L' \<and>
    length ss' = length ss \<and>
    in_use (alloc_bits ss') (split_bits ss')
      = insert (fk, i * 2 ^ (k - fk)) (in_use (alloc_bits ss) (split_bits ss) - {(k, i)})"
  using assms
proof (induction k arbitrary: i ss h F L)
  case 0
  then have "insert (0, i) (in_use (alloc_bits ss) (split_bits ss) - {(0, i)})
      = in_use (alloc_bits ss) (split_bits ss)" by blast
  with 0 show ?case by simp metis
next
  case (Suc k)
  show ?case
  proof (cases "fk \<le> k")
    case False
    with Suc.prems have "fk = Suc k" by simp
    moreover have "insert (Suc k, i) (in_use (alloc_bits ss) (split_bits ss) - {(Suc k, i)})
      = in_use (alloc_bits ss) (split_bits ss)" using Suc.prems by blast
    ultimately show ?thesis using Suc.prems by simp metis
  next
    case True
    let ?U = "in_use (alloc_bits ss) (split_bits ss)"
    obtain ss1 ss2 where s: "split_bit_set ss (Suc k) i True = Inr ss1"
      "alloc_bit_set ss1 k (2 * i) True = Inr ss2"
      and rel: "brel r b ss2 (List_push (sz_free (ss2 ! k)) (addr b k (2 * i + 1)) h)
           (F(k := insert (2 * i + 1) (F k))) (L(k := addr b k (2 * i + 1) # L k))"
      and use: "in_use (alloc_bits ss2) (split_bits ss2) = insert (k, 2 * i) (?U - {(Suc k, i)})"
      and len: "length ss2 = length ss"
      by (rule brel_split[OF Suc.prems(1,2)])
    have "Suc k \<le> top_size ss"
      using in_use_present[OF brelD(4)[OF Suc.prems(1)] Suc.prems(2)] by (rule presentD)
    then have kl: "k < length ss2" using len by (simp add: top_size_def)
    from Suc.IH[OF rel _ True, of "2 * i"] use obtain ss' h' F' L'
      where IH: "split_loop b fk (addr b k (2 * i)) k ss2
        (List_push (sz_free (ss2 ! k)) (addr b k (2 * i + 1)) h) = Inr (ss', h')"
      "brel r b ss' h' F' L'" "length ss' = length ss2"
      "in_use (alloc_bits ss') (split_bits ss')
        = insert (fk, 2 * i * 2 ^ (k - fk)) (insert (k, 2 * i) (?U - {(Suc k, i)}) - {(k, 2 * i)})"
      by auto
    have "split_loop b fk (addr b (Suc k) i) (Suc k) ss h = Inr (ss', h')"
      using True s kl IH(1) addr_odd[of b k i] addr_double[of b k i]
        blk_index_addr[of b "Suc k" i] blk_index_addr[of b k "2 * i"]
      by simp
    moreover have "insert (k, 2 * i) (?U - {(Suc k, i)}) - {(k, 2 * i)} = ?U - {(Suc k, i)}"
    proof -
      note inv = brelD(4)[OF Suc.prems(1)]
      have "(k, 2 * i) \<notin> ?U"
        using Suc.prems(2) binv_A[OF inv, of k "2 * i"] \<open>Suc k \<le> top_size ss\<close>
        by (auto simp: in_use_def present_def)
      then show ?thesis by blast
    qed
    moreover have "2 * i * 2 ^ (k - fk) = i * 2 ^ (Suc k - fk)" using True by (simp add: Suc_diff_le)
    ultimately show ?thesis
      using IH(2-4) len by (intro exI[of _ ss'] exI[of _ h'] exI[of _ F'] exI[of _ L'] conjI)
        (simp_all only:)
  qed
qed

lemma size_loop_ok:
  assumes rel: "brel r b ss h F L" and use: "(k, i) \<in> in_use (alloc_bits ss) (split_bits ss)"
    and k: "k < top_size ss" and "j \<le> k"
  shows "size_loop b j (drop (Suc j) ss) (addr b k i) = Inr k"
  using \<open>j \<le> k\<close>
proof (induction rule: inc_induct)
  case base
  note wf = brelD(1)[OF rel] and inv = brelD(4)[OF rel]
  have pr: "present (top_size ss) (split_bits ss) k i" by (rule in_use_present[OF inv use])
  with k have "split_bits ss (Suc k) (i div 2)" by (auto simp: present_def)
  then have "bit_isset (sz_split (ss ! Suc k)) (i div 2)" by (simp add: split_bits_def)
  moreover have "drop (Suc k) ss = ss ! Suc k # drop (Suc (Suc k)) ss"
    using k by (simp add: Cons_nth_drop_Suc top_size_def)
  moreover have "blk_index b (Suc k) (addr b k i) = Inr (i div 2)"
    by (simp only: addr_cell blk_index_cell div_pow_Suc) simp
  ultimately show ?case by simp
next
  case (step j)
  note wf = brelD(1)[OF rel] and inv = brelD(4)[OF rel]
  have pr: "present (top_size ss) (split_bits ss) k i" by (rule in_use_present[OF inv use])
  have c: "i * 2 ^ k \<in> cells k i" by (simp add: cells_iff)
  let ?c = "i * 2 ^ k div 2 ^ Suc j"
  have "\<not> split_bits ss (Suc j) ?c"
    using unsplit_below[OF inv pr _ _ c, of "Suc j"] use step by (auto simp: in_use_def)
  moreover have "?c < 2 ^ (top_size ss - Suc j)"
  proof -
    have "i * 2 ^ k < 2 ^ (top_size ss - k) * 2 ^ k" using presentD(2)[OF pr] by simp
    also have "\<dots> = 2 ^ (top_size ss - Suc j) * 2 ^ Suc j" 
      using step k by (simp del: power_Suc flip: power_add)
    finally show ?thesis by (rule less_mult_imp_div_less)
  qed
  moreover have "Suc j \<le> top_size ss" using step k by simp
  ultimately have "\<not> bit_isset (sz_split (ss ! Suc j)) ?c"
    using isset_split_bits[OF wf] by blast
  moreover have "drop (Suc j) ss = ss ! Suc j # drop (Suc (Suc j)) ss"
    using step k by (simp add: Cons_nth_drop_Suc top_size_def)
  moreover have "blk_index b (Suc j) (addr b k i) = Inr ?c" by (simp only: addr_cell blk_index_cell)
  ultimately show ?case using step.IH by simp
qed

text \<open>The whole memory is never one block in use: it holds the allocator's arrays.\<close>

lemma client_below_top:
  assumes rel: "brel r b ss h F L" and use: "(k, i) \<in> in_use (alloc_bits ss) (split_bits ss)"
    and client: "k = 0 \<longrightarrow> r \<le> i"
  shows "k < top_size ss"
proof (rule ccontr)
  assume "\<not> k < top_size ss"
  note inv = brelD(4)[OF rel]
  have pr: "present (top_size ss) (split_bits ss) k i" by (rule in_use_present[OF inv use])
  with \<open>\<not> k < top_size ss\<close> have k: "k = top_size ss" "i = 0" by (auto simp: present_def)
  have m: "(0, 0) \<in> in_use (alloc_bits ss) (split_bits ss)" using brelD(7,8)[OF rel] by simp
  have "(k, i) \<noteq> (0, 0)" using client brelD(7)[OF rel] by auto
  then have "cells k i \<inter> cells 0 0 = {}"
    using unsplit_disjoint[OF inv pr in_use_present[OF inv m]] use m by (auto simp: in_use_def)
  moreover have "0 \<in> cells k i" "0 \<in> cells 0 0" using k by (auto simp: cells_iff)
  ultimately show False by blast
qed

lemma merge_loop_ok:
  assumes "brel r b ss h F L" and "(k, i) \<in> in_use (alloc_bits ss) (split_bits ss)"
    and "k = 0 \<longrightarrow> r \<le> i" and "n = top_size ss - k"
  shows "\<exists>p k' ss' h' F' L'. merge_loop n b k (addr b k i) k ss h = Inr (p, k', ss', h') \<and>
    k' < length ss' \<and> length ss' = length ss \<and>
    brel r b ss' (List_push (sz_free (ss' ! k')) p h') F' L' \<and>
    in_use (alloc_bits ss') (split_bits ss') = in_use (alloc_bits ss) (split_bits ss) - {(k, i)}"
  using assms
proof (induction n arbitrary: k i ss h F L)
  case 0
  with client_below_top[OF 0(1-3)] show ?case by simp
next
  case (Suc n)
  note rel = Suc.prems(1) and use = Suc.prems(2) and client = Suc.prems(3)
  note wf = brelD(1)[OF rel] and inv = brelD(4)[OF rel]
  let ?U = "in_use (alloc_bits ss) (split_bits ss)"
  have k: "k < top_size ss" by (rule client_below_top[OF rel use client])
  have kt: "k \<le> top_size ss" and ib: "i < 2 ^ (top_size ss - k)"
    using in_use_present[OF inv use] by (auto dest: presentD)
  obtain ss1 where s: "alloc_bit_set ss k i False = Inr ss1" "wf_sizes b ss1"
    "alloc_bits ss1 = setbit (alloc_bits ss) k i False" "split_bits ss1 = split_bits ss"
    "length ss1 = length ss" "top_size ss1 = top_size ss" "\<And>j. sz_free (ss1 ! j) = sz_free (ss ! j)"
    by (rule alloc_bit_set_ok[OF wf kt ib, of False]) blast
  have kl: "k < length ss1" using kt wf s(5) by (simp add: top_size_le)
  have bd: "(if i mod 2 = 0 then i + 1 else i - 1) = buddy_of i" by (simp add: buddy_of_def)
  have isset: "bit_isset (sz_alloc (ss1 ! k)) (buddy_of i) = alloc_bits ss k (buddy_of i)"
    using isset_alloc_bits[OF s(2), of k "buddy_of i"] k ib s(3,6) buddy_of_facts(2)[of i]
    by (simp add: buddy_bound)
  show ?case
  proof (cases "alloc_bits ss k (buddy_of i)")
    case True
    then have "merge_loop (Suc n) b k (addr b k i) k ss h = Inr (addr b k i, k, ss1, h)"
      using s(1) kl isset by (simp add: bd Let_def)
    with brel_release[OF rel use client k True s(1)] kl s(5) show ?thesis by blast
  next
    case False
    let ?h = "List_remove (addr b k (buddy_of i)) h"
    obtain ss2 where ss2: "split_bit_set ss1 (Suc k) (i div 2) False = Inr ss2"
      and rel2: "brel r b ss2 ?h (F(k := F k - {buddy_of i}))
           (L(k := remove1 (addr b k (buddy_of i)) (L k)))"
      and use2: "in_use (alloc_bits ss2) (split_bits ss2) = insert (Suc k, i div 2) (?U - {(k, i)})"
      and len2: "length ss2 = length ss"
      by (rule brel_merge[OF rel use client k False s(1)])
    have n: "n = top_size ss2 - Suc k" using Suc.prems(4) len2 by (simp add: top_size_def)
    from Suc.IH[OF rel2 _ _ n, of "i div 2"] use2 obtain p k' ss' h' F' L'
      where IH: "merge_loop n b (Suc k) (addr b (Suc k) (i div 2)) (Suc k) ss2 ?h = Inr (p, k', ss', h')"
        "k' < length ss'" "length ss' = length ss2"
        "brel r b ss' (List_push (sz_free (ss' ! k')) p h') F' L'"
        "in_use (alloc_bits ss') (split_bits ss') = insert (Suc k, i div 2) (?U - {(k, i)}) - {(Suc k, i div 2)}"
      by auto
    have "merge_loop (Suc n) b k (addr b k i) k ss h = Inr (p, k', ss', h')"
      using s(1) kl isset False ss2 IH(1)
      by (simp add: bd Let_def flip: addr_buddy)
    moreover have "(Suc k, i div 2) \<notin> ?U"
      using in_use_present[OF inv use] k by (auto simp: present_def in_use_def)
    then have "insert (Suc k, i div 2) (?U - {(k, i)}) - {(Suc k, i div 2)} = ?U - {(k, i)}" by blast
    ultimately show ?thesis using IH(2-5) len2 by metis
  qed
qed

section \<open>The entry points\<close>

lemma sizes_update [simp]:
  "wf_sizes (b\<lparr>bd_sizes := s\<rparr>) ss = wf_sizes b ss" "addr (b\<lparr>bd_sizes := s\<rparr>) k i = addr b k i"
  by (simp_all add: wf_sizes_def addr_def)

lemma brel_sizes: "brel r b ss h F L \<Longrightarrow> brel r (b\<lparr>bd_sizes := s\<rparr>) ss h F L"
  by (simp add: brel_def cong: image_cong_simp)

lemma Buddy_size_ok:
  assumes "bd_sizes b = Some ss" and "brel r b ss h F L"
    and "(k, i) \<in> in_use (alloc_bits ss) (split_bits ss)" and "k = 0 \<longrightarrow> r \<le> i"
  shows "Buddy_size b (addr b k i) = Inr k"
  using assms size_loop_ok[OF assms(2,3) client_below_top[OF assms(2-4)], of 0]
  by (simp add: Buddy_size_def)

lemma Buddy_dealloc_ok:
  assumes inv: "buddy_inv r b h" and use: "(k, i) \<in> used_blocks b" and client: "k = 0 \<longrightarrow> r \<le> i"
  shows "\<exists>b' h'. Buddy_dealloc b h (addr b k i) = Inr (b', h') \<and> buddy_inv r b' h' \<and>
    bd_base b' = bd_base b \<and> bd_nsize b' = bd_nsize b \<and> used_blocks b' = used_blocks b - {(k, i)}"
proof -
  from inv obtain ss F L where ss: "bd_sizes b = Some ss" and rel: "brel r b ss h F L"
    by (auto simp: buddy_inv_def)
  from use ss have u: "(k, i) \<in> in_use (alloc_bits ss) (split_bits ss)" by (simp add: used_blocks_def)
  note m = wf_sizesD[OF brelD(1)[OF rel]]
  obtain p k' ss' h' F' L'
    where r: "merge_loop (top_size ss - k) b k (addr b k i) k ss h = Inr (p, k', ss', h')"
      "k' < length ss'" "brel r b ss' (List_push (sz_free (ss' ! k')) p h') F' L'"
      "in_use (alloc_bits ss') (split_bits ss') = in_use (alloc_bits ss) (split_bits ss) - {(k, i)}"
    using merge_loop_ok[OF rel u client refl] by (elim exE conjE) (rule that; assumption)
  have "Buddy_dealloc b h (addr b k i)
      = Inr (b\<lparr>bd_sizes := Some ss'\<rparr>, List_push (sz_free (ss' ! k')) p h')"
    using Buddy_size_ok[OF ss rel u client] ss m(4) r(1,2) by (simp add: Buddy_dealloc_def)
  moreover have "buddy_inv r (b\<lparr>bd_sizes := Some ss'\<rparr>) (List_push (sz_free (ss' ! k')) p h')"
    unfolding buddy_inv_def using brel_sizes[OF r(3)] by fastforce
  ultimately show ?thesis using r(4) ss by (simp add: used_blocks_def)
qed

lemma Buddy_alloc_search:
  assumes ss: "bd_sizes b = Some ss" and rel: "brel r b ss h F L" and al: "ly_align l \<le> MAX_ALIGN"
    and fk: "firstk (ly_size l) = Inr fk" "fk \<le> bd_nsize b"
  obtains (none) "Buddy_alloc b h l = Inr (None, b, h)" and "\<forall>k\<ge>fk. k < length ss \<longrightarrow> F k = {}"
  | (found) i k b' h' where "fk \<le> k" and "k < length ss" and "i \<in> F k"
      and "\<forall>j\<ge>fk. j < k \<longrightarrow> F j = {}"
      and "Buddy_alloc b h l = Inr (Some (addr b k i), b', h')" and "buddy_inv r b' h'"
      and "bd_base b' = bd_base b" and "bd_nsize b' = bd_nsize b"
      and "used_blocks b' = insert (fk, i * 2 ^ (k - fk)) (used_blocks b)"
proof -
  note wf = brelD(1)[OF rel] and fam = brelD(5)[OF rel] and sets = brelD(6)[OF rel]
  note len = wf_sizesD[OF wf]
  define k where "k = find_free (drop fk ss) h fk"
  have fkl: "fk \<le> length ss" using fk len(2) by simp
  note ff = find_free_spec[OF fam fkl, folded k_def]
  have empty: "F j = {}" if "fk \<le> j" "j < k" for j
    using ff that sets[of j] by (auto dest: less_le_trans)
  have eq: "find_free (drop fk (take (bd_nsize b) ss)) h fk = k" using len(2) by (simp add: k_def)
  show thesis
  proof (cases "k < length ss")
    case False
    then have "Buddy_alloc b h l = Inr (None, b, h)"
      using ss al fk len(2) eq by (simp add: Buddy_alloc_def Let_def)
    with none empty ff False show thesis by (metis le_antisym not_less)
  next
    case True
    with ff obtain p xs where L: "L k = p # xs" by (cases "L k") auto
    have kt: "k \<le> top_size ss" using True wf by (simp add: top_size_le)
    obtain i ss1 where t: "p = addr b k i" "i \<in> F k" "alloc_bit_set ss k i True = Inr ss1"
      "brel r b ss1 (List_remove p h) (F(k := F k - {i})) (L(k := xs))"
      "List_pop (sz_free (ss ! k)) h = (Some p, List_remove p h)"
      "in_use (alloc_bits ss1) (split_bits ss1) = insert (k, i) (in_use (alloc_bits ss) (split_bits ss))"
      by (rule brel_take[OF rel kt L])
    have new: "(k, i) \<notin> in_use (alloc_bits ss) (split_bits ss)"
      using free_present[OF brelD(4)[OF rel] t(2)] by (simp add: in_use_def)
    have u1: "(k, i) \<in> in_use (alloc_bits ss1) (split_bits ss1)" using t(6) by simp
    obtain ss2 h2 F2 L2 where s: "split_loop b fk (addr b k i) k ss1 (List_remove p h) = Inr (ss2, h2)"
      "brel r b ss2 h2 F2 L2" "in_use (alloc_bits ss2) (split_bits ss2) = insert (fk, i * 2 ^ (k - fk))
        (in_use (alloc_bits ss1) (split_bits ss1) - {(k, i)})"
      using split_loop_ok[OF t(4) u1 conjunct1[OF ff]] by (elim exE conjE) (rule that; assumption)
    have "p \<noteq> 0" using t(1) brelD(2)[OF rel] by (simp add: addr_def)
    then have "Buddy_alloc b h l = Inr (Some (addr b k i), b\<lparr>bd_sizes := Some ss2\<rparr>, h2)"
      using ss al fk len(2) eq True t(1,3,5) s(1) by (simp add: Buddy_alloc_def Let_def)
    moreover have "buddy_inv r (b\<lparr>bd_sizes := Some ss2\<rparr>) h2"
      unfolding buddy_inv_def using brel_sizes[OF s(2)] by fastforce
    moreover have "used_blocks (b\<lparr>bd_sizes := Some ss2\<rparr>) = insert (fk, i * 2 ^ (k - fk)) (used_blocks b)"
      using s(3) t(6) new ss by (simp add: used_blocks_def)
    ultimately show thesis using found[of k i] ff True t(2) empty by simp
  qed
qed

lemma used_disjoint:
  assumes "buddy_inv r b h" and "(k, i) \<in> used_blocks b" and "(k', i') \<in> used_blocks b"
    and "(k, i) \<noteq> (k', i')"
  shows "cells k i \<inter> cells k' i' = {}"
proof -
  from assms(1) obtain ss F L where ss: "bd_sizes b = Some ss" and rel: "brel r b ss h F L"
    by (auto simp: buddy_inv_def)
  note inv = brelD(4)[OF rel]
  from assms ss have "(k, i) \<in> in_use (alloc_bits ss) (split_bits ss)"
    "(k', i') \<in> in_use (alloc_bits ss) (split_bits ss)" by (auto simp: used_blocks_def)
  with unsplit_disjoint[OF inv in_use_present[OF inv] in_use_present[OF inv]] assms(4)
  show ?thesis by (auto simp: in_use_def)
qed

lemma used_bound:
  assumes "buddy_inv r b h" and "(k, i) \<in> used_blocks b"
  shows "k < bd_nsize b" and "i < 2 ^ (bd_nsize b - 1 - k)"
proof -
  from assms(1) obtain ss F L where ss: "bd_sizes b = Some ss" and rel: "brel r b ss h F L"
    by (auto simp: buddy_inv_def)
  note inv = brelD(4)[OF rel] and len = wf_sizesD[OF brelD(1)[OF rel]]
  have "(k, i) \<in> in_use (alloc_bits ss) (split_bits ss)" using assms ss by (simp add: used_blocks_def)
  from in_use_present[OF inv this] show "k < bd_nsize b" "i < 2 ^ (bd_nsize b - 1 - k)"
    using len(5,6) by (auto simp: present_def)
qed

lemma metadata_used: "buddy_inv r b h \<Longrightarrow> j < r \<Longrightarrow> (0, j) \<in> used_blocks b"
  by (auto simp: buddy_inv_def used_blocks_def dest: brelD(8))

text \<open>What a call of \<^verbatim>\<open>alloc\<close> may do to the blocks in use, seen by its caller.\<close>

definition alloc_result ::
  "nat \<Rightarrow> buddy \<Rightarrow> list_store \<Rightarrow> nat \<Rightarrow> nat option \<Rightarrow> buddy \<Rightarrow> list_store \<Rightarrow> bool" where
  "alloc_result r b h fk res b' h' \<longleftrightarrow>
     buddy_inv r b' h' \<and> bd_base b' = bd_base b \<and> bd_nsize b' = bd_nsize b \<and>
     (case res of
        None \<Rightarrow> b' = b \<and> h' = h \<and>
          (\<forall>k i. fk \<le> k \<longrightarrow> k < bd_nsize b \<longrightarrow> i < 2 ^ (bd_nsize b - 1 - k) \<longrightarrow>
             (\<exists>(k', i')\<in>used_blocks b. cells k' i' \<inter> cells k i \<noteq> {}))
      | Some p \<Rightarrow> \<exists>i. p = addr b fk i \<and> fk < bd_nsize b \<and> (fk, i) \<notin> used_blocks b \<and>
          used_blocks b' = insert (fk, i) (used_blocks b))"

lemma Buddy_alloc_ok:
  assumes inv: "buddy_inv r b h" and al: "ly_align l \<le> MAX_ALIGN"
    and fk: "firstk (ly_size l) = Inr fk" "fk \<le> bd_nsize b"
  shows "\<exists>res b' h'. Buddy_alloc b h l = Inr (res, b', h') \<and> alloc_result r b h fk res b' h'"
proof -
  from inv obtain ss F L where ss: "bd_sizes b = Some ss" and rel: "brel r b ss h F L"
    by (auto simp: buddy_inv_def)
  note binv = brelD(4)[OF rel] and len = wf_sizesD[OF brelD(1)[OF rel]]
  from ss rel al fk show ?thesis
  proof (cases rule: Buddy_alloc_search)
    case none
    have "\<exists>(k', i')\<in>used_blocks b. cells k' i' \<inter> cells k i \<noteq> {}"
      if k: "fk \<le> k" "k < bd_nsize b" "i < 2 ^ (bd_nsize b - 1 - k)" for k i
    proof (rule ccontr)
      assume "\<not> ?thesis"
      then have "\<forall>(k', i')\<in>in_use (alloc_bits ss) (split_bits ss). cells k' i' \<inter> cells k i = {}"
        using ss by (auto simp: used_blocks_def)
      moreover have "k \<le> top_size ss" "i < 2 ^ (top_size ss - k)" using k len(5,6) by auto
      ultimately obtain k' where "k \<le> k'" "k' \<le> top_size ss" "F k' \<noteq> {}"
        using unused_in_free[OF binv] by blast
      with none(2) k(1) len(3) show False by auto
    qed
    with none(1) inv show ?thesis by (auto simp: alloc_result_def)
  next
    case (found i k b' h')
    let ?j = "i * 2 ^ (k - fk)"
    have free: "present (top_size ss) (split_bits ss) k i" "\<not> alloc_bits ss k i" "\<not> split_bits ss k i"
      using free_present[OF binv found(3)] by auto
    have "2 ^ fk * 2 ^ (k - fk) = (2::nat) ^ k" using found(1) by (simp flip: power_add)
    then have mul: "?j * 2 ^ fk = i * 2 ^ k" by (metis mult.assoc mult.commute)
    then have p: "addr b k i = addr b fk ?j" by (simp only: addr_cell)
    have "(fk, ?j) \<notin> used_blocks b"
    proof
      assume "(fk, ?j) \<in> used_blocks b"
      then have u: "(fk, ?j) \<in> in_use (alloc_bits ss) (split_bits ss)" using ss by (simp add: used_blocks_def)
      have "(fk, ?j) \<noteq> (k, i)" using u free(2) by (auto simp: in_use_def)
      with unsplit_disjoint[OF binv in_use_present[OF binv u] free(1) _ free(3)] u
      have "cells fk ?j \<inter> cells k i = {}" by (auto simp: in_use_def)
      moreover have "i * 2 ^ k \<in> cells k i" by (simp add: cells_iff)
      moreover have "?j * 2 ^ fk \<in> cells fk ?j" by (simp only: cells_iff) simp
      ultimately show False using mul by auto
    qed
    with found p len(2) show ?thesis by (auto simp: alloc_result_def)
  qed
qed

end
