(* ===== verification/Kalloc.thy ===== *)
theory Kalloc
  imports BuddyCorrect
begin

text \<open>
  The kernel's global allocator as its clients see it: the promises of the buddy allocator
  (\<^verbatim>\<open>buddy.rs\<close>, \<^verbatim>\<open>kalloc.rs\<close>), the interface of the page allocator
  that the page tables of \<^verbatim>\<open>vm.rs\<close> are built on, and the proof that the buddy
  allocator provides it.
\<close>

section \<open>A concrete allocator\<close>

text \<open>
  An input for the witnesses: \<open>2 ^ m\<close> blocks of 16 bytes at 4096, the first of which is in
  use and holds the list heads, so that one block of every size below \<open>m\<close> is free.
\<close>

definition spine_bits :: "nat \<Rightarrow> nat \<Rightarrow> u8 list" where
  "spine_bits m k = 1 # replicate (2 ^ (m - k) div 8) 0"

definition spine_sizes :: "nat \<Rightarrow> szinfo list" where
  "spine_sizes m =
     map (\<lambda>k. \<lparr>sz_free = 4096 + k, sz_alloc = Some (spine_bits m k),
               sz_split = if k = 0 then None else Some (spine_bits m k)\<rparr>) [0..<Suc m]"

definition spine_buddy :: "nat \<Rightarrow> buddy" where
  "spine_buddy m =
     \<lparr>bd_initialized = True, bd_base = 4096, bd_end = 4096 + blk_size m, bd_nsize = Suc m,
      bd_sizes = Some (spine_sizes m)\<rparr>"

definition spine_links :: "nat \<Rightarrow> nat \<Rightarrow> nat" where
  "spine_links m a =
     (if a < 4096 + m then 4096 + blk_size (a - 4096)
      else case find (\<lambda>k. a = 4096 + blk_size k) [0..<m] of None \<Rightarrow> a | Some k \<Rightarrow> 4096 + k)"

definition spine_store :: "nat \<Rightarrow> list_store" where
  "spine_store m = \<lparr>lnext = spine_links m, lprev = spine_links m\<rparr>"

lemma blk_size_inj: "blk_size k = blk_size j \<longleftrightarrow> k = j"
  by (simp add: blk_size_def LEAF_SIZE_def)

lemma blk_size_ge: "16 \<le> blk_size k"
  by (simp add: blk_size_def LEAF_SIZE_def)

lemma spine_links:
  assumes "m \<le> 15"
  shows "k < m \<Longrightarrow> spine_links m (4096 + k) = 4096 + blk_size k"
    and "k < m \<Longrightarrow> spine_links m (4096 + blk_size k) = 4096 + k"
    and "spine_links m (4096 + m) = 4096 + m"
proof -
  show "spine_links m (4096 + k) = 4096 + blk_size k" if "k < m"
    using that by (simp add: spine_links_def)
  have f: "find (\<lambda>j. blk_size k = blk_size j) [0..<m] = Some k" if "k < m"
    unfolding blk_size_inj find_Some_iff using that by (intro exI[of _ k]) simp
  show "spine_links m (4096 + blk_size k) = 4096 + k" if "k < m"
    using that f assms blk_size_ge[of k] by (simp add: spine_links_def)
  have "m \<noteq> blk_size k" for k using blk_size_ge[of k] assms by simp
  then have "find (\<lambda>j. m = blk_size j) [0..<m] = None" by (simp add: find_None_iff)
  then show "spine_links m (4096 + m) = 4096 + m" by (simp add: spine_links_def)
qed

lemma bit_one: "bit (1::u8) n \<longleftrightarrow> n = 0"
  by (cases n) (simp_all add: bit_1_iff)

lemma spine_isset: "bit_isset (Some (spine_bits m k)) i \<longleftrightarrow> i = 0"
proof (cases "i div 8")
  case 0
  then show ?thesis by (auto simp: bit_isset_Some spine_bits_def bit_one)
next
  case (Suc n)
  then show ?thesis by (auto simp: bit_isset_Some spine_bits_def)
qed

lemma spine_nth: "k \<le> m \<Longrightarrow> spine_sizes m ! k = \<lparr>sz_free = 4096 + k, sz_alloc = Some (spine_bits m k),
    sz_split = if k = 0 then None else Some (spine_bits m k)\<rparr>"
  by (simp add: spine_sizes_def del: upt_Suc)

lemma spine_length: "length (spine_sizes m) = Suc m" "top_size (spine_sizes m) = m"
  by (simp_all add: spine_sizes_def top_size_def)

lemma spine_alloc_bits: "alloc_bits (spine_sizes m) k i \<longleftrightarrow> k \<le> m \<and> i = 0"
  by (auto simp: alloc_bits_def spine_length spine_nth spine_isset less_Suc_eq_le)

lemma spine_split_bits: "split_bits (spine_sizes m) k i \<longleftrightarrow> k \<le> m \<and> 0 < k \<and> i = 0"
  by (auto simp: split_bits_def spine_length spine_nth spine_isset less_Suc_eq_le split: if_splits)

lemma spine_in_use: "in_use (alloc_bits (spine_sizes m)) (split_bits (spine_sizes m)) = {(0, 0)}"
  by (auto simp: in_use_def spine_alloc_bits spine_split_bits)

lemma spine_binv:
  "binv m (alloc_bits (spine_sizes m)) (split_bits (spine_sizes m)) (\<lambda>k. if k < m then {1} else {})"
proof -
  have two: "2 \<le> (2::nat) ^ (m - k)" if "k < m" for k
    using that self_le_power[of "2::nat" "m - k"] by simp
  have pr: "present m (split_bits (spine_sizes m)) k i \<longleftrightarrow> k \<le> m \<and> (i = 0 \<or> k < m \<and> i = 1)" for k i
    using two[of k] by (auto simp: present_def spine_split_bits)
  show ?thesis
    unfolding binv_def pr by (auto simp: spine_alloc_bits spine_split_bits)
qed

lemma spine_inv:
  assumes "m \<le> 15"
  shows "buddy_inv 1 (spine_buddy m) (spine_store m)"
proof -
  let ?L = "\<lambda>k. if k < m then [4096 + blk_size k] else []"
  note links = spine_links[OF assms]
  have "brel 1 (spine_buddy m) (spine_sizes m) (spine_store m) (\<lambda>k. if k < m then {1} else {}) ?L"
    unfolding brel_def
  proof (intro conjI)
    have "2 ^ (m - k) \<le> 8 * length (spine_bits m k)" for k
      using dividend_less_div_times[of 8 "2 ^ (m - k)"] by (simp add: spine_bits_def)
    then show "wf_sizes (spine_buddy m) (spine_sizes m)"
      by (auto simp: wf_sizes_def spine_length spine_nth less_Suc_eq_le) (simp_all add: spine_buddy_def)
    show "binv (top_size (spine_sizes m)) (alloc_bits (spine_sizes m)) (split_bits (spine_sizes m))
        (\<lambda>k. if k < m then {1} else {})"
      using spine_binv by (simp add: spine_length)
    have d: "dlist (spine_store m) (4096 + k) (?L k)" if "k \<le> m" for k
      using links(1)[of k] links(2)[of k] links(3) that blk_size_ge[of k] assms
      by (auto simp: dlist_def spine_store_def)
    have "insert (4096 + j) (set (?L j)) \<inter> insert (4096 + k) (set (?L k)) = {}"
      if "j \<le> m" "k \<le> m" "j \<noteq> k" for j k
      using that assms blk_size_ge[of k] blk_size_ge[of j] by (auto simp: blk_size_inj)
    with d show "list_family dlist (spine_store m) (\<lambda>k. sz_free (spine_sizes m ! k))
        (length (spine_sizes m)) ?L"
      unfolding list_family_def spine_length less_Suc_eq_le by (simp add: spine_nth)
    show "\<forall>k<length (spine_sizes m). set (?L k)
        = addr (spine_buddy m) k ` (if k < m then {1} else {})"
      by (simp add: addr_def spine_buddy_def)
    show "\<forall>j<1. (0, j) \<in> in_use (alloc_bits (spine_sizes m)) (split_bits (spine_sizes m))"
      by (simp add: spine_in_use)
    show "\<forall>k<length (spine_sizes m). bd_base (spine_buddy m) \<le> sz_free (spine_sizes m ! k) \<and>
        sz_free (spine_sizes m ! k) < bd_base (spine_buddy m) + 1 * LEAF_SIZE"
      using assms by (auto simp: spine_length spine_nth spine_buddy_def LEAF_SIZE_def less_Suc_eq_le)
  qed (simp_all add: spine_buddy_def MAX_ALIGN_def)
  moreover have "bd_sizes (spine_buddy m) = Some (spine_sizes m)" by (simp add: spine_buddy_def)
  ultimately show ?thesis unfolding buddy_inv_def by (intro exI conjI)
qed

lemma spine_used: "used_blocks (spine_buddy m) = {(0, 0)}"
  by (simp add: used_blocks_def spine_buddy_def spine_in_use)

lemma spine_fields [simp]: "bd_nsize (spine_buddy m) = Suc m" "bd_base (spine_buddy m) = 4096"
  by (simp_all add: spine_buddy_def)

abbreviation tiny_buddy :: buddy where "tiny_buddy \<equiv> spine_buddy 1"

abbreviation tiny_store :: list_store where "tiny_store \<equiv> spine_store 1"

lemma tiny_inv: "buddy_inv 1 tiny_buddy tiny_store"
  by (rule spine_inv) simp

section \<open>What the allocator promises\<close>

lemma firstk_holds: "firstk n = Inr k \<Longrightarrow> n \<le> blk_size k"
  using firstk_spec[of n] firstk_small[of n]
  by (cases "n \<le> 8"; cases "n \<le> 2 ^ 63")
    (auto simp: blk_size_def LEAF_SIZE_def firstk_def next_power_of_two_def)

lemma firstk_eqI:
  assumes "8 < n" and "n \<le> 2 ^ 63" and "n \<le> blk_size k" and "\<forall>j<k. blk_size j < n"
  shows "firstk n = Inr k"
proof -
  obtain k' where k': "firstk n = Inr k'" "n \<le> blk_size k'" "\<forall>j<k'. blk_size j < n"
    using firstk_spec[OF assms(1,2)] by blast
  have "\<not> k < k'" "\<not> k' < k" using assms(3,4) k' by (auto simp: leD)
  with k'(1) show ?thesis by simp
qed

lemma addr_aligned:
  assumes inv: "buddy_inv r b h" and a: "al = 2 ^ e" "al \<le> MAX_ALIGN" "al dvd n" "0 < n" "n \<le> blk_size k"
  shows "al dvd addr b k i"
proof -
  have "bd_base b mod MAX_ALIGN = 0" using inv by (auto simp: buddy_inv_def dest: brelD(3))
  moreover have "e \<le> 12"
    using a(1,2) power_increasing_iff[of "2::nat" e 12] by (simp add: MAX_ALIGN_def)
  then have "al dvd MAX_ALIGN" using a(1) le_imp_power_dvd[of e 12 "2::nat"] by (simp add: MAX_ALIGN_def)
  ultimately have "al dvd bd_base b" by (metis dvd_trans mod_0_imp_dvd)
  moreover have "al dvd blk_size k"
  proof -
    have "al \<le> n" using a(3,4) by (rule dvd_imp_le)
    with a(1,5) have "2 ^ e \<le> (2::nat) ^ (k + 4)" by (simp add: blk_size_def LEAF_SIZE_def power_add)
    then have "e \<le> k + 4" using power_increasing_iff[of "2::nat" e "k + 4"] by simp
    then show ?thesis
      using a(1) le_imp_power_dvd[of e "k + 4" "2::nat"] by (simp add: blk_size_def LEAF_SIZE_def power_add)
  qed
  ultimately show ?thesis by (simp add: addr_def)
qed

text \<open>
  (C2) Allocation: a request that the size classes can express never panics. It either
  returns a block of the smallest sufficient size class that overlaps no block in use, and
  adds exactly this block to the blocks in use, or reports failure without changing
  anything, and then every aligned block of sufficient size overlaps memory in use: the
  search is complete.
\<close>

theorem Buddy_alloc_correct:
  assumes "buddy_inv r b h" and "ly_align l \<le> MAX_ALIGN" and "8 < ly_size l"
    and "ly_size l \<le> blk_size (bd_nsize b)" and "ly_size l \<le> 2 ^ 63"
  shows "\<exists>fk res b' h'. Buddy_alloc b h l = Inr (res, b', h') \<and>
    ly_size l \<le> blk_size fk \<and> (\<forall>k<fk. blk_size k < ly_size l) \<and>
    alloc_result r b h fk res b' h' \<and>
    (\<forall>p. res = Some p \<longrightarrow> (\<exists>i. p = addr b fk i \<and>
       (\<forall>(k', i')\<in>used_blocks b. cells k' i' \<inter> cells fk i = {})))"
proof -
  obtain fk where fk: "firstk (ly_size l) = Inr fk" "ly_size l \<le> blk_size fk" "\<forall>k<fk. blk_size k < ly_size l"
    using firstk_spec[OF assms(3,5)] by blast
  have "fk \<le> bd_nsize b" using fk(3) assms(4) by (meson not_less)
  from Buddy_alloc_ok[OF assms(1,2) fk(1) this] obtain res b' h'
    where r: "Buddy_alloc b h l = Inr (res, b', h')" "alloc_result r b h fk res b' h'" by blast
  have "\<exists>i. p = addr b fk i \<and> (\<forall>(k', i')\<in>used_blocks b. cells k' i' \<inter> cells fk i = {})"
    if "res = Some p" for p
  proof -
    from r(2) that obtain i where i: "p = addr b fk i" "(fk, i) \<notin> used_blocks b"
      "used_blocks b' = insert (fk, i) (used_blocks b)" "buddy_inv r b' h'"
      by (auto simp: alloc_result_def)
    have "cells k' i' \<inter> cells fk i = {}" if "(k', i') \<in> used_blocks b" for k' i'
      using used_disjoint[OF i(4), of k' i' fk i] that i(2,3) by auto
    with i(1) show ?thesis by blast
  qed
  with r fk show ?thesis by blast
qed

theorem Buddy_alloc_correct_witness:
  "\<exists>res b' h'. Buddy_alloc tiny_buddy tiny_store \<lparr>ly_size = 16, ly_align = 8\<rparr> = Inr (res, b', h')"
proof -
  have "(16::nat) \<le> blk_size (bd_nsize tiny_buddy)"
    by (simp add: blk_size_def LEAF_SIZE_def spine_buddy_def)
  then show ?thesis
    using Buddy_alloc_correct[OF tiny_inv, of "\<lparr>ly_size = 16, ly_align = 8\<rparr>"]
    by (auto simp: MAX_ALIGN_def)
qed

text \<open>
  (C3) Deallocation of a block in use, other than the allocator's own arrays, never panics
  and removes exactly this block from the blocks in use, however many buddies it merges.
\<close>

theorem Buddy_dealloc_correct:
  assumes "buddy_inv r b h" and "(k, i) \<in> used_blocks b" and "k = 0 \<longrightarrow> r \<le> i"
  shows "\<exists>b' h'. Buddy_dealloc b h (addr b k i) = Inr (b', h') \<and> buddy_inv r b' h' \<and>
    bd_base b' = bd_base b \<and> bd_nsize b' = bd_nsize b \<and> used_blocks b' = used_blocks b - {(k, i)}"
  using assms by (rule Buddy_dealloc_ok)

lemma alloc_Some_client:
  assumes inv: "buddy_inv r b h" and al: "Buddy_alloc b h l = Inr (Some p, b', h')"
  obtains k i where "p = addr b k i" and "ly_size l \<le> blk_size k" and "k = 0 \<longrightarrow> r \<le> i"
    and "(k, i) \<notin> used_blocks b" and "used_blocks b' = insert (k, i) (used_blocks b)"
    and "buddy_inv r b' h'" and "bd_base b' = bd_base b" and "bd_nsize b' = bd_nsize b"
proof -
  obtain ss where ss: "bd_sizes b = Some ss" using inv by (auto simp: buddy_inv_def)
  obtain fk where fk: "firstk (ly_size l) = Inr fk"
    using al ss by (cases "firstk (ly_size l)") (auto simp: Buddy_alloc_def split: if_splits)
  have "ly_align l \<le> MAX_ALIGN" "fk \<le> bd_nsize b"
    using al ss fk by (auto simp: Buddy_alloc_def split: if_splits)
  from Buddy_alloc_ok[OF inv this(1) fk this(2)] al
  have r: "alloc_result r b h fk (Some p) b' h'" by auto
  then obtain i where i: "p = addr b fk i" "(fk, i) \<notin> used_blocks b"
    "used_blocks b' = insert (fk, i) (used_blocks b)" by (auto simp: alloc_result_def)
  have cl: "fk = 0 \<longrightarrow> r \<le> i" using i(2) metadata_used[OF inv, of i] by (metis not_less)
  have "buddy_inv r b' h'" "bd_base b' = bd_base b" "bd_nsize b' = bd_nsize b"
    using r by (simp_all add: alloc_result_def)
  then show thesis by (rule that[OF i(1) firstk_holds[OF fk] cl i(2,3)])
qed

lemma tiny_alloc:
  "\<exists>b h. Buddy_alloc tiny_buddy tiny_store \<lparr>ly_size = 16, ly_align = 8\<rparr> = Inr (Some 4112, b, h) \<and>
     buddy_inv 1 b h \<and> used_blocks b = {(0, 0), (0, 1)} \<and> bd_base b = 4096"
proof -
  let ?l = "\<lparr>ly_size = 16, ly_align = 8\<rparr>"
  have fk: "firstk (ly_size ?l) = Inr 0"
    by (rule firstk_eqI) (simp_all add: blk_size_def LEAF_SIZE_def)
  from Buddy_alloc_ok[OF tiny_inv _ fk] obtain res b h
    where r: "Buddy_alloc tiny_buddy tiny_store ?l = Inr (res, b, h)"
      "alloc_result 1 tiny_buddy tiny_store 0 res b h"
    by (auto simp: MAX_ALIGN_def)
  have "res \<noteq> None"
  proof
    assume "res = None"
    with r(2) have "0 < bd_nsize tiny_buddy \<longrightarrow> 1 < (2::nat) ^ (bd_nsize tiny_buddy - 1) \<longrightarrow>
        (\<exists>(k', i')\<in>used_blocks tiny_buddy. cells k' i' \<inter> cells 0 1 \<noteq> {})"
      by (simp add: alloc_result_def del: One_nat_def)
    then have "cells 0 0 \<inter> cells 0 1 \<noteq> {}" by (simp add: spine_used)
    then show False by (auto simp: cells_iff)
  qed
  with r(2) obtain i where i: "res = Some (addr tiny_buddy 0 i)" "(0, i) \<notin> used_blocks tiny_buddy"
    "used_blocks b = insert (0, i) (used_blocks tiny_buddy)" "buddy_inv 1 b h"
    "bd_base b = bd_base tiny_buddy" "bd_nsize b = bd_nsize tiny_buddy"
    by (auto simp: alloc_result_def)
  have "i < 2" using used_bound(2)[OF i(4), of 0 i] i(3,6) by (simp add: spine_buddy_def)
  with i(2) have "i = 1" by (cases i) (auto simp: spine_used)
  moreover have "bd_base tiny_buddy = 4096" by (simp add: spine_buddy_def)
  ultimately show ?thesis
    using r(1) i(1,3-5)
    by (intro exI[of _ b] exI[of _ h]) (auto simp: spine_used addr_def blk_size_def LEAF_SIZE_def)
qed

theorem Buddy_dealloc_correct_witness:
  "\<exists>b h b' h'. (0, 1) \<in> used_blocks b \<and> Buddy_dealloc b h 4112 = Inr (b', h') \<and>
     used_blocks b' = {(0, 0)}"
proof -
  obtain b h where t: "buddy_inv 1 b h" "used_blocks b = {(0, 0), (0, 1)}" "bd_base b = 4096"
    using tiny_alloc by blast
  have "addr b 0 1 = 4112" using t(3) by (simp add: addr_def blk_size_def LEAF_SIZE_def)
  moreover have "(0, 1) \<in> used_blocks b" "(0::nat) = 0 \<longrightarrow> 1 \<le> (1::nat)" using t(2) by simp_all
  note Buddy_dealloc_correct[OF t(1) this]
  moreover have "used_blocks b - {(0, 1)} = {(0, 0)}" using t(2) by auto
  ultimately show ?thesis using \<open>(0, 1) \<in> used_blocks b\<close> by metis
qed

text \<open>
  Round trip: returning a block right after it was allocated succeeds and restores the
  set of blocks in use.
\<close>

theorem Buddy_alloc_dealloc:
  assumes "buddy_inv r b h" and "Buddy_alloc b h l = Inr (Some p, b', h')"
  shows "\<exists>b'' h''. Buddy_dealloc b' h' p = Inr (b'', h'') \<and> buddy_inv r b'' h'' \<and>
    used_blocks b'' = used_blocks b"
proof -
  obtain k i where a: "p = addr b k i" "k = 0 \<longrightarrow> r \<le> i" "(k, i) \<notin> used_blocks b"
    "used_blocks b' = insert (k, i) (used_blocks b)" "buddy_inv r b' h'" "bd_base b' = bd_base b"
    by (rule alloc_Some_client[OF assms])
  have u: "(k, i) \<in> used_blocks b'" and p: "addr b' k i = p" and d: "used_blocks b' - {(k, i)} = used_blocks b"
    using a by (simp_all add: addr_def)
  show ?thesis using Buddy_dealloc_ok[OF a(5) u a(2)] unfolding p d by blast
qed

theorem Buddy_alloc_dealloc_witness:
  "\<exists>b' h' b'' h''.
     Buddy_alloc tiny_buddy tiny_store \<lparr>ly_size = 16, ly_align = 8\<rparr> = Inr (Some 4112, b', h') \<and>
     Buddy_dealloc b' h' 4112 = Inr (b'', h'') \<and> used_blocks b'' = used_blocks tiny_buddy"
proof -
  obtain b' h'
    where a: "Buddy_alloc tiny_buddy tiny_store \<lparr>ly_size = 16, ly_align = 8\<rparr> = Inr (Some 4112, b', h')"
    using tiny_alloc by (elim exE conjE)
  from Buddy_alloc_dealloc[OF tiny_inv this] a show ?thesis by metis
qed

text \<open>
  A request of at most eight bytes panics: \<^verbatim>\<open>firstk\<close> rounds the quotient to 0,
  whose \<^verbatim>\<open>trailing_zeros\<close> is 64, and \<^verbatim>\<open>sizes[64..nsize]\<close> is out of
  range.
\<close>

theorem Buddy_alloc_small_panics:
  assumes "bd_sizes b \<noteq> None" and "bd_nsize b < 64" and "ly_align l \<le> MAX_ALIGN" and "ly_size l \<le> 8"
  shows "Buddy_alloc b h l = Inl OutOfBounds"
  using assms firstk_small[OF assms(4)] by (auto simp: Buddy_alloc_def)

theorem Buddy_alloc_small_panics_witness:
  "Buddy_alloc tiny_buddy tiny_store \<lparr>ly_size = 8, ly_align = 8\<rparr> = Inl OutOfBounds"
  by (rule Buddy_alloc_small_panics) (simp_all add: spine_buddy_def MAX_ALIGN_def)

section \<open>Runs of clients\<close>

text \<open>
  Kernel code calls \<^verbatim>\<open>alloc\<close> and \<^verbatim>\<open>dealloc\<close> in any order; it
  returns only what it holds. \<open>own\<close> maps the address of every live allocation to its layout.
\<close>

inductive kmem_run :: "buddy \<Rightarrow> list_store \<Rightarrow> buddy \<Rightarrow> list_store \<Rightarrow> (nat \<rightharpoonup> layout) \<Rightarrow> bool"
  for b0 h0 where
  run_start: "kmem_run b0 h0 b0 h0 Map.empty"
| run_alloc: "kmem_run b0 h0 b h own \<Longrightarrow> Kmem_alloc b h l = Inr (p, b', h') \<Longrightarrow> p \<noteq> 0 \<Longrightarrow>
    kmem_run b0 h0 b' h' (own(p \<mapsto> l))"
| run_full: "kmem_run b0 h0 b h own \<Longrightarrow> Kmem_alloc b h l = Inr (0, b', h') \<Longrightarrow>
    kmem_run b0 h0 b' h' own"
| run_dealloc: "kmem_run b0 h0 b h own \<Longrightarrow> own p = Some l \<Longrightarrow> Kmem_dealloc b h p = Inr (b', h') \<Longrightarrow>
    kmem_run b0 h0 b' h' (own(p := None))"

definition owns :: "nat \<Rightarrow> buddy \<Rightarrow> (nat \<rightharpoonup> layout) \<Rightarrow> bool" where
  "owns r b own \<longleftrightarrow>
     (\<forall>p l. own p = Some l \<longrightarrow>
        (\<exists>k i. p = addr b k i \<and> (k, i) \<in> used_blocks b \<and> (k = 0 \<longrightarrow> r \<le> i) \<and> ly_size l \<le> blk_size k))"

lemma block_bytes:
  "x \<in> {addr b k i ..< addr b k i + blk_size k} \<Longrightarrow> (x - bd_base b) div LEAF_SIZE \<in> cells k i"
proof -
  assume "x \<in> {addr b k i ..< addr b k i + blk_size k}"
  then have "i * 2 ^ k * LEAF_SIZE \<le> x - bd_base b" "x - bd_base b < (i + 1) * 2 ^ k * LEAF_SIZE"
    by (auto simp: addr_def blk_size_def algebra_simps)
  then have "i * 2 ^ k \<le> (x - bd_base b) div LEAF_SIZE" "(x - bd_base b) div LEAF_SIZE < (i + 1) * 2 ^ k"
    by (simp_all add: less_eq_div_iff_mult_less_eq div_less_iff_less_mult LEAF_SIZE_def)
  then show ?thesis by (simp add: cells_def)
qed

lemma block_bytes_disjoint:
  "cells k i \<inter> cells k' i' = {} \<Longrightarrow>
   {addr b k i ..< addr b k i + blk_size k} \<inter> {addr b k' i' ..< addr b k' i' + blk_size k'} = {}"
  using block_bytes by (metis (no_types, lifting) disjoint_iff)

lemma client_above_metadata:
  assumes "buddy_inv r b h" and "(k, i) \<in> used_blocks b" and "k = 0 \<longrightarrow> r \<le> i"
  shows "bd_base b + r * LEAF_SIZE \<le> addr b k i"
proof (rule ccontr)
  assume "\<not> ?thesis"
  then have x: "i * 2 ^ k < r" by (simp add: addr_cell)
  from used_disjoint[OF assms(1,2) metadata_used[OF assms(1) x]] assms(3) x
  have "cells k i \<inter> cells 0 (i * 2 ^ k) = {}" by (cases k) auto
  moreover have "i * 2 ^ k \<in> cells k i" "i * 2 ^ k \<in> cells 0 (i * 2 ^ k)" by (simp_all add: cells_iff)
  ultimately show False by blast
qed

lemma addr_pos: "buddy_inv r b h \<Longrightarrow> 0 < addr b k i"
  by (auto simp: buddy_inv_def addr_def dest: brelD(2))

lemma same_addr_used:
  assumes "buddy_inv r b h" and "(k, i) \<in> used_blocks b" and "(k', i') \<in> used_blocks b"
    and "addr b k i = addr b k' i'"
  shows "(k, i) = (k', i')"
  using used_disjoint[OF assms(1-3)] addr_eq_cells[OF assms(4)] by blast

lemma Kmem_alloc_cases:
  assumes inv: "buddy_inv r b h" and al: "Kmem_alloc b h l = Inr (p, b', h')"
  obtains "p = 0" and "b' = b" and "h' = h"
  | "p \<noteq> 0" and "Buddy_alloc b h l = Inr (Some p, b', h')"
proof -
  obtain res where res: "Buddy_alloc b h l = Inr (res, b', h')" "p = (case res of None \<Rightarrow> 0 | Some q \<Rightarrow> q)"
    using al by (auto simp: Kmem_alloc_def rbind_Inr_iff)
  show thesis
  proof (cases res)
    case (Some q)
    obtain k i where "q = addr b k i" by (rule alloc_Some_client[OF inv res(1)[unfolded Some]])
    with addr_pos[OF inv, of k i] Some res that(2) show thesis by simp
  next
    case None
    obtain ss where ss: "bd_sizes b = Some ss" using inv by (auto simp: buddy_inv_def)
    show thesis
    proof (cases "ly_align l \<le> MAX_ALIGN")
      case False
      with res None ss that(1) show thesis by (simp add: Buddy_alloc_def)
    next
      case True
      obtain fk where fk: "firstk (ly_size l) = Inr fk"
        using res(1) ss True by (cases "firstk (ly_size l)") (auto simp: Buddy_alloc_def)
      with res(1) ss True have "fk \<le> bd_nsize b" by (auto simp: Buddy_alloc_def split: if_splits)
      with Buddy_alloc_ok[OF inv True fk] res(1) None have "alloc_result r b h fk None b' h'" by auto
      with None res(2) that(1) show thesis by (simp add: alloc_result_def)
    qed
  qed
qed

lemma owns_update:
  assumes own: "owns r b own" and base: "bd_base b' = bd_base b"
    and kept: "\<And>p l k i. own' p = Some l \<Longrightarrow> own p = Some l \<Longrightarrow> (k, i) \<in> used_blocks b \<Longrightarrow>
      p = addr b k i \<Longrightarrow> (k, i) \<in> used_blocks b'"
    and new: "\<And>p l. own' p = Some l \<Longrightarrow> own p \<noteq> Some l \<Longrightarrow>
      \<exists>k i. p = addr b k i \<and> (k, i) \<in> used_blocks b' \<and> (k = 0 \<longrightarrow> r \<le> i) \<and> ly_size l \<le> blk_size k"
  shows "owns r b' own'"
proof -
  have a: "addr b' k i = addr b k i" for k i using base by (simp add: addr_def)
  have "\<exists>k i. p = addr b k i \<and> (k, i) \<in> used_blocks b' \<and> (k = 0 \<longrightarrow> r \<le> i) \<and> ly_size l \<le> blk_size k"
    if o: "own' p = Some l" for p l
  proof (cases "own p = Some l")
    case True
    with own obtain k i where "p = addr b k i" "(k, i) \<in> used_blocks b" "k = 0 \<longrightarrow> r \<le> i"
      "ly_size l \<le> blk_size k" unfolding owns_def by metis
    with kept[OF o True] show ?thesis by blast
  next
    case False
    then show ?thesis by (rule new[OF o])
  qed
  then show ?thesis by (simp add: owns_def a)
qed

lemma run_invariant:
  assumes "kmem_run b0 h0 b h own" and "buddy_inv r b0 h0"
  shows "buddy_inv r b h \<and> owns r b own \<and> bd_base b = bd_base b0"
  using assms
proof (induction rule: kmem_run.induct)
  case run_start
  then show ?case by (simp add: owns_def)
next
  case (run_alloc b h own l p b' h')
  then have inv: "buddy_inv r b h" and own: "owns r b own" by auto
  have al: "Buddy_alloc b h l = Inr (Some p, b', h')"
    using Kmem_alloc_cases[OF inv run_alloc.hyps(2)] run_alloc.hyps(3) by blast
  obtain k i where a: "p = addr b k i" "ly_size l \<le> blk_size k" "k = 0 \<longrightarrow> r \<le> i"
    "(k, i) \<notin> used_blocks b" "used_blocks b' = insert (k, i) (used_blocks b)"
    "buddy_inv r b' h'" "bd_base b' = bd_base b" "bd_nsize b' = bd_nsize b"
    by (rule alloc_Some_client[OF inv al])
  have "owns r b' (own(p \<mapsto> l))"
    by (rule owns_update[OF own a(7)]) (use a in \<open>auto split: if_splits\<close>)
  moreover have "bd_base b' = bd_base b0" using a(7) run_alloc by simp
  ultimately show ?case using a(6) by blast
next
  case (run_full b h own l b' h')
  then have "buddy_inv r b h" by auto
  from Kmem_alloc_cases[OF this run_full.hyps(2)] have "b' = b" "h' = h" by auto
  with run_full show ?case by simp
next
  case (run_dealloc b h own p l b' h')
  then have inv: "buddy_inv r b h" and own: "owns r b own" by auto
  obtain k i where p: "p = addr b k i" "(k, i) \<in> used_blocks b" "k = 0 \<longrightarrow> r \<le> i"
    using own run_dealloc.hyps(2) unfolding owns_def by metis
  from Buddy_dealloc_ok[OF inv p(2,3)] run_dealloc.hyps(3) p(1)
  have d: "buddy_inv r b' h'" "bd_base b' = bd_base b" "used_blocks b' = used_blocks b - {(k, i)}"
    by (auto simp: Kmem_dealloc_def)
  have "owns r b' (own(p := None))"
    by (rule owns_update[OF own d(2)]) (use d(3) p(1) same_addr_used[OF inv p(2)] in \<open>auto split: if_splits\<close>)
  moreover have "bd_base b' = bd_base b0" using d(2) run_dealloc by simp
  ultimately show ?case using d(1) by blast
qed

text \<open>
  (C1) Memory safety of the kernel heap: after any sequence of allocations and deallocations
  by clients that return only what they hold, live allocations are pairwise disjoint, none
  touches the allocator's own arrays, and each of them can be returned without a panic.
\<close>

theorem kmem_run_safe:
  assumes run: "kmem_run b0 h0 b h own" and inv0: "buddy_inv r b0 h0"
    and p: "own p = Some l"
  shows "(\<forall>q m. own q = Some m \<longrightarrow> p \<noteq> q \<longrightarrow> {p ..< p + ly_size l} \<inter> {q ..< q + ly_size m} = {}) \<and>
    bd_base b0 + r * LEAF_SIZE \<le> p \<and>
    (\<exists>b' h'. Kmem_dealloc b h p = Inr (b', h'))"
proof -
  have inv: "buddy_inv r b h" and own: "owns r b own" and base: "bd_base b = bd_base b0"
    using run_invariant[OF run inv0] by auto
  from own p obtain k i where i: "p = addr b k i" "(k, i) \<in> used_blocks b" "k = 0 \<longrightarrow> r \<le> i"
    "ly_size l \<le> blk_size k" unfolding owns_def by metis
  have "{p ..< p + ly_size l} \<inter> {q ..< q + ly_size m} = {}" if q: "own q = Some m" "p \<noteq> q" for q m
  proof -
    from own q obtain k' i' where i': "q = addr b k' i'" "(k', i') \<in> used_blocks b"
      "ly_size m \<le> blk_size k'" unfolding owns_def by metis
    have "(k, i) \<noteq> (k', i')" using q i i' by auto
    from used_disjoint[OF inv i(2) i'(2) this]
    have "{addr b k i ..< addr b k i + blk_size k} \<inter> {addr b k' i' ..< addr b k' i' + blk_size k'} = {}"
      by (rule block_bytes_disjoint)
    with i i' show ?thesis by fastforce
  qed
  moreover have "bd_base b0 + r * LEAF_SIZE \<le> p"
    using client_above_metadata[OF inv i(2,3)] base i(1) by simp
  moreover have "\<exists>b' h'. Kmem_dealloc b h p = Inr (b', h')"
    using Buddy_dealloc_ok[OF inv i(2,3)] i(1) by (auto simp: Kmem_dealloc_def)
  ultimately show ?thesis by blast
qed

theorem kmem_run_safe_witness:
  "\<exists>b h. kmem_run tiny_buddy tiny_store b h [4112 \<mapsto> \<lparr>ly_size = 16, ly_align = 8\<rparr>] \<and>
     (\<exists>b' h'. Kmem_dealloc b h 4112 = Inr (b', h'))"
proof -
  let ?l = "\<lparr>ly_size = 16, ly_align = 8\<rparr>"
  obtain b h where a: "Buddy_alloc tiny_buddy tiny_store ?l = Inr (Some 4112, b, h)"
    using tiny_alloc by (elim exE conjE)
  then have "Kmem_alloc tiny_buddy tiny_store ?l = Inr (4112, b, h)" by (simp add: Kmem_alloc_def)
  from run_alloc[OF run_start this] have run: "kmem_run tiny_buddy tiny_store b h [4112 \<mapsto> ?l]" by simp
  from kmem_run_safe[OF run tiny_inv, of 4112 ?l] run show ?thesis by auto
qed

end
