(* ===== verification/PageAlloc.thy ===== *)
theory PageAlloc
  imports Kalloc
begin

text \<open>
  The page allocator \<^verbatim>\<open>vm.rs\<close> builds page tables with: whole pages obtained through
  \<^verbatim>\<open>PageAllocator::try_new_zeroed\<close> and returned by dropping their box. The locale
  states what the page-table code relies on; the kernel's buddy allocator provides it.
\<close>

section \<open>The interface\<close>

definition page_addr :: "nat \<Rightarrow> bool" where
  "page_addr p \<longleftrightarrow> 0 < p \<and> p mod 4096 = 0 \<and> p < 2 ^ 64"

locale page_allocator =
  fixes palloc :: "'s \<Rightarrow> (nat option \<times> 's) rust"
    and pfree :: "'s \<Rightarrow> nat \<Rightarrow> 's rust"
    and inv :: "'s \<Rightarrow> bool"
    and pages :: "'s \<Rightarrow> nat set"
  assumes palloc_returns: "inv s \<Longrightarrow> \<exists>r s'. palloc s = Inr (r, s')"
    and palloc_None: "inv s \<Longrightarrow> palloc s = Inr (None, s') \<Longrightarrow> s' = s"
    and palloc_Some: "inv s \<Longrightarrow> palloc s = Inr (Some p, s') \<Longrightarrow>
      inv s' \<and> p \<notin> pages s \<and> pages s' = insert p (pages s)"
    and pfree_ok: "inv s \<Longrightarrow> p \<in> pages s \<Longrightarrow>
      \<exists>s'. pfree s p = Inr s' \<and> inv s' \<and> pages s' = pages s - {p}"
    and pages_addr: "inv s \<Longrightarrow> p \<in> pages s \<Longrightarrow> page_addr p"
begin

lemma palloc_cases:
  assumes "inv s"
  obtains (full) "palloc s = Inr (None, s)"
  | (page) p s' where "palloc s = Inr (Some p, s')" and "inv s'" and "p \<notin> pages s"
      and "pages s' = insert p (pages s)" and "page_addr p"
proof -
  from palloc_returns[OF assms] obtain r s' where r: "palloc s = Inr (r, s')" by blast
  show thesis
  proof (cases r)
    case None
    with r palloc_None[OF assms] full show thesis by simp
  next
    case (Some p)
    with palloc_Some[OF assms] r have "inv s'" "p \<notin> pages s" "pages s' = insert p (pages s)" by auto
    with pages_addr[of s' p] r Some page show thesis by simp
  qed
qed

end

section \<open>The kernel's provider\<close>

type_synonym kmem = "buddy \<times> list_store"

definition page_layout :: layout where
  "page_layout = \<lparr>ly_size = 4096, ly_align = 4096\<rparr>"

text \<open>
  \<^verbatim>\<open>Box::<Page>::try_new_zeroed\<close> calls the global allocator with the layout of
  \<^verbatim>\<open>Page\<close> and fails on the null pointer; the zeroing acts on the memory of the
  page and belongs to its users.
\<close>

definition page_new :: "kmem \<Rightarrow> (nat option \<times> kmem) rust" where
  "page_new s =
     rbind (Kmem_alloc (fst s) (snd s) page_layout) (\<lambda>(p, b, h).
       Inr (if p = 0 then None else Some p, (b, h)))"

definition page_drop :: "kmem \<Rightarrow> nat \<Rightarrow> kmem rust" where
  "page_drop s p = Kmem_dealloc (fst s) (snd s) p"

definition kmem_inv :: "kmem \<Rightarrow> bool" where
  "kmem_inv s \<longleftrightarrow>
     (\<exists>r. buddy_inv r (fst s) (snd s)) \<and> 8 \<le> bd_nsize (fst s) \<and>
     bd_base (fst s) + blk_size (bd_nsize (fst s) - 1) \<le> 2 ^ 64"

definition kmem_pages :: "kmem \<Rightarrow> nat set" where
  "kmem_pages s = {addr (fst s) 8 i | i. (8, i) \<in> used_blocks (fst s)}"

lemma firstk_page: "firstk (ly_size page_layout) = Inr 8"
proof (rule firstk_eqI)
  have "2 ^ j \<le> (2::nat) ^ 7" if "j < 8" for j using that by (intro power_increasing) simp_all
  then show "\<forall>j<8. blk_size j < ly_size page_layout"
    by (fastforce simp: blk_size_def LEAF_SIZE_def page_layout_def)
qed (simp_all add: page_layout_def blk_size_def LEAF_SIZE_def)

lemma page_block_addr:
  assumes inv: "kmem_inv s" and i: "(8, i) \<in> used_blocks (fst s)"
  shows "page_addr (addr (fst s) 8 i)"
proof -
  let ?b = "fst s"
  obtain r where r: "buddy_inv r ?b (snd s)" using inv by (auto simp: kmem_inv_def)
  have "bd_base ?b mod 4096 = 0" using r by (auto simp: buddy_inv_def MAX_ALIGN_def dest: brelD(3))
  then have "addr ?b 8 i mod 4096 = 0" by (simp add: addr_def blk_size_def LEAF_SIZE_def mod_add_left_eq)
  moreover have "0 < addr ?b 8 i" by (rule addr_pos[OF r])
  moreover have "addr ?b 8 i < 2 ^ 64"
  proof -
    let ?m = "bd_nsize ?b - 1"
    have "8 \<le> ?m" "i < 2 ^ (?m - 8)" using used_bound[OF r i] by auto
    then have "i * 2 ^ 8 < 2 ^ (?m - 8) * 2 ^ 8" by simp
    also have "\<dots> = 2 ^ ?m" using \<open>8 \<le> ?m\<close> by (subst power_add[symmetric]) simp
    finally have "addr ?b 8 i < bd_base ?b + blk_size ?m" by (simp add: addr_def blk_size_def LEAF_SIZE_def)
    with inv show ?thesis by (simp add: kmem_inv_def)
  qed
  ultimately show ?thesis by (simp add: page_addr_def)
qed

lemma page_new_ok:
  assumes inv: "kmem_inv s"
  obtains (full) "page_new s = Inr (None, s)"
  | (page) p s' where "page_new s = Inr (Some p, s')" and "kmem_inv s'" and "p \<notin> kmem_pages s"
      and "kmem_pages s' = insert p (kmem_pages s)"
proof -
  let ?b = "fst s" and ?h = "snd s"
  obtain r where r: "buddy_inv r ?b ?h" "8 \<le> bd_nsize ?b" using inv by (auto simp: kmem_inv_def)
  have "ly_align page_layout \<le> MAX_ALIGN" by (simp add: page_layout_def MAX_ALIGN_def)
  from Buddy_alloc_ok[OF r(1) this firstk_page r(2)] obtain res b' h'
    where a: "Buddy_alloc ?b ?h page_layout = Inr (res, b', h')" "alloc_result r ?b ?h 8 res b' h'"
    by blast
  show thesis
  proof (cases res)
    case None
    with a have "page_new s = Inr (None, s)"
      by (simp add: page_new_def Kmem_alloc_def alloc_result_def)
    then show thesis by (rule full)
  next
    case (Some p)
    then obtain i where i: "p = addr ?b 8 i" "(8, i) \<notin> used_blocks ?b"
      "used_blocks b' = insert (8, i) (used_blocks ?b)" "bd_base b' = bd_base ?b"
      "bd_nsize b' = bd_nsize ?b" "buddy_inv r b' h'" using a(2) by (auto simp: alloc_result_def)
    have same: "addr b' k j = addr ?b k j" for k j using i(4) by (simp add: addr_def)
    have "page_new s = Inr (Some p, (b', h'))"
      using a(1) Some i(1) addr_pos[OF r(1), of 8 i] by (simp add: page_new_def Kmem_alloc_def)
    moreover have "kmem_inv (b', h')" using inv i(4-6) by (auto simp: kmem_inv_def)
    moreover have "p \<notin> kmem_pages s" using i(1,2) by (auto simp: kmem_pages_def addr_inj)
    moreover have "kmem_pages (b', h') = insert p (kmem_pages s)"
      using i(1,3) same by (auto simp: kmem_pages_def)
    ultimately show thesis by (rule page)
  qed
qed

lemma page_drop_ok:
  assumes inv: "kmem_inv s" and p: "p \<in> kmem_pages s"
  shows "\<exists>s'. page_drop s p = Inr s' \<and> kmem_inv s' \<and> kmem_pages s' = kmem_pages s - {p}"
proof -
  obtain r where r: "buddy_inv r (fst s) (snd s)" using inv by (auto simp: kmem_inv_def)
  from p obtain i where i: "p = addr (fst s) 8 i" "(8, i) \<in> used_blocks (fst s)"
    by (auto simp: kmem_pages_def)
  from Buddy_dealloc_ok[OF r i(2)] obtain b' h'
    where d: "Buddy_dealloc (fst s) (snd s) p = Inr (b', h')" "buddy_inv r b' h'"
      "bd_base b' = bd_base (fst s)" "bd_nsize b' = bd_nsize (fst s)"
      "used_blocks b' = used_blocks (fst s) - {(8, i)}" using i(1) by auto
  have same: "addr b' k j = addr (fst s) k j" for k j using d(3) by (simp add: addr_def)
  have "kmem_pages (b', h') = kmem_pages s - {p}"
    using i(1) d(5) same by (auto simp: kmem_pages_def addr_inj)
  moreover have "kmem_inv (b', h')" using inv d(2-4) by (auto simp: kmem_inv_def)
  ultimately show ?thesis using d(1) by (simp add: page_drop_def Kmem_dealloc_def)
qed

interpretation kmem: page_allocator page_new page_drop kmem_inv kmem_pages
proof (unfold_locales, goal_cases)
  case (1 s) then show ?case by (rule page_new_ok) auto
next
  case (2 s s') from 2(1) show ?case by (rule page_new_ok) (use 2(2) in auto)
next
  case (3 s p s') from 3(1) show ?case by (rule page_new_ok) (use 3(2) in auto)
next
  case (4 s p) then show ?case by (rule page_drop_ok)
next
  case (5 s p) then show ?case by (auto simp: kmem_pages_def intro: page_block_addr)
qed

end
