(* ===== verification/Vm.thy ===== *)
theory Vm
  imports PageAlloc
begin

text \<open>
  \<^verbatim>\<open>src/kernel/vm.rs\<close>: Sv39 page tables and the user address space. Addresses are
  \<open>usize\<close> values held as natural numbers, with checked additions; page-table entries are
  64-bit words. Physical memory is a typed store: the contents of the page-table pages and of
  the data pages, by address. The allocator is an argument, used through the interface of
  \<^verbatim>\<open>PageAlloc\<close>.
\<close>

section \<open>Addresses\<close>

definition PGSIZE :: nat where "PGSIZE = 4096"

definition PGSHIFT :: nat where "PGSHIFT = 12"

definition PXMASK :: usize where "PXMASK = 0x1FF"

definition MAXVA :: nat where "MAXVA = 2 ^ (9 + 9 + 9 + 12 - 1)"

definition TRAMPOLINE :: nat where "TRAMPOLINE = MAXVA - PGSIZE"

definition TRAPFLAME :: nat where "TRAPFLAME = TRAMPOLINE - PGSIZE"

definition kstack :: "nat \<Rightarrow> nat rust" where
  "kstack p = usub TRAMPOLINE ((p + 1) * 5 * PGSIZE)"

datatype VirtAddr = User nat | Kernel nat | Physical nat

definition VirtAddr_add :: "VirtAddr \<Rightarrow> nat \<Rightarrow> VirtAddr rust" where
  "VirtAddr_add v rhs =
     (case v of
        Kernel a \<Rightarrow> rbind (uadd a rhs) (\<lambda>x. Inr (Kernel x))
      | User a \<Rightarrow> rbind (uadd a rhs) (\<lambda>x. Inr (User x))
      | Physical a \<Rightarrow> rbind (uadd a rhs) (\<lambda>x. Inr (Physical x)))"

definition is_aligned :: "nat \<Rightarrow> bool" where
  "is_aligned a \<longleftrightarrow> a mod PGSIZE = 0"

definition rounddown :: "nat \<Rightarrow> nat" where
  "rounddown a = unat ((of_nat a :: usize) AND NOT (of_nat (PGSIZE - 1)))"

definition pgroundup :: "nat \<Rightarrow> nat rust" where
  "pgroundup sz = rbind (uadd sz PGSIZE) (\<lambda>x. rbind (usub x 1) (\<lambda>y. Inr (rounddown y)))"

definition px :: "nat \<Rightarrow> nat \<Rightarrow> nat" where
  "px va level = unat (drop_bit (PGSHIFT + 9 * level) (of_nat va :: usize) AND PXMASK)"

lemma of_nat_mask: "of_nat (PGSIZE - 1) = (mask 12 :: usize)"
  by (simp add: PGSIZE_def mask_eq_exp_minus_1)

lemma rounddown_word: "w AND NOT (mask 12) = push_bit 12 (drop_bit 12 (w::usize))"
  by (rule bit_word_eqI) (auto simp: bit_simps)

lemma unat_page_word: "unat (push_bit 12 (drop_bit 12 (w::usize))) = unat w div 4096 * 4096"
proof -
  have "unat w div 4096 * 4096 < 2 ^ 64"
    using le_less_trans[OF div_times_less_eq_dividend unsigned_less[of w]] by simp
  then show ?thesis
    unfolding unsigned_push_bit_eq unsigned_drop_bit_eq
    by (simp add: push_bit_eq_mult drop_bit_eq_div take_bit_eq_mod)
qed

lemma rounddown_mod: "rounddown a = a mod 2 ^ 64 div 4096 * 4096"
  unfolding rounddown_def of_nat_mask rounddown_word unat_page_word by (simp add: unat_of_nat)

lemma rounddown_eq: "a < 2 ^ 64 \<Longrightarrow> rounddown a = a div 4096 * 4096"
  by (simp add: rounddown_mod)

lemma rounddown_off: "usub a (rounddown a) = Inr off \<Longrightarrow> off \<noteq> PGSIZE"
proof
  assume "usub a (rounddown a) = Inr off" "off = PGSIZE"
  then have a: "a = rounddown a + 4096" by (auto simp: usub_Inr_iff PGSIZE_def)
  let ?r = "a mod 2 ^ 64"
  have "a mod 4096 = ?r mod 4096" by (simp add: mod_mod_cancel)
  moreover have "a = (?r div 4096 + 1) * 4096" using a by (simp only: rounddown_mod) simp
  then have "a mod 4096 = 0" by (metis mod_mult_self2_is_0)
  ultimately have "?r mod 4096 = 0" by simp
  then have "?r div 4096 * 4096 = ?r" using div_mult_mod_eq[of ?r 4096] by linarith
  then have "a = ?r + 4096" using a by (simp only: rounddown_mod)
  moreover have "a = a div 2 ^ 64 * 2 ^ 64 + ?r" by (rule div_mult_mod_eq[symmetric])
  ultimately have "a div 2 ^ 64 * 2 ^ 64 = 4096" by linarith
  then show False by (cases "a div 2 ^ 64") simp_all
qed

lemma px_eq: "va < 2 ^ 64 \<Longrightarrow> px va level = va div 2 ^ (12 + 9 * level) mod 512"
proof -
  assume va: "va < 2 ^ 64"
  have m: "PXMASK = mask 9" by (simp add: PXMASK_def mask_eq_exp_minus_1)
  show ?thesis
    unfolding px_def m PGSHIFT_def take_bit_eq_mask[symmetric] unsigned_take_bit_eq unsigned_drop_bit_eq
      unat_of_nat
    using va by (simp add: take_bit_eq_mod drop_bit_eq_div)
qed

section \<open>Page-table entries\<close>

definition PTE_V :: usize where "PTE_V = push_bit 0 1"

definition PTE_R :: usize where "PTE_R = push_bit 1 1"

definition PTE_W :: usize where "PTE_W = push_bit 2 1"

definition PTE_X :: usize where "PTE_X = push_bit 3 1"

definition PTE_U :: usize where "PTE_U = push_bit 4 1"

definition is_v :: "usize \<Rightarrow> bool" where
  "is_v e \<longleftrightarrow> e AND PTE_V \<noteq> 0"

definition is_u :: "usize \<Rightarrow> bool" where
  "is_u e \<longleftrightarrow> e AND PTE_U \<noteq> 0"

definition rm_u :: "usize \<Rightarrow> usize" where
  "rm_u e = e AND NOT PTE_U"

definition is_leaf :: "usize \<Rightarrow> bool" where
  "is_leaf e \<longleftrightarrow> e AND 0x3FF \<noteq> PTE_V"

definition pte_flags :: "usize \<Rightarrow> usize" where
  "pte_flags e = e AND 0x3FF"

definition to_pa :: "usize \<Rightarrow> nat" where
  "to_pa e = unat (push_bit 12 (drop_bit 10 e))"

definition pte_set :: "nat \<Rightarrow> usize \<Rightarrow> usize" where
  "pte_set pa attr = push_bit 10 (drop_bit 12 (of_nat pa)) OR attr"

datatype satp_mode = Bare | Sv39 | Sv48 | Sv57 | Sv64

fun satp_mode_bits :: "satp_mode \<Rightarrow> usize" where
  "satp_mode_bits Bare = 0"
| "satp_mode_bits Sv39 = 8"
| "satp_mode_bits Sv48 = 9"
| "satp_mode_bits Sv57 = 10"
| "satp_mode_bits Sv64 = 11"

definition satp_make :: "satp_mode \<Rightarrow> usize \<Rightarrow> usize \<Rightarrow> usize" where
  "satp_make mode asid ppn =
     (let bits = 0;
          bits = bits OR push_bit 60 (satp_mode_bits mode);
          bits = bits OR push_bit 44 asid
      in bits OR drop_bit 12 ppn)"

definition as_satp :: "nat \<Rightarrow> usize" where
  "as_satp root = satp_make Sv39 0 (of_nat root)"

section \<open>Physical memory\<close>

text \<open>
  A physical page has two views, as 512 entries of a page table and as 4096 bytes; each page is used in
  one of them. A write to a user page changes the byte view only, which is right as long as no
  user page is a page of a table: the properties of copies assume this (\<^verbatim>\<open>uvm_ok\<close> of \<^verbatim>\<open>VmSpace\<close>),
  and growing and shrinking a space keep it.
\<close>

record 's vmst =
  vm_alloc :: 's
  vm_pt :: "nat \<Rightarrow> usize list"
  vm_pg :: "nat \<Rightarrow> u8 list"

type_synonym 's palloc = "'s \<Rightarrow> (nat option \<times> 's) rust"

type_synonym 's pfree = "'s \<Rightarrow> nat \<Rightarrow> 's rust"

definition RawPageTable_new :: "'s palloc \<Rightarrow> 's vmst \<Rightarrow> (nat option \<times> 's vmst) rust" where
  "RawPageTable_new palloc st =
     rbind (palloc (vm_alloc st)) (\<lambda>(r, s).
       Inr (r, case r of
                 None \<Rightarrow> st\<lparr>vm_alloc := s\<rparr>
               | Some p \<Rightarrow> st\<lparr>vm_alloc := s, vm_pt := (vm_pt st)(p := replicate 512 0)\<rparr>))"

definition Page_new :: "'s palloc \<Rightarrow> 's vmst \<Rightarrow> (nat option \<times> 's vmst) rust" where
  "Page_new palloc st =
     rbind (palloc (vm_alloc st)) (\<lambda>(r, s).
       Inr (r, case r of
                 None \<Rightarrow> st\<lparr>vm_alloc := s\<rparr>
               | Some p \<Rightarrow> st\<lparr>vm_alloc := s, vm_pg := (vm_pg st)(p := replicate 4096 0)\<rparr>))"

definition Page_drop :: "'s pfree \<Rightarrow> nat \<Rightarrow> 's vmst \<Rightarrow> 's vmst rust" where
  "Page_drop pfree p st = rbind (pfree (vm_alloc st) p) (\<lambda>s. Inr (st\<lparr>vm_alloc := s\<rparr>))"

text \<open>A reference to a page-table entry: the address of its page and its index.\<close>

definition read_pte :: "'s vmst \<Rightarrow> nat \<times> nat \<Rightarrow> usize" where
  "read_pte st loc = vm_pt st (fst loc) ! snd loc"

definition write_pte :: "'s vmst \<Rightarrow> nat \<times> nat \<Rightarrow> usize \<Rightarrow> 's vmst" where
  "write_pte st loc v =
     st\<lparr>vm_pt := (vm_pt st)(fst loc := (vm_pt st (fst loc))[snd loc := v])\<rparr>"

section \<open>Page tables\<close>

definition PageTable_new :: "'s palloc \<Rightarrow> 's vmst \<Rightarrow> (nat option \<times> 's vmst) rust" where
  "PageTable_new palloc st = RawPageTable_new palloc st"

fun walk_levels ::
  "'s palloc \<Rightarrow> nat list \<Rightarrow> nat \<Rightarrow> bool \<Rightarrow> nat \<Rightarrow> 's vmst \<Rightarrow> (nat option \<times> 's vmst) rust" where
  "walk_levels palloc [] va alloc pagetable st = Inr (Some pagetable, st)"
| "walk_levels palloc (level # levels) va alloc pagetable st =
     (let i = px va level
      in if i \<ge> length (vm_pt st pagetable) then Inr (None, st)
         else let pte = read_pte st (pagetable, i)
         in if is_v pte then walk_levels palloc levels va alloc (to_pa pte) st
            else if \<not> alloc then Inr (None, st)
            else rbind (RawPageTable_new palloc st) (\<lambda>(r, st1).
              case r of
                None \<Rightarrow> Inr (None, st1)
              | Some new \<Rightarrow>
                  walk_levels palloc levels va alloc new (write_pte st1 (pagetable, i) (pte_set new PTE_V))))"

definition walk ::
  "'s palloc \<Rightarrow> nat \<Rightarrow> nat \<Rightarrow> bool \<Rightarrow> 's vmst \<Rightarrow> ((nat \<times> nat) option \<times> 's vmst) rust" where
  "walk palloc root va alloc st =
     (if va \<ge> MAXVA then Inl (Panic ''walk'')
      else rbind (walk_levels palloc [2, 1] va alloc root st) (\<lambda>(r, st1).
        case r of
          None \<Rightarrow> Inr (None, st1)
        | Some pagetable \<Rightarrow>
            Inr (if px va 0 < length (vm_pt st1 pagetable) then Some (pagetable, px va 0) else None, st1)))"

definition walkaddr :: "'s palloc \<Rightarrow> nat \<Rightarrow> nat \<Rightarrow> 's vmst \<Rightarrow> (nat option \<times> 's vmst) rust" where
  "walkaddr palloc root va st =
     (if va \<ge> MAXVA then Inr (None, st)
      else rbind (walk palloc root va False st) (\<lambda>(r, st1).
        case r of
          None \<Rightarrow> Inr (None, st1)
        | Some loc \<Rightarrow>
            let pte = read_pte st1 loc
            in Inr (if \<not> is_v pte then None else if \<not> is_u pte then None else Some (to_pa pte), st1)))"

text \<open>The body of the loop of \<^verbatim>\<open>mappages\<close> up to its exit test, and the loop.\<close>

definition map_one ::
  "'s palloc \<Rightarrow> nat \<Rightarrow> nat \<Rightarrow> nat \<Rightarrow> usize \<Rightarrow> 's vmst \<Rightarrow> (bool \<times> 's vmst) rust" where
  "map_one palloc root va pa perm st =
     rbind (walk palloc root va True st) (\<lambda>(r, st1).
       case r of
         None \<Rightarrow> Inr (False, st1)
       | Some loc \<Rightarrow>
           if is_v (read_pte st1 loc) then Inl (Panic ''mappages: remap'')
           else Inr (True, write_pte st1 loc (pte_set pa (perm OR PTE_V))))"

lemma map_one_below: "map_one palloc root va pa perm st = Inr x \<Longrightarrow> va < MAXVA"
  by (auto simp: map_one_def walk_def split: if_splits)

function mappages_loop ::
  "'s palloc \<Rightarrow> nat \<Rightarrow> nat \<Rightarrow> nat \<Rightarrow> nat \<Rightarrow> usize \<Rightarrow> 's vmst \<Rightarrow> (bool \<times> 's vmst) rust" where
  "mappages_loop palloc root va pa last_va perm st =
     rbind (map_one palloc root va pa perm st) (\<lambda>(ok, st1).
       if \<not> ok then Inr (False, st1)
       else if va = last_va then Inr (True, st1)
       else rbind (uadd va PGSIZE) (\<lambda>va1. rbind (uadd pa PGSIZE) (\<lambda>pa1.
         mappages_loop palloc root va1 pa1 last_va perm st1)))"
  by pat_completeness auto
termination
  by (relation "measure (\<lambda>(palloc, root, va, pa, last_va, perm, st). MAXVA - va)")
    (auto simp: uadd_Inr_iff PGSIZE_def dest!: map_one_below)

definition mappages ::
  "'s palloc \<Rightarrow> nat \<Rightarrow> nat \<Rightarrow> nat \<Rightarrow> nat \<Rightarrow> usize \<Rightarrow> 's vmst \<Rightarrow> (bool \<times> 's vmst) rust" where
  "mappages palloc root va pa sz perm st =
     (if sz = 0 then Inl (Panic ''mappages: size'')
      else rbind (uadd va sz) (\<lambda>x. rbind (usub x 1) (\<lambda>y.
        mappages_loop palloc root (rounddown va) pa (rounddown y) perm st)))"

section \<open>User address spaces\<close>

function unmap_loop ::
  "'s palloc \<Rightarrow> 's pfree \<Rightarrow> nat \<Rightarrow> nat \<Rightarrow> bool \<Rightarrow> nat \<Rightarrow> 's vmst \<Rightarrow> 's vmst rust" where
  "unmap_loop palloc pfree root end_va do_free a st =
     (if a < end_va then
        rbind (walk palloc root a False st) (\<lambda>(r, st1).
          case r of
            None \<Rightarrow> Inl (Panic ''uvmunmap(): walk'')
          | Some loc \<Rightarrow>
              let pte = read_pte st1 loc
              in if \<not> is_v pte then Inl (Panic ''uvmunmap(): not mapped'')
                 else if \<not> is_leaf pte then Inl (Panic ''uvmunmap(): not a leaf'')
                 else rbind (if do_free then Page_drop pfree (to_pa pte) st1 else Inr st1) (\<lambda>st2.
                   rbind (uadd a PGSIZE) (\<lambda>a1.
                     unmap_loop palloc pfree root end_va do_free a1 (write_pte st2 loc 0))))
      else Inr st)"
  by pat_completeness auto
termination
  by (relation "measure (\<lambda>(palloc, pfree, root, end_va, do_free, a, st). end_va - a)")
    (auto simp: uadd_Inr_iff PGSIZE_def)

definition Uvm_unmap ::
  "'s palloc \<Rightarrow> 's pfree \<Rightarrow> nat \<Rightarrow> nat \<Rightarrow> nat \<Rightarrow> bool \<Rightarrow> 's vmst \<Rightarrow> 's vmst rust" where
  "Uvm_unmap palloc pfree root va npages do_free st =
     (if \<not> is_aligned va then Inl (Panic ''uvmunmap: not aligned'')
      else rbind (umul npages PGSIZE) (\<lambda>n. rbind (uadd va n) (\<lambda>end_va.
        unmap_loop palloc pfree root end_va do_free va st)))"

definition Uvm_init :: "'s palloc \<Rightarrow> nat \<Rightarrow> u8 list \<Rightarrow> 's vmst \<Rightarrow> 's vmst rust" where
  "Uvm_init palloc root src st =
     (if length src > PGSIZE then Inl (Panic ''inituvm: more than a page'')
      else rbind (Page_new palloc st) (\<lambda>(r, st1).
        case r of
          None \<Rightarrow> Inl (Panic ''alloc error'')
        | Some mem \<Rightarrow>
            rbind (mappages palloc root 0 mem PGSIZE (PTE_W OR PTE_R OR PTE_X OR PTE_U) st1) (\<lambda>(ok, st2).
              if ok then Inr (st2\<lparr>vm_pg := (vm_pg st2)(mem := overwrite (vm_pg st2 mem) 0 src)\<rparr>)
              else Inl UnwrapNone)))"

definition Uvm_dealloc ::
  "'s palloc \<Rightarrow> 's pfree \<Rightarrow> nat \<Rightarrow> nat \<Rightarrow> nat \<Rightarrow> 's vmst \<Rightarrow> (nat \<times> 's vmst) rust" where
  "Uvm_dealloc palloc pfree root oldsz newsz st =
     (if newsz \<ge> oldsz then Inr (oldsz, st)
      else rbind (pgroundup newsz) (\<lambda>n. rbind (pgroundup oldsz) (\<lambda>od.
        rbind (if n < od then Uvm_unmap palloc pfree root n ((od - n) div PGSIZE) True st else Inr st)
          (\<lambda>st1. Inr (newsz, st1)))))"

function alloc_loop ::
  "'s palloc \<Rightarrow> 's pfree \<Rightarrow> nat \<Rightarrow> nat \<Rightarrow> nat \<Rightarrow> usize \<Rightarrow> nat \<Rightarrow> 's vmst \<Rightarrow> (nat option \<times> 's vmst) rust" where
  "alloc_loop palloc pfree root oldsz newsz xperm a st =
     (if a < newsz then
        rbind (Page_new palloc st) (\<lambda>(r, st1).
          case r of
            None \<Rightarrow> rbind (Uvm_dealloc palloc pfree root a oldsz st1) (\<lambda>(_, st2). Inr (None, st2))
          | Some mem \<Rightarrow>
              rbind (mappages palloc root a mem PGSIZE (PTE_R OR PTE_U OR xperm) st1) (\<lambda>(ok, st2).
                if \<not> ok then
                  rbind (Page_drop pfree mem st2) (\<lambda>st3.
                  rbind (Uvm_dealloc palloc pfree root a oldsz st3) (\<lambda>(_, st4). Inr (None, st4)))
                else alloc_loop palloc pfree root oldsz newsz xperm (a + PGSIZE) st2))
      else Inr (Some newsz, st))"
  by pat_completeness auto
termination
  by (relation "measure (\<lambda>(palloc, pfree, root, oldsz, newsz, xperm, a, st). newsz - a)")
    (auto simp: PGSIZE_def)

definition Uvm_alloc ::
  "'s palloc \<Rightarrow> 's pfree \<Rightarrow> nat \<Rightarrow> nat \<Rightarrow> nat \<Rightarrow> usize \<Rightarrow> 's vmst \<Rightarrow> (nat option \<times> 's vmst) rust" where
  "Uvm_alloc palloc pfree root oldsz newsz xperm st =
     (if newsz < oldsz then Inr (Some oldsz, st)
      else rbind (pgroundup oldsz) (\<lambda>od. alloc_loop palloc pfree root od newsz xperm od st))"

definition Uvm_clear :: "'s palloc \<Rightarrow> nat \<Rightarrow> nat \<Rightarrow> 's vmst \<Rightarrow> 's vmst rust" where
  "Uvm_clear palloc root va st =
     rbind (walk palloc root va False st) (\<lambda>(r, st1).
       case r of
         None \<Rightarrow> Inl (Panic ''uvmclear'')
       | Some loc \<Rightarrow> Inr (write_pte st1 loc (rm_u (read_pte st1 loc))))"

section \<open>Copies between kernel and user\<close>

text \<open>
  The three loops share their step: the page of \<open>va\<close>, its frame, the offset in the page and
  the number of bytes that this round moves.
\<close>

definition user_span ::
  "'s palloc \<Rightarrow> nat \<Rightarrow> nat \<Rightarrow> nat \<Rightarrow> 's vmst \<Rightarrow> ((nat \<times> nat \<times> nat \<times> nat) option \<times> 's vmst) rust" where
  "user_span palloc root va len st =
     (let va0 = rounddown va
      in rbind (walkaddr palloc root va0 st) (\<lambda>(r, st1).
         case r of
           None \<Rightarrow> Inr (None, st1)
         | Some pa0 \<Rightarrow>
             rbind (usub va va0) (\<lambda>off.
             rbind (usub PGSIZE off) (\<lambda>rest.
             Inr (Some (va0, pa0, off, min rest len), st1)))))"

lemma user_span_SomeD:
  assumes "user_span palloc root va len st = Inr (Some (va0, pa0, off, n), st1)"
  shows "va0 = rounddown va" "walkaddr palloc root va0 st = Inr (Some pa0, st1)"
    "usub va va0 = Inr off" "off \<le> PGSIZE" "n = min (PGSIZE - off) len"
proof -
  obtain r st' where w: "walkaddr palloc root (rounddown va) st = Inr (r, st')"
    using assms by (cases "walkaddr palloc root (rounddown va) st") (auto simp: user_span_def)
  with assms obtain pa where r: "r = Some pa" by (cases r) (auto simp: user_span_def)
  obtain o' where o': "usub va (rounddown va) = Inr o'"
    using assms w r by (cases "usub va (rounddown va)") (auto simp: user_span_def)
  show "va0 = rounddown va" "walkaddr palloc root va0 st = Inr (Some pa0, st1)"
    "usub va va0 = Inr off" "off \<le> PGSIZE" "n = min (PGSIZE - off) len"
    using assms w r o' by (auto simp: user_span_def usub_Inr_iff)
qed

lemma user_span_progress:
  assumes "user_span palloc root va len st = Inr (Some (va0, pa0, off, n), st1)" and "0 < len"
  shows "0 < n"
  using user_span_SomeD[OF assms(1)] rounddown_off[of va off] assms(2) by simp

function copyout_loop ::
  "'s palloc \<Rightarrow> nat \<Rightarrow> u8 list \<Rightarrow> nat \<Rightarrow> nat \<Rightarrow> nat \<Rightarrow> 's vmst \<Rightarrow> (bool \<times> 's vmst) rust" where
  "copyout_loop palloc root src dstva len offset st =
     (if len > 0 then
        rbind (user_span palloc root dstva len st) (\<lambda>(r, st1).
          case r of
            None \<Rightarrow> Inr (False, st1)
          | Some (va0, pa0, off, n) \<Rightarrow>
              rbind (slice src offset (offset + n)) (\<lambda>chunk.
              rbind (uadd va0 PGSIZE) (\<lambda>next_va.
              copyout_loop palloc root src next_va (len - n) (offset + n)
                (st1\<lparr>vm_pg := (vm_pg st1)(pa0 := overwrite (vm_pg st1 pa0) off chunk)\<rparr>))))
      else Inr (True, st))"
  by pat_completeness auto
termination
  by (relation "measure (\<lambda>(palloc, root, src, dstva, len, offset, st). len)")
    (auto dest!: user_span_progress)

definition copyout :: "'s palloc \<Rightarrow> nat \<Rightarrow> nat \<Rightarrow> u8 list \<Rightarrow> 's vmst \<Rightarrow> (bool \<times> 's vmst) rust" where
  "copyout palloc root dstva src st = copyout_loop palloc root src dstva (length src) 0 st"

function copyin_loop ::
  "'s palloc \<Rightarrow> nat \<Rightarrow> nat \<Rightarrow> nat \<Rightarrow> nat \<Rightarrow> u8 list \<Rightarrow> 's vmst \<Rightarrow> ((bool \<times> u8 list) \<times> 's vmst) rust" where
  "copyin_loop palloc root srcva len offset dst st =
     (if len > 0 then
        rbind (user_span palloc root srcva len st) (\<lambda>(r, st1).
          case r of
            None \<Rightarrow> Inr ((False, dst), st1)
          | Some (va0, pa0, off, n) \<Rightarrow>
              let src = take n (drop off (vm_pg st1 pa0))
              in rbind (slice dst offset (offset + n)) (\<lambda>_.
                 rbind (uadd va0 PGSIZE) (\<lambda>next_va.
                 copyin_loop palloc root next_va (len - n) (offset + n) (overwrite dst offset src) st1)))
      else Inr ((True, dst), st))"
  by pat_completeness auto
termination
  by (relation "measure (\<lambda>(palloc, root, srcva, len, offset, dst, st). len)")
    (auto dest!: user_span_progress)

definition copyin ::
  "'s palloc \<Rightarrow> nat \<Rightarrow> u8 list \<Rightarrow> nat \<Rightarrow> 's vmst \<Rightarrow> ((bool \<times> u8 list) \<times> 's vmst) rust" where
  "copyin palloc root dst srcva st = copyin_loop palloc root srcva (length dst) 0 dst st"

definition position_0 :: "u8 list \<Rightarrow> nat option" where
  "position_0 xs = find (\<lambda>i. xs ! i = 0) [0..<length xs]"

function copyinstr_loop ::
  "'s palloc \<Rightarrow> nat \<Rightarrow> nat \<Rightarrow> nat \<Rightarrow> nat \<Rightarrow> u8 list \<Rightarrow> 's vmst \<Rightarrow>
   (((string + unit) \<times> u8 list) \<times> 's vmst) rust" where
  "copyinstr_loop palloc root srcva maxlen offset dst st =
     (if maxlen > 0 then
        rbind (user_span palloc root srcva maxlen st) (\<lambda>(r, st1).
          case r of
            None \<Rightarrow> Inr ((Inl ''virtual address not found'', dst), st1)
          | Some (va0, pa0, off, n) \<Rightarrow>
              let src = take n (drop off (vm_pg st1 pa0))
              in case position_0 src of
                   Some i \<Rightarrow>
                     rbind (slice dst offset (offset + i + 1)) (\<lambda>_.
                     Inr ((Inr (), overwrite dst offset (take (i + 1) src)), st1))
                 | None \<Rightarrow>
                     rbind (slice dst offset (offset + n)) (\<lambda>_.
                     rbind (uadd va0 PGSIZE) (\<lambda>next_va.
                     copyinstr_loop palloc root next_va (maxlen - n) (offset + n) (overwrite dst offset src) st1)))
      else Inr ((Inl ''not enough space'', dst), st))"
  by pat_completeness auto
termination
  by (relation "measure (\<lambda>(palloc, root, srcva, maxlen, offset, dst, st). maxlen)")
    (auto dest!: user_span_progress)

definition copyinstr ::
  "'s palloc \<Rightarrow> nat \<Rightarrow> u8 list \<Rightarrow> nat \<Rightarrow> 's vmst \<Rightarrow> (((string + unit) \<times> u8 list) \<times> 's vmst) rust" where
  "copyinstr palloc root dst srcva st = copyinstr_loop palloc root srcva (length dst) 0 dst st"

section \<open>The kernel address space\<close>

definition UART0 :: nat where "UART0 = 0x10000000"

definition VIRTIO0 :: nat where "VIRTIO0 = 0x10001000"

definition PLIC :: nat where "PLIC = 0x0C000000"

definition KERNBASE :: nat where "KERNBASE = 0x80000000"

definition Kvm_map :: "'s palloc \<Rightarrow> nat \<Rightarrow> nat \<Rightarrow> nat \<Rightarrow> nat \<Rightarrow> usize \<Rightarrow> 's vmst \<Rightarrow> 's vmst rust" where
  "Kvm_map palloc root va pa sz perm st =
     rbind (mappages palloc root va pa sz perm st) (\<lambda>(ok, st1).
       if \<not> ok then Inl (Panic ''kvmmap'') else Inr st1)"

text \<open>The kernel stacks; \<open>salloc\<close> is \<^verbatim>\<open>Stack::try_new_zeroed\<close>, the first argument the pool left.\<close>

fun proc_mapstacks ::
  "nat list \<Rightarrow> 's palloc \<Rightarrow> 's palloc \<Rightarrow> nat \<Rightarrow> 's vmst \<Rightarrow> 's vmst rust" where
  "proc_mapstacks [] salloc palloc root st = Inr st"
| "proc_mapstacks (p # pool) salloc palloc root st =
     rbind (salloc (vm_alloc st)) (\<lambda>(r, s).
     rbind (unwrap r) (\<lambda>pa.
     rbind (kstack p) (\<lambda>va.
     rbind (Kvm_map palloc root va pa PGSIZE (PTE_R OR PTE_W) (st\<lparr>vm_alloc := s\<rparr>)) (\<lambda>st1.
     proc_mapstacks pool salloc palloc root st1))))"

definition Kvm_make ::
  "nat \<Rightarrow> nat \<Rightarrow> nat list \<Rightarrow> 's palloc \<Rightarrow> 's palloc \<Rightarrow> nat \<Rightarrow> 's vmst \<Rightarrow> 's vmst rust" where
  "Kvm_make etext trampoline pool salloc palloc root st =
     rbind (Kvm_map palloc root UART0 UART0 PGSIZE (PTE_R OR PTE_W) st) (\<lambda>st1.
     rbind (Kvm_map palloc root VIRTIO0 VIRTIO0 PGSIZE (PTE_R OR PTE_W) st1) (\<lambda>st2.
     rbind (Kvm_map palloc root PLIC PLIC 0x400000 (PTE_R OR PTE_W) st2) (\<lambda>st3.
     rbind (usub etext KERNBASE) (\<lambda>text_size.
     rbind (Kvm_map palloc root KERNBASE KERNBASE text_size (PTE_R OR PTE_X) st3) (\<lambda>st4.
     rbind (usub PHYSTOP etext) (\<lambda>data_size.
     rbind (Kvm_map palloc root etext etext data_size (PTE_R OR PTE_W) st4) (\<lambda>st5.
     rbind (Kvm_map palloc root TRAMPOLINE trampoline PGSIZE (PTE_R OR PTE_X) st5) (\<lambda>st6.
     proc_mapstacks pool salloc palloc root st6))))))))"

declare mappages_loop.simps [simp del] unmap_loop.simps [simp del] alloc_loop.simps [simp del]
  copyout_loop.simps [simp del] copyin_loop.simps [simp del] copyinstr_loop.simps [simp del]

end
