(* ===== verification/VmTables.thy ===== *)
theory VmTables
  imports Vm
begin

text \<open>
  Page tables as trees: the bit layout of entries, the path a virtual address takes, the
  shape invariant of a three-level table, the partial map of leaf entries it stands for, and
  what writing one entry or hanging in one new table does to that map.
\<close>

section \<open>Entries\<close>

lemma bit_flag: "k < 64 \<Longrightarrow> bit (push_bit k 1 :: usize) n \<longleftrightarrow> n = k"
  by (auto simp: bit_simps)

lemma PTE_bits:
  "bit PTE_V n \<longleftrightarrow> n = 0" "bit PTE_R n \<longleftrightarrow> n = 1" "bit PTE_W n \<longleftrightarrow> n = 2"
  "bit PTE_X n \<longleftrightarrow> n = 3" "bit PTE_U n \<longleftrightarrow> n = 4"
  unfolding PTE_V_def PTE_R_def PTE_W_def PTE_X_def PTE_U_def by (rule bit_flag, simp)+

lemma and_bit_nonzero: "(e::usize) AND push_bit n 1 \<noteq> 0 \<longleftrightarrow> bit e n"
  by (simp add: and_exp_eq_0_iff_not_bit)

lemma is_v_bit: "is_v e \<longleftrightarrow> bit e 0"
  unfolding is_v_def PTE_V_def and_bit_nonzero ..

lemma is_u_bit: "is_u e \<longleftrightarrow> bit e 4"
  unfolding is_u_def PTE_U_def and_bit_nonzero ..

lemma is_v_0 [simp]: "\<not> is_v 0"
  by (simp add: is_v_def)

lemma bit_pte_set:
  "bit (pte_set pa attr) n \<longleftrightarrow> 10 \<le> n \<and> n < 64 \<and> bit pa (n + 2) \<and> n + 2 < 64 \<or> bit attr n"
  by (auto simp: pte_set_def bit_simps dest: bit_imp_le_length)

lemma is_v_pte_set [simp]: "is_v (pte_set pa attr) \<longleftrightarrow> bit attr 0"
  by (simp add: is_v_bit bit_pte_set)

lemma is_u_pte_set [simp]: "is_u (pte_set pa attr) \<longleftrightarrow> bit attr 4"
  by (simp add: is_u_bit bit_pte_set)

definition pte_attr :: "usize \<Rightarrow> bool" where
  "pte_attr attr \<longleftrightarrow> attr AND 0x3FF = attr"

lemma ten_bits: "(0x3FF :: usize) = mask 10"
  by (simp add: mask_eq_exp_minus_1)

lemma pte_attr_bits: "pte_attr attr \<longleftrightarrow> (\<forall>n. bit attr n \<longrightarrow> n < 10)"
proof -
  have "pte_attr attr \<longleftrightarrow> take_bit 10 attr = attr"
    unfolding pte_attr_def ten_bits by (simp add: take_bit_eq_mask)
  also have "\<dots> \<longleftrightarrow> (\<forall>n. bit attr n \<longrightarrow> n < 10)"
    using bit_imp_le_length[of attr] by (auto simp: bit_eq_iff bit_simps)
  finally show ?thesis .
qed

lemma pte_attr_or: "pte_attr a \<Longrightarrow> pte_attr b \<Longrightarrow> pte_attr (a OR b)"
  by (auto simp: pte_attr_bits bit_or_iff)

lemma pte_attr_flags [simp]:
  "pte_attr PTE_V" "pte_attr PTE_R" "pte_attr PTE_W" "pte_attr PTE_X" "pte_attr PTE_U"
  by (auto simp: pte_attr_bits PTE_bits)

lemma pte_flags_set: "pte_attr attr \<Longrightarrow> pte_flags (pte_set pa attr) = attr"
  unfolding pte_flags_def ten_bits
  by (rule bit_word_eqI) (auto simp: bit_simps bit_pte_set pte_attr_bits)

lemma to_pa_set:
  assumes "page_addr pa" and "pte_attr attr"
  shows "to_pa (pte_set pa attr) = pa"
proof -
  have "push_bit 12 (drop_bit 10 (pte_set pa attr)) = push_bit 12 (drop_bit 12 (of_nat pa :: usize))"
    using assms(2) by (intro bit_word_eqI) (auto simp: bit_simps bit_pte_set pte_attr_bits add.commute)
  then have "to_pa (pte_set pa attr) = unat (of_nat pa :: usize) div 4096 * 4096"
    by (simp only: to_pa_def unat_page_word)
  also have "\<dots> = pa"
    using assms(1) div_mult_mod_eq[of pa 4096] by (simp add: page_addr_def unat_of_nat)
  finally show ?thesis .
qed

lemma to_pa_page: "to_pa e mod 4096 = 0" "to_pa e < 2 ^ 64"
proof -
  have "push_bit 12 (drop_bit 10 e) = push_bit 12 (drop_bit 12 (push_bit 12 (drop_bit 10 e)))"
    by (rule bit_word_eqI) (auto simp: bit_simps)
  then have "to_pa e = unat (push_bit 12 (drop_bit 10 e)) div 4096 * 4096"
    unfolding to_pa_def by (metis unat_page_word)
  then show "to_pa e mod 4096 = 0" by (metis mod_mult_self2_is_0)
  show "to_pa e < 2 ^ 64" unfolding to_pa_def using unsigned_less[of "push_bit 12 (drop_bit 10 e)"] by simp
qed

section \<open>The path of a virtual address\<close>

lemma px_less: "va < 2 ^ 64 \<Longrightarrow> px va level < 512"
  by (simp add: px_eq)

lemma MAXVA_bound: "va < MAXVA \<Longrightarrow> va < 2 ^ 38" "va < MAXVA \<Longrightarrow> va < 2 ^ 64"
  by (simp_all add: MAXVA_def)

lemma px_MAXVA [simp]: "va < MAXVA \<Longrightarrow> px va level < 512"
  by (rule px_less[OF MAXVA_bound(2)])

lemma vpn_px:
  assumes "va < MAXVA"
  shows "va div 4096 = px va 2 * 2 ^ 18 + px va 1 * 2 ^ 9 + px va 0"
proof -
  let ?v = "va div 4096"
  have "?v < 2 ^ 26" using assms by (simp add: MAXVA_def less_mult_imp_div_less)
  have p: "px va 2 = ?v div 2 ^ 18 mod 512" "px va 1 = ?v div 2 ^ 9 mod 512" "px va 0 = ?v mod 512"
    using MAXVA_bound[OF assms] by (simp_all add: px_eq div_mult2_eq[symmetric])
  have a: "?v div 2 ^ 18 mod 512 = ?v div 2 ^ 18"
    using \<open>?v < 2 ^ 26\<close> by (intro mod_less) (simp add: less_mult_imp_div_less)
  have b: "?v div 2 ^ 9 = ?v div 2 ^ 18 * 512 + ?v div 2 ^ 9 mod 512"
    using div_mult_mod_eq[of "?v div 2 ^ 9" 512] by (simp add: div_mult2_eq[symmetric])
  have c: "?v = ?v div 2 ^ 9 * 512 + ?v mod 512"
    using div_mult_mod_eq[of ?v 512] by simp
  have e: "(2::nat) ^ 9 = 512" "(2::nat) ^ 18 = 262144" by simp_all
  show ?thesis unfolding p a using b c unfolding e by linarith
qed

lemma vpn_eq_iff:
  assumes "va < MAXVA" and "x < MAXVA"
  shows "x div 4096 = va div 4096 \<longleftrightarrow> px x 2 = px va 2 \<and> px x 1 = px va 1 \<and> px x 0 = px va 0"
proof
  assume e: "x div 4096 = va div 4096"
  have "px y l = y div 4096 div 2 ^ (9 * l) mod 512" if "y < MAXVA" for y l
    using MAXVA_bound(2)[OF that] by (simp add: px_eq power_add div_mult2_eq)
  with assms e show "px x 2 = px va 2 \<and> px x 1 = px va 1 \<and> px x 0 = px va 0" by simp
next
  assume "px x 2 = px va 2 \<and> px x 1 = px va 1 \<and> px x 0 = px va 0"
  with vpn_px[OF assms(1)] vpn_px[OF assms(2)] show "x div 4096 = va div 4096" by simp
qed

section \<open>Trees of tables\<close>

fun subtable :: "(nat \<Rightarrow> usize list) \<Rightarrow> nat \<Rightarrow> nat list \<Rightarrow> nat option" where
  "subtable T t [] = Some t"
| "subtable T t (i # is) = (if is_v (T t ! i) then subtable T (to_pa (T t ! i)) is else None)"

definition tpath :: "nat list \<Rightarrow> bool" where
  "tpath is \<longleftrightarrow> length is \<le> 2 \<and> (\<forall>i\<in>set is. i < 512)"

text \<open>
  A table of shape: every table page reached from the root in at most two steps is a page
  held from the allocator, has 512 entries, and is reached by one path only.
\<close>

definition wf_tables :: "nat set \<Rightarrow> (nat \<Rightarrow> usize list) \<Rightarrow> nat \<Rightarrow> bool" where
  "wf_tables P T root \<longleftrightarrow>
     (\<forall>is t. tpath is \<longrightarrow> subtable T root is = Some t \<longrightarrow> t \<in> P \<and> length (T t) = 512) \<and>
     (\<forall>is js t. tpath is \<longrightarrow> tpath js \<longrightarrow> subtable T root is = Some t \<longrightarrow> subtable T root js = Some t \<longrightarrow> is = js)"

definition table_pages :: "(nat \<Rightarrow> usize list) \<Rightarrow> nat \<Rightarrow> nat set" where
  "table_pages T root = {t. \<exists>is. tpath is \<and> subtable T root is = Some t}"

definition leafmap :: "(nat \<Rightarrow> usize list) \<Rightarrow> nat \<Rightarrow> nat \<Rightarrow> usize option" where
  "leafmap T root va =
     (case subtable T root [px va 2, px va 1] of
        None \<Rightarrow> None
      | Some t \<Rightarrow> if is_v (T t ! px va 0) then Some (T t ! px va 0) else None)"

lemma wf_tablesD:
  assumes "wf_tables P T root"
  shows "tpath is \<Longrightarrow> subtable T root is = Some t \<Longrightarrow> t \<in> P"
    and "tpath is \<Longrightarrow> subtable T root is = Some t \<Longrightarrow> length (T t) = 512"
    and "tpath is \<Longrightarrow> tpath js \<Longrightarrow> subtable T root is = Some t \<Longrightarrow> subtable T root js = Some t \<Longrightarrow> is = js"
  using assms unfolding wf_tables_def by blast+

lemma tpath_simps [simp]: "tpath []" "tpath [i] \<longleftrightarrow> i < 512" "tpath [i, j] \<longleftrightarrow> i < 512 \<and> j < 512"
  by (auto simp: tpath_def)

lemma tpath_appendD: "tpath (is @ js) \<Longrightarrow> tpath is"
  by (auto simp: tpath_def)

lemma tpath_snoc: "tpath p \<Longrightarrow> length p \<le> 1 \<Longrightarrow> i < 512 \<Longrightarrow> tpath (p @ [i])"
  by (auto simp: tpath_def)

lemma tpath_va: "va < MAXVA \<Longrightarrow> tpath [px va 2, px va 1]" "va < MAXVA \<Longrightarrow> tpath [px va 2]"
  using px_less[OF MAXVA_bound(2)] by simp_all

lemma subtable_append:
  "subtable T t (is @ js) = (case subtable T t is of None \<Rightarrow> None | Some u \<Rightarrow> subtable T u js)"
  by (induction "is" arbitrary: t) auto

lemma subtable_cong:
  assumes "\<And>js i ks u. is = js @ i # ks \<Longrightarrow> subtable T root js = Some u \<Longrightarrow> T' u ! i = T u ! i"
  shows "subtable T' root is = subtable T root is"
  using assms
proof (induction "is" arbitrary: root)
  case (Cons i "is")
  have "T' root ! i = T root ! i" using Cons.prems[of "[]" i "is" root] by simp
  moreover have "subtable T' (to_pa (T root ! i)) is = subtable T (to_pa (T root ! i)) is"
    if v: "is_v (T root ! i)"
  proof (rule Cons.IH)
    fix js k ks u assume "is = js @ k # ks" "subtable T (to_pa (T root ! i)) js = Some u"
    with Cons.prems[of "i # js" k ks u] v show "T' u ! k = T u ! k" by simp
  qed
  ultimately show ?case by simp
qed simp

section \<open>Writing a leaf entry\<close>

lemma subtable_write_leaf:
  assumes wf: "wf_tables P T root" and p: "tpath p" "length p = 2" "subtable T root p = Some t"
    and "tpath is"
  shows "subtable (T(t := (T t)[i := v])) root is = subtable T root is"
proof (rule subtable_cong)
  fix js k ks u assume "is = js @ k # ks" and u: "subtable T root js = Some u"
  with assms have "tpath js" "length js < 2" by (auto dest: tpath_appendD simp: tpath_def)
  with wf_tablesD(3)[OF wf p(1) _ p(3), of js] u p(2) have "u \<noteq> t" by auto
  then show "(T(t := (T t)[i := v])) u ! k = T u ! k" by simp
qed

lemma wf_write_leaf:
  assumes wf: "wf_tables P T root" and p: "tpath p" "length p = 2" "subtable T root p = Some t"
  shows "wf_tables P (T(t := (T t)[i := v])) root"
  using wf wf_tablesD(2)[OF wf p(1,3)] unfolding wf_tables_def
  by (simp add: subtable_write_leaf[OF assms])

lemma leafmap_write:
  assumes wf: "wf_tables P T root" and va: "va < MAXVA" and x: "x < MAXVA"
    and t: "subtable T root [px va 2, px va 1] = Some t"
  shows "leafmap (T(t := (T t)[px va 0 := v])) root x =
    (if x div 4096 = va div 4096 then if is_v v then Some v else None else leafmap T root x)"
proof -
  let ?p = "[px va 2, px va 1]" and ?q = "[px x 2, px x 1]"
  let ?T = "T(t := (T t)[px va 0 := v])"
  have st: "subtable ?T root ?q = subtable T root ?q"
    by (rule subtable_write_leaf[OF wf tpath_va(1)[OF va] _ t tpath_va(1)[OF x]]) simp
  have len: "px va 0 < length (T t)"
    using wf_tablesD(2)[OF wf tpath_va(1)[OF va] t] va by simp
  show ?thesis
  proof (cases "subtable T root ?q = Some t")
    case True
    then have "?q = ?p" using wf_tablesD(3)[OF wf tpath_va(1)[OF x] tpath_va(1)[OF va] _ t] by simp
    then have e: "x div 4096 = va div 4096 \<longleftrightarrow> px x 0 = px va 0"
      using vpn_eq_iff[OF va x] by simp
    show ?thesis
      unfolding leafmap_def st e using True len
      by (cases "px x 0 = px va 0") (simp_all del: subtable.simps)
  next
    case False
    then have "\<not> (px x 2 = px va 2 \<and> px x 1 = px va 1)" using t by (auto simp del: subtable.simps)
    then have e: "x div 4096 \<noteq> va div 4096" using vpn_eq_iff[OF va x] by blast
    show ?thesis
      unfolding leafmap_def st using False e
      by (cases "subtable T root ?q") (auto simp del: subtable.simps)
  qed
qed

section \<open>Hanging in a new table\<close>

text \<open>
  \<^verbatim>\<open>walk\<close> may allocate page \<open>n\<close> and enter it at index \<open>i\<close> of the table \<open>t\<close> at path \<open>p\<close>.
\<close>

definition hang_in :: "nat set \<Rightarrow> (nat \<Rightarrow> usize list) \<Rightarrow> nat \<Rightarrow> nat list \<Rightarrow> nat \<Rightarrow> nat \<Rightarrow> nat \<Rightarrow> bool" where
  "hang_in P T root p t i n \<longleftrightarrow>
     wf_tables P T root \<and> tpath p \<and> length p \<le> 1 \<and> subtable T root p = Some t \<and>
     i < 512 \<and> \<not> is_v (T t ! i) \<and> n \<notin> P \<and> page_addr n"

definition with_table :: "(nat \<Rightarrow> usize list) \<Rightarrow> nat \<Rightarrow> nat \<Rightarrow> nat \<Rightarrow> nat \<Rightarrow> usize list" where
  "with_table T t i n = (let U = T(n := replicate 512 0) in U(t := (U t)[i := pte_set n PTE_V]))"

lemma hang_inD:
  assumes "hang_in P T root p t i n"
  shows "wf_tables P T root" "tpath p" "length p \<le> 1" "subtable T root p = Some t"
    "i < 512" "\<not> is_v (T t ! i)" "n \<notin> P" "page_addr n"
  using assms by (auto simp: hang_in_def)

lemma with_table_at:
  assumes hang: "hang_in P T root p t i n"
  shows "(with_table T t i n) t = (T t)[i := pte_set n PTE_V]" "(with_table T t i n) n = replicate 512 0"
  "u \<in> P \<Longrightarrow> u \<noteq> t \<Longrightarrow> (with_table T t i n) u = T u"
  using wf_tablesD(1)[OF hang_inD(1)[OF hang] hang_inD(2)[OF hang] hang_inD(4)[OF hang]] hang_inD(7)[OF hang]
  by (auto simp: with_table_def)

lemma subtable_old:
  assumes hang: "hang_in P T root p t i n" and "tpath is" and no: "\<And>ks. is \<noteq> p @ i # ks"
  shows "subtable (with_table T t i n) root is = subtable T root is"
proof (rule subtable_cong)
  note wf = hang_inD(1)[OF hang] and p = hang_inD(2-4)[OF hang] and i = hang_inD(5,6)[OF hang] and n = hang_inD(7,8)[OF hang]
  fix js k ks u assume s: "is = js @ k # ks" and u: "subtable T root js = Some u"
  have js: "tpath js" using assms(2) s by (auto dest: tpath_appendD)
  show "(with_table T t i n) u ! k = T u ! k"
  proof (cases "u = t")
    case True
    then have "js = p" using wf_tablesD(3)[OF wf js p(1) u] p(3) by simp
    then have "k \<noteq> i" using s no by auto
    then show ?thesis using True by (simp add: with_table_at[OF hang])
  next
    case False
    then show ?thesis using wf_tablesD(1)[OF wf js u] by (simp add: with_table_at[OF hang])
  qed
qed

lemma subtable_new:
  assumes hang: "hang_in P T root p t i n"
  shows "subtable (with_table T t i n) root (p @ [i]) = Some n"
proof -
  note wf = hang_inD(1)[OF hang] and p = hang_inD(2-4)[OF hang] and i = hang_inD(5,6)[OF hang] and n = hang_inD(7,8)[OF hang]
  have "subtable (with_table T t i n) root p = Some t" using subtable_old[OF hang p(1)] p(3) by auto
  moreover have "i < length (T t)" using wf_tablesD(2)[OF wf p(1,3)] i(1) by simp
  ultimately show ?thesis
    by (simp add: subtable_append with_table_at[OF hang] to_pa_set[OF n(2)] PTE_bits)
qed

lemma subtable_beyond:
  assumes hang: "hang_in P T root p t i n"
  shows "j < 512 \<Longrightarrow> subtable (with_table T t i n) root (p @ i # j # ks) = None"
  using subtable_new[OF hang] subtable_append[of "with_table T t i n" root "p @ [i]" "j # ks"] by (simp add: with_table_at[OF hang])

lemma subtable_was:
  assumes hang: "hang_in P T root p t i n"
  shows "subtable T root (p @ i # ks) = None"
  using hang_inD(4,6)[OF hang] by (simp add: subtable_append)

lemma subtable_with_table:
  assumes hang: "hang_in P T root p t i n" and "tpath is"
  shows "subtable (with_table T t i n) root is = (if is = p @ [i] then Some n else subtable T root is)"
proof (cases "\<exists>ks. is = p @ i # ks")
  case False
  then show ?thesis using subtable_old[OF hang assms(2)] by auto
next
  case True
  then obtain ks where ks: "is = p @ i # ks" by blast
  show ?thesis
  proof (cases ks)
    case Nil
    then show ?thesis using ks subtable_new[OF hang] by simp
  next
    case (Cons j ls)
    moreover have "j < 512" using assms(2) ks Cons by (auto simp: tpath_def)
    ultimately show ?thesis using ks subtable_beyond[OF hang] subtable_was[OF hang] by simp
  qed
qed

lemma wf_with_table:
  assumes hang: "hang_in P T root p t i n"
  shows "wf_tables (insert n P) (with_table T t i n) root"
proof -
  note wf = hang_inD(1)[OF hang] and p = hang_inD(2-4)[OF hang] and i = hang_inD(5,6)[OF hang] and n = hang_inD(7,8)[OF hang]
  have out: "subtable T root is \<noteq> Some n" if "tpath is" for "is"
    using wf_tablesD(1)[OF wf that] n(1) by blast
  have len: "length ((with_table T t i n) u) = 512" if "tpath is" "subtable T root is = Some u" for "is" u
    using wf_tablesD(1,2)[OF wf that] with_table_at[OF hang] by (cases "u = t") auto
  have new: "length (with_table T t i n n) = 512" by (simp add: with_table_at[OF hang])
  show ?thesis
    unfolding wf_tables_def
  proof (intro conjI allI impI)
    fix "is" u assume "tpath is" "subtable (with_table T t i n) root is = Some u"
    then show "u \<in> insert n P" "length ((with_table T t i n) u) = 512"
      using wf_tablesD(1)[OF wf, of "is" u] len[of "is" u] new
      by (auto simp: subtable_with_table[OF hang] split: if_splits)
  next
    fix "is" js u assume "tpath is" "tpath js" "subtable (with_table T t i n) root is = Some u"
      "subtable (with_table T t i n) root js = Some u"
    then show "is = js"
      using wf_tablesD(3)[OF wf, of "is" js u] out by (auto simp: subtable_with_table[OF hang] split: if_splits)
  qed
qed

lemma leafmap_with_table:
  assumes hang: "hang_in P T root p t i n" and x: "x < MAXVA"
  shows "leafmap (with_table T t i n) root x = leafmap T root x"
proof (cases "[px x 2, px x 1] = p @ [i]")
  note wf = hang_inD(1)[OF hang] and p = hang_inD(2-4)[OF hang] and i = hang_inD(5,6)[OF hang] and n = hang_inD(7,8)[OF hang]
  case True
  then have "subtable T root [px x 2, px x 1] = None" using subtable_was[OF hang, of "[]"] by (simp only:)
  moreover have "subtable (with_table T t i n) root [px x 2, px x 1] = Some n"
    using subtable_with_table[OF hang tpath_va(1)[OF x]] True by (simp only: refl if_True)
  ultimately show ?thesis
    using x by (simp add: leafmap_def with_table_at[OF hang] del: subtable.simps)
next
  note wf = hang_inD(1)[OF hang] and p = hang_inD(2-4)[OF hang] and i = hang_inD(5,6)[OF hang] and n = hang_inD(7,8)[OF hang]
  case False
  then have st: "subtable (with_table T t i n) root [px x 2, px x 1] = subtable T root [px x 2, px x 1]"
    using subtable_with_table[OF hang tpath_va(1)[OF x]] by (simp only: if_False)
  have "(with_table T t i n) u = T u" if u: "subtable T root [px x 2, px x 1] = Some u" for u
  proof -
    have "u \<noteq> t" using wf_tablesD(3)[OF wf tpath_va(1)[OF x] p(1) u] p by auto
    then show ?thesis using wf_tablesD(1)[OF wf tpath_va(1)[OF x] u] with_table_at(3)[OF hang] by blast
  qed
  with st show ?thesis by (simp add: leafmap_def del: subtable.simps split: option.splits)
qed

end
