(* ===== verification/VmProofs.thy ===== *)
theory VmProofs
  imports VmTables
begin

text \<open>
  The page-table operations of \<^verbatim>\<open>vm.rs\<close> over any page allocator: the invariant of
  an address space, what \<^verbatim>\<open>walk\<close> keeps, and the effect of mapping and unmapping on
  the partial map of leaf entries. The lemmas are proved once in the allocator's interface.
\<close>

declare subtable.simps [simp del]

section \<open>The invariant of an address space\<close>

definition vm_ok :: "('s \<Rightarrow> bool) \<Rightarrow> ('s \<Rightarrow> nat set) \<Rightarrow> nat \<Rightarrow> 's vmst \<Rightarrow> bool" where
  "vm_ok ainv pages root st \<longleftrightarrow>
     ainv (vm_alloc st) \<and> wf_tables (pages (vm_alloc st)) (vm_pt st) root"

text \<open>
  Mapping takes pages for new tables, and touches no data page and no page-table page of
  another address space; \<^verbatim>\<open>walk\<close> also keeps the map of leaf entries.
\<close>

definition vm_frame :: "('s \<Rightarrow> nat set) \<Rightarrow> nat \<Rightarrow> 's vmst \<Rightarrow> 's vmst \<Rightarrow> bool" where
  "vm_frame pages root st st' \<longleftrightarrow>
     pages (vm_alloc st) \<subseteq> pages (vm_alloc st') \<and>
     vm_pg st' = vm_pg st \<and>
     table_pages (vm_pt st') root
       \<subseteq> table_pages (vm_pt st) root \<union> (pages (vm_alloc st') - pages (vm_alloc st)) \<and>
     (\<forall>u\<in>pages (vm_alloc st) - table_pages (vm_pt st) root. vm_pt st' u = vm_pt st u)"

definition vm_grow :: "('s \<Rightarrow> nat set) \<Rightarrow> nat \<Rightarrow> 's vmst \<Rightarrow> 's vmst \<Rightarrow> bool" where
  "vm_grow pages root st st' \<longleftrightarrow>
     vm_frame pages root st st' \<and>
     (\<forall>va<MAXVA. leafmap (vm_pt st') root va = leafmap (vm_pt st) root va)"

lemma vm_frame_refl [simp]: "vm_frame pages root st st"
  by (simp add: vm_frame_def)

lemma vm_frame_trans:
  assumes "vm_frame pages root st1 st2" and "vm_frame pages root st2 st3"
  shows "vm_frame pages root st1 st3"
proof -
  let ?P = "\<lambda>st. pages (vm_alloc st)" and ?T = "\<lambda>st. table_pages (vm_pt st) root"
  have p: "?P st1 \<subseteq> ?P st2" "?P st2 \<subseteq> ?P st3" and t: "?T st2 \<subseteq> ?T st1 \<union> (?P st2 - ?P st1)"
    "?T st3 \<subseteq> ?T st2 \<union> (?P st3 - ?P st2)"
    using assms by (auto simp: vm_frame_def)
  have "vm_pt st3 u = vm_pt st1 u" if u: "u \<in> ?P st1 - ?T st1" for u
  proof -
    have "u \<in> ?P st2 - ?T st2" using u p(1) t(1) by blast
    then show ?thesis using assms u by (simp add: vm_frame_def)
  qed
  moreover have "?T st3 \<subseteq> ?T st1 \<union> (?P st3 - ?P st1)" using p t by blast
  ultimately show ?thesis using assms p by (simp add: vm_frame_def)
qed

lemma vm_frameD:
  assumes "vm_frame pages root st st'"
  shows "pages (vm_alloc st) \<subseteq> pages (vm_alloc st')" "vm_pg st' = vm_pg st"
    "table_pages (vm_pt st') root
       \<subseteq> table_pages (vm_pt st) root \<union> (pages (vm_alloc st') - pages (vm_alloc st))"
    "u \<in> pages (vm_alloc st) \<Longrightarrow> u \<notin> table_pages (vm_pt st) root \<Longrightarrow> vm_pt st' u = vm_pt st u"
  using assms by (auto simp: vm_frame_def)

lemma vm_grow_refl [simp]: "vm_grow pages root st st"
  by (simp add: vm_grow_def)

lemma vm_grow_trans: "vm_grow pages root st1 st2 \<Longrightarrow> vm_grow pages root st2 st3 \<Longrightarrow> vm_grow pages root st1 st3"
  by (auto simp: vm_grow_def intro: vm_frame_trans)

lemma table_pages_with_table:
  assumes "hang_in P T root p t i n"
  shows "table_pages (with_table T t i n) root = insert n (table_pages T root)"
proof -
  note h = hang_inD[OF assms]
  have new: "tpath (p @ [i])" by (rule tpath_snoc[OF h(2,3,5)])
  have was: "subtable T root (p @ [i]) = None" by (rule subtable_was[OF assms])
  show ?thesis
  proof (intro equalityI subsetI)
    fix x assume "x \<in> table_pages (with_table T t i n) root"
    then show "x \<in> insert n (table_pages T root)"
      by (auto simp: table_pages_def subtable_with_table[OF assms] split: if_splits)
  next
    fix x assume "x \<in> insert n (table_pages T root)"
    then consider "x = n" | "is" where "tpath is" "subtable T root is = Some x" by (auto simp: table_pages_def)
    then show "x \<in> table_pages (with_table T t i n) root"
    proof cases
      case 1
      then show ?thesis using new subtable_with_table[OF assms new] unfolding table_pages_def by auto
    next
      case (2 "is")
      then have "is \<noteq> p @ [i]" using was by auto
      with 2 show ?thesis using subtable_with_table[OF assms 2(1)] unfolding table_pages_def by auto
    qed
  qed
qed

text \<open>The map after the \<open>j\<close> pages from \<open>va\<close> were mapped to the frames from \<open>pa\<close>.\<close>

definition map_pages :: "nat \<Rightarrow> nat \<Rightarrow> nat \<Rightarrow> usize \<Rightarrow> (nat \<Rightarrow> usize option) \<Rightarrow> nat \<Rightarrow> usize option" where
  "map_pages va pa j perm m x =
     (if va \<le> x \<and> x < va + 4096 * j
      then Some (pte_set (pa + (x div 4096 * 4096 - va)) (perm OR PTE_V)) else m x)"

lemma map_pages_0 [simp]: "map_pages va pa 0 perm m x = m x"
  by (auto simp: map_pages_def)

lemma map_pages_cong: "m x = m' x \<Longrightarrow> map_pages va pa j perm m x = map_pages va pa j perm m' x"
  by (simp add: map_pages_def)

lemma page_bounds: "x div 4096 = q \<longleftrightarrow> 4096 * q \<le> x \<and> x < 4096 * q + (4096::nat)"
  using cells_iff[of x 12 q] by (auto simp: cells_def algebra_simps)

lemma same_page: "va mod 4096 = 0 \<Longrightarrow> x div 4096 = va div 4096 \<longleftrightarrow> va \<le> x \<and> x < va + (4096::nat)"
  using page_bounds[of x "va div 4096"] div_mult_mod_eq[of va 4096] by (simp add: mult.commute)

lemma page_base: "va mod 4096 = 0 \<Longrightarrow> va \<le> x \<Longrightarrow> x < va + 4096 \<Longrightarrow> x div 4096 * 4096 = (va::nat)"
  using same_page[of va x] div_mult_mod_eq[of va 4096] by simp

lemma map_pages_Suc:
  assumes "va mod 4096 = 0"
  shows "map_pages va pa (Suc j) perm m x =
    map_pages (va + 4096) (pa + 4096) j perm
      (\<lambda>x. if x div 4096 = va div 4096 then Some (pte_set pa (perm OR PTE_V)) else m x) x"
proof (cases "va \<le> x \<and> x < va + 4096")
  case True
  then show ?thesis using page_base[OF assms, of x] same_page[OF assms, of x] by (simp add: map_pages_def)
next
  case False
  moreover have "va + 4096 \<le> x div 4096 * 4096" if "va + 4096 \<le> x"
  proof -
    have "va div 4096 + 1 \<le> x div 4096" using div_le_mono[OF that, of 4096] by (simp del: div_le_mono)
    then show ?thesis using div_mult_mod_eq[of va 4096] assms by linarith
  qed
  ultimately show ?thesis using same_page[OF assms, of x] by (auto simp: map_pages_def)
qed

section \<open>Walking\<close>

context page_allocator
begin

lemma new_table_grow:
  assumes ok: "vm_ok inv pages root st" and p: "tpath p" "length p \<le> 1" "subtable (vm_pt st) root p = Some t"
    and i: "i < 512" "\<not> is_v (read_pte st (t, i))"
    and new: "palloc (vm_alloc st) = Inr (Some n, s')" "inv s'" "n \<notin> pages (vm_alloc st)"
      "pages s' = insert n (pages (vm_alloc st))" "page_addr n"
  defines "st1 \<equiv> st\<lparr>vm_alloc := s', vm_pt := (vm_pt st)(n := replicate 512 0)\<rparr>"
  defines "st2 \<equiv> write_pte st1 (t, i) (pte_set n PTE_V)"
  shows "RawPageTable_new palloc st = Inr (Some n, st1)" and "vm_ok inv pages root st2"
    and "vm_grow pages root st st2" and "subtable (vm_pt st2) root (p @ [i]) = Some n"
proof -
  show "RawPageTable_new palloc st = Inr (Some n, st1)"
    using new by (simp add: RawPageTable_new_def st1_def)
  have h: "hang_in (pages (vm_alloc st)) (vm_pt st) root p t i n"
    using ok p i new by (simp add: hang_in_def vm_ok_def read_pte_def)
  have pt: "vm_pt st2 = with_table (vm_pt st) t i n"
    by (simp add: st2_def st1_def write_pte_def with_table_def Let_def)
  have al: "vm_alloc st2 = s'" "vm_pg st2 = vm_pg st" by (simp_all add: st2_def st1_def write_pte_def)
  show "subtable (vm_pt st2) root (p @ [i]) = Some n" unfolding pt by (rule subtable_new[OF h])
  show "vm_ok inv pages root st2"
    using new wf_with_table[OF h] by (simp add: vm_ok_def pt al)
  have "t \<in> table_pages (vm_pt st) root" using p by (auto simp: table_pages_def)
  then show "vm_grow pages root st st2"
    using new(3,4) table_pages_with_table[OF h] leafmap_with_table[OF h] with_table_at(3)[OF h]
    by (auto simp: vm_grow_def vm_frame_def pt al)
qed

lemma walk_levels_ok:
  assumes "vm_ok inv pages root st" and va: "va < MAXVA" and "tpath p"
    and "length p + length levels \<le> 2" and "subtable (vm_pt st) root p = Some t"
  shows "\<exists>r st'. walk_levels palloc levels va alloc t st = Inr (r, st') \<and> vm_ok inv pages root st' \<and>
    vm_grow pages root st st' \<and> (\<not> alloc \<longrightarrow> st' = st) \<and>
    (case r of
       None \<Rightarrow> \<not> alloc \<longrightarrow> subtable (vm_pt st) root (p @ map (px va) levels) = None
     | Some u \<Rightarrow> subtable (vm_pt st') root (p @ map (px va) levels) = Some u)"
  using assms
proof (induction levels arbitrary: p t st)
  case Nil
  then show ?case by simp
next
  case (Cons level levels)
  let ?i = "px va level" and ?T = "vm_pt st"
  have i: "?i < 512" using va by simp
  have len: "length (?T t) = 512"
    using Cons.prems wf_tablesD(2) by (auto simp: vm_ok_def)
  have p1: "tpath (p @ [?i])" using Cons.prems i by (intro tpath_snoc) auto
  have app: "p @ map (px va) (level # levels) = (p @ [?i]) @ map (px va) levels" by simp
  show ?case
  proof (cases "is_v (read_pte st (t, ?i))")
    case True
    then have s: "subtable ?T root (p @ [?i]) = Some (to_pa (read_pte st (t, ?i)))"
      using Cons.prems by (simp add: subtable_append subtable.simps read_pte_def)
    have w: "walk_levels palloc (level # levels) va alloc t st
        = walk_levels palloc levels va alloc (to_pa (read_pte st (t, ?i))) st"
      using True len i by simp
    show ?thesis
      unfolding w app by (rule Cons.IH) (use Cons.prems p1 s in auto)
  next
    case False
    then have none: "subtable ?T root (p @ map (px va) (level # levels)) = None"
      using Cons.prems by (simp add: subtable_append subtable.simps read_pte_def)
    show ?thesis
    proof (cases alloc)
      case False
      with \<open>\<not> is_v _\<close> len i
      have w: "walk_levels palloc (level # levels) va alloc t st = Inr (None, st)" by (simp add: Let_def)
      show ?thesis unfolding w using none Cons.prems by (intro exI[of _ None] exI[of _ st]) simp
    next
      case True
      have inv: "inv (vm_alloc st)" using Cons.prems by (simp add: vm_ok_def)
      from inv show ?thesis
      proof (cases rule: palloc_cases)
        case full
        then have "RawPageTable_new palloc st = Inr (None, st)" by (simp add: RawPageTable_new_def)
        with True \<open>\<not> is_v _\<close> len i
        have w: "walk_levels palloc (level # levels) va alloc t st = Inr (None, st)" by (simp add: Let_def)
        show ?thesis unfolding w using True Cons.prems by (intro exI[of _ None] exI[of _ st]) simp
      next
        case (page n s')
        have l1: "length p \<le> 1" using Cons.prems by simp
        note g = new_table_grow[OF Cons.prems(1,3) l1 Cons.prems(5) i False page]
        let ?st = "write_pte (st\<lparr>vm_alloc := s', vm_pt := (vm_pt st)(n := replicate 512 0)\<rparr>) (t, ?i) (pte_set n PTE_V)"
        have w: "walk_levels palloc (level # levels) va alloc t st = walk_levels palloc levels va alloc n ?st"
          using True False len i g(1) by simp
        have "length (p @ [?i]) + length levels \<le> 2" using Cons.prems by simp
        from Cons.IH[OF g(2) va p1 this g(4)] show ?thesis
          unfolding w app using True vm_grow_trans[OF g(3)]
          by (elim exE conjE) (intro exI conjI, auto split: option.splits)
      qed
    qed
  qed
qed

lemma walk_ok:
  assumes ok: "vm_ok inv pages root st" and va: "va < MAXVA"
  obtains (none) st' where "walk palloc root va alloc st = Inr (None, st')" and "vm_ok inv pages root st'"
      and "vm_grow pages root st st'" and "\<not> alloc \<longrightarrow> st' = st \<and> subtable (vm_pt st) root [px va 2, px va 1] = None"
  | (entry) t st' where "walk palloc root va alloc st = Inr (Some (t, px va 0), st')"
      and "vm_ok inv pages root st'" and "vm_grow pages root st st'" and "\<not> alloc \<longrightarrow> st' = st"
      and "subtable (vm_pt st') root [px va 2, px va 1] = Some t"
proof -
  have "tpath []" "length [] + length [2, 1::nat] \<le> 2" "subtable (vm_pt st) root [] = Some root"
    by (simp_all add: subtable.simps)
  from walk_levels_ok[OF ok va this, of alloc] obtain r st'
    where w: "walk_levels palloc [2, 1] va alloc root st = Inr (r, st')" "vm_ok inv pages root st'"
      "vm_grow pages root st st'" "\<not> alloc \<longrightarrow> st' = st"
      "case r of None \<Rightarrow> \<not> alloc \<longrightarrow> subtable (vm_pt st) root ([] @ map (px va) [2, 1]) = None
       | Some u \<Rightarrow> subtable (vm_pt st') root ([] @ map (px va) [2, 1]) = Some u"
    by (elim exE conjE) (rule that; assumption)
  show thesis
  proof (cases r)
    case None
    then have "walk palloc root va alloc st = Inr (None, st')" using w(1) va by (simp add: walk_def)
    then show thesis by (rule none) (use w None in auto)
  next
    case (Some t)
    then have s: "subtable (vm_pt st') root [px va 2, px va 1] = Some t" using w(5) by simp
    have "length (vm_pt st' t) = 512"
      using w(2) wf_tablesD(2)[OF _ tpath_va(1)[OF va] s] by (auto simp: vm_ok_def)
    then have "walk palloc root va alloc st = Inr (Some (t, px va 0), st')"
      using w(1) va Some by (simp add: walk_def)
    then show thesis using w(2-4) s by (rule entry)
  qed
qed

section \<open>Mapping\<close>

lemma write_pte_grow:
  assumes ok: "vm_ok inv pages root st" and va: "va < MAXVA"
    and t: "subtable (vm_pt st) root [px va 2, px va 1] = Some t"
  shows "vm_ok inv pages root (write_pte st (t, px va 0) v)"
    and "vm_frame pages root st (write_pte st (t, px va 0) v)"
    and "x < MAXVA \<Longrightarrow> leafmap (vm_pt (write_pte st (t, px va 0) v)) root x =
      (if x div 4096 = va div 4096 then if is_v v then Some v else None else leafmap (vm_pt st) root x)"
proof -
  let ?st = "write_pte st (t, px va 0) v"
  have wf: "wf_tables (pages (vm_alloc st)) (vm_pt st) root" using ok by (simp add: vm_ok_def)
  have pt: "vm_pt ?st = (vm_pt st)(t := (vm_pt st t)[px va 0 := v])" by (simp add: write_pte_def)
  have al: "vm_alloc ?st = vm_alloc st" "vm_pg ?st = vm_pg st" by (simp_all add: write_pte_def)
  have p: "tpath [px va 2, px va 1]" "length [px va 2, px va 1] = 2" using va by simp_all
  show "vm_ok inv pages root ?st"
    using ok wf_write_leaf[OF wf p t] by (simp add: vm_ok_def pt al)
  have "table_pages (vm_pt ?st) root = table_pages (vm_pt st) root"
    unfolding table_pages_def pt using subtable_write_leaf[OF wf p t] by auto
  moreover have "t \<in> table_pages (vm_pt st) root" using p(1) t unfolding table_pages_def by blast
  ultimately show "vm_frame pages root st ?st" unfolding vm_frame_def al pt by auto
  show "leafmap (vm_pt ?st) root x =
      (if x div 4096 = va div 4096 then if is_v v then Some v else None else leafmap (vm_pt st) root x)"
    if "x < MAXVA" unfolding pt by (rule leafmap_write[OF wf va that t])
qed

lemma map_one_ok:
  assumes ok: "vm_ok inv pages root st" and va: "va < MAXVA" and free: "leafmap (vm_pt st) root va = None"
  shows "\<exists>b st'. map_one palloc root va pa perm st = Inr (b, st') \<and> vm_ok inv pages root st' \<and>
    vm_frame pages root st st' \<and>
    (\<forall>x<MAXVA. leafmap (vm_pt st') root x =
       (if b \<and> x div 4096 = va div 4096 then Some (pte_set pa (perm OR PTE_V)) else leafmap (vm_pt st) root x))"
  using ok va
proof (cases rule: walk_ok[where alloc = True])
  case (none st')
  then show ?thesis by (auto simp: map_one_def vm_grow_def)
next
  case (entry t st')
  have "\<not> is_v (read_pte st' (t, px va 0))"
    using free entry(3,5) va by (auto simp: vm_grow_def leafmap_def read_pte_def split: if_splits)
  then have "map_one palloc root va pa perm st
      = Inr (True, write_pte st' (t, px va 0) (pte_set pa (perm OR PTE_V)))"
    using entry(1) by (simp add: map_one_def)
  moreover note w = write_pte_grow[OF entry(2) va entry(5), where v = "pte_set pa (perm OR PTE_V)"]
  moreover have "is_v (pte_set pa (perm OR PTE_V))" by (simp add: bit_or_iff PTE_bits)
  ultimately show ?thesis
    using entry(3) vm_frame_trans[of pages root st st'] by (auto simp: vm_grow_def)
qed

lemma map_one_remap:
  assumes ok: "vm_ok inv pages root st" and va: "va < MAXVA" and m: "leafmap (vm_pt st) root va \<noteq> None"
  shows "map_one palloc root va pa perm st = Inl (Panic ''mappages: remap'') \<or>
    (\<exists>st'. map_one palloc root va pa perm st = Inr (False, st'))"
  using ok va
proof (cases rule: walk_ok[where alloc = True])
  case (none st')
  then show ?thesis by (simp add: map_one_def)
next
  case (entry t st')
  have "is_v (read_pte st' (t, px va 0))"
    using m entry(3,5) va by (auto simp: vm_grow_def leafmap_def read_pte_def split: if_splits)
  then show ?thesis using entry(1) by (simp add: map_one_def)
qed

lemma mappages_loop_ok:
  assumes "vm_ok inv pages root st" and "va mod 4096 = 0" and "va + 4096 * k < MAXVA"
    and "pa + 4096 * k < 2 ^ 64" and "\<forall>j\<le>k. leafmap (vm_pt st) root (va + 4096 * j) = None"
  shows "\<exists>b st' j. mappages_loop palloc root va pa (va + 4096 * k) perm st = Inr (b, st') \<and>
    vm_ok inv pages root st' \<and> vm_frame pages root st st' \<and> (if b then j = Suc k else j \<le> k) \<and>
    (\<forall>x<MAXVA. leafmap (vm_pt st') root x = map_pages va pa j perm (leafmap (vm_pt st) root) x)"
  using assms
proof (induction k arbitrary: va pa st)
  case (0 va pa st)
  have v: "va < MAXVA" and f: "leafmap (vm_pt st) root va = None" using 0 by auto
  obtain b st' where m: "map_one palloc root va pa perm st = Inr (b, st')" "vm_ok inv pages root st'"
    "vm_frame pages root st st'" and l: "\<forall>x<MAXVA. leafmap (vm_pt st') root x =
      (if b \<and> x div 4096 = va div 4096 then Some (pte_set pa (perm OR PTE_V)) else leafmap (vm_pt st) root x)"
    using map_one_ok[OF 0(1) v f, of pa perm] by (elim exE conjE) (rule that; assumption)
  have "mappages_loop palloc root va pa (va + 4096 * 0) perm st = Inr (b, st')"
    using m(1) by (subst mappages_loop.simps) simp
  moreover have "\<forall>x<MAXVA. leafmap (vm_pt st') root x
      = map_pages va pa (if b then Suc 0 else 0) perm (leafmap (vm_pt st) root) x"
    using l by (cases b) (simp_all add: map_pages_Suc[OF 0(2)])
  ultimately show ?case
    using m(2,3) by (intro exI[of _ b] exI[of _ st'] exI[of _ "if b then Suc 0 else 0"]) simp
next
  case (Suc k va pa st)
  have v: "va < MAXVA" and f: "leafmap (vm_pt st) root va = None" using Suc.prems by auto
  obtain b st1 where m: "map_one palloc root va pa perm st = Inr (b, st1)" "vm_ok inv pages root st1"
    "vm_frame pages root st st1" and l: "\<forall>x<MAXVA. leafmap (vm_pt st1) root x =
      (if b \<and> x div 4096 = va div 4096 then Some (pte_set pa (perm OR PTE_V)) else leafmap (vm_pt st) root x)"
    using map_one_ok[OF Suc.prems(1) v f, of pa perm] by (elim exE conjE) (rule that; assumption)
  show ?case
  proof (cases b)
    case False
    then have "mappages_loop palloc root va pa (va + 4096 * Suc k) perm st = Inr (False, st1)"
      using m(1) by (subst mappages_loop.simps) simp
    moreover have "\<forall>x<MAXVA. leafmap (vm_pt st1) root x = map_pages va pa 0 perm (leafmap (vm_pt st) root) x"
      using l False by simp
    ultimately show ?thesis
      using m(2,3) by (intro exI[of _ False] exI[of _ st1] exI[of _ 0]) simp
  next
    case True
    have last: "va + 4096 * Suc k = va + 4096 + 4096 * k" by simp
    have free: "\<forall>j\<le>k. leafmap (vm_pt st1) root (va + 4096 + 4096 * j) = None"
    proof (intro allI impI)
      fix j assume j: "j \<le> k"
      then have x: "va + 4096 + 4096 * j < MAXVA" using Suc.prems(3) by simp
      moreover have "(va + 4096 + 4096 * j) div 4096 \<noteq> va div 4096" by simp
      moreover have "leafmap (vm_pt st) root (va + 4096 * Suc j) = None" using Suc.prems(5) j by blast
      ultimately show "leafmap (vm_pt st1) root (va + 4096 + 4096 * j) = None"
        using l by (simp add: add.assoc)
    qed
    have "(va + 4096) mod 4096 = 0" "va + 4096 + 4096 * k < MAXVA" "pa + 4096 + 4096 * k < 2 ^ 64"
      using Suc.prems(2-4) by simp_all
    from Suc.IH[OF m(2) this free] obtain b' st' j
      where IH: "mappages_loop palloc root (va + 4096) (pa + 4096) (va + 4096 + 4096 * k) perm st1 = Inr (b', st')"
        "vm_ok inv pages root st'" "vm_frame pages root st1 st'" "if b' then j = Suc k else j \<le> k"
        "\<forall>x<MAXVA. leafmap (vm_pt st') root x = map_pages (va + 4096) (pa + 4096) j perm (leafmap (vm_pt st1) root) x"
      by (elim exE conjE) (rule that; assumption)
    have "va + 4096 < 2 ^ 64" "pa + 4096 < 2 ^ 64" using Suc.prems(3,4) by (simp_all add: MAXVA_def)
    then have "mappages_loop palloc root va pa (va + 4096 * Suc k) perm st = Inr (b', st')"
      using m(1) True IH(1) unfolding last by (subst mappages_loop.simps) (simp add: PGSIZE_def)
    moreover have "\<forall>x<MAXVA. leafmap (vm_pt st') root x = map_pages va pa (Suc j) perm (leafmap (vm_pt st) root) x"
      using IH(5) l True by (auto simp: map_pages_Suc[OF Suc.prems(2)] intro: map_pages_cong)
    ultimately show ?thesis
      using IH(2,4) vm_frame_trans[OF m(3) IH(3)]
      by (intro exI[of _ b'] exI[of _ st'] exI[of _ "Suc j"]) (simp split: if_splits)
  qed
qed

lemma mappages_ok:
  assumes ok: "vm_ok inv pages root st" and sz: "0 < sz" "va + sz \<le> MAXVA" and pa: "pa + sz + 4096 < 2 ^ 64"
    and free: "\<forall>x. va div 4096 * 4096 \<le> x \<longrightarrow> x < va + sz \<longrightarrow> leafmap (vm_pt st) root x = None"
  shows "\<exists>b st' j. mappages palloc root va pa sz perm st = Inr (b, st') \<and>
    vm_ok inv pages root st' \<and> vm_frame pages root st st' \<and>
    (if b then va + sz \<le> va div 4096 * 4096 + 4096 * j \<and> va div 4096 * 4096 + 4096 * j < va + sz + 4096
     else va div 4096 * 4096 + 4096 * j < va + sz) \<and>
    (\<forall>x<MAXVA. leafmap (vm_pt st') root x =
       map_pages (va div 4096 * 4096) pa j perm (leafmap (vm_pt st) root) x)"
proof -
  let ?va = "va div 4096 * 4096" and ?last = "(va + sz - 1) div 4096 * 4096"
  define k where "k = (va + sz - 1) div 4096 - va div 4096"
  have le: "va div 4096 \<le> (va + sz - 1) div 4096" using sz by (intro div_le_mono) simp
  then have last: "?last = ?va + 4096 * k" by (simp add: k_def algebra_simps)
  have bound: "?last \<le> va + sz - 1" "va + sz - 1 < ?last + 4096"
    using div_mult_mod_eq[of "va + sz - 1" 4096] mod_less_divisor[of 4096 "va + sz - 1"] by linarith+
  have small: "va < 2 ^ 64" "va + sz - 1 < 2 ^ 64" "va + sz < 2 ^ 64" using sz by (simp_all add: MAXVA_def)
  have b1: "?va + 4096 * k < MAXVA" "pa + 4096 * k < 2 ^ 64"
    using last bound sz pa by linarith+
  have b2: "\<forall>j\<le>k. leafmap (vm_pt st) root (?va + 4096 * j) = None"
  proof (intro allI impI)
    fix j assume "j \<le> k"
    then have "?va + 4096 * j \<le> ?last" using last by simp
    then have "?va + 4096 * j < va + sz" using bound sz by linarith
    then show "leafmap (vm_pt st) root (?va + 4096 * j) = None" using free by simp
  qed
  have b0: "?va mod 4096 = 0" by simp
  obtain b st' j
    where m: "mappages_loop palloc root ?va pa (?va + 4096 * k) perm st = Inr (b, st')"
      "vm_ok inv pages root st'" "vm_frame pages root st st'" "if b then j = Suc k else j \<le> k"
      "\<forall>x<MAXVA. leafmap (vm_pt st') root x = map_pages ?va pa j perm (leafmap (vm_pt st) root) x"
    using mappages_loop_ok[OF ok b0 b1 b2, of perm] by (elim exE conjE) (rule that; assumption)
  have "mappages palloc root va pa sz perm st = Inr (b, st')"
    using m(1) sz small unfolding last[symmetric] by (simp add: mappages_def rounddown_eq)
  moreover have "if b then va + sz \<le> ?va + 4096 * j \<and> ?va + 4096 * j < va + sz + 4096
     else ?va + 4096 * j < va + sz"
  proof (cases b)
    case True
    then have "4096 * j = 4096 * k + 4096" using m(4) by simp
    then show ?thesis using bound last sz True unfolding if_P[OF True] by linarith
  next
    case False
    then have "4096 * j \<le> 4096 * k" using m(4) by simp
    then show ?thesis using bound last sz unfolding if_not_P[OF False] by linarith
  qed
  ultimately show ?thesis
    using m(2,3,5) by (intro exI[of _ b] exI[of _ st'] exI[of _ j] conjI)
qed

end

end
