(* ===== verification/VmCopy.thy ===== *)
theory VmCopy
  imports VmProofs
begin

text \<open>
  User memory as the kernel sees it through a page table, and the three copies of
  \<^verbatim>\<open>vm.rs\<close> (\<^verbatim>\<open>copyout\<close>, \<^verbatim>\<open>copyin\<close>,
  \<^verbatim>\<open>copyinstr\<close>) against it: page by page they read and write exactly the bytes of
  the user addresses.
\<close>

section \<open>User memory\<close>

definition user_frame :: "(nat \<Rightarrow> usize list) \<Rightarrow> nat \<Rightarrow> nat \<Rightarrow> nat option" where
  "user_frame T root va =
     (if va \<ge> MAXVA then None
      else case leafmap T root va of
             None \<Rightarrow> None
           | Some e \<Rightarrow> if is_u e then Some (to_pa e) else None)"

definition ubyte :: "'s vmst \<Rightarrow> nat \<Rightarrow> nat \<Rightarrow> u8 option" where
  "ubyte st root va =
     (case user_frame (vm_pt st) root va of
        None \<Rightarrow> None
      | Some pa \<Rightarrow> Some (vm_pg st pa ! (va mod 4096)))"

text \<open>User pages are whole pages, and no frame is mapped at two user addresses.\<close>

definition uspace_ok :: "nat \<Rightarrow> 's vmst \<Rightarrow> bool" where
  "uspace_ok root st \<longleftrightarrow>
     (\<forall>va f. user_frame (vm_pt st) root va = Some f \<longrightarrow> length (vm_pg st f) = 4096) \<and>
     (\<forall>va va' f. user_frame (vm_pt st) root va = Some f \<longrightarrow> user_frame (vm_pt st) root va' = Some f \<longrightarrow>
        va div 4096 = va' div 4096)"

lemma uspace_okD:
  assumes "uspace_ok root st"
  shows "user_frame (vm_pt st) root va = Some f \<Longrightarrow> length (vm_pg st f) = 4096"
    and "user_frame (vm_pt st) root va = Some f \<Longrightarrow> user_frame (vm_pt st) root va' = Some f \<Longrightarrow>
      va div 4096 = va' div 4096"
  using assms unfolding uspace_ok_def by blast+

lemma MAXVA_page: "va div 4096 = va' div 4096 \<Longrightarrow> va < MAXVA \<longleftrightarrow> va' < MAXVA"
proof -
  have "x < MAXVA \<longleftrightarrow> x div 4096 < 2 ^ 26" for x
    by (simp add: MAXVA_def div_less_iff_less_mult)
  then show "va div 4096 = va' div 4096 \<Longrightarrow> va < MAXVA \<longleftrightarrow> va' < MAXVA" by simp
qed

lemma user_frame_page:
  assumes "va div 4096 = va' div 4096"
  shows "user_frame T root va = user_frame T root va'"
proof (cases "va < MAXVA")
  case True
  then have v: "va' < MAXVA" using MAXVA_page[OF assms] by simp
  have "px va' 2 = px va 2" "px va' 1 = px va 1" "px va' 0 = px va 0"
    using vpn_eq_iff[OF True v] assms by simp_all
  then have "leafmap T root va = leafmap T root va'" by (simp only: leafmap_def)
  then show ?thesis using True v by (simp add: user_frame_def)
next
  case False
  then show ?thesis using MAXVA_page[OF assms] by (simp add: user_frame_def)
qed

lemma user_frame_MAXVA: "user_frame T root va = Some f \<Longrightarrow> va < MAXVA"
  by (simp add: user_frame_def split: if_splits)

lemma span_page: "x < 4096 - va mod 4096 \<Longrightarrow> (va + x) div 4096 = va div (4096::nat)"
proof -
  assume "x < 4096 - va mod 4096"
  then have "va mod 4096 + x < 4096" by simp
  moreover have "va + x = va div 4096 * 4096 + (va mod 4096 + x)"
    using div_mult_mod_eq[of va 4096] by linarith
  ultimately show ?thesis by (metis div_less div_mult_self3 add.right_neutral zero_neq_numeral)
qed

lemma span_mod: "x < 4096 - va mod 4096 \<Longrightarrow> (va + x) mod 4096 = va mod (4096::nat) + x"
proof -
  assume "x < 4096 - va mod 4096"
  then have "va mod 4096 + x < 4096" by simp
  then show ?thesis by (metis mod_add_left_eq mod_less)
qed

lemma next_page:
  "va + min (4096 - va mod 4096) len = va div 4096 * 4096 + 4096 \<or> min (4096 - va mod 4096) len = (len::nat)"
proof (cases "4096 - va mod 4096 \<le> len")
  case True
  then have e: "min (4096 - va mod 4096) len = 4096 - va mod 4096" by (rule min_absorb1)
  have "va + (4096 - va mod 4096) = va div 4096 * 4096 + 4096"
    using div_mult_mod_eq[of va 4096] mod_less_divisor[of 4096 va] by linarith
  then show ?thesis unfolding e by (rule disjI1)
next
  case False
  then show ?thesis by (intro disjI2 min_absorb2) simp
qed

abbreviation write_page :: "'s vmst \<Rightarrow> nat \<Rightarrow> nat \<Rightarrow> u8 list \<Rightarrow> 's vmst" where
  "write_page st pa off chunk \<equiv> st\<lparr>vm_pg := (vm_pg st)(pa := overwrite (vm_pg st pa) off chunk)\<rparr>"

lemma write_page_ok:
  assumes us: "uspace_ok root st" and f: "user_frame (vm_pt st) root va = Some pa"
    and n: "length chunk \<le> 4096 - va mod 4096"
  shows "uspace_ok root (write_page st pa (va mod 4096) chunk)"
    and "ubyte (write_page st pa (va mod 4096) chunk) root x =
      (if va \<le> x \<and> x < va + length chunk then Some (chunk ! (x - va)) else ubyte st root x)"
proof -
  have len: "length (vm_pg st pa) = 4096" by (rule uspace_okD(1)[OF us f])
  have fits: "va mod 4096 + length chunk \<le> length (vm_pg st pa)"
    using n len mod_less_divisor[of 4096 va] by linarith
  show "uspace_ok root (write_page st pa (va mod 4096) chunk)"
    unfolding uspace_ok_def
  proof (intro conjI allI impI)
    fix v f assume "user_frame (vm_pt (write_page st pa (va mod 4096) chunk)) root v = Some f"
    then have "length (vm_pg st f) = 4096" using uspace_okD(1)[OF us] by simp
    then show "length (vm_pg (write_page st pa (va mod 4096) chunk) f) = 4096" using fits len by simp
  next
    fix v v' f assume "user_frame (vm_pt (write_page st pa (va mod 4096) chunk)) root v = Some f"
      "user_frame (vm_pt (write_page st pa (va mod 4096) chunk)) root v' = Some f"
    then show "v div 4096 = v' div 4096" by (intro uspace_okD(2)[OF us, of v f v']) simp_all
  qed
  show "ubyte (write_page st pa (va mod 4096) chunk) root x =
      (if va \<le> x \<and> x < va + length chunk then Some (chunk ! (x - va)) else ubyte st root x)"
  proof (cases "va \<le> x \<and> x < va + length chunk")
    case True
    then obtain d where d: "x = va + d" "d < length chunk" by (metis le_Suc_ex nat_add_left_cancel_less)
    then have s: "d < 4096 - va mod 4096" using n by simp
    have "user_frame (vm_pt st) root x = Some pa"
      using user_frame_page[OF span_page[OF s], of "vm_pt st" root] f d(1) by simp
    moreover have "x mod 4096 = va mod 4096 + d" using span_mod[OF s] d(1) by simp
    ultimately show ?thesis using d fits by (simp add: ubyte_def nth_overwrite)
  next
    case False
    show ?thesis
    proof (cases "user_frame (vm_pt st) root x = Some pa")
      case True
      then have page: "x div 4096 = va div 4096" by (rule uspace_okD(2)[OF us _ f])
      have "\<not> (va mod 4096 \<le> x mod 4096 \<and> x mod 4096 < va mod 4096 + length chunk)"
        using False page div_mult_mod_eq[of x 4096] div_mult_mod_eq[of va 4096] by linarith
      with True False fits len show ?thesis by (auto simp: ubyte_def nth_overwrite)
    next
      case other: False
      with False show ?thesis by (auto simp: ubyte_def split: option.splits)
    qed
  qed
qed

text \<open>The bytes moved by one round and by the rounds after it are the bytes of one longer span.\<close>

lemma copy_round_bytes:
  assumes "d + n = v \<or> k = 0 \<and> P"
    and "y' = (if v \<le> x \<and> x < v + k then Some (src ! (off + n + (x - v))) else y1)"
    and "y1 = (if d \<le> x \<and> x < d + n then Some (chunk ! (x - d)) else y)"
    and "\<And>j. j < n \<Longrightarrow> chunk ! j = src ! (off + j)"
  shows "y' = (if d \<le> x \<and> x < d + (n + k) then Some (src ! (off + (x - d))) else y)"
  using assms(1)
proof
  assume v: "d + n = v"
  consider "v \<le> x" "x < v + k" | "d \<le> x" "x < d + n" | "\<not> (v \<le> x \<and> x < v + k)" "\<not> (d \<le> x \<and> x < d + n)"
    by linarith
  then show ?thesis
  proof cases
    case 1
    then have "off + n + (x - v) = off + (x - d)" "d \<le> x" "x < d + (n + k)" using v by linarith+
    with 1 assms(2) show ?thesis by simp
  next
    case 2
    then have "\<not> v \<le> x" "x < d + (n + k)" using v by linarith+
    with 2 assms(2,3) assms(4)[of "x - d"] show ?thesis by simp
  next
    case 3
    then have "\<not> (d \<le> x \<and> x < d + (n + k))" using v by linarith
    then show ?thesis unfolding assms(2,3) if_not_P[OF 3(1)] if_not_P[OF 3(2)] by (simp only: if_False)
  qed
next
  assume "k = 0 \<and> P"
  with assms(2,3) assms(4)[of "x - d"] show ?thesis by (cases "d \<le> x \<and> x < d + n") auto
qed

lemma position_0_Some: "position_0 xs = Some i \<longleftrightarrow> i < length xs \<and> xs ! i = 0 \<and> (\<forall>j<i. xs ! j \<noteq> 0)"
  by (auto simp: position_0_def find_Some_iff)

lemma position_0_None: "position_0 xs = None \<longleftrightarrow> (\<forall>j<length xs. xs ! j \<noteq> 0)"
  by (auto simp: position_0_def find_None_iff)

text \<open>What \<^verbatim>\<open>copyinstr\<close> reports of the first \<open>n\<close> bytes, none of which is zero.\<close>

definition str_result ::
  "'s vmst \<Rightarrow> nat \<Rightarrow> nat \<Rightarrow> nat \<Rightarrow> nat \<Rightarrow> u8 list \<Rightarrow> string + unit \<Rightarrow> nat \<Rightarrow> bool" where
  "str_result st root va maxlen off dst r n \<longleftrightarrow>
     (\<forall>j<n. \<exists>c. ubyte st root (va + j) = Some c \<and> c \<noteq> 0) \<and>
     (case r of
        Inr _ \<Rightarrow> n < maxlen \<and> ubyte st root (va + n) = Some 0 \<and>
          (\<forall>j\<le>n. ubyte st root (va + j) = Some (dst ! (off + j)))
      | Inl e \<Rightarrow> e = ''virtual address not found'' \<and> n < maxlen \<and> user_frame (vm_pt st) root (va + n) = None \<or>
          e = ''not enough space'' \<and> n = maxlen)"

lemma str_result_round:
  assumes r: "str_result st root (va + m) (len - m) (off + m) dst' r n" and m: "m \<le> len"
    and first: "\<And>j. j < m \<Longrightarrow> ubyte st root (va + j) = Some (dst' ! (off + j)) \<and> dst' ! (off + j) \<noteq> 0"
  shows "str_result st root va len off dst' r (m + n)"
proof -
  have "\<exists>c. ubyte st root (va + j) = Some c \<and> c \<noteq> 0" if "j < m + n" for j
  proof (cases "j < m")
    case True
    then show ?thesis using first by blast
  next
    case False
    then obtain d where "j = m + d" by (metis le_Suc_ex not_less)
    then show ?thesis using r that by (auto simp: str_result_def add.assoc)
  qed
  moreover have "ubyte st root (va + j) = Some (dst' ! (off + j))"
    if "j \<le> m + n" "\<forall>d\<le>n. ubyte st root (va + m + d) = Some (dst' ! (off + m + d))" for j
  proof (cases "j < m")
    case True
    then show ?thesis using first by blast
  next
    case False
    then obtain d where "j = m + d" by (metis le_Suc_ex not_less)
    then show ?thesis using that by (auto simp: add.assoc)
  qed
  ultimately show ?thesis
    using r m by (auto simp: str_result_def add.assoc split: sum.splits)
qed

section \<open>One round of a copy\<close>

context page_allocator
begin

lemma walkaddr_ok:
  assumes ok: "vm_ok inv pages root st"
  shows "walkaddr palloc root va st = Inr (user_frame (vm_pt st) root va, st)"
proof (cases "va < MAXVA")
  case False
  then show ?thesis by (simp add: walkaddr_def user_frame_def)
next
  case True
  with ok show ?thesis
  proof (cases rule: walk_ok[where alloc = False])
    case (none st')
    then show ?thesis using True by (simp add: walkaddr_def user_frame_def leafmap_def)
  next
    case (entry t st')
    then show ?thesis using True by (simp add: walkaddr_def user_frame_def leafmap_def read_pte_def)
  qed
qed

lemma user_span_ok:
  assumes ok: "vm_ok inv pages root st" and va: "va < 2 ^ 64"
  shows "user_span palloc root va len st = Inr (
    (case user_frame (vm_pt st) root va of
       None \<Rightarrow> None
     | Some pa \<Rightarrow> Some (va div 4096 * 4096, pa, va mod 4096, min (4096 - va mod 4096) len)), st)"
proof -
  have r: "rounddown va = va div 4096 * 4096" by (rule rounddown_eq[OF va])
  have "user_frame (vm_pt st) root (va div 4096 * 4096) = user_frame (vm_pt st) root va"
    by (rule user_frame_page) simp
  moreover have "usub va (va div 4096 * 4096) = Inr (va mod 4096)"
    by (auto simp: usub_def minus_div_mult_eq_mod)
  moreover have "va mod 4096 \<le> 4096" using mod_less_divisor[of 4096 va] by linarith
  ultimately show ?thesis
    by (simp add: user_span_def r walkaddr_ok[OF ok] PGSIZE_def split: option.splits)
qed

section \<open>The copies\<close>

text \<open>
  Up to which count a copy of \<open>len\<close> bytes at \<open>va\<close> gets: all of them, or the bytes before the
  first page that is not mapped for the user.
\<close>

lemma copyout_loop_ok:
  assumes "vm_ok inv pages root st" and "uspace_ok root st" and "dstva < 2 ^ 64"
    and "offset + len = length src"
  shows "\<exists>b st' n. copyout_loop palloc root src dstva len offset st = Inr (b, st') \<and>
    vm_alloc st' = vm_alloc st \<and> vm_pt st' = vm_pt st \<and> uspace_ok root st' \<and>
    (if b then n = len else n < len \<and> user_frame (vm_pt st) root (dstva + n) = None) \<and>
    (\<forall>j<n. user_frame (vm_pt st) root (dstva + j) \<noteq> None) \<and>
    (\<forall>x. ubyte st' root x =
       (if dstva \<le> x \<and> x < dstva + n then Some (src ! (offset + (x - dstva))) else ubyte st root x))"
  using assms
proof (induction len arbitrary: dstva offset st rule: less_induct)
  case (less len dstva offset st)
  note span = user_span_ok[OF less.prems(1,3), of len]
  show ?case
  proof (cases "len = 0")
    case True
    then have "copyout_loop palloc root src dstva len offset st = Inr (True, st)"
      by (simp add: copyout_loop.simps)
    with True less.prems(2) show ?thesis by (intro exI[of _ True] exI[of _ st] exI[of _ 0]) auto
  next
    case pos: False
    show ?thesis
    proof (cases "user_frame (vm_pt st) root dstva")
      case None
      then have "copyout_loop palloc root src dstva len offset st = Inr (False, st)"
        using pos span by (simp add: copyout_loop.simps)
      with pos None less.prems(2) show ?thesis by (intro exI[of _ False] exI[of _ st] exI[of _ 0]) auto
    next
      case (Some pa)
      let ?n = "min (4096 - dstva mod 4096) len" and ?va = "dstva div 4096 * 4096 + 4096"
      let ?chunk = "take ?n (drop offset src)"
      let ?st = "write_page st pa (dstva mod 4096) ?chunk"
      have m: "dstva mod 4096 < 4096" by simp
      have n: "0 < ?n" "?n \<le> len" using pos m by auto
      have lc: "length ?chunk = ?n" using less.prems(4) by simp
      have w: "uspace_ok root ?st" and u: "ubyte ?st root x =
          (if dstva \<le> x \<and> x < dstva + ?n then Some (?chunk ! (x - dstva)) else ubyte st root x)" for x
        using write_page_ok[OF less.prems(2) Some, of ?chunk] lc by simp_all
      have va: "?va < 2 ^ 64" "dstva div 4096 * 4096 + 4096 < 2 ^ 64"
        using user_frame_MAXVA[OF Some] div_times_less_eq_dividend[of dstva 4096] by (simp_all add: MAXVA_def)
      have ok: "vm_ok inv pages root ?st" using less.prems(1) by (simp add: vm_ok_def)
      have off: "offset + ?n + (len - ?n) = length src" using less.prems(4) n(2) by linarith
      have lt: "len - ?n < len" using n pos by linarith
      obtain b st' k where IH: "copyout_loop palloc root src ?va (len - ?n) (offset + ?n) ?st = Inr (b, st')"
        "vm_alloc st' = vm_alloc ?st" "vm_pt st' = vm_pt ?st" "uspace_ok root st'"
        "if b then k = len - ?n else k < len - ?n \<and> user_frame (vm_pt ?st) root (?va + k) = None"
        "\<forall>j<k. user_frame (vm_pt ?st) root (?va + j) \<noteq> None"
        "\<forall>x. ubyte st' root x = (if ?va \<le> x \<and> x < ?va + k
           then Some (src ! (offset + ?n + (x - ?va))) else ubyte ?st root x)"
        using less.IH[OF lt ok w va(1) off] by (elim exE conjE) (rule that; assumption)
      have run: "copyout_loop palloc root src dstva len offset st = Inr (b, st')"
        using pos span Some IH(1) va less.prems(4) n
        by (subst copyout_loop.simps) (simp add: PGSIZE_def)
      have next_va: "dstva + ?n = ?va \<or> k = 0 \<and> b \<and> ?n = len"
        using next_page[of dstva len] IH(5) by (auto split: if_splits)
      have chunk: "?chunk ! j = src ! (offset + j)" if "j < ?n" for j using that less.prems(4) by simp
      have first: "user_frame (vm_pt st) root (dstva + j) = Some pa" if "j < ?n" for j
        using that user_frame_page[OF span_page, of j dstva "vm_pt st" root] Some by simp
      have "if b then ?n + k = len else ?n + k < len \<and> user_frame (vm_pt st) root (dstva + (?n + k)) = None"
        using IH(5) next_va n by (cases b) (auto simp flip: add.assoc)
      moreover have "user_frame (vm_pt st) root (dstva + j) \<noteq> None" if "j < ?n + k" for j
      proof (cases "j < ?n")
        case True
        then show ?thesis using first by simp
      next
        case False
        then obtain d where d: "j = ?n + d" by (metis le_Suc_ex not_less)
        then have "d < k" using that by simp
        with IH(6) next_va d show ?thesis by (auto simp flip: add.assoc)
      qed
      moreover have "ubyte st' root x = (if dstva \<le> x \<and> x < dstva + (?n + k)
          then Some (src ! (offset + (x - dstva))) else ubyte st root x)" for x
        using IH(7) u chunk by (intro copy_round_bytes[OF next_va, of _ x src offset _ ?chunk]) blast+
      ultimately show ?thesis
        using run IH(2-4) by (intro exI[of _ b] exI[of _ st'] exI[of _ "?n + k"]) simp
    qed
  qed
qed

lemma page_chunk:
  assumes us: "uspace_ok root st" and f: "user_frame (vm_pt st) root va = Some pa"
    and n: "n \<le> 4096 - va mod 4096"
  shows "length (take n (drop (va mod 4096) (vm_pg st pa))) = n"
    and "j < n \<Longrightarrow> ubyte st root (va + j) = Some (take n (drop (va mod 4096) (vm_pg st pa)) ! j)"
proof -
  have len: "length (vm_pg st pa) = 4096" by (rule uspace_okD(1)[OF us f])
  show "length (take n (drop (va mod 4096) (vm_pg st pa))) = n" using n len by simp
  show "ubyte st root (va + j) = Some (take n (drop (va mod 4096) (vm_pg st pa)) ! j)" if j: "j < n"
  proof -
    have s: "j < 4096 - va mod 4096" using j n by simp
    have "user_frame (vm_pt st) root (va + j) = Some pa"
      using user_frame_page[OF span_page[OF s], of "vm_pt st" root] f by simp
    then show ?thesis using j len span_mod[OF s] s by (simp add: ubyte_def)
  qed
qed

lemma copyin_loop_ok:
  assumes "vm_ok inv pages root st" and "uspace_ok root st" and "srcva < 2 ^ 64"
    and "offset + len = length dst"
  shows "\<exists>b dst' n. copyin_loop palloc root srcva len offset dst st = Inr ((b, dst'), st) \<and>
    length dst' = length dst \<and>
    (if b then n = len else n < len \<and> user_frame (vm_pt st) root (srcva + n) = None) \<and>
    (\<forall>j<n. ubyte st root (srcva + j) = Some (dst' ! (offset + j))) \<and>
    (\<forall>j<length dst. j < offset \<or> offset + n \<le> j \<longrightarrow> dst' ! j = dst ! j)"
  using assms
proof (induction len arbitrary: srcva offset dst rule: less_induct)
  case (less len srcva offset dst)
  note span = user_span_ok[OF less.prems(1,3), of len]
  show ?case
  proof (cases "len = 0")
    case True
    then have "copyin_loop palloc root srcva len offset dst st = Inr ((True, dst), st)"
      by (simp add: copyin_loop.simps)
    with True show ?thesis by (intro exI[of _ True] exI[of _ dst] exI[of _ 0]) simp
  next
    case pos: False
    show ?thesis
    proof (cases "user_frame (vm_pt st) root srcva")
      case None
      then have "copyin_loop palloc root srcva len offset dst st = Inr ((False, dst), st)"
        using pos span by (simp add: copyin_loop.simps)
      with pos None show ?thesis by (intro exI[of _ False] exI[of _ dst] exI[of _ 0]) simp
    next
      case (Some pa)
      define n where "n = min (4096 - srcva mod 4096) len"
      define va where "va = srcva div 4096 * 4096 + 4096"
      define chunk where "chunk = take n (drop (srcva mod 4096) (vm_pg st pa))"
      define dst1 where "dst1 = overwrite dst offset chunk"
      have n: "0 < n" "n \<le> len" "n \<le> 4096 - srcva mod 4096" using pos by (simp_all add: n_def)
      note pc = page_chunk[OF less.prems(2) Some n(3), folded chunk_def]
      have fits: "offset + length chunk \<le> length dst" using pc(1) n(2) less.prems(4) by simp
      have len1: "length dst1 = length dst" using fits by (simp add: dst1_def)
      have d1: "dst1 ! j = (if offset \<le> j \<and> j < offset + n then chunk ! (j - offset) else dst ! j)"
        if "j < length dst" for j using nth_overwrite[OF fits that] pc(1) by (simp add: dst1_def)
      have va: "va < 2 ^ 64"
        using user_frame_MAXVA[OF Some] div_times_less_eq_dividend[of srcva 4096] by (simp add: MAXVA_def va_def)
      have lt: "len - n < len" and off: "offset + n + (len - n) = length dst1"
        using n pos less.prems(4) len1 by linarith+
      obtain b dst' k where IH: "copyin_loop palloc root va (len - n) (offset + n) dst1 st = Inr ((b, dst'), st)"
        "length dst' = length dst1"
        "if b then k = len - n else k < len - n \<and> user_frame (vm_pt st) root (va + k) = None"
        "\<forall>j<k. ubyte st root (va + j) = Some (dst' ! (offset + n + j))"
        "\<forall>j<length dst1. j < offset + n \<or> offset + n + k \<le> j \<longrightarrow> dst' ! j = dst1 ! j"
        using less.IH[OF lt less.prems(1,2) va off] by (elim exE conjE) (rule that; assumption)
      have run: "copyin_loop palloc root srcva len offset dst st = Inr ((b, dst'), st)"
      proof -
        have "user_span palloc root srcva len st = Inr (Some (srcva div 4096 * 4096, pa, srcva mod 4096, n), st)"
          using span Some by (simp add: n_def)
        moreover have "uadd (srcva div 4096 * 4096) PGSIZE = Inr va" using va by (simp add: PGSIZE_def va_def)
        moreover have "slice dst offset (offset + n) = Inr (take n (drop offset dst))"
          using fits pc(1) by simp
        ultimately show ?thesis
          using pos IH(1) by (subst copyin_loop.simps) (simp flip: chunk_def dst1_def)
      qed
      have nv: "srcva + n = va \<or> n = len"
        unfolding n_def va_def by (rule next_page)
      moreover have "n = len \<Longrightarrow> k = 0 \<and> b" using IH(3) by (cases b) simp_all
      ultimately have nv': "k = 0 \<or> srcva + n = va" "b \<or> srcva + n = va" by blast+
      have moved: "ubyte st root (srcva + j) = Some (dst' ! (offset + j))" if "j < n + k" for j
      proof (cases "j < n")
        case True
        moreover have "dst' ! (offset + j) = dst1 ! (offset + j)"
          using IH(5) len1 True n(2) less.prems(4) by simp
        ultimately show ?thesis using pc(2)[of j] d1[of "offset + j"] n(2) less.prems(4) by simp
      next
        case False
        then obtain d where d: "j = n + d" by (metis le_Suc_ex not_less)
        then have "d < k" using that by simp
        with IH(4) nv'(1) d show ?thesis by (auto simp flip: add.assoc)
      qed
      have "dst' ! j = dst ! j" if "j < length dst" "j < offset \<or> offset + (n + k) \<le> j" for j
      proof -
        have "j < offset + n \<or> offset + n + k \<le> j" "\<not> (offset \<le> j \<and> j < offset + n)" using that(2) by linarith+
        then show ?thesis using IH(5) len1 d1[OF that(1)] that(1) by auto
      qed
      moreover have "if b then n + k = len else n + k < len \<and> user_frame (vm_pt st) root (srcva + (n + k)) = None"
        using IH(3) nv'(2) n(2) by (cases b) (auto simp flip: add.assoc)
      ultimately show ?thesis
        using run moved IH(2) len1 by (intro exI[of _ b] exI[of _ dst'] exI[of _ "n + k"]) simp
    qed
  qed
qed

lemma copyinstr_loop_ok:
  assumes "vm_ok inv pages root st" and "uspace_ok root st" and "srcva < 2 ^ 64"
    and "offset + maxlen = length dst"
  shows "\<exists>r dst' n. copyinstr_loop palloc root srcva maxlen offset dst st = Inr ((r, dst'), st) \<and>
    length dst' = length dst \<and> str_result st root srcva maxlen offset dst' r n \<and>
    (\<forall>j<offset. dst' ! j = dst ! j)"
  using assms
proof (induction maxlen arbitrary: srcva offset dst rule: less_induct)
  case (less len srcva offset dst)
  note span = user_span_ok[OF less.prems(1,3), of len]
  show ?case
  proof (cases "len = 0")
    case True
    then have "copyinstr_loop palloc root srcva len offset dst st = Inr ((Inl ''not enough space'', dst), st)"
      by (simp add: copyinstr_loop.simps)
    with True show ?thesis
      by (intro exI[of _ "Inl ''not enough space''"] exI[of _ dst] exI[of _ 0]) (simp add: str_result_def)
  next
    case pos: False
    show ?thesis
    proof (cases "user_frame (vm_pt st) root srcva")
      case None
      then have "copyinstr_loop palloc root srcva len offset dst st
          = Inr ((Inl ''virtual address not found'', dst), st)"
        using pos span by (simp add: copyinstr_loop.simps)
      with pos None show ?thesis
        by (intro exI[of _ "Inl ''virtual address not found''"] exI[of _ dst] exI[of _ 0])
          (simp add: str_result_def)
    next
      case (Some pa)
      define n where "n = min (4096 - srcva mod 4096) len"
      define va where "va = srcva div 4096 * 4096 + 4096"
      define chunk where "chunk = take n (drop (srcva mod 4096) (vm_pg st pa))"
      have n: "0 < n" "n \<le> len" "n \<le> 4096 - srcva mod 4096" using pos by (simp_all add: n_def)
      note pc = page_chunk[OF less.prems(2) Some n(3), folded chunk_def]
      have span': "user_span palloc root srcva len st = Inr (Some (srcva div 4096 * 4096, pa, srcva mod 4096, n), st)"
        using span Some by (simp add: n_def)
      show ?thesis
      proof (cases "position_0 chunk")
        case (Some i)
        define dst' where "dst' = overwrite dst offset (take (i + 1) chunk)"
        have i: "i < n" "chunk ! i = 0" "\<forall>j<i. chunk ! j \<noteq> 0"
          using Some pc(1) by (auto simp: position_0_Some)
        have len': "length (take (i + 1) chunk) = i + 1" using i(1) pc(1) by simp
        have fits: "offset + length (take (i + 1) chunk) \<le> length dst"
          unfolding len' using i(1) n(2) less.prems(4) by linarith
        have "slice dst offset (offset + i + 1) = Inr (take (i + 1) (drop offset dst))"
          using fits len' by simp
        then have run: "copyinstr_loop palloc root srcva len offset dst st = Inr ((Inr (), dst'), st)"
          using pos span' Some
          by (subst copyinstr_loop.simps) (simp add: dst'_def flip: chunk_def)
        have d: "dst' ! (offset + j) = chunk ! j" if "j \<le> i" for j
          using nth_overwrite[OF fits, of "offset + j"] fits len' that i(1) pc(1) by (simp add: dst'_def)
        have "str_result st root srcva len offset dst' (Inr ()) i"
          unfolding str_result_def using i n(2) pc(2) d by auto
        moreover have "dst' ! j = dst ! j" if "j < offset" for j
          using nth_overwrite[OF fits, of j] that less.prems(4) by (simp add: dst'_def)
        moreover have "length dst' = length dst" using fits by (simp add: dst'_def)
        ultimately show ?thesis using run by blast
      next
        case None
        define dst1 where "dst1 = overwrite dst offset chunk"
        have nz: "\<forall>j<n. chunk ! j \<noteq> 0" using None pc(1) by (simp add: position_0_None)
        have fits: "offset + length chunk \<le> length dst" using pc(1) n(2) less.prems(4) by simp
        have len1: "length dst1 = length dst" using fits by (simp add: dst1_def)
        have d1: "dst1 ! j = (if offset \<le> j \<and> j < offset + n then chunk ! (j - offset) else dst ! j)"
          if "j < length dst" for j using nth_overwrite[OF fits that] pc(1) by (simp add: dst1_def)
        have va: "va < 2 ^ 64"
          using user_frame_MAXVA[OF Some] div_times_less_eq_dividend[of srcva 4096] by (simp add: MAXVA_def va_def)
        have lt: "len - n < len" and off: "offset + n + (len - n) = length dst1"
          using n pos less.prems(4) len1 by linarith+
        obtain r dst' k where IH: "copyinstr_loop palloc root va (len - n) (offset + n) dst1 st = Inr ((r, dst'), st)"
          "length dst' = length dst1" "str_result st root va (len - n) (offset + n) dst' r k"
          "\<forall>j<offset + n. dst' ! j = dst1 ! j"
          using less.IH[OF lt less.prems(1,2) va off] by (elim exE conjE) (rule that; assumption)
        have "uadd (srcva div 4096 * 4096) PGSIZE = Inr va" using va by (simp add: PGSIZE_def va_def)
        moreover have "slice dst offset (offset + n) = Inr (take n (drop offset dst))" using fits pc(1) by simp
        ultimately have run: "copyinstr_loop palloc root srcva len offset dst st = Inr ((r, dst'), st)"
          using pos span' None IH(1) by (subst copyinstr_loop.simps) (simp flip: chunk_def dst1_def)
        have moved: "ubyte st root (srcva + j) = Some (dst' ! (offset + j)) \<and> dst' ! (offset + j) \<noteq> 0"
          if "j < n" for j using that pc(2)[of j] d1[of "offset + j"] IH(4) nz n(2) less.prems(4) by simp
        have "str_result st root srcva len offset dst' r (n + k)"
        proof (rule str_result_round[OF _ n(2) moved])
          show "str_result st root (srcva + n) (len - n) (offset + n) dst' r k"
            using next_page[of srcva len] IH(3)
            by (auto simp: str_result_def simp flip: n_def va_def split: sum.splits)
        qed
        moreover have "\<forall>j<offset. dst' ! j = dst ! j" using IH(4) d1 less.prems(4) by simp
        ultimately show ?thesis using run IH(2) len1 by metis
      qed
    qed
  qed
qed

end

end
