(* ===== verification/VmSpace.thy ===== *)
theory VmSpace
  imports VmCopy
begin

text \<open>
  Growing and shrinking a user address space: \<^verbatim>\<open>unmap\<close>, \<^verbatim>\<open>alloc\<close> and
  \<^verbatim>\<open>dealloc\<close> of \<^verbatim>\<open>Uvm\<close>. A user space owns its frames: they are pages held
  from the allocator, hold no page table, and no two user pages share one.
\<close>

section \<open>Unmapping\<close>

definition page_frames :: "(nat \<Rightarrow> usize list) \<Rightarrow> nat \<Rightarrow> nat \<Rightarrow> nat \<Rightarrow> nat set" where
  "page_frames T root a n = {to_pa e | j e. j < n \<and> leafmap T root (a + 4096 * j) = Some e}"

definition unmappable :: "('s \<Rightarrow> nat set) \<Rightarrow> nat \<Rightarrow> 's vmst \<Rightarrow> bool \<Rightarrow> nat \<Rightarrow> nat \<Rightarrow> bool" where
  "unmappable pages root st do_free a n \<longleftrightarrow>
     (\<forall>j<n. \<exists>e. leafmap (vm_pt st) root (a + 4096 * j) = Some e \<and> is_leaf e \<and>
        (do_free \<longrightarrow> to_pa e \<in> pages (vm_alloc st) - table_pages (vm_pt st) root)) \<and>
     (do_free \<longrightarrow> (\<forall>i<n. \<forall>j<n. \<forall>e e'. leafmap (vm_pt st) root (a + 4096 * i) = Some e \<longrightarrow>
        leafmap (vm_pt st) root (a + 4096 * j) = Some e' \<longrightarrow> to_pa e = to_pa e' \<longrightarrow> i = j))"

lemma unmappableD:
  assumes "unmappable pages root st do_free a n"
  shows "j < n \<Longrightarrow> \<exists>e. leafmap (vm_pt st) root (a + 4096 * j) = Some e \<and> is_leaf e \<and>
        (do_free \<longrightarrow> to_pa e \<in> pages (vm_alloc st) - table_pages (vm_pt st) root)"
    and "do_free \<Longrightarrow> i < n \<Longrightarrow> j < n \<Longrightarrow> leafmap (vm_pt st) root (a + 4096 * i) = Some e \<Longrightarrow>
        leafmap (vm_pt st) root (a + 4096 * j) = Some e' \<Longrightarrow> to_pa e = to_pa e' \<Longrightarrow> i = j"
  using assms unfolding unmappable_def by blast+

lemma unmappableI:
  assumes "\<And>j. j < n \<Longrightarrow> \<exists>e. leafmap (vm_pt st) root (a + 4096 * j) = Some e \<and> is_leaf e \<and>
        (do_free \<longrightarrow> to_pa e \<in> pages (vm_alloc st) - table_pages (vm_pt st) root)"
    and "\<And>i j e e'. do_free \<Longrightarrow> i < n \<Longrightarrow> j < n \<Longrightarrow> leafmap (vm_pt st) root (a + 4096 * i) = Some e \<Longrightarrow>
        leafmap (vm_pt st) root (a + 4096 * j) = Some e' \<Longrightarrow> to_pa e = to_pa e' \<Longrightarrow> i = j"
  shows "unmappable pages root st do_free a n"
  using assms unfolding unmappable_def by blast

definition unmap_pages :: "nat \<Rightarrow> nat \<Rightarrow> (nat \<Rightarrow> usize option) \<Rightarrow> nat \<Rightarrow> usize option" where
  "unmap_pages a n m x = (if a \<le> x \<and> x < a + 4096 * n then None else m x)"

lemma unmap_pages_Suc:
  "a mod 4096 = 0 \<Longrightarrow> unmap_pages a (Suc n) m x =
   unmap_pages (a + 4096) n (\<lambda>x. if x div 4096 = a div 4096 then None else m x) x"
  using same_page[of a x] by (auto simp: unmap_pages_def)

lemma unmap_pages_0 [simp]: "unmap_pages a 0 m x = m x"
  by (auto simp: unmap_pages_def)

lemma wf_tables_shrink:
  assumes "wf_tables P T root" and "f \<notin> table_pages T root"
  shows "wf_tables (P - {f}) T root"
  using assms unfolding wf_tables_def table_pages_def by blast

lemma page_index_neq: "0 < j \<Longrightarrow> (a + 4096 * j) div 4096 \<noteq> a div (4096::nat)"
  by simp

context page_allocator
begin

text \<open>One page: the frame goes back to the allocator, then the entry is cleared.\<close>

lemma unmap_one:
  assumes ok: "vm_ok inv pages root st" and a: "a < MAXVA"
    and e: "leafmap (vm_pt st) root a = Some e" "is_leaf e"
    and f: "do_free \<longrightarrow> to_pa e \<in> pages (vm_alloc st) - table_pages (vm_pt st) root"
  obtains t st1 where "walk palloc root a False st = Inr (Some (t, px a 0), st)"
    and "read_pte st (t, px a 0) = e"
    and "(if do_free then Page_drop pfree (to_pa e) st else Inr st) = Inr st1"
    and "vm_ok inv pages root (write_pte st1 (t, px a 0) 0)"
    and "vm_pg st1 = vm_pg st"
    and "pages (vm_alloc (write_pte st1 (t, px a 0) 0))
           = pages (vm_alloc st) - (if do_free then {to_pa e} else {})"
    and "table_pages (vm_pt (write_pte st1 (t, px a 0) 0)) root = table_pages (vm_pt st) root"
    and "\<forall>x<MAXVA. leafmap (vm_pt (write_pte st1 (t, px a 0) 0)) root x
           = (if x div 4096 = a div 4096 then None else leafmap (vm_pt st) root x)"
    and "\<forall>u. u \<notin> table_pages (vm_pt st) root \<longrightarrow> vm_pt (write_pte st1 (t, px a 0) 0) u = vm_pt st u"
proof -
  from ok a obtain t where w: "walk palloc root a False st = Inr (Some (t, px a 0), st)"
    and t: "subtable (vm_pt st) root [px a 2, px a 1] = Some t"
  proof (cases rule: walk_ok[where alloc = False])
    case (none st')
    then show ?thesis using e(1) by (simp add: leafmap_def)
  next
    case (entry t st')
    then show ?thesis using that by simp
  qed
  have r: "read_pte st (t, px a 0) = e"
    using e(1) t by (simp add: leafmap_def read_pte_def split: if_splits)
  obtain s' where s': "(if do_free then Page_drop pfree (to_pa e) st else Inr st) = Inr (st\<lparr>vm_alloc := s'\<rparr>)"
    "inv s'" "pages s' = pages (vm_alloc st) - (if do_free then {to_pa e} else {})"
  proof (cases do_free)
    case True
    then have "to_pa e \<in> pages (vm_alloc st)" using f by simp
    moreover have "inv (vm_alloc st)" using ok by (simp add: vm_ok_def)
    ultimately obtain s' where "pfree (vm_alloc st) (to_pa e) = Inr s'" "inv s'"
      "pages s' = pages (vm_alloc st) - {to_pa e}" using pfree_ok by blast
    then show ?thesis using that[of s'] True by (simp add: Page_drop_def)
  next
    case False
    then show ?thesis using that[of "vm_alloc st"] ok by (simp add: vm_ok_def)
  qed
  let ?st = "st\<lparr>vm_alloc := s'\<rparr>"
  have ok1: "vm_ok inv pages root ?st"
  proof (cases do_free)
    case True
    then show ?thesis using ok f s' by (auto simp: vm_ok_def intro: wf_tables_shrink)
  next
    case False
    then show ?thesis using ok s' by (simp add: vm_ok_def)
  qed
  have t1: "subtable (vm_pt ?st) root [px a 2, px a 1] = Some t" using t by simp
  note g = write_pte_grow[OF ok1 a t1, where v = 0]
  have tt: "t \<in> table_pages (vm_pt st) root" using t tpath_va(1)[OF a] unfolding table_pages_def by blast
  have al: "vm_alloc (write_pte ?st (t, px a 0) 0) = s'" by (simp add: write_pte_def)
  have "wf_tables (pages (vm_alloc st)) (vm_pt st) root" using ok by (simp add: vm_ok_def)
  from subtable_write_leaf[OF this tpath_va(1)[OF a] _ t, of _ "px a 0" 0]
  have tp: "table_pages (vm_pt (write_pte ?st (t, px a 0) 0)) root = table_pages (vm_pt st) root"
    unfolding table_pages_def by (auto simp: write_pte_def)
  show thesis
  proof (rule that[OF w r s'(1) g(1)])
    show "\<forall>x<MAXVA. leafmap (vm_pt (write_pte ?st (t, px a 0) 0)) root x
           = (if x div 4096 = a div 4096 then None else leafmap (vm_pt st) root x)"
      using g(3) by simp
    show "\<forall>u. u \<notin> table_pages (vm_pt st) root \<longrightarrow> vm_pt (write_pte ?st (t, px a 0) 0) u = vm_pt st u"
      using tt by (auto simp: write_pte_def)
  qed (simp_all add: tp al s'(3))
qed

lemma unmap_loop_ok:
  assumes "vm_ok inv pages root st" and "a mod 4096 = 0" and "a + 4096 * n \<le> MAXVA"
    and "unmappable pages root st do_free a n"
  shows "\<exists>st'. unmap_loop palloc pfree root (a + 4096 * n) do_free a st = Inr st' \<and>
    vm_ok inv pages root st' \<and> vm_pg st' = vm_pg st \<and>
    table_pages (vm_pt st') root = table_pages (vm_pt st) root \<and>
    pages (vm_alloc st') = pages (vm_alloc st) - (if do_free then page_frames (vm_pt st) root a n else {}) \<and>
    (\<forall>x<MAXVA. leafmap (vm_pt st') root x = unmap_pages a n (leafmap (vm_pt st) root) x) \<and>
    (\<forall>u. u \<notin> table_pages (vm_pt st) root \<longrightarrow> vm_pt st' u = vm_pt st u)"
  using assms
proof (induction n arbitrary: a st)
  case 0
  then show ?case by (subst unmap_loop.simps) (simp add: page_frames_def)
next
  case (Suc n a st)
  have a: "a < MAXVA" using Suc.prems(3) by simp
  obtain e where e: "leafmap (vm_pt st) root a = Some e" "is_leaf e"
    and f: "do_free \<longrightarrow> to_pa e \<in> pages (vm_alloc st) - table_pages (vm_pt st) root"
    using Suc.prems(4) unfolding unmappable_def by (metis add_0_right mult_0_right zero_less_Suc)
  obtain t st1 where one: "walk palloc root a False st = Inr (Some (t, px a 0), st)"
    "read_pte st (t, px a 0) = e"
    "(if do_free then Page_drop pfree (to_pa e) st else Inr st) = Inr st1"
    and ok1: "vm_ok inv pages root (write_pte st1 (t, px a 0) 0)"
    and pg1: "vm_pg st1 = vm_pg st"
    and al1: "pages (vm_alloc (write_pte st1 (t, px a 0) 0))
           = pages (vm_alloc st) - (if do_free then {to_pa e} else {})"
    and tp1: "table_pages (vm_pt (write_pte st1 (t, px a 0) 0)) root = table_pages (vm_pt st) root"
    and lm1: "\<forall>x<MAXVA. leafmap (vm_pt (write_pte st1 (t, px a 0) 0)) root x
           = (if x div 4096 = a div 4096 then None else leafmap (vm_pt st) root x)"
    and fr1: "\<forall>u. u \<notin> table_pages (vm_pt st) root \<longrightarrow> vm_pt (write_pte st1 (t, px a 0) 0) u = vm_pt st u"
    by (rule unmap_one[OF Suc.prems(1) a e f])
  let ?st = "write_pte st1 (t, px a 0) 0"
  have rest: "leafmap (vm_pt ?st) root (a + 4096 + 4096 * j) = leafmap (vm_pt st) root (a + 4096 * Suc j)"
    if "j < n" for j
  proof -
    have "a + 4096 + 4096 * j < MAXVA" using Suc.prems(3) that by simp
    moreover have "(a + 4096 + 4096 * j) div 4096 \<noteq> a div 4096" by simp
    ultimately show ?thesis using lm1 by (simp add: add.assoc)
  qed
  have un: "unmappable pages root ?st do_free (a + 4096) n"
  proof (rule unmappableI, goal_cases)
    case (1 j)
    then obtain e' where e': "leafmap (vm_pt st) root (a + 4096 * Suc j) = Some e'" "is_leaf e'"
      "do_free \<longrightarrow> to_pa e' \<in> pages (vm_alloc st) - table_pages (vm_pt st) root"
      using unmappableD(1)[OF Suc.prems(4), of "Suc j"] by auto
    moreover have "to_pa e' \<noteq> to_pa e" if do_free
      using unmappableD(2)[OF Suc.prems(4) that, of "Suc j" 0 e' e] 1 e' e by auto
    ultimately show ?case using rest[OF 1] al1 tp1 by auto
  next
    case (2 i j e1 e2)
    then show ?case using unmappableD(2)[OF Suc.prems(4), of "Suc i" "Suc j" e1 e2] rest by simp
  qed
  have bnd: "(a + 4096) mod 4096 = 0" "a + 4096 + 4096 * n \<le> MAXVA" using Suc.prems(2,3) by simp_all
  obtain st' where IH: "unmap_loop palloc pfree root (a + 4096 + 4096 * n) do_free (a + 4096) ?st = Inr st'"
    "vm_ok inv pages root st'" "vm_pg st' = vm_pg ?st" "table_pages (vm_pt st') root = table_pages (vm_pt ?st) root"
    "pages (vm_alloc st') = pages (vm_alloc ?st) - (if do_free then page_frames (vm_pt ?st) root (a + 4096) n else {})"
    "\<forall>x<MAXVA. leafmap (vm_pt st') root x = unmap_pages (a + 4096) n (leafmap (vm_pt ?st) root) x"
    "\<forall>u. u \<notin> table_pages (vm_pt ?st) root \<longrightarrow> vm_pt st' u = vm_pt ?st u"
    using Suc.IH[OF ok1 bnd un] by (elim exE conjE) (rule that; assumption)
  have last: "a + 4096 * Suc n = a + 4096 + 4096 * n" by simp
  have "uadd a PGSIZE = Inr (a + 4096)" using Suc.prems(3) by (simp add: PGSIZE_def MAXVA_def)
  moreover have "is_v e" using e(1) by (auto simp: leafmap_def split: option.splits if_splits)
  ultimately have run: "unmap_loop palloc pfree root (a + 4096 * Suc n) do_free a st = Inr st'"
    using one e(2) IH(1) unfolding last by (subst unmap_loop.simps) (cases do_free, simp_all add: Let_def)
  have frames: "page_frames (vm_pt st) root a (Suc n) = insert (to_pa e) (page_frames (vm_pt ?st) root (a + 4096) n)"
  proof (intro equalityI subsetI)
    fix p assume "p \<in> page_frames (vm_pt st) root a (Suc n)"
    then obtain j e' where j: "j < Suc n" "leafmap (vm_pt st) root (a + 4096 * j) = Some e'" "p = to_pa e'"
      by (auto simp: page_frames_def)
    show "p \<in> insert (to_pa e) (page_frames (vm_pt ?st) root (a + 4096) n)"
    proof (cases j)
      case 0
      then show ?thesis using j e(1) by simp
    next
      case (Suc i)
      then show ?thesis using j rest[of i] unfolding page_frames_def by auto
    qed
  next
    fix p assume "p \<in> insert (to_pa e) (page_frames (vm_pt ?st) root (a + 4096) n)"
    then consider "p = to_pa e" | j e' where "j < n" "leafmap (vm_pt ?st) root (a + 4096 + 4096 * j) = Some e'" "p = to_pa e'"
      by (auto simp: page_frames_def)
    then show "p \<in> page_frames (vm_pt st) root a (Suc n)"
    proof cases
      case 1
      then show ?thesis using e(1) unfolding page_frames_def by (intro CollectI exI[of _ 0] exI[of _ e]) simp
    next
      case (2 j e')
      then show ?thesis
        using rest[of j] unfolding page_frames_def by (intro CollectI exI[of _ "Suc j"] exI[of _ e']) simp
    qed
  qed
  have "leafmap (vm_pt st') root x = unmap_pages a (Suc n) (leafmap (vm_pt st) root) x" if "x < MAXVA" for x
    using IH(6) lm1 that unmap_pages_Suc[OF Suc.prems(2), of n "leafmap (vm_pt st) root" x]
    by (simp add: unmap_pages_def)
  moreover have "vm_pg ?st = vm_pg st" using pg1 by (simp add: write_pte_def)
  moreover have "pages (vm_alloc st') = pages (vm_alloc st) -
      (if do_free then page_frames (vm_pt st) root a (Suc n) else {})"
    using IH(5) al1 frames by auto
  ultimately show ?case using run IH(2-4,7) tp1 fr1 by (intro exI[of _ st']) simp
qed

end

section \<open>User spaces\<close>

definition uvm_ok :: "('s \<Rightarrow> bool) \<Rightarrow> ('s \<Rightarrow> nat set) \<Rightarrow> nat \<Rightarrow> 's vmst \<Rightarrow> bool" where
  "uvm_ok ainv pages root st \<longleftrightarrow>
     vm_ok ainv pages root st \<and> uspace_ok root st \<and>
     (\<forall>va f. user_frame (vm_pt st) root va = Some f \<longrightarrow>
        f \<in> pages (vm_alloc st) - table_pages (vm_pt st) root)"

lemma uvm_okD:
  assumes "uvm_ok ainv pages root st"
  shows "vm_ok ainv pages root st" "uspace_ok root st"
    "user_frame (vm_pt st) root va = Some f \<Longrightarrow> f \<in> pages (vm_alloc st)"
    "user_frame (vm_pt st) root va = Some f \<Longrightarrow> f \<notin> table_pages (vm_pt st) root"
  using assms unfolding uvm_ok_def by blast+

lemma is_u_leaf: "is_u e \<Longrightarrow> is_leaf e"
proof -
  assume u: "is_u e"
  have "bit (e AND 0x3FF) 4" using u unfolding ten_bits by (simp add: is_u_bit bit_simps)
  moreover have "\<not> bit PTE_V 4" by (simp add: PTE_bits)
  ultimately have "e AND 0x3FF \<noteq> PTE_V" by metis
  then show ?thesis by (simp add: is_leaf_def)
qed

lemma user_frameE:
  assumes "user_frame T root va = Some f"
  obtains e where "va < MAXVA" and "leafmap T root va = Some e" and "is_u e" and "f = to_pa e"
  using assms by (auto simp: user_frame_def split: if_splits option.splits)

lemma user_frame_eq:
  "va < MAXVA \<Longrightarrow> leafmap T' root' va = leafmap T root va \<Longrightarrow> user_frame T' root' va = user_frame T root va"
  by (simp add: user_frame_def)

lemma pgroundup_eq: "sz + 4096 < 2 ^ 64 \<Longrightarrow> pgroundup sz = Inr ((sz + 4095) div 4096 * 4096)"
  by (simp add: pgroundup_def PGSIZE_def rounddown_eq)

text \<open>All user pages from \<open>a\<close> on, \<open>n\<close> of them, are mapped.\<close>

definition user_mapped :: "nat \<Rightarrow> 's vmst \<Rightarrow> nat \<Rightarrow> nat \<Rightarrow> bool" where
  "user_mapped root st a n \<longleftrightarrow> (\<forall>j<n. user_frame (vm_pt st) root (a + 4096 * j) \<noteq> None)"

lemma user_mapped_unmappable:
  assumes ok: "uvm_ok ainv pages root st" and m: "user_mapped root st a n"
  shows "unmappable pages root st True a n"
proof (rule unmappableI)
  fix j assume "j < n"
  then obtain f where f: "user_frame (vm_pt st) root (a + 4096 * j) = Some f"
    using m by (auto simp: user_mapped_def)
  then show "\<exists>e. leafmap (vm_pt st) root (a + 4096 * j) = Some e \<and> is_leaf e \<and>
      (True \<longrightarrow> to_pa e \<in> pages (vm_alloc st) - table_pages (vm_pt st) root)"
    using uvm_okD(3,4)[OF ok f] by (elim user_frameE) (auto dest: is_u_leaf)
next
  fix i j e e'
  assume ij: "i < n" "j < n" and e: "leafmap (vm_pt st) root (a + 4096 * i) = Some e"
    "leafmap (vm_pt st) root (a + 4096 * j) = Some e'" "to_pa e = to_pa e'"
  obtain f f' where "user_frame (vm_pt st) root (a + 4096 * i) = Some f"
    "user_frame (vm_pt st) root (a + 4096 * j) = Some f'"
    using m ij by (fastforce simp: user_mapped_def)
  moreover from this have "f = f'" using e by (auto elim!: user_frameE)
  ultimately have "(a + 4096 * i) div 4096 = (a + 4096 * j) div 4096"
    by (intro uspace_okD(2)[OF uvm_okD(2)[OF ok], of _ f]) simp_all
  then show "i = j" by simp
qed

definition drop_pages :: "nat \<Rightarrow> nat \<Rightarrow> (nat \<Rightarrow> 'b option) \<Rightarrow> nat \<Rightarrow> 'b option" where
  "drop_pages a b m x = (if a \<le> x \<and> x < b then None else m x)"

definition zero_page :: "nat \<Rightarrow> (nat \<Rightarrow> u8 option) \<Rightarrow> nat \<Rightarrow> u8 option" where
  "zero_page a m x = (if x div 4096 = a div 4096 then Some 0 else m x)"

lemma roundup_aligned: "a mod 4096 = 0 \<Longrightarrow> (a + 4095) div 4096 = a div (4096::nat)"
  using same_page[of a "a + 4095"] by simp

lemma aligned_mult: "a mod 4096 = 0 \<Longrightarrow> a div 4096 * 4096 = (a::nat)"
  by (metis add_0_right div_mult_mod_eq)

lemma roundup_MAXVA: "sz \<le> MAXVA \<Longrightarrow> (sz + 4095) div 4096 * 4096 \<le> MAXVA"
proof -
  assume "sz \<le> MAXVA"
  then have "(sz + 4095) div 4096 \<le> (MAXVA + 4095) div 4096" by (intro div_le_mono) simp
  also have "\<dots> = 2 ^ 26" by (simp add: MAXVA_def)
  finally show ?thesis by (simp add: MAXVA_def)
qed

text \<open>
  The space while it grows from \<open>od\<close>: the pages below \<open>a\<close> are new user pages full of zeros, all
  else is as it was at the start.
\<close>

definition grown ::
  "('s \<Rightarrow> bool) \<Rightarrow> ('s \<Rightarrow> nat set) \<Rightarrow> nat \<Rightarrow> 's vmst \<Rightarrow> nat \<Rightarrow> nat \<Rightarrow> 's vmst \<Rightarrow> bool" where
  "grown ainv pages root st0 od a st \<longleftrightarrow>
     uvm_ok ainv pages root st \<and> od \<le> a \<and> a mod 4096 = 0 \<and>
     user_mapped root st od (a div 4096 - od div 4096) \<and>
     (\<forall>x<MAXVA. \<not> (od \<le> x \<and> x < a) \<longrightarrow> leafmap (vm_pt st) root x = leafmap (vm_pt st0) root x) \<and>
     (\<forall>x. ubyte st root x = (if od \<le> x \<and> x < a then Some 0 else ubyte st0 root x))"

definition unmapped :: "nat \<Rightarrow> 's vmst \<Rightarrow> nat \<Rightarrow> nat \<Rightarrow> bool" where
  "unmapped root st a b \<longleftrightarrow> (\<forall>x. a \<le> x \<longrightarrow> x < b \<longrightarrow> leafmap (vm_pt st) root x = None)"

definition same_space :: "nat \<Rightarrow> 's vmst \<Rightarrow> 's vmst \<Rightarrow> bool" where
  "same_space root st st' \<longleftrightarrow>
     (\<forall>x<MAXVA. leafmap (vm_pt st') root x = leafmap (vm_pt st) root x) \<and>
     (\<forall>x. ubyte st' root x = ubyte st root x)"

context page_allocator
begin

lemma unmap_user_ok:
  assumes ok: "uvm_ok inv pages root st" and a: "a mod 4096 = 0" "a + 4096 * n \<le> MAXVA"
    and m: "user_mapped root st a n"
  shows "\<exists>st'. Uvm_unmap palloc pfree root a n True st = Inr st' \<and> uvm_ok inv pages root st' \<and>
    pages (vm_alloc st') = pages (vm_alloc st) - page_frames (vm_pt st) root a n \<and>
    (\<forall>x<MAXVA. leafmap (vm_pt st') root x = drop_pages a (a + 4096 * n) (leafmap (vm_pt st) root) x) \<and>
    (\<forall>x. ubyte st' root x = drop_pages a (a + 4096 * n) (ubyte st root) x)"
proof -
  note vok = uvm_okD(1)[OF ok] and us = uvm_okD(2)[OF ok]
  obtain st' where u: "unmap_loop palloc pfree root (a + 4096 * n) True a st = Inr st'"
    "vm_ok inv pages root st'" "vm_pg st' = vm_pg st" "table_pages (vm_pt st') root = table_pages (vm_pt st) root"
    "pages (vm_alloc st') = pages (vm_alloc st) - page_frames (vm_pt st) root a n"
    "\<forall>x<MAXVA. leafmap (vm_pt st') root x = unmap_pages a n (leafmap (vm_pt st) root) x"
    using unmap_loop_ok[OF vok a user_mapped_unmappable[OF ok m]] unfolding if_True
    by (elim exE conjE) (rule that; assumption)
  have fr: "user_frame (vm_pt st') root x = drop_pages a (a + 4096 * n) (user_frame (vm_pt st) root) x" for x
    using u(6) by (simp add: user_frame_def drop_pages_def unmap_pages_def)
  have sub: "user_frame (vm_pt st') root x = Some f \<Longrightarrow> user_frame (vm_pt st) root x = Some f" for x f
    by (simp add: fr drop_pages_def split: if_splits)
  have kept: "f \<notin> page_frames (vm_pt st) root a n" if f: "user_frame (vm_pt st') root x = Some f" for x f
  proof
    assume "f \<in> page_frames (vm_pt st) root a n"
    then obtain j e where j: "j < n" "leafmap (vm_pt st) root (a + 4096 * j) = Some e" "f = to_pa e"
      by (auto simp: page_frames_def)
    obtain f' where f': "user_frame (vm_pt st) root (a + 4096 * j) = Some f'"
      using m j(1) by (auto simp: user_mapped_def)
    then have "f' = f" using j by (auto elim!: user_frameE)
    then have "x div 4096 = (a + 4096 * j) div 4096"
      using uspace_okD(2)[OF us sub[OF f], of "a + 4096 * j"] f' by simp
    then have "a + 4096 * j \<le> x \<and> x < a + 4096 * j + 4096"
      using same_page[of "a + 4096 * j" x] a(1) by simp
    then have "a \<le> x" "x < a + 4096 * n" using j(1) by linarith+
    with f show False by (simp add: fr drop_pages_def)
  qed
  have "uspace_ok root st'"
    unfolding uspace_ok_def u(3)
  proof (intro conjI allI impI)
    fix va f assume "user_frame (vm_pt st') root va = Some f"
    then show "length (vm_pg st f) = 4096" by (rule uspace_okD(1)[OF us sub])
  next
    fix va va' f assume "user_frame (vm_pt st') root va = Some f" "user_frame (vm_pt st') root va' = Some f"
    then show "va div 4096 = va' div 4096" by (rule uspace_okD(2)[OF us sub sub])
  qed
  moreover have "f \<in> pages (vm_alloc st') - table_pages (vm_pt st') root"
    if "user_frame (vm_pt st') root x = Some f" for x f
    using uvm_okD(3,4)[OF ok sub[OF that]] kept[OF that] u(4,5) by simp
  ultimately have "uvm_ok inv pages root st'" using u(2) unfolding uvm_ok_def by blast
  moreover have "Uvm_unmap palloc pfree root a n True st = Inr st'"
  proof -
    have "n * PGSIZE < 2 ^ 64" "a + n * PGSIZE < 2 ^ 64" using a(2) by (simp_all add: PGSIZE_def MAXVA_def)
    then show ?thesis
      using a(1) u(1) by (simp add: Uvm_unmap_def is_aligned_def umul_def) (simp add: PGSIZE_def mult.commute)
  qed
  moreover have "ubyte st' root x = drop_pages a (a + 4096 * n) (ubyte st root) x" for x
    unfolding ubyte_def fr u(3) drop_pages_def by simp
  moreover have "\<forall>x<MAXVA. leafmap (vm_pt st') root x = drop_pages a (a + 4096 * n) (leafmap (vm_pt st) root) x"
    using u(6) by (simp add: drop_pages_def unmap_pages_def)
  ultimately show ?thesis using u(5) by blast
qed

lemma Uvm_dealloc_ok:
  assumes ok: "uvm_ok inv pages root st" and lt: "newsz < oldsz" and b: "oldsz \<le> MAXVA"
    and m: "user_mapped root st ((newsz + 4095) div 4096 * 4096)
      ((oldsz + 4095) div 4096 - (newsz + 4095) div 4096)"
  shows "\<exists>st'. Uvm_dealloc palloc pfree root oldsz newsz st = Inr (newsz, st') \<and> uvm_ok inv pages root st' \<and>
    pages (vm_alloc st') \<subseteq> pages (vm_alloc st) \<and>
    (\<forall>x<MAXVA. leafmap (vm_pt st') root x = drop_pages ((newsz + 4095) div 4096 * 4096)
       ((oldsz + 4095) div 4096 * 4096) (leafmap (vm_pt st) root) x) \<and>
    (\<forall>x. ubyte st' root x = drop_pages ((newsz + 4095) div 4096 * 4096)
       ((oldsz + 4095) div 4096 * 4096) (ubyte st root) x)"
proof -
  define n od where "n = (newsz + 4095) div 4096" and "od = (oldsz + 4095) div 4096"
  have le: "n \<le> od" unfolding n_def od_def using lt by (intro div_le_mono) simp
  have pg: "pgroundup newsz = Inr (n * 4096)" "pgroundup oldsz = Inr (od * 4096)"
    unfolding n_def od_def using lt b by (simp_all add: pgroundup_eq MAXVA_def)
  have "od \<le> 2 ^ 26" unfolding od_def using b by (simp add: MAXVA_def less_mult_imp_div_less flip: less_Suc_eq_le)
  then have bnd: "n * 4096 + 4096 * (od - n) \<le> MAXVA" using le by (simp add: MAXVA_def)
  have al: "n * 4096 mod 4096 = 0" by simp
  have e: "n * 4096 + 4096 * (od - n) = od * 4096" using le by (simp add: algebra_simps)
  show ?thesis
  proof (cases "n = od")
    case True
    then have "Uvm_dealloc palloc pfree root oldsz newsz st = Inr (newsz, st)"
      using lt pg by (simp add: Uvm_dealloc_def)
    then show ?thesis using ok True unfolding n_def[symmetric] od_def[symmetric]
      by (intro exI[of _ st]) (auto simp: drop_pages_def)
  next
    case False
    obtain st' where u: "Uvm_unmap palloc pfree root (n * 4096) (od - n) True st = Inr st'" "uvm_ok inv pages root st'"
      "pages (vm_alloc st') = pages (vm_alloc st) - page_frames (vm_pt st) root (n * 4096) (od - n)"
      "\<forall>x<MAXVA. leafmap (vm_pt st') root x = drop_pages (n * 4096) (od * 4096) (leafmap (vm_pt st) root) x"
      "\<forall>x. ubyte st' root x = drop_pages (n * 4096) (od * 4096) (ubyte st root) x"
      using unmap_user_ok[OF ok al bnd m[folded n_def od_def]] unfolding e
      by (elim exE conjE) (rule that; assumption)
    have "(od * 4096 - n * 4096) div PGSIZE = od - n"
      by (simp add: PGSIZE_def flip: diff_mult_distrib)
    then have "Uvm_dealloc palloc pfree root oldsz newsz st = Inr (newsz, st')"
      using lt pg u(1) False le by (simp add: Uvm_dealloc_def)
    with u(2-5) show ?thesis unfolding n_def[symmetric] od_def[symmetric] by blast
  qed
qed

section \<open>Growing\<close>

lemma mappages_one: "a mod 4096 = 0 \<Longrightarrow> a < MAXVA \<Longrightarrow> mappages palloc root a pa PGSIZE perm st = map_one palloc root a pa perm st"
proof -
  assume a: "a mod 4096 = 0" "a < MAXVA"
  have small: "a + 4096 < 2 ^ 64" "a + 4095 < 2 ^ 64" "a < 2 ^ 64" using a(2) by (simp_all add: MAXVA_def)
  have "a div 4096 * 4096 = a" using a(1) by (metis add_0_right div_mult_mod_eq)
  moreover have "(4095 + a) div 4096 * 4096 = a" using page_base[OF a(1), of "4095 + a"] by simp
  ultimately have "mappages palloc root a pa PGSIZE perm st = mappages_loop palloc root a pa a perm st"
    using small by (simp add: mappages_def PGSIZE_def rounddown_eq add.commute[of _ 4095])
  also have "\<dots> = map_one palloc root a pa perm st"
    by (cases "map_one palloc root a pa perm st") (auto simp: mappages_loop.simps)
  finally show ?thesis .
qed

lemma page_state_ok:
  assumes ok: "uvm_ok inv pages root st" and p: "p \<notin> pages (vm_alloc st)" "inv s"
    "pages s = insert p (pages (vm_alloc st))"
  defines "st1 \<equiv> st\<lparr>vm_alloc := s, vm_pg := (vm_pg st)(p := replicate 4096 0)\<rparr>"
  shows "vm_ok inv pages root st1" and "p \<notin> table_pages (vm_pt st1) root"
    and "user_frame (vm_pt st) root x = Some f \<Longrightarrow> f \<noteq> p" and "vm_pg st1 p = replicate 4096 0"
    and "f \<noteq> p \<Longrightarrow> vm_pg st1 f = vm_pg st f"
proof -
  have wf: "wf_tables (pages (vm_alloc st)) (vm_pt st) root" using uvm_okD(1)[OF ok] by (simp add: vm_ok_def)
  then have "wf_tables (pages s) (vm_pt st) root" unfolding p(3) wf_tables_def by blast
  then show "vm_ok inv pages root st1" using p by (simp add: vm_ok_def st1_def)
  show "p \<notin> table_pages (vm_pt st1) root"
    using wf_tablesD(1)[OF wf] p(1) by (auto simp: table_pages_def st1_def)
  show "user_frame (vm_pt st) root x = Some f \<Longrightarrow> f \<noteq> p" using uvm_okD(3)[OF ok] p(1) by blast
  show "vm_pg st1 p = replicate 4096 0" "f \<noteq> p \<Longrightarrow> vm_pg st1 f = vm_pg st f" by (simp_all add: st1_def)
qed

lemma grow_mapped:
  assumes ok: "uvm_ok inv pages root st" and a: "a mod 4096 = 0" "a < MAXVA"
    and free: "leafmap (vm_pt st) root a = None" and perm: "pte_attr xperm"
    and p: "p \<notin> pages (vm_alloc st)" "inv s" "pages s = insert p (pages (vm_alloc st))" "page_addr p"
    and st1: "st1 = st\<lparr>vm_alloc := s, vm_pg := (vm_pg st)(p := replicate 4096 0)\<rparr>"
    and st2: "vm_ok inv pages root st2" "vm_frame pages root st1 st2"
      "\<forall>x<MAXVA. leafmap (vm_pt st2) root x = (if x div 4096 = a div 4096
         then Some (pte_set p ((PTE_R OR PTE_U OR xperm) OR PTE_V)) else leafmap (vm_pt st1) root x)"
  shows "uvm_ok inv pages root st2"
    and "user_frame (vm_pt st2) root x = (if x div 4096 = a div 4096 then Some p else user_frame (vm_pt st) root x)"
    and "ubyte st2 root x = zero_page a (ubyte st root) x"
proof -
  note ps = page_state_ok[OF ok p(1-3), folded st1] and us = uvm_okD(2)[OF ok]
  let ?perm = "(PTE_R OR PTE_U OR xperm) OR PTE_V"
  have attr: "pte_attr ?perm" "bit ?perm 4" by (simp_all add: pte_attr_or perm bit_or_iff PTE_bits)
  have fr: "user_frame (vm_pt st2) root x = (if x div 4096 = a div 4096 then Some p else user_frame (vm_pt st) root x)" for x
  proof (cases "x < MAXVA")
    case True
    then show ?thesis using st2(3) attr(2) to_pa_set[OF p(4) attr(1)] st1 by (simp add: user_frame_def)
  next
    case False
    then show ?thesis using MAXVA_page[of x a] a(2) by (auto simp: user_frame_def)
  qed
  have pg: "vm_pg st2 = vm_pg st1" using vm_frameD(2)[OF st2(2)] .
  have "length (vm_pg st2 f) = 4096" if "user_frame (vm_pt st2) root va = Some f" for va f
    using that ps(3)[of va f] ps(4) ps(5)[of f] uspace_okD(1)[OF us] by (auto simp: fr pg split: if_splits)
  moreover have "va div 4096 = va' div 4096"
    if "user_frame (vm_pt st2) root va = Some f" "user_frame (vm_pt st2) root va' = Some f" for va va' f
    using that ps(3) by (auto simp: fr split: if_splits intro: uspace_okD(2)[OF us])
  moreover have "f \<in> pages (vm_alloc st2) - table_pages (vm_pt st2) root"
    if "user_frame (vm_pt st2) root va = Some f" for va f
  proof -
    have f: "f \<in> pages s" "f \<notin> table_pages (vm_pt st1) root"
      using that uvm_okD(3,4)[OF ok] ps(2) p(3) by (auto simp: fr st1 split: if_splits)
    have "pages (vm_alloc st1) = pages s" by (simp add: st1)
    with f vm_frameD(1,3)[OF st2(2)] show ?thesis by auto
  qed
  ultimately show "uvm_ok inv pages root st2" using st2(1) unfolding uvm_ok_def uspace_ok_def by blast
  show "user_frame (vm_pt st2) root x = (if x div 4096 = a div 4096 then Some p else user_frame (vm_pt st) root x)"
    by (rule fr)
  have "vm_pg st1 f = vm_pg st f" if "user_frame (vm_pt st) root x = Some f" for f
    using ps(3)[OF that] ps(5) by blast
  then show "ubyte st2 root x = zero_page a (ubyte st root) x"
    using ps(4) by (simp add: ubyte_def fr pg zero_page_def split: option.splits)
qed

lemma grow_undone:
  assumes ok: "uvm_ok inv pages root st"
    and p: "p \<notin> pages (vm_alloc st)" "inv s" "pages s = insert p (pages (vm_alloc st))"
    and st1: "st1 = st\<lparr>vm_alloc := s, vm_pg := (vm_pg st)(p := replicate 4096 0)\<rparr>"
    and st2: "vm_ok inv pages root st2" "vm_frame pages root st1 st2"
      "\<forall>x<MAXVA. leafmap (vm_pt st2) root x = leafmap (vm_pt st1) root x"
  shows "\<exists>st3. Page_drop pfree p st2 = Inr st3 \<and> uvm_ok inv pages root st3 \<and>
    (\<forall>x<MAXVA. leafmap (vm_pt st3) root x = leafmap (vm_pt st) root x) \<and>
    (\<forall>x. ubyte st3 root x = ubyte st root x)"
proof -
  note ps = page_state_ok[OF ok p, folded st1] and us = uvm_okD(2)[OF ok]
  have "pages (vm_alloc st1) = pages s" by (simp add: st1)
  then have pin: "p \<in> pages (vm_alloc st2)" and pout: "p \<notin> table_pages (vm_pt st2) root"
    using p(3) ps(2) vm_frameD(1,3)[OF st2(2)] by auto
  obtain s3 where s3: "pfree (vm_alloc st2) p = Inr s3" "inv s3" "pages s3 = pages (vm_alloc st2) - {p}"
    using pfree_ok[of "vm_alloc st2" p] pin st2(1) by (auto simp: vm_ok_def)
  let ?st = "st2\<lparr>vm_alloc := s3\<rparr>"
  have fr: "user_frame (vm_pt st2) root x = user_frame (vm_pt st) root x" for x
    using st2(3) st1 by (simp add: user_frame_def)
  have pg: "vm_pg st2 = vm_pg st1" using vm_frameD(2)[OF st2(2)] .
  have old: "vm_pg st1 f = vm_pg st f" if "user_frame (vm_pt st) root x = Some f" for x f
    using ps(3)[OF that] ps(5) by blast
  have "vm_ok inv pages root ?st"
    using st2(1) s3 wf_tables_shrink[OF _ pout] by (simp add: vm_ok_def)
  moreover have "uspace_ok root ?st"
    unfolding uspace_ok_def
  proof (intro conjI allI impI)
    fix va f assume "user_frame (vm_pt ?st) root va = Some f"
    then show "length (vm_pg ?st f) = 4096" using uspace_okD(1)[OF us] old by (simp add: fr pg)
  next
    fix va va' f assume "user_frame (vm_pt ?st) root va = Some f" "user_frame (vm_pt ?st) root va' = Some f"
    then show "va div 4096 = va' div 4096" by (intro uspace_okD(2)[OF us, of va f va']) (simp_all add: fr)
  qed
  moreover have "f \<in> pages (vm_alloc ?st) - table_pages (vm_pt ?st) root"
    if "user_frame (vm_pt ?st) root va = Some f" for va f
  proof -
    have u: "user_frame (vm_pt st) root va = Some f" using that by (simp add: fr)
    have "f \<in> pages (vm_alloc st1)" "f \<notin> table_pages (vm_pt st1) root"
      using uvm_okD(3,4)[OF ok u] p(3) by (auto simp: st1)
    with vm_frameD(1,3)[OF st2(2)] ps(3)[OF u] s3(3) show ?thesis by auto
  qed
  ultimately have "uvm_ok inv pages root ?st" unfolding uvm_ok_def by blast
  moreover have "ubyte ?st root x = ubyte st root x" for x
    using old by (simp add: ubyte_def fr pg split: option.splits)
  ultimately show ?thesis using s3(1) st2(3) st1 by (simp add: Page_drop_def)
qed

text \<open>Giving back what was grown restores the space.\<close>

lemma shrink_back:
  assumes g: "grown inv pages root st0 od a st" and od: "od mod 4096 = 0" and a: "a \<le> MAXVA"
    and free: "unmapped root st0 od a"
  shows "\<exists>st'. Uvm_dealloc palloc pfree root a od st = Inr (if od \<ge> a then a else od, st') \<and>
    uvm_ok inv pages root st' \<and> same_space root st0 st'"
proof (cases "od \<ge> a")
  case True
  with g have "od = a" by (simp add: grown_def)
  then have "same_space root st0 st" using g by (auto simp: grown_def same_space_def)
  with True g show ?thesis by (intro exI[of _ st]) (simp add: Uvm_dealloc_def grown_def)
next
  case False
  have al: "a mod 4096 = 0" and ok: "uvm_ok inv pages root st"
    and um: "user_mapped root st od (a div 4096 - od div 4096)" using g by (simp_all add: grown_def)
  have none: "ubyte st0 root x = None" if "od \<le> x" "x < a" for x
    using free that a by (simp add: unmapped_def ubyte_def user_frame_def)
  have um': "user_mapped root st ((od + 4095) div 4096 * 4096) ((a + 4095) div 4096 - (od + 4095) div 4096)"
    using um by (simp add: roundup_aligned[OF od] roundup_aligned[OF al] aligned_mult[OF od])
  obtain st' where d: "Uvm_dealloc palloc pfree root a od st = Inr (od, st')" "uvm_ok inv pages root st'"
    "\<forall>x<MAXVA. leafmap (vm_pt st') root x = drop_pages od a (leafmap (vm_pt st) root) x"
    "\<forall>x. ubyte st' root x = drop_pages od a (ubyte st root) x"
    using Uvm_dealloc_ok[OF ok _ a um'] False
    unfolding roundup_aligned[OF od] roundup_aligned[OF al] aligned_mult[OF od] aligned_mult[OF al]
    by auto
  have "same_space root st0 st'"
    using d(3,4) g free none a unfolding grown_def same_space_def drop_pages_def unmapped_def by auto
  with d(1,2) False show ?thesis by auto
qed

lemma grown_step:
  assumes g: "grown inv pages root st0 od a st" and od: "od mod 4096 = 0"
    and ok: "uvm_ok inv pages root st2"
    and fr: "\<And>x. user_frame (vm_pt st2) root x = (if x div 4096 = a div 4096 then Some p else user_frame (vm_pt st) root x)"
    and ub: "\<And>x. ubyte st2 root x = zero_page a (ubyte st root) x"
    and lm: "\<forall>x<MAXVA. leafmap (vm_pt st2) root x =
      (if x div 4096 = a div 4096 then Some e else leafmap (vm_pt st) root x)"
  shows "grown inv pages root st0 od (a + 4096) st2"
proof -
  have a: "a mod 4096 = 0" "od \<le> a" and um: "user_mapped root st od (a div 4096 - od div 4096)"
    using g by (simp_all add: grown_def)
  have pg: "x div 4096 = a div 4096 \<longleftrightarrow> a \<le> x \<and> x < a + 4096" for x by (rule same_page[OF a(1)])
  have "user_frame (vm_pt st2) root (od + 4096 * j) \<noteq> None" if "j < (a + 4096) div 4096 - od div 4096" for j
  proof (cases "j < a div 4096 - od div 4096")
    case True
    then show ?thesis using um fr by (simp add: user_mapped_def)
  next
    case False
    with that have "j + od div 4096 = a div 4096" by simp
    then have "(od + 4096 * j) div 4096 = a div 4096" by simp
    then show ?thesis by (simp add: fr)
  qed
  moreover have "leafmap (vm_pt st2) root x = leafmap (vm_pt st0) root x"
    if "x < MAXVA" "\<not> (od \<le> x \<and> x < a + 4096)" for x
    using that lm g a(2) unfolding pg grown_def by auto
  moreover have "ubyte st2 root x = (if od \<le> x \<and> x < a + 4096 then Some 0 else ubyte st0 root x)" for x
  proof -
    have u: "ubyte st root x = (if od \<le> x \<and> x < a then Some 0 else ubyte st0 root x)"
      using g by (simp add: grown_def)
    show ?thesis unfolding ub zero_page_def pg u using a(2) by auto
  qed
  ultimately show ?thesis unfolding grown_def user_mapped_def using ok a by simp
qed

lemma alloc_loop_ok:
  assumes "grown inv pages root st0 od a st" and od: "od mod 4096 = 0" and new: "newsz \<le> MAXVA"
    and free: "unmapped root st0 od ((newsz + 4095) div 4096 * 4096)" and perm: "pte_attr xperm"
    and "a \<le> (newsz + 4095) div 4096 * 4096"
  shows "\<exists>r st'. alloc_loop palloc pfree root od newsz xperm a st = Inr (r, st') \<and>
    (case r of
       Some z \<Rightarrow> z = newsz \<and> grown inv pages root st0 od ((newsz + 4095) div 4096 * 4096) st'
     | None \<Rightarrow> uvm_ok inv pages root st' \<and> same_space root st0 st')"
  using assms(1,6)
proof (induction "newsz - a" arbitrary: a st rule: less_induct)
  case (less a st)
  let ?top = "(newsz + 4095) div 4096 * 4096"
  have top: "?top \<le> MAXVA" by (rule roundup_MAXVA[OF new])
  have g: "uvm_ok inv pages root st" "a mod 4096 = 0" using less.prems by (simp_all add: grown_def)
  show ?case
  proof (cases "a < newsz")
    case False
    have "newsz \<le> a" using False by simp
    then have "(newsz + 4095) div 4096 \<le> (a + 4095) div 4096" by (intro div_le_mono) simp
    then have "?top \<le> a" using roundup_aligned[OF g(2)] aligned_mult[OF g(2)] by linarith
    then have "a = ?top" using less.prems(2) by simp
    then show ?thesis using False less.prems(1) by (subst alloc_loop.simps) simp
  next
    case lt: True
    have aM: "a < MAXVA" using lt new by simp
    have free1: "unmapped root st0 od a" using free less.prems(2) by (auto simp: unmapped_def)
    have freea: "leafmap (vm_pt st) root a = None"
    proof -
      have "a < ?top" using lt div_mult_mod_eq[of "newsz + 4095" 4096] mod_less_divisor[of 4096 "newsz + 4095"]
        by linarith
      then show ?thesis using less.prems(1) free aM by (auto simp: grown_def unmapped_def)
    qed
    have inv: "inv (vm_alloc st)" using uvm_okD(1)[OF g(1)] by (simp add: vm_ok_def)
    from inv show ?thesis
    proof (cases rule: palloc_cases)
      case full
      obtain st' where d: "Uvm_dealloc palloc pfree root a od st = Inr (if od \<ge> a then a else od, st')"
        "uvm_ok inv pages root st'" "same_space root st0 st'"
        using shrink_back[OF less.prems(1) od _ free1] aM by auto
      have "Page_new palloc st = Inr (None, st)" using full by (simp add: Page_new_def)
      then have "alloc_loop palloc pfree root od newsz xperm a st = Inr (None, st')"
        using lt d(1) by (subst alloc_loop.simps) simp
      with d(2,3) show ?thesis by simp
    next
      case (page p s)
      define st1 where "st1 = st\<lparr>vm_alloc := s, vm_pg := (vm_pg st)(p := replicate 4096 0)\<rparr>"
      let ?perm = "PTE_R OR PTE_U OR xperm"
      note ps = page_state_ok[OF g(1) page(3,2,4), folded st1_def]
      have new1: "Page_new palloc st = Inr (Some p, st1)" using page by (simp add: Page_new_def st1_def)
      have free1a: "leafmap (vm_pt st1) root a = None" using freea by (simp add: st1_def)
      obtain b st2 where m: "map_one palloc root a p ?perm st1 = Inr (b, st2)" "vm_ok inv pages root st2"
        "vm_frame pages root st1 st2" and l: "\<forall>x<MAXVA. leafmap (vm_pt st2) root x =
          (if b \<and> x div 4096 = a div 4096 then Some (pte_set p (?perm OR PTE_V)) else leafmap (vm_pt st1) root x)"
        using map_one_ok[OF ps(1) aM free1a, of p ?perm] by (elim exE conjE) (rule that; assumption)
      show ?thesis
      proof (cases b)
        case True
        have l': "\<forall>x<MAXVA. leafmap (vm_pt st2) root x = (if x div 4096 = a div 4096
            then Some (pte_set p (?perm OR PTE_V)) else leafmap (vm_pt st1) root x)" using l True by simp
        note gm = grow_mapped[OF g(1) g(2) aM freea perm page(3,2,4,5) st1_def m(2,3) l']
        have step: "alloc_loop palloc pfree root od newsz xperm a st
            = alloc_loop palloc pfree root od newsz xperm (a + 4096) st2"
          using lt new1 m(1) True mappages_one[OF g(2) aM]
          by (subst alloc_loop.simps) (simp add: PGSIZE_def)
        have gr: "grown inv pages root st0 od (a + 4096) st2"
          using l' by (intro grown_step[OF less.prems(1) od gm, of "pte_set p (?perm OR PTE_V)"]) (simp add: st1_def)
        show ?thesis unfolding step
        proof (rule less.hyps[OF _ gr])
          show "newsz - (a + 4096) < newsz - a" using lt by simp
          have "a div 4096 + 1 \<le> (newsz + 4095) div 4096"
            using div_le_mono[of "a + 4096" "newsz + 4095" 4096] lt by simp
          then show "a + 4096 \<le> ?top" using aligned_mult[OF g(2)] by linarith
        qed
      next
        case False
        have l': "\<forall>x<MAXVA. leafmap (vm_pt st2) root x = leafmap (vm_pt st1) root x" using l False by simp
        obtain st3 where st3: "Page_drop pfree p st2 = Inr st3" "uvm_ok inv pages root st3"
          "\<forall>x<MAXVA. leafmap (vm_pt st3) root x = leafmap (vm_pt st) root x"
          "\<forall>x. ubyte st3 root x = ubyte st root x"
          using grow_undone[OF g(1) page(3,2,4) st1_def m(2,3) l'] by (elim exE conjE) (rule that; assumption)
        have "user_frame (vm_pt st3) root x = user_frame (vm_pt st) root x" for x
          using st3(3) by (simp add: user_frame_def)
        then have gr: "grown inv pages root st0 od a st3"
          using less.prems(1) st3(2-4) by (simp add: grown_def user_mapped_def)
        obtain st' where d: "Uvm_dealloc palloc pfree root a od st3 = Inr (if od \<ge> a then a else od, st')"
          "uvm_ok inv pages root st'" "same_space root st0 st'"
          using shrink_back[OF gr od _ free1] aM by auto
        have "alloc_loop palloc pfree root od newsz xperm a st = Inr (None, st')"
          using lt new1 m(1) False st3(1) d(1) mappages_one[OF g(2) aM] by (subst alloc_loop.simps) simp
        with d(2,3) show ?thesis by simp
      qed
    qed
  qed
qed

end

end
