(* ===== verification/VmProps.thy ===== *)
theory VmProps
  imports VmSpace
begin

text \<open>
  What \<^verbatim>\<open>vm.rs\<close> promises, over the kernel's own page allocator: the lemmas of the
  preceding theories at the interpretation of the allocator interface, with a concrete address
  space as input for the witnesses.
\<close>

section \<open>A concrete address space\<close>

text \<open>A heap of eight pages of which some pages, and no other memory but the metadata, are in use.\<close>

definition roomy :: "nat \<Rightarrow> kmem \<Rightarrow> bool" where
  "roomy n s \<longleftrightarrow>
     (\<exists>r I. buddy_inv r (fst s) (snd s) \<and> bd_nsize (fst s) = 12 \<and> bd_base (fst s) = 4096 \<and>
        used_blocks (fst s) = insert (0, 0) (Pair 8 ` I) \<and> finite I \<and> card I + n \<le> 7)"

lemma roomy_inv: "roomy n s \<Longrightarrow> kmem_inv s"
  by (auto simp: roomy_def kmem_inv_def blk_size_def LEAF_SIZE_def)

lemma roomy_spine: "roomy 7 (spine_buddy 11, spine_store 11)"
  unfolding roomy_def using spine_inv[of 11]
  by (intro exI[of _ 1] exI[of _ "{}"]) (simp add: spine_used)

lemma roomy_page:
  assumes "roomy (Suc n) s"
  shows "\<exists>p s'. page_new s = Inr (Some p, s') \<and> roomy n s' \<and> p \<notin> kmem_pages s \<and>
    kmem_pages s' = insert p (kmem_pages s)"
proof -
  let ?b = "fst s" and ?h = "snd s"
  obtain r I where inv: "buddy_inv r ?b ?h" and f: "bd_nsize ?b = 12" "bd_base ?b = 4096"
    and u: "used_blocks ?b = insert (0, 0) (Pair 8 ` I)" and I: "finite I" "card I + Suc n \<le> 7"
    using assms by (auto simp: roomy_def)
  have al: "ly_align page_layout \<le> MAX_ALIGN" by (simp add: page_layout_def MAX_ALIGN_def)
  have "8 \<le> bd_nsize ?b" using f by simp
  from Buddy_alloc_ok[OF inv al firstk_page this] obtain res b' h'
    where a: "Buddy_alloc ?b ?h page_layout = Inr (res, b', h')" "alloc_result r ?b ?h 8 res b' h'" by blast
  have "res \<noteq> None"
  proof
    assume "res = None"
    obtain i where i: "i \<in> {1..<8}" "i \<notin> I"
      using card_mono[OF I(1), of "{1..<8::nat}"] I(2) by fastforce
    from \<open>res = None\<close> a(2) have "8 \<le> (8::nat) \<longrightarrow> 8 < bd_nsize ?b \<longrightarrow> i < 2 ^ (bd_nsize ?b - 1 - 8) \<longrightarrow>
        (\<exists>(k', i')\<in>used_blocks ?b. cells k' i' \<inter> cells 8 i \<noteq> {})"
      by (simp add: alloc_result_def)
    then have "cells 0 0 \<inter> cells 8 i \<noteq> {} \<or> (\<exists>j\<in>I. cells 8 j \<inter> cells 8 i \<noteq> {})"
      using i(1) by (auto simp: u f(1))
    then show False
      using i by (auto simp: cells_iff)
  qed
  then obtain p i where p: "res = Some p" "p = addr ?b 8 i" "(8, i) \<notin> used_blocks ?b"
    "used_blocks b' = insert (8, i) (used_blocks ?b)" using a(2) by (auto simp: alloc_result_def)
  have n: "page_new s = Inr (Some p, (b', h'))"
    using a(1) p(1,2) addr_pos[OF inv, of 8 i] by (simp add: page_new_def Kmem_alloc_def)
  have "roomy n (b', h')" unfolding roomy_def
  proof (intro exI conjI)
    show "used_blocks (fst (b', h')) = insert (0, 0) (Pair 8 ` insert i I)" using p(4) u by auto
    show "card (insert i I) + n \<le> 7" using I p(3) u by (simp add: card_insert_if image_iff)
  qed (use a(2) f I in \<open>auto simp: alloc_result_def\<close>)
  moreover from roomy_inv[OF assms] n have "p \<notin> kmem_pages s \<and> kmem_pages (b', h') = insert p (kmem_pages s)"
    by (cases rule: page_new_ok) auto
  ultimately show ?thesis using n by blast
qed

lemma empty_leafmap: "leafmap (\<lambda>_. replicate 512 0) root va = None" if "va < MAXVA"
  using that by (simp add: leafmap_def subtable.simps)

lemma empty_space:
  assumes "kmem_inv s" and "root \<in> kmem_pages s"
  shows "uvm_ok kmem_inv kmem_pages root \<lparr>vm_alloc = s, vm_pt = (\<lambda>_. replicate 512 0), vm_pg = G\<rparr>"
proof -
  let ?T = "\<lambda>_. replicate 512 0 :: usize list"
  have none: "subtable ?T root (i # is) = None" if "i < 512" for i "is"
    using that by (simp add: subtable.simps)
  have st: "is = [] \<and> t = root" if "tpath is" "subtable ?T root is = Some t" for "is" t
    using that none by (cases "is") (auto simp: subtable.simps tpath_def)
  have "wf_tables (kmem_pages s) ?T root"
    unfolding wf_tables_def using st assms(2) by (metis length_replicate)
  moreover have "user_frame ?T root va = None" for va
    by (simp add: user_frame_def empty_leafmap)
  ultimately show ?thesis using assms(1) by (simp add: uvm_ok_def vm_ok_def uspace_ok_def)
qed

lemma start_space:
  "\<exists>root st. uvm_ok kmem_inv kmem_pages root st \<and> roomy 6 (vm_alloc st) \<and> vm_pt st = (\<lambda>_. replicate 512 0)"
proof -
  have "roomy (Suc 6) (spine_buddy 11, spine_store 11)" using roomy_spine by simp
  from roomy_page[OF this] obtain p s where "roomy 6 s" "p \<in> kmem_pages s" by auto
  with empty_space[OF roomy_inv, of 6 s p "\<lambda>_. []"] show ?thesis by (metis vmst.select_convs(1,2))
qed

lemma demo_space:
  "\<exists>root st. uvm_ok kmem_inv kmem_pages root st \<and> (\<forall>x<MAXVA. leafmap (vm_pt st) root x = None)"
  using start_space empty_leafmap by metis

lemma Uvm_alloc_grows:
  assumes "uvm_ok kmem_inv kmem_pages root st" and "oldsz \<le> newsz" and "newsz \<le> MAXVA"
    and "unmapped root st ((oldsz + 4095) div 4096 * 4096) ((newsz + 4095) div 4096 * 4096)"
    and "pte_attr xperm"
  shows "\<exists>r st'. Uvm_alloc page_new page_drop root oldsz newsz xperm st = Inr (r, st') \<and>
    (case r of
       Some z \<Rightarrow> z = newsz \<and> grown kmem_inv kmem_pages root st
         ((oldsz + 4095) div 4096 * 4096) ((newsz + 4095) div 4096 * 4096) st'
     | None \<Rightarrow> uvm_ok kmem_inv kmem_pages root st' \<and> same_space root st st')"
proof -
  let ?od = "(oldsz + 4095) div 4096 * 4096" and ?top = "(newsz + 4095) div 4096 * 4096"
  have le: "?od \<le> ?top" using assms(2) by (intro mult_le_mono1 div_le_mono) simp
  have pg: "pgroundup oldsz = Inr ?od" using assms(2,3) by (simp add: pgroundup_eq MAXVA_def)
  have g: "grown kmem_inv kmem_pages root st ?od ?od st"
    using assms(1) by (auto simp: grown_def user_mapped_def)
  have "?od mod 4096 = 0" by simp
  from kmem.alloc_loop_ok[OF g this assms(3,4,5) le] show ?thesis
    using assms(2) pg by (simp add: Uvm_alloc_def)
qed

lemma walk_fresh:
  assumes "page_new (vm_alloc st) = Inr (Some p, s)" and "page_new s = Inr (Some q, s')"
    and "root \<noteq> p" and "root \<noteq> q" and "p \<noteq> q" and "page_addr p" and "page_addr q"
    and "\<forall>t. vm_pt st t = replicate 512 0"
  shows "\<exists>st'. walk page_new root 0 True st = Inr (Some (q, 0), st') \<and> vm_pt st' q = replicate 512 0 \<and>
    vm_alloc st' = s'"
  using assms by (simp add: walk_def MAXVA_def px_eq read_pte_def RawPageTable_new_def write_pte_def Let_def)

lemma demo_mapped:
  "\<exists>root st. uvm_ok kmem_inv kmem_pages root st \<and> user_mapped root st 0 1 \<and>
     (\<forall>x. ubyte st root x = (if x < 4096 then Some 0 else None))"
proof -
  obtain root st where ok: "uvm_ok kmem_inv kmem_pages root st" and room: "roomy (Suc (Suc (Suc 3))) (vm_alloc st)"
    and z: "vm_pt st = (\<lambda>_. replicate 512 0)" using start_space by auto
  have "wf_tables (kmem_pages (vm_alloc st)) (vm_pt st) root" using uvm_okD(1)[OF ok] by (simp add: vm_ok_def)
  then have root: "root \<in> kmem_pages (vm_alloc st)"
    by (rule wf_tablesD(1)[OF _ tpath_simps(1)]) (simp add: subtable.simps)
  obtain m s1 where m: "page_new (vm_alloc st) = Inr (Some m, s1)" "roomy (Suc (Suc 3)) s1"
    "m \<notin> kmem_pages (vm_alloc st)" "kmem_pages s1 = insert m (kmem_pages (vm_alloc st))"
    using roomy_page[OF room] by blast
  obtain p s2 where p: "page_new s1 = Inr (Some p, s2)" "roomy (Suc 3) s2" "p \<notin> kmem_pages s1"
    "kmem_pages s2 = insert p (kmem_pages s1)" using roomy_page[OF m(2)] by blast
  obtain q s3 where q: "page_new s2 = Inr (Some q, s3)" "roomy 3 s3" "q \<notin> kmem_pages s2"
    "kmem_pages s3 = insert q (kmem_pages s2)" using roomy_page[OF p(2)] by blast
  let ?st = "st\<lparr>vm_alloc := s1, vm_pg := (vm_pg st)(m := replicate 4096 0)\<rparr>"
  have pa: "page_addr p" "page_addr q"
    using kmem.pages_addr[OF roomy_inv[OF q(2)]] p(4) q(4) by auto
  have "page_new (vm_alloc ?st) = Inr (Some p, s2)" "root \<noteq> p" "root \<noteq> q" "p \<noteq> q" "\<forall>t. vm_pt ?st t = replicate 512 0"
    using root m p q z by auto
  with walk_fresh[of ?st p s2 q s3 root] q(1) pa obtain st' where w: "walk page_new root 0 True ?st = Inr (Some (q, 0), st')"
    "vm_pt st' q = replicate 512 0" by auto
  have "is_v 0 = False" by (simp add: is_v_bit)
  then obtain st2 where "mappages page_new root 0 m 4096 (PTE_R OR PTE_U) ?st = Inr (True, st2)"
    using w by (simp add: mappages_def rounddown_eq mappages_loop.simps map_one_def read_pte_def)
  then have "Uvm_alloc page_new page_drop root 0 4096 0 st = Inr (Some 4096, st2)"
    using m(1) by (simp add: Uvm_alloc_def pgroundup_eq alloc_loop.simps Page_new_def PGSIZE_def)
  moreover have "unmapped root st ((0 + 4095) div 4096 * 4096) ((4096 + 4095) div 4096 * 4096)"
    using z by (simp add: unmapped_def empty_leafmap MAXVA_def)
  moreover have "pte_attr 0" by (simp add: pte_attr_def)
  ultimately obtain st2 where g: "grown kmem_inv kmem_pages root st 0 4096 st2"
    using Uvm_alloc_grows[OF ok, of 0 4096 0] by (auto simp: MAXVA_def)
  have "ubyte st root x = None" for x
    using z by (auto simp: ubyte_def user_frame_def empty_leafmap)
  with g show ?thesis by (intro exI[of _ root] exI[of _ st2]) (simp add: grown_def)
qed

section \<open>Entries and tables\<close>

text \<open>
  A page-table entry holds what was put in: for a page address and attributes within the
  ten low bits, the entry decodes to the same address and the same flags.
\<close>

theorem pte_roundtrip:
  assumes "page_addr pa" and "pte_attr attr"
  shows "to_pa (pte_set pa attr) = pa \<and> pte_flags (pte_set pa attr) = attr \<and>
    (is_v (pte_set pa attr) \<longleftrightarrow> bit attr 0) \<and> (is_u (pte_set pa attr) \<longleftrightarrow> bit attr 4)"
  using assms by (simp add: to_pa_set pte_flags_set)

theorem pte_roundtrip_witness:
  "to_pa (pte_set 0x80001000 (PTE_R OR PTE_V)) = 0x80001000 \<and>
   pte_flags (pte_set 0x80001000 (PTE_R OR PTE_V)) = PTE_R OR PTE_V"
  using pte_roundtrip[of "0x80001000" "PTE_R OR PTE_V"] by (simp add: page_addr_def pte_attr_or)

text \<open>
  (C5) Mapping refines the update of a partial map: on a range that is not mapped,
  \<^verbatim>\<open>mappages\<close> never panics; when it succeeds, exactly the pages of the range map to
  consecutive frames with the permissions given and every other address keeps its entry; when
  the allocator runs out of pages, a prefix of the range is mapped. The shape of the tables is
  kept, and no data page and no other table is written.
\<close>

theorem mappages_refines:
  assumes "vm_ok kmem_inv kmem_pages root st" and "0 < sz" and "va + sz \<le> MAXVA"
    and "pa + sz + 4096 < 2 ^ 64"
    and "\<forall>x. va div 4096 * 4096 \<le> x \<longrightarrow> x < va + sz \<longrightarrow> leafmap (vm_pt st) root x = None"
  shows "\<exists>ok st' j. mappages page_new root va pa sz perm st = Inr (ok, st') \<and>
    vm_ok kmem_inv kmem_pages root st' \<and> vm_frame kmem_pages root st st' \<and>
    (if ok then va + sz \<le> va div 4096 * 4096 + 4096 * j \<and> va div 4096 * 4096 + 4096 * j < va + sz + 4096
     else va div 4096 * 4096 + 4096 * j < va + sz) \<and>
    (\<forall>x<MAXVA. leafmap (vm_pt st') root x =
       map_pages (va div 4096 * 4096) pa j perm (leafmap (vm_pt st) root) x)"
  using assms by (rule kmem.mappages_ok)

theorem mappages_refines_witness:
  "\<exists>root st ok st'. mappages page_new root 0x1234 0x80001000 0x3000 PTE_R st = Inr (ok, st') \<and>
     vm_ok kmem_inv kmem_pages root st'"
proof -
  obtain root st where d: "uvm_ok kmem_inv kmem_pages root st" "\<forall>x<MAXVA. leafmap (vm_pt st) root x = None"
    using demo_space by blast
  have "\<forall>x. 0x1234 div 4096 * 4096 \<le> x \<longrightarrow> x < 0x1234 + 0x3000 \<longrightarrow> leafmap (vm_pt st) root x = None"
    using d(2) by (simp add: MAXVA_def)
  from mappages_refines[OF uvm_okD(1)[OF d(1)] _ _ _ this, of "0x80001000" PTE_R]
  show ?thesis by (simp add: MAXVA_def) blast
qed

text \<open>
  Looking up a user address: \<^verbatim>\<open>walkaddr\<close> never panics, changes nothing, and
  returns the frame of a valid user leaf entry, else \<^verbatim>\<open>None\<close>.
\<close>

theorem walkaddr_lookup:
  assumes "vm_ok kmem_inv kmem_pages root st"
  shows "walkaddr page_new root va st = Inr (
    if va \<ge> MAXVA then None
    else case leafmap (vm_pt st) root va of
           None \<Rightarrow> None
         | Some e \<Rightarrow> if is_u e then Some (to_pa e) else None, st)"
  using kmem.walkaddr_ok[OF assms, of va] by (simp add: user_frame_def)

theorem walkaddr_lookup_witness: "\<exists>root st. walkaddr page_new root 0x1000 st = Inr (None, st)"
proof -
  obtain root st where "uvm_ok kmem_inv kmem_pages root st" "\<forall>x<MAXVA. leafmap (vm_pt st) root x = None"
    using demo_space by blast
  with walkaddr_lookup[OF uvm_okD(1), of root st "0x1000"] show ?thesis by (auto simp: MAXVA_def)
qed

section \<open>Growing and shrinking\<close>

text \<open>
  (C4) Growing a user space is atomic: \<^verbatim>\<open>Uvm::alloc\<close> never panics and either maps
  every page up to the new size, each full of zeros, or fails and leaves every mapping and every
  user byte as it was. In both cases the rest of the space is untouched and the well-formedness
  of the space holds.
\<close>

theorem Uvm_alloc_atomic:
  assumes "uvm_ok kmem_inv kmem_pages root st" and "oldsz \<le> newsz" and "newsz \<le> MAXVA"
    and "unmapped root st ((oldsz + 4095) div 4096 * 4096) ((newsz + 4095) div 4096 * 4096)"
    and "pte_attr xperm"
  shows "\<exists>r st'. Uvm_alloc page_new page_drop root oldsz newsz xperm st = Inr (r, st') \<and>
    uvm_ok kmem_inv kmem_pages root st' \<and>
    (case r of
       Some z \<Rightarrow> z = newsz \<and>
         (\<forall>x. ubyte st' root x =
            (if (oldsz + 4095) div 4096 * 4096 \<le> x \<and> x < (newsz + 4095) div 4096 * 4096
             then Some 0 else ubyte st root x))
     | None \<Rightarrow> (\<forall>x<MAXVA. leafmap (vm_pt st') root x = leafmap (vm_pt st) root x) \<and>
         (\<forall>x. ubyte st' root x = ubyte st root x))"
proof -
  from Uvm_alloc_grows[OF assms] show ?thesis
    by (elim exE conjE) (auto simp: grown_def same_space_def split: option.splits)
qed

theorem Uvm_alloc_atomic_witness:
  "\<exists>root st r st'. Uvm_alloc page_new page_drop root 0 0x3000 PTE_W st = Inr (r, st') \<and>
     uvm_ok kmem_inv kmem_pages root st'"
proof -
  obtain root st where d: "uvm_ok kmem_inv kmem_pages root st" "\<forall>x<MAXVA. leafmap (vm_pt st) root x = None"
    using demo_space by blast
  then have "unmapped root st ((0 + 4095) div 4096 * 4096) ((0x3000 + 4095) div 4096 * 4096)"
    by (simp add: unmapped_def MAXVA_def)
  from Uvm_alloc_atomic[OF d(1) _ _ this, of PTE_W] show ?thesis by (simp add: MAXVA_def) blast
qed

text \<open>
  (C11) Shrinking a user space returns exactly the pages above the new size: it never panics when
  the space is mapped up to the old size, the pages of the range lose their mapping and their
  frames go back to the allocator, and every byte below the new size keeps its value.
\<close>

theorem Uvm_dealloc_exact:
  assumes "uvm_ok kmem_inv kmem_pages root st" and "newsz < oldsz" and "oldsz \<le> MAXVA"
    and "user_mapped root st ((newsz + 4095) div 4096 * 4096)
      ((oldsz + 4095) div 4096 - (newsz + 4095) div 4096)"
  shows "\<exists>st'. Uvm_dealloc page_new page_drop root oldsz newsz st = Inr (newsz, st') \<and>
    uvm_ok kmem_inv kmem_pages root st' \<and> kmem_pages (vm_alloc st') \<subseteq> kmem_pages (vm_alloc st) \<and>
    (\<forall>x<MAXVA. leafmap (vm_pt st') root x = drop_pages ((newsz + 4095) div 4096 * 4096)
       ((oldsz + 4095) div 4096 * 4096) (leafmap (vm_pt st) root) x) \<and>
    (\<forall>x. ubyte st' root x = drop_pages ((newsz + 4095) div 4096 * 4096)
       ((oldsz + 4095) div 4096 * 4096) (ubyte st root) x)"
  using assms by (rule kmem.Uvm_dealloc_ok)

theorem Uvm_dealloc_exact_witness:
  "\<exists>root st st'. Uvm_dealloc page_new page_drop root 100 0 st = Inr (0, st') \<and>
     ubyte st root 7 = Some 0 \<and> ubyte st' root 7 = None"
proof -
  obtain root st where d: "uvm_ok kmem_inv kmem_pages root st" "user_mapped root st 0 1" "ubyte st root 7 = Some 0"
    using demo_mapped by force
  then have "user_mapped root st ((0 + 4095) div 4096 * 4096) ((100 + 4095) div 4096 - (0 + 4095) div 4096)"
    by simp
  from Uvm_dealloc_exact[OF d(1) _ _ this] obtain st' where
    "Uvm_dealloc page_new page_drop root 100 0 st = Inr (0, st')" "ubyte st' root 7 = drop_pages 0 4096 (ubyte st root) 7"
    by (auto simp: MAXVA_def)
  with d(3) show ?thesis by (auto simp: drop_pages_def)
qed

section \<open>Copies\<close>

lemma copyout_loop_frame:
  assumes "vm_ok kmem_inv kmem_pages root st" and "dstva < 2 ^ 64" and "\<And>va. user_frame (vm_pt st) root va \<noteq> Some f"
    and "copyout_loop page_new root src dstva len offset st = Inr (b, st')"
  shows "vm_pg st' f = vm_pg st f"
  using assms
proof (induction len arbitrary: dstva offset st rule: less_induct)
  case (less len dstva offset st)
  note span = kmem.user_span_ok[OF less.prems(1,2), of len]
  show ?case
  proof (cases "len = 0 \<or> user_frame (vm_pt st) root dstva = None")
    case True
    then show ?thesis using less.prems(4) span by (subst (asm) copyout_loop.simps) (auto split: if_splits)
  next
    case False
    then obtain pa where pos: "0 < len" and pa: "user_frame (vm_pt st) root dstva = Some pa" by blast
    let ?n = "min (4096 - dstva mod 4096) len" and ?va = "dstva div 4096 * 4096 + 4096"
    let ?st = "write_page st pa (dstva mod 4096) (take ?n (drop offset src))"
    have va: "?va < 2 ^ 64"
      using user_frame_MAXVA[OF pa] div_times_less_eq_dividend[of dstva 4096] by (simp add: MAXVA_def)
    have n: "len - ?n < len" using pos by simp
    have run: "copyout_loop page_new root src ?va (len - ?n) (offset + ?n) ?st = Inr (b, st')"
      using less.prems(4) pos span pa va
      by (subst (asm) copyout_loop.simps) (auto simp: PGSIZE_def slice_def split: if_splits)
    have "vm_pg st' f = vm_pg ?st f"
      using less.IH[OF n _ va _ run] less.prems(1,3) by (simp add: vm_ok_def)
    then show ?thesis using less.prems(3)[of dstva] pa by auto
  qed
qed

text \<open>
  (C6) Copying out writes exactly its bytes, in an address space whose user frames are pages of its
  own, distinct from the pages of its tables: \<^verbatim>\<open>copyout\<close> never panics; on success the
  source stands at the destination, on failure the prefix before the first unmapped user address
  does. No other user byte changes, no page that is not a user page of this address space
  changes, and neither do the tables and the allocator; the address space stays well formed.
\<close>

theorem copyout_exact:
  assumes "uvm_ok kmem_inv kmem_pages root st" and "dstva < 2 ^ 64"
  shows "\<exists>ok st' n. copyout page_new root dstva src st = Inr (ok, st') \<and>
    (if ok then n = length src else n < length src \<and> user_frame (vm_pt st) root (dstva + n) = None) \<and>
    (\<forall>x. ubyte st' root x =
       (if dstva \<le> x \<and> x < dstva + n then Some (src ! (x - dstva)) else ubyte st root x)) \<and>
    (\<forall>f. (\<forall>va. user_frame (vm_pt st) root va \<noteq> Some f) \<longrightarrow> vm_pg st' f = vm_pg st f) \<and>
    vm_pt st' = vm_pt st \<and> vm_alloc st' = vm_alloc st \<and> uvm_ok kmem_inv kmem_pages root st'"
proof -
  have len: "0 + length src = length src" by simp
  obtain ok st' n where c: "copyout_loop page_new root src dstva (length src) 0 st = Inr (ok, st')"
    "vm_alloc st' = vm_alloc st" "vm_pt st' = vm_pt st" "uspace_ok root st'"
    "if ok then n = length src else n < length src \<and> user_frame (vm_pt st) root (dstva + n) = None"
    "\<forall>x. ubyte st' root x = (if dstva \<le> x \<and> x < dstva + n then Some (src ! (0 + (x - dstva))) else ubyte st root x)"
    using kmem.copyout_loop_ok[OF uvm_okD(1,2)[OF assms(1)] assms(2) len] by (elim exE conjE) (rule that; assumption)
  have "uvm_ok kmem_inv kmem_pages root st'" using assms(1) c(2-4) by (simp add: uvm_ok_def vm_ok_def)
  with c copyout_loop_frame[OF uvm_okD(1)[OF assms(1)] assms(2) _ c(1)] show ?thesis
    by (intro exI[of _ ok] exI[of _ st'] exI[of _ n]) (simp add: copyout_def)
qed

theorem copyout_exact_witness:
  "\<exists>root st st' n. copyout page_new root 4000 [1, 2] st = Inr (True, st') \<and> ubyte st' root 4001 = Some 2"
proof -
  obtain root st where d: "uvm_ok kmem_inv kmem_pages root st" "\<forall>x. ubyte st root x = (if x < 4096 then Some 0 else None)"
    using demo_mapped by blast
  from d(2) have f: "x < 4096 \<Longrightarrow> user_frame (vm_pt st) root x \<noteq> None" for x
    by (auto simp: ubyte_def split: option.splits)
  have va: "(4000::nat) < 2 ^ 64" by simp
  obtain ok st' n where
    c: "copyout page_new root 4000 [1, 2] st = Inr (ok, st')"
    "if ok then n = length [1, 2 :: u8] else n < length [1, 2 :: u8] \<and> user_frame (vm_pt st) root (4000 + n) = None"
    "\<forall>x. ubyte st' root x = (if 4000 \<le> x \<and> x < 4000 + n then Some ([1, 2] ! (x - 4000)) else ubyte st root x)"
    using copyout_exact[OF d(1) va, of "[1, 2]"] by (elim exE conjE) (rule that; assumption)
  have ok using c(2) f[of "4000 + n"] by (cases ok) auto
  with c show ?thesis by (intro exI[of _ root] exI[of _ st] exI[of _ st'] exI[of _ n]) simp
qed

text \<open>
  Copying in reads exactly the user's bytes: \<^verbatim>\<open>copyin\<close> never panics and changes
  neither memory nor mappings; on success the buffer equals the user bytes from the source
  address on, on failure the prefix before the first unmapped user address was read and the rest
  of the buffer is as before.
\<close>

theorem copyin_exact:
  assumes "vm_ok kmem_inv kmem_pages root st" and "uspace_ok root st" and "srcva < 2 ^ 64"
  shows "\<exists>ok dst' n. copyin page_new root dst srcva st = Inr ((ok, dst'), st) \<and> length dst' = length dst \<and>
    (if ok then n = length dst else n < length dst \<and> user_frame (vm_pt st) root (srcva + n) = None) \<and>
    (\<forall>j<n. ubyte st root (srcva + j) = Some (dst' ! j)) \<and> drop n dst' = drop n dst"
proof -
  have len: "0 + length dst = length dst" by simp
  obtain ok dst' n where c: "copyin_loop page_new root srcva (length dst) 0 dst st = Inr ((ok, dst'), st)"
    "length dst' = length dst" "if ok then n = length dst else n < length dst \<and> user_frame (vm_pt st) root (srcva + n) = None"
    "\<forall>j<n. ubyte st root (srcva + j) = Some (dst' ! (0 + j))"
    "\<forall>j<length dst. j < 0 \<or> 0 + n \<le> j \<longrightarrow> dst' ! j = dst ! j"
    using kmem.copyin_loop_ok[OF assms len] by (elim exE conjE) (rule that; assumption)
  have "drop n dst' = drop n dst" using c(2,5) by (auto intro!: nth_equalityI)
  with c show ?thesis by (intro exI[of _ ok] exI[of _ dst'] exI[of _ n]) (simp add: copyin_def)
qed

theorem copyin_exact_witness:
  "\<exists>root st. copyin page_new root [9, 9] 4000 st = Inr ((True, [0, 0]), st)"
proof -
  obtain root st where d: "uvm_ok kmem_inv kmem_pages root st" "\<forall>x. ubyte st root x = (if x < 4096 then Some 0 else None)"
    using demo_mapped by blast
  from d(2) have f: "x < 4096 \<Longrightarrow> user_frame (vm_pt st) root x \<noteq> None" for x
    by (auto simp: ubyte_def split: option.splits)
  have va: "(4000::nat) < 2 ^ 64" by simp
  obtain ok dst n where
    c: "copyin page_new root [9, 9] 4000 st = Inr ((ok, dst), st)" "length dst = length [9, 9 :: u8]"
    "if ok then n = length [9, 9 :: u8] else n < length [9, 9 :: u8] \<and> user_frame (vm_pt st) root (4000 + n) = None"
    "\<forall>j<n. ubyte st root (4000 + j) = Some (dst ! j)"
    using copyin_exact[OF uvm_okD(1,2)[OF d(1)] va, of "[9, 9]"] by (elim exE conjE) (rule that; assumption)
  have ok: ok using c(3) f[of "4000 + n"] by (cases ok) auto
  then have "dst ! 0 = 0" "dst ! 1 = 0" using c(3,4) d(2) by auto
  with c(2) have "dst = [0, 0]" by (cases dst; cases "tl dst") auto
  with c(1) ok show ?thesis by auto
qed

text \<open>
  Reading a user string: \<^verbatim>\<open>copyinstr\<close> never panics and changes nothing in memory.
  It succeeds exactly when a zero byte is met within the length of the buffer and before an
  unmapped user address, and then the buffer starts with the user's bytes up to and including
  the first zero byte; otherwise it reports which of the two limits came first.
\<close>

theorem copyinstr_first_nul:
  assumes "vm_ok kmem_inv kmem_pages root st" and "uspace_ok root st" and "srcva < 2 ^ 64"
  shows "\<exists>r dst' n. copyinstr page_new root dst srcva st = Inr ((r, dst'), st) \<and> length dst' = length dst \<and>
    (\<forall>j<n. \<exists>c. ubyte st root (srcva + j) = Some c \<and> c \<noteq> 0) \<and>
    (case r of
       Inr _ \<Rightarrow> n < length dst \<and> ubyte st root (srcva + n) = Some 0 \<and>
         (\<forall>j\<le>n. ubyte st root (srcva + j) = Some (dst' ! j))
     | Inl e \<Rightarrow> e = ''virtual address not found'' \<and> n < length dst \<and>
           user_frame (vm_pt st) root (srcva + n) = None \<or>
         e = ''not enough space'' \<and> n = length dst)"
proof -
  have len: "0 + length dst = length dst" by simp
  obtain r dst' n where "copyinstr_loop page_new root srcva (length dst) 0 dst st = Inr ((r, dst'), st)"
    "length dst' = length dst" "str_result st root srcva (length dst) 0 dst' r n"
    using kmem.copyinstr_loop_ok[OF assms len] by (elim exE conjE) (rule that; assumption)
  then show ?thesis unfolding str_result_def copyinstr_def by (intro exI[of _ r] exI[of _ dst'] exI[of _ n]) (simp split: sum.splits)
qed

theorem copyinstr_first_nul_witness:
  "\<exists>root st. copyinstr page_new root [7] 4000 st = Inr ((Inr (), [0]), st)"
proof -
  obtain root st where d: "uvm_ok kmem_inv kmem_pages root st" "\<forall>x. ubyte st root x = (if x < 4096 then Some 0 else None)"
    using demo_mapped by blast
  from d(2) have f: "user_frame (vm_pt st) root 4000 \<noteq> None" "ubyte st root 4000 = Some 0"
    by (auto simp: ubyte_def split: option.splits)
  have va: "(4000::nat) < 2 ^ 64" by simp
  obtain r dst n where
    c: "copyinstr page_new root [7] 4000 st = Inr ((r, dst), st)" "length dst = length [7 :: u8]"
    "\<forall>j<n. \<exists>c. ubyte st root (4000 + j) = Some c \<and> c \<noteq> 0"
    "case r of
       Inr _ \<Rightarrow> n < length [7 :: u8] \<and> ubyte st root (4000 + n) = Some 0 \<and>
         (\<forall>j\<le>n. ubyte st root (4000 + j) = Some (dst ! j))
     | Inl e \<Rightarrow> e = ''virtual address not found'' \<and> n < length [7 :: u8] \<and>
           user_frame (vm_pt st) root (4000 + n) = None \<or>
         e = ''not enough space'' \<and> n = length [7 :: u8]"
    using copyinstr_first_nul[OF uvm_okD(1,2)[OF d(1)] va, of "[7]"] by (elim exE conjE) (rule that; assumption)
  have n: "n = 0" using c(3) f(2) by (cases n) (auto dest: spec[of _ 0])
  have r: "r = Inr ()" using c(4) n f(1) by (cases r) auto
  have "dst ! 0 = 0" using c(4) n r f(2) by simp
  then have "dst = [0]" using c(2) by (cases dst) auto
  with c(1) r show ?thesis by auto
qed

text \<open>
  (C14) What the kernel writes to a mapped user range it reads back: when every byte of the
  range is mapped for the user, \<^verbatim>\<open>copyout\<close> succeeds, and a following
  \<^verbatim>\<open>copyin\<close> of the same range succeeds and returns the bytes written.
\<close>

theorem copyout_copyin:
  assumes ok: "uvm_ok kmem_inv kmem_pages root st" and va: "va < 2 ^ 64"
    and m: "\<forall>j<length src. user_frame (vm_pt st) root (va + j) \<noteq> None" and l: "length dst = length src"
  shows "\<exists>st'. copyout page_new root va src st = Inr (True, st') \<and>
    copyin page_new root dst va st' = Inr ((True, src), st')"
proof -
  note o1 = uvm_okD(1)[OF ok] and o2 = uvm_okD(2)[OF ok]
  have l1: "0 + length src = length src" and l2: "0 + length dst = length dst" by simp_all
  obtain b st' n where c: "copyout_loop page_new root src va (length src) 0 st = Inr (b, st')"
    "vm_alloc st' = vm_alloc st" "vm_pt st' = vm_pt st" "uspace_ok root st'"
    "if b then n = length src else n < length src \<and> user_frame (vm_pt st) root (va + n) = None"
    "\<forall>x. ubyte st' root x = (if va \<le> x \<and> x < va + n then Some (src ! (0 + (x - va))) else ubyte st root x)"
    using kmem.copyout_loop_ok[OF o1 o2 va l1] by (elim exE conjE) (rule that; assumption)
  have b: "b" "n = length src" using c(5) m by (auto split: if_splits)
  have o3: "vm_ok kmem_inv kmem_pages root st'" using o1 c(2,3) by (simp add: vm_ok_def)
  obtain b' dst' n' where i: "copyin_loop page_new root va (length dst) 0 dst st' = Inr ((b', dst'), st')"
    "length dst' = length dst" "if b' then n' = length dst else n' < length dst \<and> user_frame (vm_pt st') root (va + n') = None"
    "\<forall>j<n'. ubyte st' root (va + j) = Some (dst' ! (0 + j))"
    using kmem.copyin_loop_ok[OF o3 c(4) va l2] by (elim exE conjE) (rule that; assumption)
  have b': "b'" "n' = length dst" using i(3) m c(3) l by (auto split: if_splits)
  have "dst' = src"
  proof (rule nth_equalityI)
    fix j assume "j < length dst'"
    then have j: "j < n'" "j < length src" using i(2) b' l by simp_all
    then have "ubyte st' root (va + j) = Some (src ! j)" using c(6) b(2) by simp
    with i(4) j(1) show "dst' ! j = src ! j" by simp
  qed (use i(2) l in simp)
  with b b' c(1) i(1) show ?thesis by (simp add: copyout_def copyin_def)
qed

theorem copyout_copyin_witness:
  "\<exists>root st st'. copyout page_new root 4000 [1, 2] st = Inr (True, st') \<and>
     copyin page_new root [0, 0] 4000 st' = Inr ((True, [1, 2]), st')"
proof -
  obtain root st where d: "uvm_ok kmem_inv kmem_pages root st" "\<forall>x. ubyte st root x = (if x < 4096 then Some 0 else None)"
    using demo_mapped by blast
  from d(2) have "\<forall>j<length [1, 2 :: u8]. user_frame (vm_pt st) root (4000 + j) \<noteq> None"
    by (auto simp: ubyte_def split: option.splits)
  from copyout_copyin[OF d(1) _ this, of "[0, 0]"] show ?thesis by auto
qed

end
