(* ===== verification/Riscv.thy ===== *)
theory Riscv
  imports Vm
begin

text \<open>
  \<^verbatim>\<open>src/kernel/riscv.rs\<close>: the control and status registers of a hart and the
  functions that read and change them. The registers are the fields of a record; a
  \<^verbatim>\<open>csrr\<close> reads a field, \<^verbatim>\<open>csrw\<close> replaces it, \<^verbatim>\<open>csrs\<close> and
  \<^verbatim>\<open>csrc\<close> set and clear the bits of a mask. \<^verbatim>\<open>mstatus\<close> is written only
  before the hart enters supervisor mode, and its view \<^verbatim>\<open>sstatus\<close> is a field of its own.
\<close>

section \<open>Registers\<close>

record csrs =
  c_mhartid :: usize
  c_mstatus :: usize
  c_mepc :: usize
  c_sstatus :: usize
  c_sip :: usize
  c_sie :: usize
  c_mie :: usize
  c_sepc :: usize
  c_medeleg :: usize
  c_mideleg :: usize
  c_stvec :: usize
  c_mtvec :: usize
  c_pmpcfg0 :: usize
  c_pmpaddr0 :: usize
  c_satp :: usize
  c_mscratch :: usize
  c_sscratch :: usize
  c_scause :: usize
  c_stval :: usize

definition mhartid_read :: "csrs \<Rightarrow> usize" where
  "mhartid_read c = c_mhartid c"

section \<open>mstatus and mepc\<close>

definition MPP_MASK :: usize where "MPP_MASK = push_bit 11 3"

definition MIE :: usize where "MIE = push_bit 3 1"

datatype MPP = MPP_Machine | MPP_Supervisor | MPP_User

fun MPP_bits :: "MPP \<Rightarrow> usize" where
  "MPP_bits MPP_Machine = 3"
| "MPP_bits MPP_Supervisor = 1"
| "MPP_bits MPP_User = 0"

definition mstatus_read :: "csrs \<Rightarrow> usize" where
  "mstatus_read c = c_mstatus c"

definition mstatus_write :: "usize \<Rightarrow> csrs \<Rightarrow> csrs" where
  "mstatus_write bits c = c\<lparr>c_mstatus := bits\<rparr>"

definition set_mpp :: "MPP \<Rightarrow> csrs \<Rightarrow> csrs" where
  "set_mpp mpp c =
     (let v = mstatus_read c;
          v = v AND NOT MPP_MASK;
          v = v OR push_bit 11 (MPP_bits mpp)
      in mstatus_write v c)"

definition set_mie :: "csrs \<Rightarrow> csrs" where
  "set_mie c = c\<lparr>c_mstatus := c_mstatus c OR MIE\<rparr>"

definition mepc_write :: "usize \<Rightarrow> csrs \<Rightarrow> csrs" where
  "mepc_write x c = c\<lparr>c_mepc := x\<rparr>"

section \<open>sstatus\<close>

definition SSTATUS_SPP :: usize where "SSTATUS_SPP = push_bit 8 1"

definition SSTATUS_SPIE :: usize where "SSTATUS_SPIE = push_bit 5 1"

definition SSTATUS_SIE :: usize where "SSTATUS_SIE = push_bit 1 1"

datatype SPP = SPP_Supervisor | SPP_User

text \<open>\<^verbatim>\<open>Sstatus\<close> is the word that was read; its methods are functions of it.\<close>

definition Sstatus_sie :: "usize \<Rightarrow> bool" where
  "Sstatus_sie s \<longleftrightarrow> s AND SSTATUS_SIE \<noteq> 0"

definition Sstatus_spp :: "usize \<Rightarrow> SPP" where
  "Sstatus_spp s = (if s AND SSTATUS_SPP = 0 then SPP_User else SPP_Supervisor)"

definition sstatus_read :: "csrs \<Rightarrow> usize" where
  "sstatus_read c = c_sstatus c"

definition sstatus_write :: "usize \<Rightarrow> csrs \<Rightarrow> csrs" where
  "sstatus_write bits c = c\<lparr>c_sstatus := bits\<rparr>"

definition Sstatus_restore :: "usize \<Rightarrow> csrs \<Rightarrow> csrs" where
  "Sstatus_restore s c = sstatus_write s c"

definition sstatus_set :: "usize \<Rightarrow> csrs \<Rightarrow> csrs" where
  "sstatus_set bits c = c\<lparr>c_sstatus := c_sstatus c OR bits\<rparr>"

definition sstatus_clear :: "usize \<Rightarrow> csrs \<Rightarrow> csrs" where
  "sstatus_clear bits c = c\<lparr>c_sstatus := c_sstatus c AND NOT bits\<rparr>"

definition set_sie :: "csrs \<Rightarrow> csrs" where "set_sie c = sstatus_set SSTATUS_SIE c"

definition clear_sie :: "csrs \<Rightarrow> csrs" where "clear_sie c = sstatus_clear SSTATUS_SIE c"

definition set_spie :: "csrs \<Rightarrow> csrs" where "set_spie c = sstatus_set SSTATUS_SPIE c"

definition set_spp :: "SPP \<Rightarrow> csrs \<Rightarrow> csrs" where
  "set_spp spp c =
     (case spp of
        SPP_Supervisor \<Rightarrow> sstatus_set SSTATUS_SPP c
      | SPP_User \<Rightarrow> sstatus_clear SSTATUS_SPP c)"

section \<open>Interrupt enable and pending\<close>

definition SSIP :: usize where "SSIP = push_bit 1 1"

definition clear_ssoft :: "csrs \<Rightarrow> csrs" where
  "clear_ssoft c = c\<lparr>c_sip := c_sip c AND NOT SSIP\<rparr>"

definition SEIE :: usize where "SEIE = push_bit 9 1"

definition STIE :: usize where "STIE = push_bit 5 1"

definition SSIE :: usize where "SSIE = push_bit 1 1"

definition sie_set :: "usize \<Rightarrow> csrs \<Rightarrow> csrs" where
  "sie_set bits c = c\<lparr>c_sie := c_sie c OR bits\<rparr>"

definition set_sext :: "csrs \<Rightarrow> csrs" where "set_sext c = sie_set SEIE c"

definition set_stimer :: "csrs \<Rightarrow> csrs" where "set_stimer c = sie_set STIE c"

definition set_ssoft :: "csrs \<Rightarrow> csrs" where "set_ssoft c = sie_set SSIE c"

definition MTIE :: usize where "MTIE = push_bit 7 1"

definition set_mtimer :: "csrs \<Rightarrow> csrs" where
  "set_mtimer c = c\<lparr>c_mie := c_mie c OR MTIE\<rparr>"

section \<open>Program counters, delegation, vectors\<close>

definition sepc_read :: "csrs \<Rightarrow> usize" where "sepc_read c = c_sepc c"

definition sepc_write :: "usize \<Rightarrow> csrs \<Rightarrow> csrs" where
  "sepc_write bits c = c\<lparr>c_sepc := bits\<rparr>"

definition medeleg_set_all :: "csrs \<Rightarrow> csrs" where
  "medeleg_set_all c = c\<lparr>c_medeleg := 0xffff\<rparr>"

definition mideleg_set_all :: "csrs \<Rightarrow> csrs" where
  "mideleg_set_all c = c\<lparr>c_mideleg := 0xffff\<rparr>"

datatype TrapMode = Direct | Vectored

fun TrapMode_bits :: "TrapMode \<Rightarrow> nat" where
  "TrapMode_bits Direct = 0"
| "TrapMode_bits Vectored = 1"

definition stvec_write :: "nat \<Rightarrow> TrapMode \<Rightarrow> csrs \<Rightarrow> csrs rust" where
  "stvec_write a mode c = rbind (uadd a (TrapMode_bits mode)) (\<lambda>v. Inr (c\<lparr>c_stvec := of_nat v\<rparr>))"

definition mtvec_write :: "nat \<Rightarrow> TrapMode \<Rightarrow> csrs \<Rightarrow> csrs rust" where
  "mtvec_write a mode c = rbind (uadd a (TrapMode_bits mode)) (\<lambda>v. Inr (c\<lparr>c_mtvec := of_nat v\<rparr>))"

section \<open>Physical memory protection\<close>

datatype Permission = NONE | PR | PW | RW | PX | RX | WX | RWX

fun Permission_bits :: "Permission \<Rightarrow> usize" where
  "Permission_bits NONE = 0"
| "Permission_bits PR = 1"
| "Permission_bits PW = 2"
| "Permission_bits RW = 3"
| "Permission_bits PX = 4"
| "Permission_bits RX = 5"
| "Permission_bits WX = 6"
| "Permission_bits RWX = 7"

datatype Range = OFF | TOR | NA4 | NAPOT

fun Range_bits :: "Range \<Rightarrow> usize" where
  "Range_bits OFF = 0"
| "Range_bits TOR = 1"
| "Range_bits NA4 = 2"
| "Range_bits NAPOT = 3"

definition pmpcfg0_read :: "csrs \<Rightarrow> usize" where "pmpcfg0_read c = c_pmpcfg0 c"

definition pmpcfg0_write :: "usize \<Rightarrow> csrs \<Rightarrow> csrs" where
  "pmpcfg0_write bits c = c\<lparr>c_pmpcfg0 := bits\<rparr>"

definition set_pmp :: "nat \<Rightarrow> Range \<Rightarrow> Permission \<Rightarrow> bool \<Rightarrow> csrs \<Rightarrow> csrs rust" where
  "set_pmp i rng permission locked c =
     rbind (rassert (i < 8) ''index < 8'') (\<lambda>_.
       let v = pmpcfg0_read c;
           byte = push_bit 7 (of_bool locked) OR push_bit 3 (Range_bits rng) OR Permission_bits permission;
           v = v OR push_bit (8 * i) byte
       in Inr (pmpcfg0_write v c))"

definition pmpaddr0_write :: "usize \<Rightarrow> csrs \<Rightarrow> csrs" where
  "pmpaddr0_write bits c = c\<lparr>c_pmpaddr0 := bits\<rparr>"

section \<open>satp and mscratch\<close>

definition satp_read :: "csrs \<Rightarrow> usize" where "satp_read c = c_satp c"

definition satp_write :: "usize \<Rightarrow> csrs \<Rightarrow> csrs" where
  "satp_write bits c = c\<lparr>c_satp := bits\<rparr>"

definition mscratch_write :: "usize \<Rightarrow> csrs \<Rightarrow> csrs" where
  "mscratch_write bits c = c\<lparr>c_mscratch := bits\<rparr>"

section \<open>scause and stval\<close>

datatype Interrupt =
    UserSoft | SupervisorSoft | UserTimer | SupervisorTimer | UserExternal | SupervisorExternal
  | UnknownInterrupt

datatype Exception =
    InstructionMisaligned | InstructionFault | IllegalInstruction | Breakpoint | LoadFault
  | StoreMisaligned | StoreFault | UserEnvCall | InstructionPageFault | LoadPageFault
  | StorePageFault | UnknownException

datatype Trap = TInterrupt Interrupt | TException Exception

definition Interrupt_from :: "usize \<Rightarrow> Interrupt" where
  "Interrupt_from nr =
     (if nr = 0 then UserSoft
      else if nr = 1 then SupervisorSoft
      else if nr = 4 then UserTimer
      else if nr = 5 then SupervisorTimer
      else if nr = 8 then UserExternal
      else if nr = 9 then SupervisorExternal
      else UnknownInterrupt)"

definition Exception_from :: "usize \<Rightarrow> Exception" where
  "Exception_from nr =
     (if nr = 0 then InstructionMisaligned
      else if nr = 1 then InstructionFault
      else if nr = 2 then IllegalInstruction
      else if nr = 3 then Breakpoint
      else if nr = 5 then LoadFault
      else if nr = 6 then StoreMisaligned
      else if nr = 7 then StoreFault
      else if nr = 8 then UserEnvCall
      else if nr = 12 then InstructionPageFault
      else if nr = 13 then LoadPageFault
      else if nr = 15 then StorePageFault
      else UnknownException)"

definition Scause_code :: "usize \<Rightarrow> usize" where
  "Scause_code s = s AND NOT (push_bit 63 1)"

definition is_interrupt :: "usize \<Rightarrow> bool" where
  "is_interrupt s \<longleftrightarrow> s AND push_bit 63 1 \<noteq> 0"

definition is_exception :: "usize \<Rightarrow> bool" where
  "is_exception s \<longleftrightarrow> \<not> is_interrupt s"

definition Scause_cause :: "usize \<Rightarrow> Trap" where
  "Scause_cause s =
     (if is_interrupt s then TInterrupt (Interrupt_from (Scause_code s))
      else TException (Exception_from (Scause_code s)))"

definition scause_read :: "csrs \<Rightarrow> usize" where "scause_read c = c_scause c"

definition stval_read :: "csrs \<Rightarrow> usize" where "stval_read c = c_stval c"

section \<open>Device interrupts\<close>

definition intr_on :: "csrs \<Rightarrow> csrs" where "intr_on c = set_sie c"

definition intr_off :: "csrs \<Rightarrow> csrs" where "intr_off c = clear_sie c"

definition intr_get :: "csrs \<Rightarrow> bool" where "intr_get c \<longleftrightarrow> Sstatus_sie (sstatus_read c)"

definition pgrounddown :: "nat \<Rightarrow> nat" where
  "pgrounddown sz = unat ((of_nat sz :: usize) AND NOT (of_nat (PGSIZE - 1)))"

named_theorems csr_defs

lemmas [csr_defs] = mhartid_read_def mstatus_read_def mstatus_write_def set_mpp_def set_mie_def
  mepc_write_def sstatus_read_def sstatus_write_def Sstatus_restore_def sstatus_set_def
  sstatus_clear_def set_sie_def clear_sie_def set_spie_def set_spp_def clear_ssoft_def sie_set_def
  set_sext_def set_stimer_def set_ssoft_def set_mtimer_def sepc_read_def sepc_write_def
  medeleg_set_all_def mideleg_set_all_def pmpcfg0_read_def pmpcfg0_write_def pmpaddr0_write_def
  satp_read_def satp_write_def mscratch_write_def scause_read_def stval_read_def

section \<open>Bits of the status word\<close>

lemma and_single_bit: "(w AND push_bit n 1 = 0) \<longleftrightarrow> \<not> bit w n" for w :: usize
  by (simp add: push_bit_eq_mult and_exp_eq_0_iff_not_bit)

lemma Sstatus_sie_bit: "Sstatus_sie s \<longleftrightarrow> bit s 1"
  using and_single_bit[of s 1] by (simp add: Sstatus_sie_def SSTATUS_SIE_def)

lemma Sstatus_spp_bit: "Sstatus_spp s = (if bit s 8 then SPP_Supervisor else SPP_User)"
  using and_single_bit[of s 8] by (simp add: Sstatus_spp_def SSTATUS_SPP_def)

lemma is_interrupt_bit: "is_interrupt s \<longleftrightarrow> bit s 63"
  using and_single_bit[of s 63] by (simp add: is_interrupt_def)

lemmas sstatus_masks = SSTATUS_SIE_def SSTATUS_SPIE_def SSTATUS_SPP_def

lemma intr_get_bit: "intr_get c \<longleftrightarrow> bit (c_sstatus c) 1"
  by (simp add: intr_get_def Sstatus_sie_bit sstatus_read_def)

lemma intr_on_get [simp]: "intr_get (intr_on c)"
  by (simp add: intr_get_bit intr_on_def csr_defs sstatus_masks bit_simps)

lemma intr_off_get [simp]: "\<not> intr_get (intr_off c)"
  by (simp add: intr_get_bit intr_off_def csr_defs sstatus_masks bit_simps)

lemma set_clear_bits:
  fixes x m :: usize
  shows "(x OR m) AND NOT m = x AND NOT m" "x AND NOT m OR m = x OR m" "x AND NOT m AND NOT m = x AND NOT m"
    "x OR m OR m = x OR m"
  by (rule bit_word_eqI; auto simp: bit_simps)+

lemma intr_switch [simp]:
  "intr_off (intr_on c) = intr_off c" "intr_on (intr_off c) = intr_on c"
  "intr_off (intr_off c) = intr_off c" "intr_on (intr_on c) = intr_on c"
  by (simp_all add: intr_on_def intr_off_def csr_defs set_clear_bits)

lemma intr_same: "intr_get c \<Longrightarrow> intr_on c = c" "\<not> intr_get c \<Longrightarrow> intr_off c = c"
proof -
  have m: "bit SSTATUS_SIE n \<longleftrightarrow> n = 1" for n by (auto simp: SSTATUS_SIE_def bit_simps)
  show "intr_get c \<Longrightarrow> intr_on c = c" unfolding intr_get_bit intr_on_def csr_defs
    by (intro csrs.equality) (auto simp: bit_simps m intro!: bit_word_eqI)
  show "\<not> intr_get c \<Longrightarrow> intr_off c = c" unfolding intr_get_bit intr_off_def csr_defs
    by (intro csrs.equality) (auto simp: bit_simps m intro!: bit_word_eqI)
qed

end
