(* ===== verification/Hart.thy ===== *)
theory Hart
  imports Riscv
begin

text \<open>
  The assembly of the kernel, on a machine that executes it: \<^verbatim>\<open>trampoline.rs\<close>,
  \<^verbatim>\<open>kernelvec.rs\<close>, \<^verbatim>\<open>swtch.rs\<close>, \<^verbatim>\<open>entry.rs\<close>, and the boot code of
  \<^verbatim>\<open>start.rs\<close> on the same state. A hart has its integer registers, its control
  registers, a mode and the doublewords of physical memory; address translation is a parameter,
  the function the hardware computes from \<^verbatim>\<open>satp\<close> and the tables in memory, and an
  access that is misaligned or not translated stops the run with \<^term>\<open>None\<close>. The programs are
  the lists of instructions of the source.
\<close>

section \<open>Machine\<close>

datatype reg =
    ZERO | RA | SP | GP | TP | T0 | T1 | T2 | S0 | S1 | A0 | A1 | A2 | A3 | A4 | A5 | A6 | A7
  | S2 | S3 | S4 | S5 | S6 | S7 | S8 | S9 | S10 | S11 | T3 | T4 | T5 | T6

datatype csr = Sscratch | Satp | Mscratch | Sip | Mhartid

datatype instr =
    Sd reg usize reg
  | Ld reg usize reg
  | Li reg usize
  | La reg usize
  | Addi reg reg usize
  | Add reg reg reg
  | Mul reg reg reg
  | Csrw csr reg
  | Csrr reg csr
  | Csrrw reg csr reg
  | Sfence_vma
  | Call
  | Jr reg
  | Sret
  | Mret

datatype mode = MachineMode | SupervisorMode | UserMode

record hart =
  h_regs :: "reg \<Rightarrow> usize"
  h_csrs :: csrs
  h_mode :: mode
  h_pc :: usize
  h_mem :: "usize \<Rightarrow> usize"

type_synonym mmu = "usize \<Rightarrow> usize \<Rightarrow> usize option"

definition set_reg :: "reg \<Rightarrow> usize \<Rightarrow> hart \<Rightarrow> hart" where
  "set_reg r v h = (if r = ZERO then h else h\<lparr>h_regs := (h_regs h)(r := v)\<rparr>)"

fun get_csr :: "csr \<Rightarrow> csrs \<Rightarrow> usize" where
  "get_csr Sscratch c = c_sscratch c"
| "get_csr Satp c = c_satp c"
| "get_csr Mscratch c = c_mscratch c"
| "get_csr Sip c = c_sip c"
| "get_csr Mhartid c = c_mhartid c"

fun set_csr :: "csr \<Rightarrow> usize \<Rightarrow> csrs \<Rightarrow> csrs" where
  "set_csr Sscratch v c = c\<lparr>c_sscratch := v\<rparr>"
| "set_csr Satp v c = c\<lparr>c_satp := v\<rparr>"
| "set_csr Mscratch v c = c\<lparr>c_mscratch := v\<rparr>"
| "set_csr Sip v c = c\<lparr>c_sip := v\<rparr>"
| "set_csr Mhartid v c = c"

text \<open>The physical address of a doubleword.\<close>

definition phys :: "mmu \<Rightarrow> hart \<Rightarrow> usize \<Rightarrow> usize option" where
  "phys mmu h va =
     (if va AND 7 \<noteq> 0 then None
      else if h_mode h = MachineMode then Some va
      else mmu (c_satp (h_csrs h)) va)"

text \<open>
  The returns from a trap: the program counter and the mode come from the registers of the trap,
  the interrupt enable from its saved copy.
\<close>

definition sret :: "hart \<Rightarrow> hart" where
  "sret h =
     (let c = h_csrs h; s = c_sstatus c;
          s1 = (if bit s 5 then s OR SSTATUS_SIE else s AND NOT SSTATUS_SIE);
          s2 = (s1 OR SSTATUS_SPIE) AND NOT SSTATUS_SPP
      in h\<lparr>h_pc := c_sepc c, h_mode := (if bit s 8 then SupervisorMode else UserMode),
           h_csrs := c\<lparr>c_sstatus := s2\<rparr>\<rparr>)"

definition mret_mode :: "usize \<Rightarrow> mode" where
  "mret_mode s =
     (let mpp = drop_bit 11 s AND 3
      in if mpp = 3 then MachineMode else if mpp = 1 then SupervisorMode else UserMode)"

definition mret :: "hart \<Rightarrow> hart" where
  "mret h =
     (let c = h_csrs h; s = c_mstatus c;
          s1 = (if bit s 7 then s OR MIE else s AND NOT MIE);
          s2 = (s1 OR push_bit 7 1) AND NOT MPP_MASK
      in h\<lparr>h_pc := c_mepc c, h_mode := mret_mode s, h_csrs := c\<lparr>c_mstatus := s2\<rparr>\<rparr>)"

fun step :: "mmu \<Rightarrow> (hart \<Rightarrow> hart) \<Rightarrow> instr \<Rightarrow> hart \<Rightarrow> hart option" where
  "step mmu call (Sd r off b) h =
     (case phys mmu h (h_regs h b + off) of
        None \<Rightarrow> None
      | Some p \<Rightarrow> Some (h\<lparr>h_mem := (h_mem h)(p := h_regs h r)\<rparr>))"
| "step mmu call (Ld r off b) h =
     (case phys mmu h (h_regs h b + off) of
        None \<Rightarrow> None
      | Some p \<Rightarrow> Some (set_reg r (h_mem h p) h))"
| "step mmu call (Li r v) h = Some (set_reg r v h)"
| "step mmu call (La r v) h = Some (set_reg r v h)"
| "step mmu call (Addi r s v) h = Some (set_reg r (h_regs h s + v) h)"
| "step mmu call (Add r s t) h = Some (set_reg r (h_regs h s + h_regs h t) h)"
| "step mmu call (Mul r s t) h = Some (set_reg r (h_regs h s * h_regs h t) h)"
| "step mmu call (Csrw c r) h = Some (h\<lparr>h_csrs := set_csr c (h_regs h r) (h_csrs h)\<rparr>)"
| "step mmu call (Csrr r c) h = Some (set_reg r (get_csr c (h_csrs h)) h)"
| "step mmu call (Csrrw r c s) h =
     Some (set_reg r (get_csr c (h_csrs h)) (h\<lparr>h_csrs := set_csr c (h_regs h s) (h_csrs h)\<rparr>))"
| "step mmu call Sfence_vma h = Some h"
| "step mmu call Call h = Some (call h)"
| "step mmu call (Jr r) h = Some (h\<lparr>h_pc := h_regs h r\<rparr>)"
| "step mmu call Sret h = Some (sret h)"
| "step mmu call Mret h = Some (mret h)"

fun run :: "mmu \<Rightarrow> (hart \<Rightarrow> hart) \<Rightarrow> instr list \<Rightarrow> hart \<Rightarrow> hart option" where
  "run mmu call [] h = Some h"
| "run mmu call (i # is) h =
     (case step mmu call i h of None \<Rightarrow> None | Some h' \<Rightarrow> run mmu call is h')"

section \<open>Programs\<close>

text \<open>\<^verbatim>\<open>trampoline.rs\<close>\<close>

definition uservec :: "instr list" where
  "uservec =
    [Csrw Sscratch A0, Li A0 (of_nat TRAPFLAME), Sd RA 40 A0, Sd SP 48 A0, Sd GP 56 A0, Sd TP 64 A0,
     Sd T0 72 A0, Sd T1 80 A0, Sd T2 88 A0, Sd S0 96 A0, Sd S1 104 A0, Sd A1 120 A0, Sd A2 128 A0,
     Sd A3 136 A0, Sd A4 144 A0, Sd A5 152 A0, Sd A6 160 A0, Sd A7 168 A0, Sd S2 176 A0,
     Sd S3 184 A0, Sd S4 192 A0, Sd S5 200 A0, Sd S6 208 A0, Sd S7 216 A0, Sd S8 224 A0,
     Sd S9 232 A0, Sd S10 240 A0, Sd S11 248 A0, Sd T3 256 A0, Sd T4 264 A0, Sd T5 272 A0,
     Sd T6 280 A0, Csrr T0 Sscratch, Sd T0 112 A0, Ld SP 8 A0, Ld TP 32 A0, Ld T0 16 A0, Ld T1 0 A0,
     Sfence_vma, Csrw Satp T1, Sfence_vma, Jr T0]"

definition userret :: "instr list" where
  "userret =
    [Sfence_vma, Csrw Satp A0, Sfence_vma, Li A0 (of_nat TRAPFLAME), Ld RA 40 A0, Ld SP 48 A0,
     Ld GP 56 A0, Ld TP 64 A0, Ld T0 72 A0, Ld T1 80 A0, Ld T2 88 A0, Ld S0 96 A0, Ld S1 104 A0,
     Ld A1 120 A0, Ld A2 128 A0, Ld A3 136 A0, Ld A4 144 A0, Ld A5 152 A0, Ld A6 160 A0,
     Ld A7 168 A0, Ld S2 176 A0, Ld S3 184 A0, Ld S4 192 A0, Ld S5 200 A0, Ld S6 208 A0,
     Ld S7 216 A0, Ld S8 224 A0, Ld S9 232 A0, Ld S10 240 A0, Ld S11 248 A0, Ld T3 256 A0,
     Ld T4 264 A0, Ld T5 272 A0, Ld T6 280 A0, Ld A0 112 A0, Sret]"

text \<open>\<^verbatim>\<open>kernelvec.rs\<close>; the call is of \<^verbatim>\<open>kerneltrap\<close>.\<close>

definition kernelvec :: "instr list" where
  "kernelvec =
    [Addi SP SP (- 256), Sd RA 0 SP, Sd SP 8 SP, Sd GP 16 SP, Sd TP 24 SP, Sd T0 32 SP, Sd T1 40 SP,
     Sd T2 48 SP, Sd S0 56 SP, Sd S1 64 SP, Sd A0 72 SP, Sd A1 80 SP, Sd A2 88 SP, Sd A3 96 SP,
     Sd A4 104 SP, Sd A5 112 SP, Sd A6 120 SP, Sd A7 128 SP, Sd S2 136 SP, Sd S3 144 SP,
     Sd S4 152 SP, Sd S5 160 SP, Sd S6 168 SP, Sd S7 176 SP, Sd S8 184 SP, Sd S9 192 SP,
     Sd S10 200 SP, Sd S11 208 SP, Sd T3 216 SP, Sd T4 224 SP, Sd T5 232 SP, Sd T6 240 SP, Call,
     Ld RA 0 SP, Ld SP 8 SP, Ld GP 16 SP, Ld T0 32 SP, Ld T1 40 SP, Ld T2 48 SP, Ld S0 56 SP,
     Ld S1 64 SP, Ld A0 72 SP, Ld A1 80 SP, Ld A2 88 SP, Ld A3 96 SP, Ld A4 104 SP, Ld A5 112 SP,
     Ld A6 120 SP, Ld A7 128 SP, Ld S2 136 SP, Ld S3 144 SP, Ld S4 152 SP, Ld S5 160 SP,
     Ld S6 168 SP, Ld S7 176 SP, Ld S8 184 SP, Ld S9 192 SP, Ld S10 200 SP, Ld S11 208 SP,
     Ld T3 216 SP, Ld T4 224 SP, Ld T5 232 SP, Ld T6 240 SP, Addi SP SP 256, Sret]"

definition timervec :: "instr list" where
  "timervec =
    [Csrrw A0 Mscratch A0, Sd A1 0 A0, Sd A2 8 A0, Sd A3 16 A0, Ld A1 24 A0, Ld A2 32 A0,
     Ld A3 0 A1, Add A3 A3 A2, Sd A3 0 A1, Li A1 2, Csrw Sip A1, Ld A3 16 A0, Ld A2 8 A0,
     Ld A1 0 A0, Csrrw A0 Mscratch A0, Mret]"

text \<open>
  \<^verbatim>\<open>swtch.rs\<close>: the assembler operands \<open>old\<close> and \<open>new\<close> are the registers the compiler
  chooses for the two references.
\<close>

definition swtch :: "reg \<Rightarrow> reg \<Rightarrow> instr list" where
  "swtch old new =
    [Sd RA 0 old, Sd SP 8 old, Sd S0 16 old, Sd S1 24 old, Sd S2 32 old, Sd S3 40 old, Sd S4 48 old,
     Sd S5 56 old, Sd S6 64 old, Sd S7 72 old, Sd S8 80 old, Sd S9 88 old, Sd S10 96 old,
     Sd S11 104 old, Ld RA 0 new, Ld SP 8 new, Ld S0 16 new, Ld S1 24 new, Ld S2 32 new,
     Ld S3 40 new, Ld S4 48 new, Ld S5 56 new, Ld S6 64 new, Ld S7 72 new, Ld S8 80 new,
     Ld S9 88 new, Ld S10 96 new, Ld S11 104 new]"

text \<open>\<^verbatim>\<open>entry.rs\<close>, with the address of \<^verbatim>\<open>STACK0\<close>.\<close>

definition entry :: "usize \<Rightarrow> instr list" where
  "entry stack0 =
    [La SP stack0, Li A0 (4096 * 4), Csrr A1 Mhartid, Addi A1 A1 1, Mul A0 A0 A1, Add SP SP A0]"

section \<open>Boot\<close>

definition NCPU :: nat where "NCPU = 8"

definition CLINT :: nat where "CLINT = 0x2000000"

definition clint_mtimecmp :: "nat \<Rightarrow> nat" where
  "clint_mtimecmp hartid = CLINT + 0x4000 + 8 * hartid"

definition CLINT_MTIME :: nat where "CLINT_MTIME = CLINT + 0xBFF8"

abbreviation with_csrs :: "hart \<Rightarrow> csrs \<Rightarrow> hart" where
  "with_csrs h c \<equiv> h\<lparr>h_csrs := c\<rparr>"

text \<open>
  \<^verbatim>\<open>timerinit\<close>: \<open>scratch\<close> is the address of \<^verbatim>\<open>TIMER_SCRATCH\<close>, whose rows are five
  doublewords, \<open>vec\<close> the address of \<^verbatim>\<open>timervec\<close>.
\<close>

definition timerinit :: "nat \<Rightarrow> nat \<Rightarrow> hart \<Rightarrow> hart rust" where
  "timerinit vec scratch h =
     (let id = unat (mhartid_read (h_csrs h));
          interval = 1000000;
          mtimecmp = of_nat (clint_mtimecmp id)
      in rbind (uadd (unat (h_mem h (of_nat CLINT_MTIME))) interval) (\<lambda>t.
         let mem = (h_mem h)(mtimecmp := of_nat t)
         in rbind (if id < NCPU then Inr (of_nat (scratch + 40 * id)) else Inl OutOfBounds) (\<lambda>row.
            let mem = mem(row + 24 := mtimecmp);
                mem = mem(row + 32 := of_nat interval)
            in rbind (mtvec_write vec Direct (mscratch_write row (h_csrs h))) (\<lambda>c.
               Inr (h\<lparr>h_mem := mem, h_csrs := set_mtimer (set_mie c)\<rparr>)))))"

definition start :: "nat \<Rightarrow> nat \<Rightarrow> nat \<Rightarrow> hart \<Rightarrow> hart rust" where
  "start main vec scratch h =
     (let c = set_mpp MPP_Supervisor (h_csrs h);
          c = mepc_write (of_nat main) c;
          c = satp_write 0 c;
          c = medeleg_set_all c;
          c = mideleg_set_all c;
          c = set_sext c;
          c = set_ssoft c;
          c = set_stimer c;
          c = pmpaddr0_write 0x3fffffffffffff c
      in rbind (set_pmp 0 TOR RWX False c) (\<lambda>c.
         rbind (timerinit vec scratch (with_csrs h c)) (\<lambda>h1.
         let h2 = set_reg TP (mhartid_read (h_csrs h1)) h1
         in Inr (mret h2))))"

end
