(* ===== verification/HartProofs.thy ===== *)
theory HartProofs
  imports Hart
begin

text \<open>
  What the assembly preserves. A table of slots pairs a register with an offset; saving a table
  and restoring it are proved once, and the programs are runs of such tables.
\<close>

section \<open>Saving and restoring a table of registers\<close>

type_synonym slots = "(reg \<times> usize) list"

fun saved :: "slots \<Rightarrow> usize \<Rightarrow> (reg \<Rightarrow> usize) \<Rightarrow> (usize \<Rightarrow> usize) \<Rightarrow> usize \<Rightarrow> usize" where
  "saved [] p R M = M"
| "saved ((r, off) # ss) p R M = saved ss p R (M(p + off := R r))"

fun restored :: "slots \<Rightarrow> usize \<Rightarrow> (usize \<Rightarrow> usize) \<Rightarrow> (reg \<Rightarrow> usize) \<Rightarrow> reg \<Rightarrow> usize" where
  "restored [] p M R = R"
| "restored ((r, off) # ss) p M R = restored ss p M (R(r := M (p + off)))"

abbreviation saves :: "slots \<Rightarrow> reg \<Rightarrow> instr list" where
  "saves ss b \<equiv> map (\<lambda>(r, off). Sd r off b) ss"

abbreviation restores :: "slots \<Rightarrow> reg \<Rightarrow> instr list" where
  "restores ss b \<equiv> map (\<lambda>(r, off). Ld r off b) ss"

text \<open>The slots at virtual address \<open>va\<close> are those at physical address \<open>p\<close>.\<close>

definition at_phys :: "mmu \<Rightarrow> hart \<Rightarrow> usize \<Rightarrow> usize \<Rightarrow> slots \<Rightarrow> bool" where
  "at_phys mmu h va p ss \<longleftrightarrow> (\<forall>(r, off)\<in>set ss. phys mmu h (va + off) = Some (p + off))"

lemma phys_simps [simp]:
  "phys mmu (h\<lparr>h_mem := M\<rparr>) = phys mmu h" "phys mmu (h\<lparr>h_regs := R\<rparr>) = phys mmu h"
  "phys mmu (h\<lparr>h_pc := x\<rparr>) = phys mmu h" "phys mmu (set_reg r v h) = phys mmu h"
  by (simp_all add: fun_eq_iff phys_def set_reg_def)

lemma set_reg_simps [simp]:
  "h_mem (set_reg r v h) = h_mem h" "h_csrs (set_reg r v h) = h_csrs h" "h_mode (set_reg r v h) = h_mode h"
  "h_pc (set_reg r v h) = h_pc h" "r \<noteq> ZERO \<Longrightarrow> set_reg r v h = h\<lparr>h_regs := (h_regs h)(r := v)\<rparr>"
  by (simp_all add: set_reg_def)

lemma at_phys_simps [simp]:
  "at_phys mmu (h\<lparr>h_mem := M\<rparr>) va p ss = at_phys mmu h va p ss"
  "at_phys mmu (h\<lparr>h_regs := R\<rparr>) va p ss = at_phys mmu h va p ss"
  "at_phys mmu h va p []"
  "at_phys mmu h va p ((r, off) # ss) \<longleftrightarrow> phys mmu h (va + off) = Some (p + off) \<and> at_phys mmu h va p ss"
  by (auto simp: at_phys_def)

lemma run_append: "run mmu call (xs @ ys) h = Option.bind (run mmu call xs h) (run mmu call ys)"
  by (induction xs arbitrary: h) (auto split: option.splits)

lemma run_saves:
  "at_phys mmu h (h_regs h b) p ss \<Longrightarrow>
   run mmu call (saves ss b) h = Some (h\<lparr>h_mem := saved ss p (h_regs h) (h_mem h)\<rparr>)"
  by (induction ss arbitrary: h) auto

lemma run_restores:
  "at_phys mmu h (h_regs h b) p ss \<Longrightarrow> b \<notin> fst ` set ss \<Longrightarrow> ZERO \<notin> fst ` set ss \<Longrightarrow>
   run mmu call (restores ss b) h = Some (h\<lparr>h_regs := restored ss p (h_mem h) (h_regs h)\<rparr>)"
  by (induction ss arbitrary: h) auto

lemma saved_other: "q \<notin> (\<lambda>s. p + snd s) ` set ss \<Longrightarrow> saved ss p R M q = M q"
  by (induction ss arbitrary: M) auto

lemma saved_slot: "distinct (map snd ss) \<Longrightarrow> (r, off) \<in> set ss \<Longrightarrow> saved ss p R M (p + off) = R r"
proof (induction ss arbitrary: M)
  case (Cons s ss)
  obtain r' off' where s: "s = (r', off')" by (cases s)
  show ?case
  proof (cases "(r, off) \<in> set ss")
    case True
    then show ?thesis using Cons s by simp
  next
    case False
    then have "(r, off) = (r', off')" using Cons.prems(2) s by simp
    moreover have "p + off' \<notin> (\<lambda>s. p + snd s) ` set ss" using Cons.prems(1) s by force
    ultimately show ?thesis by (simp add: s saved_other)
  qed
qed simp

lemma restored_other: "r \<notin> fst ` set ss \<Longrightarrow> restored ss p M R r = R r"
  by (induction ss arbitrary: R) auto

lemma restored_slot:
  "distinct (map fst ss) \<Longrightarrow> (r, off) \<in> set ss \<Longrightarrow> restored ss p M R r = M (p + off)"
proof (induction ss arbitrary: R)
  case (Cons s ss)
  then show ?case by (cases s) (auto simp: restored_other image_iff)
qed simp

lemma restored_saved:
  assumes "distinct (map fst ss)" and "distinct (map snd ss)"
    and "\<forall>s\<in>set ss. M' (p + snd s) = saved ss p R M (p + snd s)" and "r \<in> fst ` set ss"
  shows "restored ss p M' R' r = R r"
  using assms by (auto simp: restored_slot saved_slot)

lemma aligned_unat: "x AND 7 = 0 \<longleftrightarrow> 8 dvd unat x" for x :: usize
proof -
  have "x AND 7 = take_bit 3 x" by (simp add: take_bit_eq_mask mask_eq_exp_minus_1)
  then have "unat (x AND 7) = unat x mod 8" by (simp add: take_bit_eq_mod unat_mod)
  then show ?thesis by (metis dvd_eq_mod_eq_0 unat_eq_zero)
qed

lemma aligned_add: "x AND 7 = 0 \<Longrightarrow> y AND 7 = 0 \<Longrightarrow> (x + y) AND 7 = 0" for x y :: usize
  by (simp add: aligned_unat unat_word_ariths dvd_mod_iff)

section \<open>From user space and back\<close>

definition user_slots :: slots where
  "user_slots =
    [(RA, 40), (SP, 48), (GP, 56), (TP, 64), (T0, 72), (T1, 80), (T2, 88), (S0, 96), (S1, 104),
     (A1, 120), (A2, 128), (A3, 136), (A4, 144), (A5, 152), (A6, 160), (A7, 168), (S2, 176),
     (S3, 184), (S4, 192), (S5, 200), (S6, 208), (S7, 216), (S8, 224), (S9, 232), (S10, 240),
     (S11, 248), (T3, 256), (T4, 264), (T5, 272), (T6, 280)]"

lemma user_slots_ok:
  "distinct (map fst user_slots)" "distinct (map snd user_slots)" "fst ` set user_slots = UNIV - {ZERO, A0}"
  by (auto simp: user_slots_def) (metis reg.exhaust)

lemma uservec_eq:
  "uservec = [Csrw Sscratch A0, Li A0 (of_nat TRAPFLAME)] @ saves user_slots A0 @
     [Csrr T0 Sscratch, Sd T0 112 A0, Ld SP 8 A0, Ld TP 32 A0, Ld T0 16 A0, Ld T1 0 A0,
      Sfence_vma, Csrw Satp T1, Sfence_vma, Jr T0]"
  by (simp add: uservec_def user_slots_def)

lemma userret_eq:
  "userret = [Sfence_vma, Csrw Satp A0, Sfence_vma, Li A0 (of_nat TRAPFLAME)] @ restores user_slots A0 @
     [Ld A0 112 A0, Sret]"
  by (simp add: userret_def user_slots_def)

text \<open>A page table maps the trap frame page at its fixed address to the frame at \<open>tf\<close>.\<close>

definition frame_mapped :: "mmu \<Rightarrow> usize \<Rightarrow> usize \<Rightarrow> bool" where
  "frame_mapped mmu satp tf \<longleftrightarrow>
     (\<forall>off. off AND 7 = 0 \<longrightarrow> off < 288 \<longrightarrow> mmu satp (of_nat TRAPFLAME + off) = Some (tf + off))"

lemma frame_phys:
  assumes "frame_mapped mmu (c_satp (h_csrs h)) tf" and "h_mode h = SupervisorMode"
    and "off AND 7 = 0" and "off < 288"
  shows "phys mmu h (of_nat TRAPFLAME + off) = Some (tf + off)"
proof -
  have "of_nat TRAPFLAME AND 7 = (0::usize)" by (simp add: TRAPFLAME_def TRAMPOLINE_def MAXVA_def PGSIZE_def)
  then have "(of_nat TRAPFLAME + off) AND 7 = 0" using assms(3) by (rule aligned_add)
  then show ?thesis using assms by (simp add: phys_def frame_mapped_def)
qed

lemma frame_slots:
  assumes "frame_mapped mmu (c_satp (h_csrs h)) tf" and "h_mode h = SupervisorMode"
  shows "at_phys mmu h (of_nat TRAPFLAME) tf user_slots"
  using frame_phys[OF assms] by (simp add: user_slots_def)

lemma phys_csr: "h_mode h = h_mode h' \<Longrightarrow> c_satp (h_csrs h) = c_satp (h_csrs h') \<Longrightarrow> phys mmu h = phys mmu h'"
  by (simp add: fun_eq_iff phys_def)

lemma run_uservec:
  assumes "frame_mapped mmu (c_satp (h_csrs h)) tf" and "h_mode h = SupervisorMode"
  shows "\<exists>h'. run mmu call uservec h = Some h' \<and> h_mode h' = SupervisorMode \<and>
    h_mem h' = (saved user_slots tf (h_regs h) (h_mem h))(tf + 112 := h_regs h A0) \<and>
    h_pc h' = h_mem h (tf + 16) \<and> h_regs h' SP = h_mem h (tf + 8) \<and>
    h_regs h' TP = h_mem h (tf + 32) \<and> c_satp (h_csrs h') = h_mem h tf"
proof -
  let ?h = "h\<lparr>h_csrs := (h_csrs h)\<lparr>c_sscratch := h_regs h A0\<rparr>, h_regs := (h_regs h)(A0 := of_nat TRAPFLAME)\<rparr>"
  have m: "frame_mapped mmu (c_satp (h_csrs ?h)) tf" "h_mode ?h = SupervisorMode" using assms by simp_all
  note ph = frame_phys[OF m]
  have "saved user_slots tf ((h_regs h)(A0 := of_nat TRAPFLAME)) (h_mem h) = saved user_slots tf (h_regs h) (h_mem h)"
    by (simp add: user_slots_def)
  moreover have other: "saved user_slots tf R M (tf + off) = M (tf + off)" if "off \<in> {0, 8, 16, 32}" for R M off
    using that by (intro saved_other) (auto simp: user_slots_def)
  ultimately show ?thesis
    using assms(2) run_saves[of mmu ?h A0 tf user_slots call] frame_slots[OF m] ph[of 112] ph[of 8] ph[of 16] ph[of 32] ph[of 0]
      other[of 0] other[of 8] other[of 16] other[of 32]
    by (simp add: uservec_eq run_append)
qed

lemma run_userret:
  assumes "frame_mapped mmu (h_regs h A0) tf" and "h_mode h = SupervisorMode"
  shows "\<exists>h'. run mmu call userret h = Some h' \<and>
    (\<forall>r. r \<noteq> A0 \<longrightarrow> h_regs h' r = restored user_slots tf (h_mem h) (h_regs h) r) \<and>
    h_regs h' A0 = h_mem h (tf + 112) \<and> h_mem h' = h_mem h \<and> c_satp (h_csrs h') = h_regs h A0 \<and>
    h_pc h' = c_sepc (h_csrs h) \<and>
    h_mode h' = (if Sstatus_spp (c_sstatus (h_csrs h)) = SPP_User then UserMode else SupervisorMode)"
proof -
  let ?h = "h\<lparr>h_csrs := (h_csrs h)\<lparr>c_satp := h_regs h A0\<rparr>, h_regs := (h_regs h)(A0 := of_nat TRAPFLAME)\<rparr>"
  have m: "frame_mapped mmu (c_satp (h_csrs ?h)) tf" "h_mode ?h = SupervisorMode" using assms by simp_all
  have "restored user_slots tf M (R(A0 := x)) r = restored user_slots tf M R r" if "r \<noteq> A0" for M R x r
    using that by (simp add: user_slots_def)
  moreover have "restored user_slots tf M R A0 = R A0" for M R
    by (intro restored_other) (simp add: user_slots_ok)
  ultimately show ?thesis
    using assms(2) run_restores[of mmu ?h A0 tf user_slots call] frame_slots[OF m] frame_phys[OF m, of 112]
    by (simp add: userret_eq run_append user_slots_ok sret_def Let_def Sstatus_spp_bit)
qed

text \<open>
  (C7) The user's registers survive a trap. \<^verbatim>\<open>uservec\<close> stores every user register in the
  trap frame and enters the kernel on the kernel's page table, stack and hart id, at the address
  the frame holds; whatever the kernel does in between, as long as it leaves the register slots
  alone, \<^verbatim>\<open>userret\<close> returns to the program counter in \<^verbatim>\<open>sepc\<close> on the user's page table
  with every register as it was.
\<close>

theorem user_trap_roundtrip:
  assumes "frame_mapped mmu (c_satp (h_csrs h)) tf" and "h_mode h = SupervisorMode" and "h_regs h ZERO = 0"
  shows "\<exists>h1. run mmu call uservec h = Some h1 \<and>
    h_pc h1 = h_mem h (tf + 16) \<and> h_regs h1 SP = h_mem h (tf + 8) \<and>
    h_regs h1 TP = h_mem h (tf + 32) \<and> c_satp (h_csrs h1) = h_mem h tf \<and>
    (\<forall>h2. h_mode h2 = SupervisorMode \<longrightarrow> h_regs h2 A0 = c_satp (h_csrs h) \<longrightarrow> h_regs h2 ZERO = 0 \<longrightarrow>
       bit (c_sstatus (h_csrs h2)) 8 = False \<longrightarrow>
       (\<forall>off\<in>insert 112 (snd ` set user_slots). h_mem h2 (tf + off) = h_mem h1 (tf + off)) \<longrightarrow>
       (\<exists>h3. run mmu call userret h2 = Some h3 \<and> h_regs h3 = h_regs h \<and> h_mode h3 = UserMode \<and>
          h_pc h3 = c_sepc (h_csrs h2) \<and> c_satp (h_csrs h3) = c_satp (h_csrs h) \<and> h_mem h3 = h_mem h2))"
proof -
  obtain h1 where h1: "run mmu call uservec h = Some h1"
    "h_mem h1 = (saved user_slots tf (h_regs h) (h_mem h))(tf + 112 := h_regs h A0)"
    "h_pc h1 = h_mem h (tf + 16)" "h_regs h1 SP = h_mem h (tf + 8)" "h_regs h1 TP = h_mem h (tf + 32)"
    "c_satp (h_csrs h1) = h_mem h tf"
    using run_uservec[OF assms(1,2), of call] by (elim exE conjE) (rule that; assumption)
  have "\<exists>h3. run mmu call userret h2 = Some h3 \<and> h_regs h3 = h_regs h \<and> h_mode h3 = UserMode \<and>
      h_pc h3 = c_sepc (h_csrs h2) \<and> c_satp (h_csrs h3) = c_satp (h_csrs h) \<and> h_mem h3 = h_mem h2"
    if h2: "h_mode h2 = SupervisorMode" "h_regs h2 A0 = c_satp (h_csrs h)" "h_regs h2 ZERO = 0"
      "bit (c_sstatus (h_csrs h2)) 8 = False"
      "\<forall>off\<in>insert 112 (snd ` set user_slots). h_mem h2 (tf + off) = h_mem h1 (tf + off)" for h2
  proof -
    have "frame_mapped mmu (h_regs h2 A0) tf" using assms(1) h2(2) by simp
    from run_userret[OF this h2(1), of call] obtain h3 where h3: "run mmu call userret h2 = Some h3"
      "\<forall>r. r \<noteq> A0 \<longrightarrow> h_regs h3 r = restored user_slots tf (h_mem h2) (h_regs h2) r"
      "h_regs h3 A0 = h_mem h2 (tf + 112)" "h_mem h3 = h_mem h2" "c_satp (h_csrs h3) = h_regs h2 A0"
      "h_pc h3 = c_sepc (h_csrs h2)" "h_mode h3 = UserMode"
      using h2(4) by (auto simp: Sstatus_spp_bit)
    have "112 \<notin> snd ` set user_slots" by (simp add: user_slots_def)
    then have slots: "\<forall>s\<in>set user_slots. h_mem h2 (tf + snd s) = saved user_slots tf (h_regs h) (h_mem h) (tf + snd s)"
      using h2(5) h1(2) by (auto simp: image_iff)
    have "h_regs h3 r = h_regs h r" for r
    proof (cases "r \<in> {ZERO, A0}")
      case True
      then show ?thesis using h1(2) h2(3,5) h3(2,3) assms(3) user_slots_ok(3)
        by (auto simp: restored_other)
    next
      case False
      then show ?thesis using restored_saved[OF user_slots_ok(1,2) slots, of r] user_slots_ok(3) h3(2) by simp
    qed
    with h3 h2(2) show ?thesis by auto
  qed
  with h1 show ?thesis by blast
qed

text \<open>A hart with every register zero, and a translation of the trap frame page, for the witnesses.\<close>

definition csrs0 :: csrs where
  "csrs0 = \<lparr>c_mhartid = 0, c_mstatus = 0, c_mepc = 0, c_sstatus = 0, c_sip = 0, c_sie = 0, c_mie = 0,
     c_sepc = 0, c_medeleg = 0, c_mideleg = 0, c_stvec = 0, c_mtvec = 0, c_pmpcfg0 = 0, c_pmpaddr0 = 0,
     c_satp = 0, c_mscratch = 0, c_sscratch = 0, c_scause = 0, c_stval = 0\<rparr>"

definition hart0 :: "mode \<Rightarrow> hart" where
  "hart0 m = \<lparr>h_regs = (\<lambda>_. 0)(A0 := 7, S1 := 9, SP := 0x80400000), h_csrs = csrs0, h_mode = m, h_pc = 0,
     h_mem = (\<lambda>_. 0)\<rparr>"

definition linear_mmu :: mmu where
  "linear_mmu satp va = Some (va - of_nat TRAPFLAME + 0x80200000)"

lemma linear_frame: "frame_mapped linear_mmu satp 0x80200000"
  by (simp add: frame_mapped_def linear_mmu_def)

theorem user_trap_roundtrip_witness:
  "\<exists>h1 h3. run linear_mmu id uservec (hart0 SupervisorMode) = Some h1 \<and>
     run linear_mmu id userret ((hart0 SupervisorMode)\<lparr>h_mem := h_mem h1, h_regs := (\<lambda>_. 0)\<rparr>) = Some h3 \<and>
     h_regs h3 A0 = 7 \<and> h_regs h3 S1 = 9 \<and> h_mode h3 = UserMode"
proof -
  let ?h = "hart0 SupervisorMode"
  have m: "h_mode ?h = SupervisorMode" "h_regs ?h ZERO = 0" by (simp_all add: hart0_def)
  obtain h1 where h1: "run linear_mmu id uservec ?h = Some h1"
    "\<forall>h2. h_mode h2 = SupervisorMode \<longrightarrow> h_regs h2 A0 = c_satp (h_csrs ?h) \<longrightarrow> h_regs h2 ZERO = 0 \<longrightarrow>
       bit (c_sstatus (h_csrs h2)) 8 = False \<longrightarrow>
       (\<forall>off\<in>insert 112 (snd ` set user_slots). h_mem h2 (0x80200000 + off) = h_mem h1 (0x80200000 + off)) \<longrightarrow>
       (\<exists>h3. run linear_mmu id userret h2 = Some h3 \<and> h_regs h3 = h_regs ?h \<and> h_mode h3 = UserMode \<and>
          h_pc h3 = c_sepc (h_csrs h2) \<and> c_satp (h_csrs h3) = c_satp (h_csrs ?h) \<and> h_mem h3 = h_mem h2)"
    using user_trap_roundtrip[OF linear_frame m, of id] by (elim exE conjE) (rule that; assumption)
  from spec[OF h1(2), of "?h\<lparr>h_mem := h_mem h1, h_regs := (\<lambda>_. 0)\<rparr>"] h1(1) show ?thesis
    by (auto simp: hart0_def csrs0_def)
qed

section \<open>Traps in the kernel\<close>

definition kernel_slots :: slots where
  "kernel_slots =
    [(GP, 16), (T0, 32), (T1, 40), (T2, 48), (S0, 56), (S1, 64), (A0, 72), (A1, 80), (A2, 88),
     (A3, 96), (A4, 104), (A5, 112), (A6, 120), (A7, 128), (S2, 136), (S3, 144), (S4, 152),
     (S5, 160), (S6, 168), (S7, 176), (S8, 184), (S9, 192), (S10, 200), (S11, 208), (T3, 216),
     (T4, 224), (T5, 232), (T6, 240)]"

lemma kernel_slots_ok:
  "distinct (map fst kernel_slots)" "distinct (map snd kernel_slots)"
  "fst ` set kernel_slots = UNIV - {ZERO, RA, SP, TP}"
  by (auto simp: kernel_slots_def) (metis reg.exhaust)

definition all_slots :: slots where
  "all_slots = (RA, 0) # (SP, 8) # (GP, 16) # (TP, 24) # tl kernel_slots"

lemma all_slots_ok:
  "distinct (map snd all_slots)" "set kernel_slots \<subseteq> set all_slots"
  by (auto simp: all_slots_def kernel_slots_def)

lemma kernelvec_eq:
  "kernelvec = [Addi SP SP (- 256)] @ saves all_slots SP @ [Call, Ld RA 0 SP, Ld SP 8 SP] @
     restores kernel_slots SP @ [Addi SP SP 256, Sret]"
  by (simp add: kernelvec_def all_slots_def kernel_slots_def)

text \<open>
  (C16) A trap in the kernel is invisible to the code it interrupts: when the handler gives back
  the stack pointer, the page table and the mode, and leaves the frame that
  \<^verbatim>\<open>kernelvec\<close> pushed alone, every register but \<^verbatim>\<open>tp\<close> is as before the trap when
  \<^verbatim>\<open>kernelvec\<close> returns to \<^verbatim>\<open>sepc\<close>; \<^verbatim>\<open>tp\<close> is what the handler left, the id of the
  hart that resumes the code.
\<close>

theorem kernelvec_transparent:
  assumes mode: "h_mode h = SupervisorMode"
    and stack: "at_phys mmu h (h_regs h SP - 256) p all_slots"
    and handler: "\<And>g. h_regs g SP = h_regs h SP - 256 \<Longrightarrow> h_regs (call g) SP = h_regs g SP \<and> h_regs (call g) ZERO = h_regs g ZERO \<and>
      h_mode (call g) = h_mode g \<and> c_satp (h_csrs (call g)) = c_satp (h_csrs g) \<and>
      (\<forall>off\<in>snd ` set all_slots. h_mem (call g) (p + off) = h_mem g (p + off))"
  shows "\<exists>g h'. run mmu call kernelvec h = Some h' \<and>
    (\<forall>r. r \<noteq> TP \<longrightarrow> h_regs h' r = h_regs h r) \<and> h_regs h' TP = h_regs (call g) TP \<and>
    h_mem h' = h_mem (call g) \<and> h_pc h' = c_sepc (h_csrs (call g))"
proof -
  let ?h1 = "h\<lparr>h_regs := (h_regs h)(SP := h_regs h SP - 256)\<rparr>"
  define M where "M = saved all_slots p (h_regs ?h1) (h_mem h)"
  define g where "g = ?h1\<lparr>h_mem := M\<rparr>"
  let ?c = "call g"
  have hg: "h_regs ?c SP = h_regs h SP - 256" "h_regs ?c ZERO = h_regs h ZERO" "h_mode ?c = h_mode h"
    "c_satp (h_csrs ?c) = c_satp (h_csrs h)" "\<forall>off\<in>snd ` set all_slots. h_mem ?c (p + off) = M (p + off)"
    using handler[of g] by (simp_all add: g_def)
  have s: "run mmu call (saves all_slots SP) ?h1 = Some g"
    using run_saves[of mmu ?h1 SP p all_slots call] stack by (simp add: g_def M_def)
  have ph: "phys mmu ?c = phys mmu h" using hg by (intro phys_csr)
  have mem: "h_mem ?c (p + off) = M (p + off)" if "off \<in> snd ` set all_slots" for off
    using hg that by auto
  have slot: "M (p + off) = h_regs ?h1 r" if "(r, off) \<in> set all_slots" for r off
    unfolding M_def using all_slots_ok(1) that by (rule saved_slot)
  have ra: "h_mem ?c p = h_regs h RA" "h_mem ?c (p + 8) = h_regs h SP - 256"
    using mem[of 0] mem[of 8] slot[of RA 0] slot[of SP 8] by (simp_all add: all_slots_def)
  define h2 where "h2 = ?c\<lparr>h_regs := (h_regs ?c)(RA := h_regs h RA, SP := h_regs h SP - 256)\<rparr>"
  have at: "at_phys mmu h2 (h_regs h2 SP) p kernel_slots"
    using stack all_slots_ok(2) ph by (auto simp: at_phys_def h2_def)
  have r: "run mmu call (restores kernel_slots SP) h2 =
      Some (h2\<lparr>h_regs := restored kernel_slots p (h_mem ?c) (h_regs h2)\<rparr>)"
    using run_restores[OF at, of call] kernel_slots_ok(3) by (simp add: h2_def)
  have loads: "phys mmu ?c (h_regs h SP - 256) = Some p" "phys mmu ?c (h_regs h SP - 256 + 8) = Some (p + 8)"
    using stack ph by (simp_all add: all_slots_def)
  let ?h3 = "h2\<lparr>h_regs := (restored kernel_slots p (h_mem ?c) (h_regs h2))(SP := h_regs h SP)\<rparr>"
  have other: "restored kernel_slots p N R x = R x" if "x \<in> {ZERO, RA, SP, TP}" for N R x
    using that by (intro restored_other) (simp add: kernel_slots_ok(3))
  have "run mmu call kernelvec h = Some (sret ?h3)"
    using s r loads ra hg(1) other[of SP] by (simp add: kernelvec_eq run_append h2_def)
  moreover have "h_regs ?h3 r = h_regs h r" if "r \<noteq> TP" for r
  proof (cases "r \<in> {ZERO, RA, SP}")
    case True
    then show ?thesis using other[of r] hg by (auto simp: h2_def)
  next
    case False
    then have "r \<in> fst ` set kernel_slots" using that kernel_slots_ok(3) by simp
    then obtain off where o: "(r, off) \<in> set kernel_slots" by auto
    then have "(r, off) \<in> set all_slots" using all_slots_ok(2) by blast
    then have "h_mem ?c (p + off) = h_regs ?h1 r" using mem[of off] slot[of r off] by force
    then show ?thesis using False o restored_slot[OF kernel_slots_ok(1) o] by simp
  qed
  moreover have "h_regs ?h3 TP = h_regs ?c TP" using other[of TP] by (simp add: h2_def)
  ultimately show ?thesis
    by (intro exI[of _ g] exI[of _ "sret ?h3"]) (simp add: sret_def Let_def h2_def)
qed

definition id_mmu :: mmu where "id_mmu satp va = Some va"

definition spoil :: "hart \<Rightarrow> hart" where
  "spoil g = g\<lparr>h_regs := (h_regs g)(T0 := 99, A0 := 5, TP := 3)\<rparr>"

theorem kernelvec_transparent_witness:
  "\<exists>h'. run id_mmu spoil kernelvec (hart0 SupervisorMode) = Some h' \<and> h_regs h' A0 = 7 \<and> h_regs h' TP = 3"
proof -
  let ?h = "hart0 SupervisorMode"
  have m: "h_mode ?h = SupervisorMode" by (simp add: hart0_def)
  have at: "at_phys id_mmu ?h (h_regs ?h SP - 256) 0x803fff00 all_slots"
    by (simp add: all_slots_def kernel_slots_def hart0_def phys_def id_mmu_def)
  obtain g h' where "run id_mmu spoil kernelvec ?h = Some h'" "\<forall>r. r \<noteq> TP \<longrightarrow> h_regs h' r = h_regs ?h r"
    "h_regs h' TP = h_regs (spoil g) TP"
    using kernelvec_transparent[OF m at, of spoil] by (auto simp: spoil_def)
  then show ?thesis by (auto simp: hart0_def spoil_def)
qed

section \<open>Context switches\<close>

definition context_slots :: slots where
  "context_slots =
    [(RA, 0), (SP, 8), (S0, 16), (S1, 24), (S2, 32), (S3, 40), (S4, 48), (S5, 56), (S6, 64),
     (S7, 72), (S8, 80), (S9, 88), (S10, 96), (S11, 104)]"

text \<open>The fields of \<^verbatim>\<open>Context\<close> in \<^verbatim>\<open>proc.rs\<close>, a \<^verbatim>\<open>repr(C)\<close> structure of doublewords.\<close>

definition Context_fields :: "reg list" where
  "Context_fields = [RA, SP, S0, S1, S2, S3, S4, S5, S6, S7, S8, S9, S10, S11]"

definition field_offset :: "'f list \<Rightarrow> 'f \<Rightarrow> usize" where
  "field_offset fs f = of_nat (8 * length (takeWhile (\<lambda>g. g \<noteq> f) fs))"

lemma context_slots_ok:
  "distinct (map fst context_slots)" "distinct (map snd context_slots)" "fst ` set context_slots = set Context_fields"
  by (simp_all add: context_slots_def Context_fields_def)

lemma swtch_eq: "swtch old new = saves context_slots old @ restores context_slots new"
  by (simp add: swtch_def context_slots_def)

lemma run_swtch:
  assumes old: "at_phys mmu h (h_regs h old) p context_slots" and new: "at_phys mmu h (h_regs h new) q context_slots"
    and "new \<notin> set Context_fields"
  shows "run mmu call (swtch old new) h = Some (h\<lparr>h_mem := saved context_slots p (h_regs h) (h_mem h),
    h_regs := restored context_slots q (saved context_slots p (h_regs h) (h_mem h)) (h_regs h)\<rparr>)"
proof -
  let ?h = "h\<lparr>h_mem := saved context_slots p (h_regs h) (h_mem h)\<rparr>"
  have "run mmu call (restores context_slots new) ?h =
      Some (?h\<lparr>h_regs := restored context_slots q (h_mem ?h) (h_regs ?h)\<rparr>)"
    using new assms(3) by (intro run_restores) (simp_all add: context_slots_ok(3) Context_fields_def)
  then show ?thesis by (simp add: swtch_eq run_append run_saves[OF old])
qed

text \<open>
  (C17) A context switch resumes the other context, and switching back resumes the first:
  \<^verbatim>\<open>swtch\<close> loads \<^verbatim>\<open>ra\<close>, \<^verbatim>\<open>sp\<close> and the callee-saved registers from the new
  context and keeps every other register; a later switch that names the saved context as the new
  one, after anything that left it alone, gives them back. The offsets in the assembly are those
  of the fields of \<^verbatim>\<open>Context\<close>.
\<close>

theorem swtch_roundtrip:
  assumes old: "at_phys mmu h (h_regs h old) p context_slots" and new: "at_phys mmu h (h_regs h new) q context_slots"
    and sep: "(\<lambda>s. p + snd s) ` set context_slots \<inter> (\<lambda>s. q + snd s) ` set context_slots = {}"
    and reg: "new \<notin> set Context_fields"
  shows "\<exists>h1. run mmu call (swtch old new) h = Some h1 \<and>
    (\<forall>r\<in>set Context_fields. h_regs h1 r = h_mem h (q + field_offset Context_fields r)) \<and>
    (\<forall>r. r \<notin> set Context_fields \<longrightarrow> h_regs h1 r = h_regs h r) \<and>
    (\<forall>h2 old' new' q'. at_phys mmu h2 (h_regs h2 old') q' context_slots \<longrightarrow>
       at_phys mmu h2 (h_regs h2 new') p context_slots \<longrightarrow> new' \<notin> set Context_fields \<longrightarrow>
       (\<lambda>s. p + snd s) ` set context_slots \<inter> (\<lambda>s. q' + snd s) ` set context_slots = {} \<longrightarrow>
       (\<forall>r\<in>set Context_fields. h_mem h2 (p + field_offset Context_fields r) = h_mem h1 (p + field_offset Context_fields r)) \<longrightarrow>
       (\<exists>h3. run mmu call (swtch old' new') h2 = Some h3 \<and> (\<forall>r\<in>set Context_fields. h_regs h3 r = h_regs h r)))"
proof -
  let ?M = "saved context_slots p (h_regs h) (h_mem h)"
  have off: "(r, field_offset Context_fields r) \<in> set context_slots" if "r \<in> set Context_fields" for r
    using that by (auto simp: Context_fields_def context_slots_def field_offset_def)
  have keep: "saved context_slots a R M (b + o') = M (b + o')"
    if "(\<lambda>s. b + snd s) ` set context_slots \<inter> (\<lambda>s. a + snd s) ` set context_slots = {}"
      "(r, o') \<in> set context_slots" for a b R M r o'
    using that by (intro saved_other) force
  have load: "restored context_slots a N R r = N (a + field_offset Context_fields r)"
    if "r \<in> set Context_fields" for a N R r
    using restored_slot[OF context_slots_ok(1) off[OF that]] .
  have sep': "(\<lambda>s. q + snd s) ` set context_slots \<inter> (\<lambda>s. p + snd s) ` set context_slots = {}" using sep by blast
  have save: "?M (p + field_offset Context_fields r) = h_regs h r" if "r \<in> set Context_fields" for r
    by (rule saved_slot[OF context_slots_ok(2) off[OF that]])
  show ?thesis
  proof (intro exI conjI)
    show "run mmu call (swtch old new) h = Some (h\<lparr>h_mem := ?M, h_regs := restored context_slots q ?M (h_regs h)\<rparr>)"
      by (rule run_swtch[OF old new reg])
  qed (auto simp: load keep[OF sep' off] restored_other context_slots_ok(3) run_swtch keep[OF _ off] save)
qed

theorem swtch_roundtrip_witness:
  "\<exists>h1. run id_mmu id (swtch A0 A1) ((hart0 SupervisorMode)\<lparr>h_regs := (\<lambda>_. 0)(A0 := 0x1000, A1 := 0x2000, SP := 5)\<rparr>) = Some h1 \<and>
     h_regs h1 SP = 0 \<and> h_regs h1 A0 = 0x1000"
proof -
  let ?h = "(hart0 SupervisorMode)\<lparr>h_regs := (\<lambda>_. 0)(A0 := 0x1000, A1 := 0x2000, SP := 5)\<rparr>"
  have at: "at_phys id_mmu ?h (h_regs ?h A0) 0x1000 context_slots" "at_phys id_mmu ?h (h_regs ?h A1) 0x2000 context_slots"
    by (simp_all add: context_slots_def hart0_def phys_def id_mmu_def)
  have sep: "(\<lambda>s. 0x1000 + snd s) ` set context_slots \<inter> (\<lambda>s. 0x2000 + snd s) ` set context_slots = {}"
    by (simp add: context_slots_def)
  have reg: "A1 \<notin> set Context_fields" by (simp add: Context_fields_def)
  obtain h1 where "run id_mmu id (swtch A0 A1) ?h = Some h1"
    "\<forall>r\<in>set Context_fields. h_regs h1 r = h_mem ?h (0x2000 + field_offset Context_fields r)"
    "\<forall>r. r \<notin> set Context_fields \<longrightarrow> h_regs h1 r = h_regs ?h r"
    using swtch_roundtrip[OF at sep reg, of id] by (elim exE conjE) (rule that; assumption)
  then show ?thesis by (auto simp: hart0_def Context_fields_def)
qed

section \<open>The trap frame as a structure\<close>

datatype tf_field = Kernel_satp | Kernel_sp | Kernel_trap | Epc | Kernel_hartid | Tf reg

text \<open>The fields of \<^verbatim>\<open>Trapframe\<close> in \<^verbatim>\<open>proc.rs\<close>, in their order.\<close>

definition Trapframe_fields :: "tf_field list" where
  "Trapframe_fields =
    [Kernel_satp, Kernel_sp, Kernel_trap, Epc, Kernel_hartid, Tf RA, Tf SP, Tf GP, Tf TP, Tf T0, Tf T1,
     Tf S0, Tf S1, Tf A0, Tf A1, Tf A2, Tf A3, Tf A4, Tf A5, Tf A6, Tf A7, Tf S2, Tf S3, Tf S4, Tf S5,
     Tf S6, Tf S7, Tf S8, Tf S9, Tf S10, Tf S11, Tf T3, Tf T4, Tf T5, Tf T6]"

definition Trapframe_get :: "(usize \<Rightarrow> usize) \<Rightarrow> usize \<Rightarrow> tf_field \<Rightarrow> usize" where
  "Trapframe_get mem tf f = mem (tf + field_offset Trapframe_fields f)"

text \<open>
  (C19) The kernel's view of the trap frame is shifted. The structure \<^verbatim>\<open>Trapframe\<close> has no field
  for \<^verbatim>\<open>t2\<close>, so from \<^verbatim>\<open>s0\<close> on its fields lie eight bytes below the slots that
  \<^verbatim>\<open>uservec\<close> writes: after a trap the fields up to \<^verbatim>\<open>t1\<close> hold their registers, but
  the field \<^verbatim>\<open>s0\<close> holds \<^verbatim>\<open>t2\<close>, the field \<^verbatim>\<open>a0\<close> holds \<^verbatim>\<open>s1\<close>, and the
  field \<^verbatim>\<open>a7\<close>, the system call number, holds \<^verbatim>\<open>a6\<close>.
\<close>

theorem Trapframe_shifted:
  assumes "frame_mapped mmu (c_satp (h_csrs h)) tf" and "h_mode h = SupervisorMode"
  shows "\<exists>h1. run mmu call uservec h = Some h1 \<and>
    (\<forall>r\<in>{RA, SP, GP, TP, T0, T1}. Trapframe_get (h_mem h1) tf (Tf r) = h_regs h r) \<and>
    Trapframe_get (h_mem h1) tf (Tf S0) = h_regs h T2 \<and>
    Trapframe_get (h_mem h1) tf (Tf A0) = h_regs h S1 \<and>
    Trapframe_get (h_mem h1) tf (Tf A1) = h_regs h A0 \<and>
    Trapframe_get (h_mem h1) tf (Tf A7) = h_regs h A6"
proof -
  obtain h1 where h1: "run mmu call uservec h = Some h1"
    "h_mem h1 = (saved user_slots tf (h_regs h) (h_mem h))(tf + 112 := h_regs h A0)"
    using run_uservec[OF assms, of call] by (elim exE conjE) (rule that; assumption)
  have slot: "h_mem h1 (tf + off) = h_regs h r" if "(r, off) \<in> set user_slots" for r off
    using that h1(2) saved_slot[OF user_slots_ok(2) that, of tf "h_regs h" "h_mem h"] by (auto simp: user_slots_def)
  have "h_mem h1 (tf + 112) = h_regs h A0" by (simp add: h1(2))
  with h1(1) slot show ?thesis
    by (simp add: Trapframe_get_def field_offset_def Trapframe_fields_def user_slots_def)
qed

theorem Trapframe_shifted_witness:
  "\<exists>h1. run linear_mmu id uservec (hart0 SupervisorMode) = Some h1 \<and>
     Trapframe_get (h_mem h1) 0x80200000 (Tf A0) = 9 \<and> h_regs (hart0 SupervisorMode) A0 = 7"
proof -
  have "h_mode (hart0 SupervisorMode) = SupervisorMode" by (simp add: hart0_def)
  from Trapframe_shifted[OF linear_frame this, of id] show ?thesis by (auto simp: hart0_def)
qed

end
