(* ===== verification/Boot.thy ===== *)
theory Boot
  imports HartProofs
begin

text \<open>
  From the reset of a hart to its first timer interrupt: the stack \<^verbatim>\<open>entry.rs\<close> sets up,
  the state \<^verbatim>\<open>start.rs\<close> leaves when it enters \<^verbatim>\<open>main\<close>, and the handler
  \<^verbatim>\<open>timervec\<close> running on the scratch area that \<^verbatim>\<open>timerinit\<close> prepared.
\<close>

section \<open>The timer interrupt\<close>

text \<open>
  What \<^verbatim>\<open>timervec\<close> relies on: the scratch register points to an aligned row that holds the
  address of the compare register of this hart, which lies outside the row.
\<close>

definition timer_ready :: "hart \<Rightarrow> bool" where
  "timer_ready h \<longleftrightarrow>
     (let s = c_mscratch (h_csrs h); d = h_mem h (s + 24)
      in s AND 7 = 0 \<and> d AND 7 = 0 \<and> d \<notin> {s, s + 8, s + 16, s + 24, s + 32})"

lemma phys_machine: "h_mode h = MachineMode \<Longrightarrow> va AND 7 = 0 \<Longrightarrow> phys mmu h va = Some va"
  by (simp add: phys_def)

lemma run_timervec:
  assumes "h_mode h = MachineMode" and "timer_ready h" and "h_regs h ZERO = 0"
  defines "s \<equiv> c_mscratch (h_csrs h)"
  defines "d \<equiv> h_mem h (s + 24)"
  shows "\<exists>h'. run mmu call timervec h = Some h' \<and> h_regs h' = h_regs h \<and>
    c_mscratch (h_csrs h') = s \<and> c_sip (h_csrs h') = SSIP \<and>
    h_mem h' = (h_mem h)(s := h_regs h A1, s + 8 := h_regs h A2, s + 16 := h_regs h A3,
      d := h_mem h d + h_mem h (s + 32)) \<and>
    h_pc h' = c_mepc (h_csrs h) \<and> h_mode h' = mret_mode (c_mstatus (h_csrs h))"
proof -
  have al: "s AND 7 = 0" "d AND 7 = 0" and out: "d \<noteq> s" "d \<noteq> s + 8" "d \<noteq> s + 16" "d \<noteq> s + 24" "d \<noteq> s + 32"
    using assms(2) by (simp_all add: timer_ready_def Let_def s_def d_def)
  have off: "(s + off) AND 7 = 0" if "off \<in> {8, 16, 24, 32}" for off
    using aligned_add[OF al(1), of off] that by auto
  show ?thesis
    using assms(1) al out out[symmetric] off[of 8] off[of 16] off[of 24] off[of 32]
    by (simp add: timervec_def phys_def d_def[symmetric] s_def[symmetric] mret_def Let_def SSIP_def fun_eq_iff)
qed

section \<open>start\<close>

lemma mret_supervisor: "mret_mode ((s AND NOT MPP_MASK OR push_bit 11 (MPP_bits MPP_Supervisor)) OR MIE) = SupervisorMode"
proof -
  have "drop_bit 11 ((s AND NOT MPP_MASK OR push_bit 11 1) OR MIE) AND 3 = (1::usize)"
  proof (rule bit_word_eqI)
    fix n
    have "bit (3::usize) n \<longleftrightarrow> n = 0 \<or> n = 1" "bit (1::usize) n \<longleftrightarrow> n = 0"
      using bit_mask_iff[of 2 n, where 'a = usize] by (auto simp: mask_eq_exp_minus_1 bit_1_iff less_Suc_eq numeral_2_eq_2)
    then show "bit (drop_bit 11 ((s AND NOT MPP_MASK OR push_bit 11 1) OR MIE) AND 3) n = bit (1::usize) n"
      by (auto simp: bit_simps MPP_MASK_def MIE_def)
  qed
  then show ?thesis by (simp add: mret_mode_def Let_def)
qed

lemma unat_usize: "n < 2 ^ 64 \<Longrightarrow> unat (of_nat n :: usize) = n"
  by (simp add: unat_of_nat)

lemma row_facts:
  assumes "i < NCPU" and "KERNBASE \<le> scratch" and "scratch + 320 < 2 ^ 64" and "8 dvd scratch"
  defines "row \<equiv> of_nat (scratch + 40 * i) :: usize" and "cmp \<equiv> of_nat (clint_mtimecmp i) :: usize"
  shows "row AND 7 = 0" "cmp AND 7 = 0" "cmp \<notin> {row, row + 8, row + 16, row + 24, row + 32}"
proof -
  have u: "unat (row + of_nat k) = scratch + 40 * i + k" if "k \<le> 32" for k
  proof -
    have "row + of_nat k = of_nat (scratch + 40 * i + k)" by (simp add: row_def)
    moreover have "scratch + 40 * i + k < 2 ^ 64" using assms(1,3) that by (simp add: NCPU_def)
    ultimately show ?thesis by (metis unat_usize)
  qed
  have c: "unat cmp = clint_mtimecmp i" unfolding cmp_def
    using assms(1) by (intro unat_usize) (simp add: clint_mtimecmp_def CLINT_def NCPU_def)
  show "row AND 7 = 0" using u[of 0] assms(4) by (simp add: aligned_unat dvd_add)
  have "8 dvd clint_mtimecmp i" by (simp add: clint_mtimecmp_def CLINT_def dvd_add)
  then show "cmp AND 7 = 0" by (simp add: aligned_unat c)
  have "clint_mtimecmp i < KERNBASE" using assms(1) by (simp add: clint_mtimecmp_def CLINT_def NCPU_def KERNBASE_def)
  then have "cmp \<noteq> row + of_nat k" if "k \<le> 32" for k using u[OF that] c assms(2) by auto
  from this[of 0] this[of 8] this[of 16] this[of 24] this[of 32]
  show "cmp \<notin> {row, row + 8, row + 16, row + 24, row + 32}" by simp
qed

definition booted :: "nat \<Rightarrow> nat \<Rightarrow> hart \<Rightarrow> hart \<Rightarrow> bool" where
  "booted main vec h h' \<longleftrightarrow>
     h_mode h' = SupervisorMode \<and> h_pc h' = of_nat main \<and> h_regs h' TP = c_mhartid (h_csrs h) \<and>
     c_satp (h_csrs h') = 0 \<and> c_medeleg (h_csrs h') = 0xffff \<and> c_mideleg (h_csrs h') = 0xffff \<and>
     (\<forall>n\<in>{1, 5, 9}. bit (c_sie (h_csrs h')) n) \<and> bit (c_mie (h_csrs h')) 7 \<and>
     c_mtvec (h_csrs h') = of_nat vec"

text \<open>
  The compare register of hart \<open>i\<close> holds \<open>t\<close>, and the scratch row is ready for the handler.
\<close>

definition timer_armed :: "nat \<Rightarrow> usize \<Rightarrow> hart \<Rightarrow> bool" where
  "timer_armed i t h \<longleftrightarrow>
     timer_ready h \<and> h_mem h (c_mscratch (h_csrs h) + 24) = of_nat (clint_mtimecmp i) \<and>
     h_mem h (c_mscratch (h_csrs h) + 32) = 1000000 \<and> h_mem h (of_nat (clint_mtimecmp i)) = t"

lemma start_ok:
  assumes i: "unat (c_mhartid (h_csrs h)) < NCPU" and row: "KERNBASE \<le> scratch" "scratch + 320 < 2 ^ 64" "8 dvd scratch"
    and vec: "vec < 2 ^ 64" and t: "unat (h_mem h (of_nat CLINT_MTIME)) + 1000000 < 2 ^ 64"
  shows "\<exists>h'. start main vec scratch h = Inr h' \<and> booted main vec h h' \<and>
    timer_armed (unat (c_mhartid (h_csrs h))) (h_mem h (of_nat CLINT_MTIME) + 1000000) h'"
proof -
  let ?i = "unat (c_mhartid (h_csrs h))"
  let ?t = "unat (h_mem h (of_nat CLINT_MTIME)) + 1000000"
  define row where "row = (of_nat (scratch + 40 * ?i) :: usize)"
  define cmp where "cmp = (of_nat (clint_mtimecmp ?i) :: usize)"
  note rf = row_facts[OF i row, folded row_def cmp_def]
  let ?mem = "(h_mem h)(cmp := of_nat ?t, row + 24 := cmp, row + 32 := 1000000)"
  have "start main vec scratch h = Inr (mret (set_reg TP (c_mhartid (h_csrs h)) (h\<lparr>h_mem := ?mem,
      h_csrs := (h_csrs h)\<lparr>c_mepc := of_nat main, c_satp := 0, c_medeleg := 0xffff, c_mideleg := 0xffff,
        c_sie := ((c_sie (h_csrs h) OR SEIE) OR SSIE) OR STIE, c_pmpaddr0 := 0x3fffffffffffff,
        c_pmpcfg0 := c_pmpcfg0 (h_csrs h) OR (push_bit 3 1 OR 7), c_mscratch := row,
        c_mtvec := of_nat vec,
        c_mstatus := (c_mstatus (h_csrs h) AND NOT MPP_MASK OR push_bit 11 1) OR MIE, c_mie := c_mie (h_csrs h) OR MTIE\<rparr>\<rparr>)))"
    using i vec t
    by (simp add: start_def timerinit_def set_pmp_def mtvec_write_def csr_defs Let_def row_def cmp_def)
  moreover have "mret_mode ((c_mstatus (h_csrs h) AND NOT MPP_MASK OR push_bit 11 1) OR MIE) = SupervisorMode"
    using mret_supervisor[of "c_mstatus (h_csrs h)"] by simp
  moreover have "of_nat ?t = h_mem h (of_nat CLINT_MTIME) + 1000000" by (simp add: of_nat_add)
  ultimately show ?thesis using rf
    by (simp add: mret_def Let_def booted_def timer_armed_def timer_ready_def SEIE_def SSIE_def STIE_def MTIE_def
        bit_simps cmp_def[symmetric])
qed

text \<open>
  \<^verbatim>\<open>start\<close> brings a hart with a valid id to \<^verbatim>\<open>main\<close> without a panic: in
  supervisor mode without paging, with its id in \<^verbatim>\<open>tp\<close>, exceptions and interrupts delegated
  and enabled, the machine-mode timer interrupt enabled and vectored to the handler, the compare
  register one interval ahead of the clock and the scratch row of the hart filled in.
\<close>

theorem start_reaches_main:
  assumes "unat (c_mhartid (h_csrs h)) < NCPU"
    and "KERNBASE \<le> scratch" and "scratch + 320 < 2 ^ 64" and "8 dvd scratch"
    and "vec < 2 ^ 64" and "unat (h_mem h (of_nat CLINT_MTIME)) + 1000000 < 2 ^ 64"
  shows "\<exists>h'. start main vec scratch h = Inr h' \<and> booted main vec h h' \<and>
    timer_armed (unat (c_mhartid (h_csrs h))) (h_mem h (of_nat CLINT_MTIME) + 1000000) h'"
  using assms by (rule start_ok)

theorem start_reaches_main_witness:
  "\<exists>h'. start 0x80000400 0x80000800 0x80001000 (hart0 MachineMode) = Inr h' \<and>
     h_mode h' = SupervisorMode \<and> h_pc h' = 0x80000400"
  using start_reaches_main[of "hart0 MachineMode" "0x80001000" "0x80000800" "0x80000400"]
  by (auto simp: hart0_def csrs0_def NCPU_def KERNBASE_def booted_def)

text \<open>
  (C20) Every timer interrupt re-arms the timer and is invisible to the interrupted code: on an
  armed timer \<^verbatim>\<open>timervec\<close> runs to its end, moves the compare register one interval ahead,
  raises a supervisor software interrupt, returns to \<^verbatim>\<open>mepc\<close> with every register as it was,
  and leaves the timer armed, so that a chain of interrupts that starts at \<^verbatim>\<open>start\<close> never
  ends.
\<close>

theorem timervec_rearms:
  assumes "h_mode h = MachineMode" and "timer_armed i t h" and "h_regs h ZERO = 0"
  shows "\<exists>h'. run mmu call timervec h = Some h' \<and> h_regs h' = h_regs h \<and> h_pc h' = c_mepc (h_csrs h) \<and>
    bit (c_sip (h_csrs h')) 1 \<and> timer_armed i (t + 1000000) h'"
proof -
  have r: "timer_ready h" using assms(2) by (simp add: timer_armed_def)
  from run_timervec[OF assms(1) r assms(3), of mmu call] obtain h' where h':
    "run mmu call timervec h = Some h'" "h_regs h' = h_regs h" "c_mscratch (h_csrs h') = c_mscratch (h_csrs h)"
    "c_sip (h_csrs h') = SSIP" "h_pc h' = c_mepc (h_csrs h)"
    "h_mem h' = (h_mem h)(c_mscratch (h_csrs h) := h_regs h A1, c_mscratch (h_csrs h) + 8 := h_regs h A2,
       c_mscratch (h_csrs h) + 16 := h_regs h A3,
       of_nat (clint_mtimecmp i) := h_mem h (of_nat (clint_mtimecmp i)) + h_mem h (c_mscratch (h_csrs h) + 32))"
    using assms(2) unfolding timer_armed_def by auto
  have "timer_armed i (t + 1000000) h'"
    using assms(2) h'(3,6) by (auto simp: timer_armed_def timer_ready_def Let_def)
  with h' show ?thesis by (auto simp: SSIP_def bit_simps)
qed

theorem timervec_rearms_witness:
  "\<exists>h h'. run id_mmu id timervec h = Some h' \<and> timer_armed 0 1000005 h'"
proof -
  let ?h = "(hart0 MachineMode)\<lparr>h_csrs := csrs0\<lparr>c_mscratch := 0x1000\<rparr>,
    h_mem := (\<lambda>_. 0)(0x1018 := of_nat (clint_mtimecmp 0), 0x1020 := 1000000, of_nat (clint_mtimecmp 0) := 5)\<rparr>"
  have "timer_armed 0 5 ?h"
    by (simp add: timer_armed_def timer_ready_def Let_def clint_mtimecmp_def CLINT_def)
  from timervec_rearms[OF _ this, of id_mmu id] show ?thesis by (auto simp: hart0_def)
qed

text \<open>
  (C34) The boot stacks are disjoint and inside \<^verbatim>\<open>STACK0\<close>: hart \<open>i\<close> starts at the top of the
  \<open>i\<close>-th block of 16 KiB, the last hart at the end of the array.
\<close>

theorem entry_stack:
  assumes "unat (c_mhartid (h_csrs h)) < NCPU" and "unat stack0 + 4096 * 4 * NCPU < 2 ^ 64"
  shows "\<exists>h'. run mmu call (entry stack0) h = Some h' \<and>
    unat (h_regs h' SP) = unat stack0 + 16384 * (unat (c_mhartid (h_csrs h)) + 1) \<and>
    unat (h_regs h' SP) \<le> unat stack0 + 4096 * 4 * NCPU"
proof -
  let ?i = "unat (c_mhartid (h_csrs h))"
  have sp: "stack0 + 16384 * (c_mhartid (h_csrs h) + 1) = of_nat (unat stack0 + 16384 * (?i + 1))" by simp
  have "unat (stack0 + 16384 * (c_mhartid (h_csrs h) + 1)) = unat stack0 + 16384 * (?i + 1)"
    unfolding sp using assms by (intro unat_usize) (simp add: NCPU_def)
  then show ?thesis using assms(1) by (simp add: entry_def NCPU_def)
qed

theorem entry_stack_witness:
  "\<exists>h'. run id_mmu id (entry 0x80010000) (hart0 MachineMode) = Some h' \<and> unat (h_regs h' SP) = 0x80014000"
  using entry_stack[of "hart0 MachineMode" "0x80010000" id_mmu id] by (auto simp: hart0_def csrs0_def NCPU_def)

end
