(* ===== verification/Spinlock.thy ===== *)
theory Spinlock
  imports Riscv Hart
begin

text \<open>
  \<^verbatim>\<open>src/kernel/spinlock.rs\<close> and the interrupt nesting of \<^verbatim>\<open>Cpu\<close> in
  \<^verbatim>\<open>src/kernel/proc.rs\<close>. Each core has its status register and the fields \<^verbatim>\<open>noff\<close>
  and \<^verbatim>\<open>intena\<close>; a mutex is the core that holds it, if any. The guards a core owns are part
  of the state of its program: Rust's ownership says which may be dropped. The loop of
  \<^verbatim>\<open>lock\<close> is a sequence of attempts, so the cores interleave as a step relation.
\<close>

section \<open>Interrupt nesting\<close>

record core =
  co_csrs :: csrs
  co_noff :: int
  co_intena :: bool

definition Cpu_new :: "csrs \<Rightarrow> core" where
  "Cpu_new c = \<lparr>co_csrs = c, co_noff = 0, co_intena = False\<rparr>"

text \<open>\<^verbatim>\<open>noff\<close> is an \<^verbatim>\<open>isize\<close>, whose additions panic on overflow.\<close>

definition Cpu_lock :: "bool \<Rightarrow> core \<Rightarrow> core rust" where
  "Cpu_lock old c =
     (let c1 = (if co_noff c = 0 then c\<lparr>co_intena := old\<rparr> else c)
      in if co_noff c1 + 1 < 2 ^ 63 then Inr (c1\<lparr>co_noff := co_noff c1 + 1\<rparr>) else Inl Overflow)"

definition Cpu_unlock :: "core \<Rightarrow> core rust" where
  "Cpu_unlock c =
     rbind (rassert (\<not> intr_get (co_csrs c)) ''unlock - interruptible'') (\<lambda>_.
     rbind (rassert (co_noff c \<ge> 1) ''unlock'') (\<lambda>_.
       let c1 = c\<lparr>co_noff := co_noff c - 1\<rparr>
       in Inr (if co_noff c1 = 0 \<and> co_intena c1 then c1\<lparr>co_csrs := intr_on (co_csrs c1)\<rparr> else c1)))"

definition intr_lock :: "core \<Rightarrow> core rust" where
  "intr_lock c =
     (let old = intr_get (co_csrs c)
      in Cpu_lock old (c\<lparr>co_csrs := intr_off (co_csrs c)\<rparr>))"

definition intr_unlock :: "core \<Rightarrow> core rust" where
  "intr_unlock c = Cpu_unlock c"

section \<open>Mutexes\<close>

record smp =
  sm_core :: "nat \<Rightarrow> core"
  sm_locked :: "nat \<Rightarrow> nat option"

text \<open>
  The mutexes are numbered; \<open>i\<close> is the core that executes the operation, \<^verbatim>\<open>my_cpu()\<close>.
\<close>

definition my_cpu :: "nat \<Rightarrow> smp \<Rightarrow> core rust" where
  "my_cpu i s = (if i < NCPU then Inr (sm_core s i) else Inl OutOfBounds)"

definition holding :: "nat \<Rightarrow> nat \<Rightarrow> smp \<Rightarrow> bool" where
  "holding i l s \<longleftrightarrow> sm_locked s l = Some i"

definition set_core :: "nat \<Rightarrow> core \<Rightarrow> smp \<Rightarrow> smp" where
  "set_core i c s = s\<lparr>sm_core := (sm_core s)(i := c)\<rparr>"

text \<open>\<^verbatim>\<open>lock\<close> up to its loop, and one attempt of the loop.\<close>

definition Mutex_lock_enter :: "nat \<Rightarrow> nat \<Rightarrow> smp \<Rightarrow> smp rust" where
  "Mutex_lock_enter i l s =
     rbind (my_cpu i s) (\<lambda>c.
     rbind (intr_lock c) (\<lambda>c1.
     let s1 = set_core i c1 s
     in rbind (rassert (\<not> holding i l s1) ''acquire'') (\<lambda>_. Inr s1)))"

definition Mutex_lock_try :: "nat \<Rightarrow> nat \<Rightarrow> smp \<Rightarrow> bool \<times> smp" where
  "Mutex_lock_try i l s =
     (if sm_locked s l = None then (True, s\<lparr>sm_locked := (sm_locked s)(l := Some i)\<rparr>) else (False, s))"

definition MutexGuard_holding :: "nat \<Rightarrow> nat \<Rightarrow> smp \<Rightarrow> bool rust" where
  "MutexGuard_holding i l s =
     rbind (my_cpu i s) (\<lambda>c.
     rbind (rassert (\<not> intr_get (co_csrs c)) ''interrupts enabled'') (\<lambda>_. Inr (holding i l s)))"

text \<open>
  Dropping a guard runs its destructor and then drops its fields, of which the interrupt lock has
  a destructor.
\<close>

definition MutexGuard_drop :: "nat \<Rightarrow> nat \<Rightarrow> smp \<Rightarrow> smp rust" where
  "MutexGuard_drop i l s =
     rbind (MutexGuard_holding i l s) (\<lambda>b.
     rbind (rassert b ''release'') (\<lambda>_.
     let s1 = s\<lparr>sm_locked := (sm_locked s)(l := None)\<rparr>
     in rbind (my_cpu i s1) (\<lambda>c.
        rbind (Cpu_unlock c) (\<lambda>c1. Inr (set_core i c1 s1)))))"

definition force_unlock :: "nat \<Rightarrow> nat \<Rightarrow> smp \<Rightarrow> smp rust" where
  "force_unlock i l s =
     rbind (rassert (holding i l s) ''force unlock'') (\<lambda>_.
     let s1 = s\<lparr>sm_locked := (sm_locked s)(l := None)\<rparr>
     in rbind (my_cpu i s1) (\<lambda>c.
        rbind (intr_unlock c) (\<lambda>c1. Inr (set_core i c1 s1))))"

section \<open>Cores that run together\<close>

text \<open>
  The program of a core: the guards it owns, in any order, the interrupt locks of its own, and
  the mutex it is acquiring, if any.
\<close>

record prog =
  pr_guards :: "nat list"
  pr_intr :: nat
  pr_want :: "nat option"

type_synonym sys = "smp \<times> (nat \<Rightarrow> prog)"

inductive smp_step :: "sys \<Rightarrow> sys \<Rightarrow> bool" where
  enter: "i < NCPU \<Longrightarrow> pr_want (P i) = None \<Longrightarrow> Mutex_lock_enter i l s = Inr s' \<Longrightarrow>
    smp_step (s, P) (s', P(i := (P i)\<lparr>pr_want := Some l\<rparr>))"
| acquire: "i < NCPU \<Longrightarrow> pr_want (P i) = Some l \<Longrightarrow> Mutex_lock_try i l s = (True, s') \<Longrightarrow>
    smp_step (s, P) (s', P(i := (P i)\<lparr>pr_want := None, pr_guards := l # pr_guards (P i)\<rparr>))"
| spin: "i < NCPU \<Longrightarrow> pr_want (P i) = Some l \<Longrightarrow> Mutex_lock_try i l s = (False, s') \<Longrightarrow>
    smp_step (s, P) (s', P)"
| release: "i < NCPU \<Longrightarrow> pr_want (P i) = None \<Longrightarrow> l \<in> set (pr_guards (P i)) \<Longrightarrow>
    MutexGuard_drop i l s = Inr s' \<Longrightarrow>
    smp_step (s, P) (s', P(i := (P i)\<lparr>pr_guards := remove1 l (pr_guards (P i))\<rparr>))"
| push: "i < NCPU \<Longrightarrow> pr_want (P i) = None \<Longrightarrow> intr_lock (sm_core s i) = Inr c \<Longrightarrow>
    smp_step (s, P) (set_core i c s, P(i := (P i)\<lparr>pr_intr := Suc (pr_intr (P i))\<rparr>))"
| pop: "i < NCPU \<Longrightarrow> pr_want (P i) = None \<Longrightarrow> pr_intr (P i) > 0 \<Longrightarrow> Cpu_unlock (sm_core s i) = Inr c \<Longrightarrow>
    smp_step (s, P) (set_core i c s, P(i := (P i)\<lparr>pr_intr := pr_intr (P i) - 1\<rparr>))"

definition smp_start :: "sys \<Rightarrow> bool" where
  "smp_start x \<longleftrightarrow> (\<forall>i. \<exists>c. sm_core (fst x) i = Cpu_new c) \<and> sm_locked (fst x) = (\<lambda>_. None) \<and>
     snd x = (\<lambda>_. \<lparr>pr_guards = [], pr_intr = 0, pr_want = None\<rparr>)"

inductive reachable :: "sys \<Rightarrow> bool" where
  init: "smp_start x \<Longrightarrow> reachable x"
| step: "reachable x \<Longrightarrow> smp_step x y \<Longrightarrow> reachable y"

section \<open>Invariant\<close>

definition depth :: "prog \<Rightarrow> nat" where
  "depth p = length (pr_guards p) + pr_intr p + (if pr_want p = None then 0 else 1)"

definition core_ok :: "core \<Rightarrow> prog \<Rightarrow> bool" where
  "core_ok c p \<longleftrightarrow> co_noff c = int (depth p) \<and> (depth p > 0 \<longrightarrow> \<not> intr_get (co_csrs c)) \<and> distinct (pr_guards p)"

definition smp_inv :: "sys \<Rightarrow> bool" where
  "smp_inv x \<longleftrightarrow>
     (\<forall>i<NCPU. core_ok (sm_core (fst x) i) (snd x i) \<and>
        (\<forall>l. l \<in> set (pr_guards (snd x i)) \<longleftrightarrow> sm_locked (fst x) l = Some i) \<and>
        (\<forall>l. pr_want (snd x i) = Some l \<longrightarrow> sm_locked (fst x) l \<noteq> Some i)) \<and>
     (\<forall>l i. sm_locked (fst x) l = Some i \<longrightarrow> i < NCPU)"

lemma intr_lock_Inr:
  assumes "intr_lock c = Inr c'"
  shows "\<not> intr_get (co_csrs c')" "co_noff c' = co_noff c + 1"
    "co_intena c' = (if co_noff c = 0 then intr_get (co_csrs c) else co_intena c)"
    "co_csrs c' = intr_off (co_csrs c)"
  using assms by (auto simp: intr_lock_def Cpu_lock_def Let_def split: if_splits)

lemma Cpu_unlock_Inr:
  assumes "Cpu_unlock c = Inr c'"
  shows "co_noff c' = co_noff c - 1" "co_noff c \<ge> 1" "co_noff c' > 0 \<Longrightarrow> \<not> intr_get (co_csrs c')"
    "co_intena c' = co_intena c" "\<not> intr_get (co_csrs c)"
    "co_csrs c' = (if co_noff c = 1 \<and> co_intena c then intr_on (co_csrs c) else co_csrs c)"
  using assms by (auto simp: Cpu_unlock_def Let_def split: if_splits)

lemma Cpu_unlock_ok: "\<not> intr_get (co_csrs c) \<Longrightarrow> co_noff c \<ge> 1 \<Longrightarrow> \<exists>c'. Cpu_unlock c = Inr c'"
  by (simp add: Cpu_unlock_def Let_def)

lemma Mutex_lock_enter_Inr:
  assumes "Mutex_lock_enter i l s = Inr s'"
  shows "\<exists>c. intr_lock (sm_core s i) = Inr c \<and> s' = set_core i c s" "sm_locked s l \<noteq> Some i"
  using assms by (auto simp: Mutex_lock_enter_def my_cpu_def holding_def set_core_def Let_def split: if_splits)

lemma MutexGuard_drop_Inr:
  assumes "MutexGuard_drop i l s = Inr s'"
  shows "\<exists>c. Cpu_unlock (sm_core s i) = Inr c \<and> s' = set_core i c (s\<lparr>sm_locked := (sm_locked s)(l := None)\<rparr>)"
    "sm_locked s l = Some i"
  using assms by (auto simp: MutexGuard_drop_def MutexGuard_holding_def my_cpu_def holding_def Let_def split: if_splits)

lemma core_ok_lock:
  "core_ok c p \<Longrightarrow> intr_lock c = Inr c' \<Longrightarrow> depth p' = Suc (depth p) \<Longrightarrow> distinct (pr_guards p') \<Longrightarrow> core_ok c' p'"
  using intr_lock_Inr[of c c'] by (simp add: core_ok_def)

lemma core_ok_unlock:
  "core_ok c p \<Longrightarrow> Cpu_unlock c = Inr c' \<Longrightarrow> depth p = Suc (depth p') \<Longrightarrow> distinct (pr_guards p') \<Longrightarrow> core_ok c' p'"
  using Cpu_unlock_Inr[of c c'] by (simp add: core_ok_def)

lemma smp_invD:
  assumes "smp_inv x" and "i < NCPU"
  shows "core_ok (sm_core (fst x) i) (snd x i)" "distinct (pr_guards (snd x i))"
    "l \<in> set (pr_guards (snd x i)) \<longleftrightarrow> sm_locked (fst x) l = Some i"
    "pr_want (snd x i) = Some l \<Longrightarrow> sm_locked (fst x) l \<noteq> Some i"
  using assms by (auto simp: smp_inv_def core_ok_def)

text \<open>A step of core \<open>i\<close> touches its own program and at most one mutex.\<close>

lemma smp_invI:
  assumes "smp_inv x" and "i < NCPU" and "core_ok (sm_core s' i) p'"
    and "\<And>j. j \<noteq> i \<Longrightarrow> sm_core s' j = sm_core (fst x) j"
    and "\<And>l. l \<in> set (pr_guards p') \<longleftrightarrow> sm_locked s' l = Some i"
    and "\<And>l. pr_want p' = Some l \<Longrightarrow> sm_locked s' l \<noteq> Some i"
    and "\<And>l j. j \<noteq> i \<Longrightarrow> sm_locked s' l = Some j \<longleftrightarrow> sm_locked (fst x) l = Some j"
  shows "smp_inv (s', (snd x)(i := p'))"
proof -
  have "core_ok (sm_core s' j) (((snd x)(i := p')) j) \<and>
      (\<forall>l. l \<in> set (pr_guards (((snd x)(i := p')) j)) \<longleftrightarrow> sm_locked s' l = Some j) \<and>
      (\<forall>l. pr_want (((snd x)(i := p')) j) = Some l \<longrightarrow> sm_locked s' l \<noteq> Some j)" if "j < NCPU" for j
  proof (cases "j = i")
    case True
    then show ?thesis using assms(3,5,6) by simp
  next
    case False
    then show ?thesis using smp_invD[OF assms(1) that] assms(4,7)[OF False] by simp
  qed
  moreover have "j < NCPU" if "sm_locked s' l = Some j" for l j
    using that assms(1,2,7) by (cases "j = i") (auto simp: smp_inv_def)
  ultimately show ?thesis unfolding smp_inv_def fst_conv snd_conv by blast
qed

lemma smp_inv_step:
  assumes "smp_step x y" and inv: "smp_inv x"
  shows "smp_inv y"
  using assms(1)
proof (cases rule: smp_step.cases)
  case (enter i P l s s')
  obtain c where c: "intr_lock (sm_core s i) = Inr c" "s' = set_core i c s" "sm_locked s l \<noteq> Some i"
    using Mutex_lock_enter_Inr[OF enter(5)] by blast
  have "core_ok c ((P i)\<lparr>pr_want := Some l\<rparr>)"
    using smp_invD(1,2)[OF inv enter(3)] enter(1,4) c(1) by - (rule core_ok_lock[of "sm_core s i" "P i"], simp_all add: depth_def)
  then have "smp_inv (s', (snd x)(i := (P i)\<lparr>pr_want := Some l\<rparr>))"
    using smp_invD(3)[OF inv enter(3)] enter(1) c(2,3) by - (rule smp_invI[OF inv enter(3)], auto simp: set_core_def)
  then show ?thesis using enter(1,2) by simp
next
  case (acquire i P l s s')
  have f: "sm_locked s l = None" "s' = s\<lparr>sm_locked := (sm_locked s)(l := Some i)\<rparr>"
    using acquire(5) by (auto simp: Mutex_lock_try_def split: if_splits)
  let ?p = "(P i)\<lparr>pr_want := None, pr_guards := l # pr_guards (P i)\<rparr>"
  have "l \<notin> set (pr_guards (P i))" using smp_invD(3)[OF inv acquire(3)] acquire(1) f(1) by simp
  then have "core_ok (sm_core s i) ?p"
    using smp_invD(1)[OF inv acquire(3)] acquire(1,4) by (simp add: core_ok_def depth_def)
  then have "smp_inv (s', (snd x)(i := ?p))"
    using smp_invD(3)[OF inv acquire(3)] acquire(1) f by - (rule smp_invI[OF inv acquire(3)], auto)
  then show ?thesis using acquire(1,2) by simp
next
  case (spin i P l s s')
  then show ?thesis using inv by (auto simp: Mutex_lock_try_def split: if_splits)
next
  case (release i P l s s')
  obtain c where c: "Cpu_unlock (sm_core s i) = Inr c" "s' = set_core i c (s\<lparr>sm_locked := (sm_locked s)(l := None)\<rparr>)"
    "sm_locked s l = Some i"
    using MutexGuard_drop_Inr[OF release(6)] by blast
  let ?p = "(P i)\<lparr>pr_guards := remove1 l (pr_guards (P i))\<rparr>"
  have d: "distinct (pr_guards (P i))" using smp_invD(2)[OF inv release(3)] release(1) by simp
  have "Suc (length (remove1 l (pr_guards (P i)))) = length (pr_guards (P i))"
    using release(5) by (simp add: length_remove1) (metis Suc_pred length_pos_if_in_set)
  then have "core_ok c ?p"
    using smp_invD(1)[OF inv release(3)] release(1,4) c(1) d
    by - (rule core_ok_unlock[of "sm_core s i" "P i"], simp_all add: depth_def)
  then have "smp_inv (s', (snd x)(i := ?p))"
    using smp_invD(3)[OF inv release(3)] release(1,4) c d by - (rule smp_invI[OF inv release(3)], auto simp: set_core_def)
  then show ?thesis using release(1,2) by simp
next
  case (push i P s c)
  let ?p = "(P i)\<lparr>pr_intr := Suc (pr_intr (P i))\<rparr>"
  have "core_ok c ?p" using smp_invD(1,2)[OF inv push(3)] push(1,4,5)
    by - (rule core_ok_lock[of "sm_core s i" "P i"], simp_all add: depth_def)
  then have "smp_inv (set_core i c s, (snd x)(i := ?p))"
    using smp_invD(3,4)[OF inv push(3)] push(1,4) by - (rule smp_invI[OF inv push(3)], auto simp: set_core_def)
  then show ?thesis using push(1,2) by simp
next
  case (pop i P s c)
  let ?p = "(P i)\<lparr>pr_intr := pr_intr (P i) - 1\<rparr>"
  have "core_ok c ?p" using smp_invD(1,2)[OF inv pop(3)] pop(1,4,5,6)
    by - (rule core_ok_unlock[of "sm_core s i" "P i"], simp_all add: depth_def)
  then have "smp_inv (set_core i c s, (snd x)(i := ?p))"
    using smp_invD(3,4)[OF inv pop(3)] pop(1,4) by - (rule smp_invI[OF inv pop(3)], auto simp: set_core_def)
  then show ?thesis using pop(1,2) by simp
qed

lemma smp_inv_start: "smp_start x \<Longrightarrow> smp_inv x"
  by (auto simp: smp_start_def smp_inv_def core_ok_def depth_def Cpu_new_def)
    (metis core.select_convs(2))

lemma reachable_inv: "reachable x \<Longrightarrow> smp_inv x"
  by (induction rule: reachable.induct) (auto intro: smp_inv_start smp_inv_step)

section \<open>Properties\<close>

text \<open>
  (C8) Mutual exclusion: in every state that cores reach by locking, spinning, dropping guards in
  any order and nesting interrupt locks, a mutex has a guard on at most one core; that core has
  its interrupts off, can drop the guard without a panic, and panics instead of spinning forever
  when it locks the same mutex again.
\<close>

theorem Mutex_exclusion:
  assumes "reachable (s, P)" and "i < NCPU" and "l \<in> set (pr_guards (P i))"
  shows "(\<forall>j<NCPU. l \<in> set (pr_guards (P j)) \<longrightarrow> j = i) \<and> \<not> intr_get (co_csrs (sm_core s i)) \<and>
    (\<exists>s'. MutexGuard_drop i l s = Inr s' \<and> sm_locked s' l = None) \<and>
    (co_noff (sm_core s i) + 1 < 2 ^ 63 \<longrightarrow> Mutex_lock_enter i l s = Inl (AssertFailed ''acquire''))"
proof -
  note inv = reachable_inv[OF assms(1)]
  have own: "sm_locked s l = Some i" using smp_invD(3)[OF inv assms(2)] assms(3) by simp
  have "depth (P i) > 0" using assms(3) by (auto simp: depth_def)
  then have c: "\<not> intr_get (co_csrs (sm_core s i))" "co_noff (sm_core s i) \<ge> 1"
    using smp_invD(1)[OF inv assms(2)] by (simp_all add: core_ok_def)
  obtain c' where "Cpu_unlock (sm_core s i) = Inr c'" using Cpu_unlock_ok[OF c] by blast
  then have "\<exists>s'. MutexGuard_drop i l s = Inr s' \<and> sm_locked s' l = None"
    using own c assms(2)
    by (simp add: MutexGuard_drop_def MutexGuard_holding_def my_cpu_def holding_def set_core_def Let_def)
  moreover have "Mutex_lock_enter i l s = Inl (AssertFailed ''acquire'')" if "co_noff (sm_core s i) + 1 < 2 ^ 63"
    using that own c assms(2)
    by (simp add: Mutex_lock_enter_def my_cpu_def intr_lock_def Cpu_lock_def Let_def holding_def set_core_def rassert_def)
  moreover have "j = i" if "j < NCPU" "l \<in> set (pr_guards (P j))" for j
    using smp_invD(3)[OF inv that(1)] that(2) own by simp
  ultimately show ?thesis using c(1) by blast
qed

definition smp0 :: smp where
  "smp0 = \<lparr>sm_core = (\<lambda>_. Cpu_new (intr_on (\<lparr>c_mhartid = 0, c_mstatus = 0, c_mepc = 0, c_sstatus = 0, c_sip = 0,
     c_sie = 0, c_mie = 0, c_sepc = 0, c_medeleg = 0, c_mideleg = 0, c_stvec = 0, c_mtvec = 0, c_pmpcfg0 = 0,
     c_pmpaddr0 = 0, c_satp = 0, c_mscratch = 0, c_sscratch = 0, c_scause = 0, c_stval = 0\<rparr>))),
     sm_locked = (\<lambda>_. None)\<rparr>"

definition idle :: "nat \<Rightarrow> prog" where "idle = (\<lambda>_. \<lparr>pr_guards = [], pr_intr = 0, pr_want = None\<rparr>)"

lemma smp0_reachable: "reachable (smp0, idle)"
  by (rule init) (auto simp: smp_start_def smp0_def idle_def)

lemma smp0_held: "\<exists>s P. reachable (s, P) \<and> 7 \<in> set (pr_guards (P 2))"
proof -
  obtain s1 where e: "Mutex_lock_enter 2 7 smp0 = Inr s1" and f: "sm_locked s1 7 = None"
    by (simp add: Mutex_lock_enter_def my_cpu_def intr_lock_def Cpu_lock_def Let_def holding_def set_core_def
        smp0_def Cpu_new_def NCPU_def)
  have two: "2 < NCPU" by (simp add: NCPU_def)
  have w: "pr_want (idle 2) = None" by (simp add: idle_def)
  let ?P = "idle(2 := (idle 2)\<lparr>pr_want := Some 7\<rparr>)"
  have "reachable (s1, ?P)" by (rule reachable.step[OF smp0_reachable smp_step.enter[of 2 idle, OF two w e]])
  moreover have t: "Mutex_lock_try 2 7 s1 = (True, s1\<lparr>sm_locked := (sm_locked s1)(7 := Some 2)\<rparr>)"
    using f by (simp add: Mutex_lock_try_def)
  have "pr_want (?P 2) = Some 7" by simp
  ultimately have "reachable (s1\<lparr>sm_locked := (sm_locked s1)(7 := Some 2)\<rparr>,
      ?P(2 := (?P 2)\<lparr>pr_want := None, pr_guards := 7 # pr_guards (?P 2)\<rparr>))"
    using reachable.step smp_step.acquire[of 2 ?P, OF two _ t] by blast
  then show ?thesis by (intro exI) (rule conjI, assumption, simp)
qed

theorem Mutex_exclusion_witness:
  "\<exists>s P s'. reachable (s, P) \<and> 7 \<in> set (pr_guards (P 2)) \<and> \<not> intr_get (co_csrs (sm_core s 2)) \<and> MutexGuard_drop 2 7 s = Inr s'"
proof -
  obtain s P where "reachable (s, P)" "7 \<in> set (pr_guards (P 2))" using smp0_held by blast
  with Mutex_exclusion[of s P 2 7] show ?thesis by (auto simp: NCPU_def)
qed

text \<open>
  Locking and dropping the guard gives back the interrupt state: from any core state whose
  interrupts are off when a lock is already held, taking a free mutex and dropping its guard
  succeeds, frees the mutex, and restores the status register and the nesting depth.
\<close>

theorem Mutex_lock_drop:
  assumes "i < NCPU" and "sm_locked s l = None" and "0 \<le> co_noff (sm_core s i)"
    and "co_noff (sm_core s i) + 1 < 2 ^ 63" and "co_noff (sm_core s i) \<noteq> 0 \<longrightarrow> \<not> intr_get (co_csrs (sm_core s i))"
  shows "\<exists>s1 s2 s3. Mutex_lock_enter i l s = Inr s1 \<and> Mutex_lock_try i l s1 = (True, s2) \<and>
    MutexGuard_drop i l s2 = Inr s3 \<and> sm_locked s3 = sm_locked s \<and>
    co_csrs (sm_core s3 i) = co_csrs (sm_core s i) \<and> co_noff (sm_core s3 i) = co_noff (sm_core s i)"
proof (cases "co_noff (sm_core s i) = 0")
  case True
  then show ?thesis using assms
    by (auto simp: Mutex_lock_enter_def my_cpu_def intr_lock_def Cpu_lock_def Let_def holding_def set_core_def
        Mutex_lock_try_def MutexGuard_drop_def MutexGuard_holding_def Cpu_unlock_def intr_same fun_eq_iff)
next
  case False
  then show ?thesis using assms
    by (auto simp: Mutex_lock_enter_def my_cpu_def intr_lock_def Cpu_lock_def Let_def holding_def set_core_def
        Mutex_lock_try_def MutexGuard_drop_def MutexGuard_holding_def Cpu_unlock_def intr_same fun_eq_iff)
qed

theorem Mutex_lock_drop_witness:
  "\<exists>s1 s2 s3. Mutex_lock_enter 2 7 smp0 = Inr s1 \<and> Mutex_lock_try 2 7 s1 = (True, s2) \<and>
     MutexGuard_drop 2 7 s2 = Inr s3 \<and> co_noff (sm_core s3 2) = 0"
  using Mutex_lock_drop[of 2 smp0 7] by (auto simp: smp0_def Cpu_new_def NCPU_def)

text \<open>
  A core that spins is not stuck: when the holder of the mutex is not itself inside
  \<^verbatim>\<open>lock\<close>, one step of the holder and one attempt of the waiting core give the waiting core
  the guard; when nobody holds the mutex, its next attempt does.
\<close>

theorem Mutex_waiter_progress:
  assumes "reachable (s, P)" and "i < NCPU" and "pr_want (P i) = Some l"
    and "\<forall>j. sm_locked s l = Some j \<longrightarrow> pr_want (P j) = None"
  shows "\<exists>y s' P'. (y = (s, P) \<or> smp_step (s, P) y) \<and> smp_step y (s', P') \<and> l \<in> set (pr_guards (P' i))"
proof -
  note inv = reachable_inv[OF assms(1)]
  have get: "\<exists>s' P'. smp_step (s1, P1) (s', P') \<and> l \<in> set (pr_guards (P' i))"
    if "sm_locked s1 l = None" "pr_want (P1 i) = Some l" for s1 P1
  proof -
    have "Mutex_lock_try i l s1 = (True, s1\<lparr>sm_locked := (sm_locked s1)(l := Some i)\<rparr>)"
      using that(1) by (simp add: Mutex_lock_try_def)
    from smp_step.acquire[of i P1 l s1, OF assms(2) that(2) this] show ?thesis by (intro exI conjI) (assumption, simp)
  qed
  show ?thesis
  proof (cases "sm_locked s l")
    case None
    from get[of s P, OF this assms(3)] show ?thesis by blast
  next
    case (Some j)
    have j: "j < NCPU" "pr_want (P j) = None" using inv Some assms(4) by (auto simp: smp_inv_def)
    have g: "l \<in> set (pr_guards (P j))" using smp_invD(3)[OF inv j(1)] Some by simp
    have ij: "i \<noteq> j" using j(2) assms(3) by auto
    have "depth (P j) > 0" using g by (auto simp: depth_def)
    then obtain c' where "Cpu_unlock (sm_core s j) = Inr c'" "\<not> intr_get (co_csrs (sm_core s j))"
      using smp_invD(1)[OF inv j(1)] Cpu_unlock_ok[of "sm_core s j"] by (auto simp: core_ok_def)
    then obtain s1 where d: "MutexGuard_drop j l s = Inr s1" "sm_locked s1 l = None"
      using Some j(1) by (simp add: MutexGuard_drop_def MutexGuard_holding_def my_cpu_def holding_def set_core_def Let_def)
    let ?P = "P(j := (P j)\<lparr>pr_guards := remove1 l (pr_guards (P j))\<rparr>)"
    have "smp_step (s, P) (s1, ?P)" by (rule smp_step.release[of j P, OF j g d(1)])
    moreover have "pr_want (?P i) = Some l" using assms(3) ij by simp
    ultimately show ?thesis using get[of s1 ?P, OF d(2)] by blast
  qed
qed

theorem Mutex_waiter_progress_witness:
  "\<exists>s P y s' P'. pr_want (P (2::nat)) = Some 7 \<and> smp_step y (s', P') \<and> 7 \<in> set (pr_guards (P' 2)) \<and>
     (y = (s, P) \<or> smp_step (s, P) y)"
proof -
  have two: "2 < NCPU" by (simp add: NCPU_def)
  obtain s1 where e: "Mutex_lock_enter 2 7 smp0 = Inr s1" and f: "sm_locked s1 7 = None"
    by (simp add: Mutex_lock_enter_def my_cpu_def intr_lock_def Cpu_lock_def Let_def holding_def set_core_def
        smp0_def Cpu_new_def NCPU_def)
  let ?P = "idle(2 := (idle 2)\<lparr>pr_want := Some 7\<rparr>)"
  have w: "pr_want (idle 2) = None" by (simp add: idle_def)
  have "reachable (s1, ?P)" by (rule reachable.step[OF smp0_reachable smp_step.enter[of 2 idle, OF two w e]])
  moreover have "pr_want (?P 2) = Some 7" "\<forall>j. sm_locked s1 7 = Some j \<longrightarrow> pr_want (?P j) = None" using f by simp_all
  ultimately show ?thesis using Mutex_waiter_progress[of s1 ?P 2 7] two by blast
qed

end
