(* ===== verification/RwLock.thy ===== *)
theory RwLock
  imports OctoxPrelude
begin

text \<open>
  \<^verbatim>\<open>src/kernel/rwlock.rs\<close>: the reader-writer spin lock, at the granularity of its atomic
  operations. A thread is between two atomic operations of \<^verbatim>\<open>try_read\<close>,
  \<^verbatim>\<open>try_write\<close> or \<^verbatim>\<open>try_upgrade\<close>, or owns a guard, or does nothing; the interrupt
  lock in the guards is that of \<^verbatim>\<open>Spinlock\<close>. The reader count is a \<^verbatim>\<open>usize\<close> whose
  atomic additions wrap.

  The read-modify-write operations of one location are atomic, whatever their ordering. The loads
  between them are \<^verbatim>\<open>Relaxed\<close> and are of the other location than the one just written: nothing
  orders them after that write. The parameter \<open>sc\<close> of the step relation says whether a
  load returns the current value (sequential consistency) or any value.
\<close>

section \<open>Atomic operations\<close>

record rwlock =
  rw_rcnt :: nat
  rw_wcnt :: bool

definition RwLock_new :: rwlock where
  "RwLock_new = \<lparr>rw_rcnt = 0, rw_wcnt = False\<rparr>"

definition rcnt_add :: "rwlock \<Rightarrow> rwlock" where
  "rcnt_add s = s\<lparr>rw_rcnt := (rw_rcnt s + 1) mod 2 ^ 64\<rparr>"

definition rcnt_sub :: "rwlock \<Rightarrow> rwlock" where
  "rcnt_sub s = s\<lparr>rw_rcnt := (rw_rcnt s + 2 ^ 64 - 1) mod 2 ^ 64\<rparr>"

text \<open>
  \<^verbatim>\<open>try_read\<close>: the increment, then the load of the writer flag, which decides between a
  guard and undoing the increment.
\<close>

definition try_read_enter :: "rwlock \<Rightarrow> rwlock" where
  "try_read_enter s = rcnt_add s"

definition try_read_ok :: "bool \<Rightarrow> bool" where
  "try_read_ok wcnt \<longleftrightarrow> \<not> wcnt"

definition try_read_fail :: "rwlock \<Rightarrow> rwlock" where
  "try_read_fail s = rcnt_sub s"

text \<open>The exchange of \<^verbatim>\<open>try_write\<close> and \<^verbatim>\<open>try_upgrade\<close>, and the loads after it.\<close>

definition wcnt_exchange :: "rwlock \<Rightarrow> rwlock option" where
  "wcnt_exchange s = (if rw_wcnt s then None else Some (s\<lparr>rw_wcnt := True\<rparr>))"

definition try_write_ok :: "nat \<Rightarrow> bool" where
  "try_write_ok rcnt \<longleftrightarrow> rcnt < 1"

definition try_upgrade_ok :: "nat \<Rightarrow> bool" where
  "try_upgrade_ok rcnt \<longleftrightarrow> rcnt = 1"

text \<open>The values that a load of the writer flag or of the reader count may return.\<close>

definition load_wcnt :: "bool \<Rightarrow> rwlock \<Rightarrow> bool \<Rightarrow> bool" where
  "load_wcnt sc s v \<longleftrightarrow> sc \<longrightarrow> v = rw_wcnt s"

definition load_rcnt :: "bool \<Rightarrow> rwlock \<Rightarrow> nat \<Rightarrow> bool" where
  "load_rcnt sc s v \<longleftrightarrow> sc \<longrightarrow> v = rw_rcnt s"

definition RwLockReadGuard_drop :: "rwlock \<Rightarrow> rwlock rust" where
  "RwLockReadGuard_drop s = rbind (rassert (rw_rcnt s > 0) ''rcnt > 0'') (\<lambda>_. Inr (rcnt_sub s))"

definition RwLockWriteGuard_drop :: "rwlock \<Rightarrow> rwlock rust" where
  "RwLockWriteGuard_drop s = rbind (rassert (rw_wcnt s) ''wcnt'') (\<lambda>_. Inr (s\<lparr>rw_wcnt := False\<rparr>))"

section \<open>Threads\<close>

datatype phase =
    Idle
  | TryRead
  | Undo
  | Reading
  | TryWrite
  | Writing
  | TryUpgrade
  | Upgraded

text \<open>
  \<open>TryRead\<close>: incremented; \<open>Undo\<close>: saw the writer flag; \<open>TryWrite\<close>, \<open>TryUpgrade\<close>: set the
  writer flag; \<open>Upgraded\<close>: owns the write guard and is about to drop its read guard. The weak
  exchange may fail at any time.
\<close>

type_synonym threads = "nat \<Rightarrow> phase"

inductive rw_step :: "bool \<Rightarrow> rwlock \<times> threads \<Rightarrow> rwlock \<times> threads \<Rightarrow> bool" for sc where
  read_enter: "P t = Idle \<Longrightarrow> rw_step sc (s, P) (try_read_enter s, P(t := TryRead))"
| read_ok: "P t = TryRead \<Longrightarrow> load_wcnt sc s v \<Longrightarrow> try_read_ok v \<Longrightarrow> rw_step sc (s, P) (s, P(t := Reading))"
| read_no: "P t = TryRead \<Longrightarrow> load_wcnt sc s v \<Longrightarrow> \<not> try_read_ok v \<Longrightarrow> rw_step sc (s, P) (s, P(t := Undo))"
| read_undo: "P t = Undo \<Longrightarrow> rw_step sc (s, P) (try_read_fail s, P(t := Idle))"
| read_drop: "P t = Reading \<Longrightarrow> RwLockReadGuard_drop s = Inr s' \<Longrightarrow> rw_step sc (s, P) (s', P(t := Idle))"
| write_set: "P t = Idle \<Longrightarrow> wcnt_exchange s = Some s' \<Longrightarrow> rw_step sc (s, P) (s', P(t := TryWrite))"
| write_ok: "P t = TryWrite \<Longrightarrow> load_rcnt sc s v \<Longrightarrow> try_write_ok v \<Longrightarrow> rw_step sc (s, P) (s, P(t := Writing))"
| write_no: "P t = TryWrite \<Longrightarrow> load_rcnt sc s v \<Longrightarrow> \<not> try_write_ok v \<Longrightarrow> rw_step sc (s, P) (s, P(t := Idle))"
| write_drop: "P t = Writing \<Longrightarrow> RwLockWriteGuard_drop s = Inr s' \<Longrightarrow> rw_step sc (s, P) (s', P(t := Idle))"
| up_set: "P t = Reading \<Longrightarrow> wcnt_exchange s = Some s' \<Longrightarrow> rw_step sc (s, P) (s', P(t := TryUpgrade))"
| up_ok: "P t = TryUpgrade \<Longrightarrow> load_rcnt sc s v \<Longrightarrow> try_upgrade_ok v \<Longrightarrow> rw_step sc (s, P) (s, P(t := Upgraded))"
| up_no: "P t = TryUpgrade \<Longrightarrow> load_rcnt sc s v \<Longrightarrow> \<not> try_upgrade_ok v \<Longrightarrow> rw_step sc (s, P) (s, P(t := Reading))"
| up_drop: "P t = Upgraded \<Longrightarrow> RwLockReadGuard_drop s = Inr s' \<Longrightarrow> rw_step sc (s, P) (s', P(t := Writing))"

text \<open>The states \<open>n\<close> threads reach.\<close>

inductive rw_reachable :: "bool \<Rightarrow> nat \<Rightarrow> rwlock \<times> threads \<Rightarrow> bool" for sc n where
  init: "rw_reachable sc n (RwLock_new, \<lambda>_. Idle)"
| step: "rw_reachable sc n x \<Longrightarrow> rw_step sc x y \<Longrightarrow> \<forall>t\<ge>n. snd y t = Idle \<Longrightarrow> rw_reachable sc n y"

section \<open>Invariant\<close>

definition counted :: "phase set" where
  "counted = {TryRead, Undo, Reading, TryUpgrade, Upgraded}"

definition owners :: "phase set" where
  "owners = {TryWrite, Writing, TryUpgrade, Upgraded}"

definition readers :: "threads \<Rightarrow> nat set" where
  "readers P = {t. P t \<in> counted}"

definition rw_inv :: "nat \<Rightarrow> rwlock \<times> threads \<Rightarrow> bool" where
  "rw_inv n x \<longleftrightarrow>
     (let s = fst x; P = snd x
      in (\<forall>t\<ge>n. P t = Idle) \<and> rw_rcnt s = card (readers P) \<and>
         (\<forall>t. P t \<in> owners \<longrightarrow> rw_wcnt s) \<and>
         (\<forall>t u. P t \<in> owners \<longrightarrow> P u \<in> owners \<longrightarrow> t = u) \<and>
         (\<forall>t u. P t \<in> {Writing, Upgraded} \<longrightarrow> P u \<noteq> Reading))"

lemma phase_sets [simp]:
  "Idle \<notin> counted" "TryRead \<in> counted" "Undo \<in> counted" "Reading \<in> counted" "TryWrite \<notin> counted"
  "Writing \<notin> counted" "TryUpgrade \<in> counted" "Upgraded \<in> counted"
  "Idle \<notin> owners" "TryRead \<notin> owners" "Undo \<notin> owners" "Reading \<notin> owners" "TryWrite \<in> owners"
  "Writing \<in> owners" "TryUpgrade \<in> owners" "Upgraded \<in> owners"
  by (simp_all add: counted_def owners_def)

lemma readers_bound: "\<forall>t\<ge>n. P t = Idle \<Longrightarrow> readers P \<subseteq> {..<n}"
proof
  fix t assume a: "\<forall>t\<ge>n. P t = Idle" and "t \<in> readers P"
  then have "P t \<noteq> Idle" by (auto simp: readers_def)
  with a show "t \<in> {..<n}" by (metis lessThan_iff not_le)
qed

lemma readers_finite: "\<forall>t\<ge>n. P t = Idle \<Longrightarrow> finite (readers P)"
  by (rule finite_subset[OF readers_bound finite_lessThan])

lemma readers_card: "\<forall>t\<ge>n. P t = Idle \<Longrightarrow> card (readers P) \<le> n"
  using card_mono[OF finite_lessThan readers_bound, of n P] by simp

lemma readers_upd:
  "readers (P(t := x)) = (if x \<in> counted then insert t (readers P) else readers P - {t})"
  by (auto simp: readers_def)

lemma rcnt_sub_pos: "0 < rw_rcnt s \<Longrightarrow> rw_rcnt s < 2 ^ 64 \<Longrightarrow> rcnt_sub s = s\<lparr>rw_rcnt := rw_rcnt s - 1\<rparr>"
proof -
  assume a: "0 < rw_rcnt s" "rw_rcnt s < 2 ^ 64"
  then have "rw_rcnt s + 2 ^ 64 - 1 = (rw_rcnt s - 1) + 2 ^ 64" by simp
  then have "(rw_rcnt s + 2 ^ 64 - 1) mod 2 ^ 64 = rw_rcnt s - 1" using a by (metis less_imp_diff_less mod_add_self2 mod_less)
  then show ?thesis by (simp add: rcnt_sub_def)
qed

lemmas rw_ops = try_read_enter_def rcnt_add_def try_read_ok_def try_read_fail_def wcnt_exchange_def
  try_write_ok_def try_upgrade_ok_def load_wcnt_def load_rcnt_def RwLockReadGuard_drop_def RwLockWriteGuard_drop_def

lemma rw_invD:
  assumes "rw_inv n (s, P)"
  shows "\<forall>t\<ge>n. P t = Idle" "rw_rcnt s = card (readers P)" "\<And>t. P t \<in> owners \<Longrightarrow> rw_wcnt s"
    "\<And>t u. P t \<in> owners \<Longrightarrow> P u \<in> owners \<Longrightarrow> t = u" "\<And>t u. P t \<in> {Writing, Upgraded} \<Longrightarrow> P u \<noteq> Reading"
  using assms unfolding rw_inv_def Let_def fst_conv snd_conv by blast+

text \<open>A step moves one thread to another phase.\<close>

lemma rw_inv_upd:
  assumes "rw_inv n (s, P)" and "\<forall>u\<ge>n. (P(t := x)) u = Idle" and "rw_rcnt s' = card (readers (P(t := x)))"
    and "x \<in> owners \<Longrightarrow> rw_wcnt s' \<and> (\<forall>u. u \<noteq> t \<longrightarrow> P u \<notin> owners)"
    and "rw_wcnt s' \<or> (\<forall>u. u \<noteq> t \<longrightarrow> P u \<notin> owners)"
    and "x \<in> {Writing, Upgraded} \<Longrightarrow> \<forall>u. u \<noteq> t \<longrightarrow> P u \<noteq> Reading"
    and "x = Reading \<Longrightarrow> \<forall>u. u \<noteq> t \<longrightarrow> P u \<notin> {Writing, Upgraded}"
  shows "rw_inv n (s', P(t := x))"
proof -
  let ?P = "P(t := x)"
  note old = rw_invD(4,5)[OF assms(1)]
  have "rw_wcnt s'" if "?P u \<in> owners" for u
    using that assms(4,5) by (cases "u = t") auto
  moreover have "u = v" if "?P u \<in> owners" "?P v \<in> owners" for u v
    using that assms(4) old(1)[of u v] by (cases "u = t"; cases "v = t") auto
  moreover have "?P v \<noteq> Reading" if "?P u \<in> {Writing, Upgraded}" for u v
    using that assms(6,7) old(2)[of u v] by (cases "u = t"; cases "v = t") auto
  ultimately show ?thesis
    using assms(2,3) unfolding rw_inv_def Let_def fst_conv snd_conv by blast
qed

lemma rw_inv_step:
  assumes n: "n < 2 ^ 64" and st: "rw_step True x y" and out: "\<forall>t\<ge>n. snd y t = Idle" and inv: "rw_inv n x"
  shows "rw_inv n y"
proof -
  obtain s P where x: "x = (s, P)" by (cases x)
  note inv' = inv[unfolded x]
  note I = rw_invD[OF inv']
  note fin = readers_finite[OF I(1)]
  have lt: "rw_rcnt s < 2 ^ 64" using readers_card[OF I(1)] n I(2) by simp
  have mem: "t \<in> readers P \<longleftrightarrow> P t \<in> counted" for t by (simp add: readers_def)
  have same: "readers (P(t := z)) = readers P" if "z \<in> counted \<longleftrightarrow> P t \<in> counted" for t z
    using that by (auto simp: readers_upd mem)
  have sub: "rw_rcnt (rcnt_sub s) = card (readers (P(t := z)))" "rw_wcnt (rcnt_sub s) = rw_wcnt s"
    if "P t \<in> counted" "z \<notin> counted" for t z
  proof -
    have "0 < rw_rcnt s" using that(1) fin I(2) by (auto simp: card_gt_0_iff readers_def)
    from rcnt_sub_pos[OF this lt] that fin I(2) show "rw_rcnt (rcnt_sub s) = card (readers (P(t := z)))"
      "rw_wcnt (rcnt_sub s) = rw_wcnt s" by (simp_all add: readers_upd mem)
  qed
  have lone: "P u \<notin> owners \<and> P u \<noteq> Writing \<and> P u \<noteq> Upgraded" if "P t \<in> owners" "u \<noteq> t" for t u
    using I(4)[OF that(1)] that by (metis phase_sets(14,16))
  have none: "P u \<notin> owners \<and> P u \<noteq> Writing \<and> P u \<noteq> Upgraded" if "\<not> rw_wcnt s" for u
    using I(3) that by (metis phase_sets(14,16))
  have zero: "P u \<noteq> Reading" if "rw_rcnt s = 0" for u
    using that fin I(2) by (auto simp: readers_def counted_def)
  have one: "P u \<noteq> Reading" if "rw_rcnt s = 1" "P t = TryUpgrade" "u \<noteq> t" for t u
  proof
    assume "P u = Reading"
    with that(2) have "{t, u} \<subseteq> readers P" by (auto simp: readers_def counted_def)
    from card_mono[OF fin this] that show False using I(2) by simp
  qed
  show ?thesis using st
  proof (cases rule: rw_step.cases)
    case (read_enter P' t s')
    have e: "P' = P" "s' = s" using read_enter(1) x by simp_all
    have o: "\<forall>u\<ge>n. (P(t := TryRead)) u = Idle" using out read_enter(2) e by simp
    have "card (readers P) + 1 \<le> n" using readers_card[OF o] read_enter(3) e fin mem[of t]
      unfolding readers_upd by (simp add: counted_def)
    then have "(card (readers P) + 1) mod 2 ^ 64 = card (readers P) + 1" using n by simp
    then have r: "rw_rcnt (try_read_enter s) = card (readers (P(t := TryRead)))"
      using read_enter(3) e fin mem[of t] I(2) by (simp add: rw_ops readers_upd counted_def)
    show ?thesis unfolding read_enter(2) e
      by (rule rw_inv_upd[OF inv' o])
        (use read_enter(3) r lone none in \<open>auto simp: rw_ops e split: if_splits\<close>)
  next
    case (read_ok P' t s' v)
    have e: "P' = P" "s' = s" using read_ok(1) x by simp_all
    have o: "\<forall>u\<ge>n. (P(t := Reading)) u = Idle" using out read_ok(2) e by simp
    show ?thesis unfolding read_ok(2) e
      by (rule rw_inv_upd[OF inv' o])
        (use read_ok(3-5) I(2) same[of Reading t] none in \<open>auto simp: rw_ops e split: if_splits\<close>)
  next
    case (read_no P' t s' v)
    have e: "P' = P" "s' = s" using read_no(1) x by simp_all
    have o: "\<forall>u\<ge>n. (P(t := Undo)) u = Idle" using out read_no(2) e by simp
    show ?thesis unfolding read_no(2) e
      by (rule rw_inv_upd[OF inv' o])
        (use read_no(3-5) I(2) same[of Undo t] in \<open>auto simp: rw_ops e split: if_splits\<close>)
  next
    case (read_undo P' t s')
    have e: "P' = P" "s' = s" using read_undo(1) x by simp_all
    have o: "\<forall>u\<ge>n. (P(t := Idle)) u = Idle" using out read_undo(2) e by simp
    show ?thesis unfolding read_undo(2) e
      by (rule rw_inv_upd[OF inv' o])
        (use read_undo(3) sub[of t Idle] none in \<open>auto simp: rw_ops e split: if_splits\<close>)
  next
    case (read_drop P' t s' s'')
    have e: "P' = P" "s' = s" using read_drop(1) x by simp_all
    have o: "\<forall>u\<ge>n. (P(t := Idle)) u = Idle" using out read_drop(2) e by simp
    show ?thesis unfolding read_drop(2) e
      by (rule rw_inv_upd[OF inv' o])
        (use read_drop(3-4) sub[of t Idle] none in \<open>auto simp: rw_ops e split: if_splits\<close>)
  next
    case (write_set P' t s' s'')
    have e: "P' = P" "s' = s" using write_set(1) x by simp_all
    have o: "\<forall>u\<ge>n. (P(t := TryWrite)) u = Idle" using out write_set(2) e by simp
    show ?thesis unfolding write_set(2) e
      by (rule rw_inv_upd[OF inv' o])
        (use write_set(3-4) I(2) same[of TryWrite t] none in \<open>auto simp: rw_ops e split: if_splits\<close>)
  next
    case (write_ok P' t s' v)
    have e: "P' = P" "s' = s" using write_ok(1) x by simp_all
    have o: "\<forall>u\<ge>n. (P(t := Writing)) u = Idle" using out write_ok(2) e by simp
    show ?thesis unfolding write_ok(2) e
      by (rule rw_inv_upd[OF inv' o])
        (use write_ok(3-5) I(2) I(3)[of t] same[of Writing t] lone[of t] zero in \<open>auto simp: rw_ops e split: if_splits\<close>)
  next
    case (write_no P' t s' v)
    have e: "P' = P" "s' = s" using write_no(1) x by simp_all
    have o: "\<forall>u\<ge>n. (P(t := Idle)) u = Idle" using out write_no(2) e by simp
    show ?thesis unfolding write_no(2) e
      by (rule rw_inv_upd[OF inv' o])
        (use write_no(3-5) I(2) I(3)[of t] same[of Idle t] in \<open>auto simp: rw_ops e split: if_splits\<close>)
  next
    case (write_drop P' t s' s'')
    have e: "P' = P" "s' = s" using write_drop(1) x by simp_all
    have o: "\<forall>u\<ge>n. (P(t := Idle)) u = Idle" using out write_drop(2) e by simp
    show ?thesis unfolding write_drop(2) e
      by (rule rw_inv_upd[OF inv' o])
        (use write_drop(3-4) I(2) same[of Idle t] lone[of t] in \<open>auto simp: rw_ops e split: if_splits\<close>)
  next
    case (up_set P' t s' s'')
    have e: "P' = P" "s' = s" using up_set(1) x by simp_all
    have o: "\<forall>u\<ge>n. (P(t := TryUpgrade)) u = Idle" using out up_set(2) e by simp
    show ?thesis unfolding up_set(2) e
      by (rule rw_inv_upd[OF inv' o])
        (use up_set(3-4) I(2) same[of TryUpgrade t] none in \<open>auto simp: rw_ops e split: if_splits\<close>)
  next
    case (up_ok P' t s' v)
    have e: "P' = P" "s' = s" using up_ok(1) x by simp_all
    have o: "\<forall>u\<ge>n. (P(t := Upgraded)) u = Idle" using out up_ok(2) e by simp
    show ?thesis unfolding up_ok(2) e
      by (rule rw_inv_upd[OF inv' o])
        (use up_ok(3-5) I(2) I(3)[of t] same[of Upgraded t] lone[of t] one[of t] in \<open>auto simp: rw_ops e split: if_splits\<close>)
  next
    case (up_no P' t s' v)
    have e: "P' = P" "s' = s" using up_no(1) x by simp_all
    have o: "\<forall>u\<ge>n. (P(t := Reading)) u = Idle" using out up_no(2) e by simp
    show ?thesis unfolding up_no(2) e
      by (rule rw_inv_upd[OF inv' o])
        (use up_no(3-5) I(2) I(3)[of t] same[of Reading t] lone[of t] in \<open>auto simp: rw_ops e split: if_splits\<close>)
  next
    case (up_drop P' t s' s'')
    have e: "P' = P" "s' = s" using up_drop(1) x by simp_all
    have o: "\<forall>u\<ge>n. (P(t := Writing)) u = Idle" using out up_drop(2) e by simp
    show ?thesis unfolding up_drop(2) e
      by (rule rw_inv_upd[OF inv' o])
        (use up_drop(3-4) sub[of t Writing] I(3)[of t] I(5)[of t] lone[of t] in \<open>auto simp: rw_ops e split: if_splits\<close>)
  qed
qed

lemma rw_reachable_inv:
  assumes "n < 2 ^ 64" and "rw_reachable True n x"
  shows "rw_inv n x"
  using assms(2)
proof (induction rule: rw_reachable.induct)
  case init
  then show ?case by (simp add: rw_inv_def RwLock_new_def readers_def)
next
  case (step x y)
  then show ?case using rw_inv_step[OF assms(1), of x y] by blast
qed

section \<open>Properties\<close>

text \<open>
  Were the loads to return current values, readers and writers would exclude each other: in every
  state that fewer than \<open>2 ^ 64\<close> threads reach, by any interleaving of the atomic operations, a
  thread with a write guard is alone with a guard, and dropping a guard never fails its assertion.
  The orderings of the source do not promise that: with \<open>sc\<close> false, a reader and a writer
  that each load the old value of the other's location both get a guard.
\<close>

lemma RwLock_exclusion:
  assumes "n < 2 ^ 64" and "rw_reachable True n (s, P)"
  shows "(P t = Writing \<longrightarrow> (\<forall>u. u \<noteq> t \<longrightarrow> P u \<noteq> Reading \<and> P u \<noteq> Writing)) \<and>
    (P t = Writing \<longrightarrow> (\<exists>s'. RwLockWriteGuard_drop s = Inr s')) \<and>
    (P t = Reading \<longrightarrow> (\<exists>s'. RwLockReadGuard_drop s = Inr s'))"
proof -
  note I = rw_invD[OF rw_reachable_inv[OF assms]]
  have "u = t" if "P t = Writing" "P u = Writing" for u using I(4)[of u t] that by simp
  moreover have "P u \<noteq> Reading" if "P t = Writing" for u using I(5)[of t u] that by simp
  moreover have "\<exists>s'. RwLockWriteGuard_drop s = Inr s'" if "P t = Writing"
    using I(3)[of t] that by (simp add: RwLockWriteGuard_drop_def)
  moreover have "0 < rw_rcnt s" if "P t = Reading"
  proof -
    have "t \<in> readers P" using that by (simp add: readers_def)
    then show ?thesis using I(2) readers_finite[OF I(1)] by (auto simp: card_gt_0_iff)
  qed
  ultimately show ?thesis by (auto simp: RwLockReadGuard_drop_def)
qed

lemma RwLock_no_exclusion:
  "\<exists>s P. rw_reachable False 2 (s, P) \<and> P 0 = Reading \<and> P 1 = Writing"
proof -
  define P :: threads where "P = ((\<lambda>_. Idle)(0 := TryRead))(1 := TryWrite)"
  let ?s = "\<lparr>rw_rcnt = 1, rw_wcnt = True\<rparr>"
  have 1: "rw_reachable False 2 (\<lparr>rw_rcnt = 1, rw_wcnt = False\<rparr>, (\<lambda>_. Idle)(0 := TryRead))"
    using rw_reachable.step[OF rw_reachable.init rw_step.read_enter[of "\<lambda>_. Idle" 0 False RwLock_new]]
    by (simp add: rw_ops RwLock_new_def)
  have 2: "rw_reachable False 2 (?s, P)"
    using rw_reachable.step[OF 1 rw_step.write_set[of "(\<lambda>_. Idle)(0 := TryRead)" 1]] by (simp add: rw_ops P_def)
  have 3: "rw_reachable False 2 (?s, P(0 := Reading))"
    by (rule rw_reachable.step[OF 2 rw_step.read_ok[of P 0 False _ False]]) (auto simp: rw_ops P_def)
  have "rw_reachable False 2 (?s, P(0 := Reading, 1 := Writing))"
    by (rule rw_reachable.step[OF 3 rw_step.write_ok[of "P(0 := Reading)" 1 False _ 0]]) (auto simp: rw_ops P_def)
  then show ?thesis by (intro exI[of _ ?s] exI[of _ "P(0 := Reading, 1 := Writing)"]) simp
qed

text \<open>With any loads: the threads that set the writer flag are never more than one, and it is set.\<close>

definition own_inv :: "rwlock \<times> threads \<Rightarrow> bool" where
  "own_inv x \<longleftrightarrow> (\<forall>t. snd x t \<in> owners \<longrightarrow> rw_wcnt (fst x)) \<and> (\<forall>t u. snd x t \<in> owners \<longrightarrow> snd x u \<in> owners \<longrightarrow> t = u)"

lemma own_inv_step: "rw_step sc x y \<Longrightarrow> own_inv x \<Longrightarrow> own_inv y"
proof (induction rule: rw_step.induct)
  case (write_drop P t s s')
  then have "P u \<notin> owners" if "u \<noteq> t" for u using that by (auto simp: own_inv_def)
  then show ?case by (auto simp: own_inv_def)
qed (auto simp: own_inv_def rw_ops rcnt_sub_def split: if_splits, (metis phase_sets(13,15,16))+)

lemma rw_reachable_own: "rw_reachable sc n x \<Longrightarrow> own_inv x"
proof (induction rule: rw_reachable.induct)
  case init
  then show ?case by (simp add: own_inv_def)
next
  case (step x y)
  then show ?case using own_inv_step by blast
qed

text \<open>
  (C35) A failed write attempt locks the lock for good. \<^verbatim>\<open>try_write\<close> sets the writer flag
  before it looks at the readers and does not reset it when there are some. From the return of such
  a \<^verbatim>\<open>try_write\<close> on, whatever the threads do and whatever the relaxed loads return, the
  exchange of the writer flag never succeeds again: no thread ever has a write guard, so
  \<^verbatim>\<open>write\<close> and \<^verbatim>\<open>upgrade\<close> spin forever. When the loads return current values, no thread
  gets a new read guard either, and \<^verbatim>\<open>read\<close> spins forever.
\<close>

theorem try_write_failure_locks_forever:
  assumes "rw_reachable sc n (s, P)" and "P t = TryWrite" and "load_rcnt sc s rcnt" and "\<not> try_write_ok rcnt"
  shows "rw_step sc (s, P) (s, P(t := Idle)) \<and>
    (\<forall>s' P'. (rw_step sc)\<^sup>*\<^sup>* (s, P(t := Idle)) (s', P') \<longrightarrow> wcnt_exchange s' = None \<and>
       (\<forall>v. P' v \<noteq> Writing \<and> P' v \<noteq> Upgraded \<and> (sc \<and> P' v = Reading \<longrightarrow> P v = Reading)))"
proof -
  have I: "own_inv (s, P)" by (rule rw_reachable_own[OF assms(1)])
  define dead where "dead = (\<lambda>x :: rwlock \<times> threads. rw_wcnt (fst x) \<and>
    (\<forall>v. snd x v \<notin> owners \<and> (sc \<and> snd x v = Reading \<longrightarrow> P v = Reading)))"
  have "P v \<notin> owners" if "v \<noteq> t" for v using I that assms(2) by (auto simp: own_inv_def)
  moreover have "rw_wcnt s" using I assms(2) unfolding own_inv_def fst_conv snd_conv by (metis phase_sets(13))
  ultimately have d0: "dead (s, P(t := Idle))" by (auto simp: dead_def)
  have keep: "dead y" if st: "rw_step sc x y" and d: "dead x" for x y
  proof -
    have no: "snd x v \<noteq> TryWrite" "snd x v \<noteq> Writing" "snd x v \<noteq> TryUpgrade" "snd x v \<noteq> Upgraded" for v
      using d phase_sets(13-16) unfolding dead_def by metis+
    show ?thesis using st d no by (cases rule: rw_step.cases) (auto simp: dead_def rw_ops rcnt_sub_def split: if_splits)
  qed
  have all: "dead y" if "(rw_step sc)\<^sup>*\<^sup>* (s, P(t := Idle)) y" for y
    using that by (induction rule: rtranclp_induct) (auto intro: d0 keep)
  have "wcnt_exchange s' = None \<and> (P' v \<noteq> Writing \<and> P' v \<noteq> Upgraded \<and> (sc \<and> P' v = Reading \<longrightarrow> P v = Reading))"
    if "(rw_step sc)\<^sup>*\<^sup>* (s, P(t := Idle)) (s', P')" for s' P' v
    using all[OF that] phase_sets(14,16) unfolding dead_def fst_conv snd_conv by (metis wcnt_exchange_def)
  then show ?thesis using rw_step.write_no[of P t sc s rcnt, OF assms(2-4)] by blast
qed

text \<open>A writer meets a reader.\<close>

lemma rw_reach_try:
  "rw_reachable sc 2 (\<lparr>rw_rcnt = 1, rw_wcnt = True\<rparr>, (\<lambda>_. Idle)(0 := Reading, 1 := TryWrite))"
proof -
  have 1: "rw_reachable sc 2 (\<lparr>rw_rcnt = 1, rw_wcnt = False\<rparr>, (\<lambda>_. Idle)(0 := TryRead))"
    using rw_reachable.step[OF rw_reachable.init rw_step.read_enter[of "\<lambda>_. Idle" 0 sc RwLock_new]]
    by (simp add: rw_ops RwLock_new_def)
  have 2: "rw_reachable sc 2 (\<lparr>rw_rcnt = 1, rw_wcnt = False\<rparr>, (\<lambda>_. Idle)(0 := Reading))"
    using rw_reachable.step[OF 1 rw_step.read_ok[of "(\<lambda>_. Idle)(0 := TryRead)" 0 sc _ False]] by (simp add: rw_ops)
  show ?thesis
    using rw_reachable.step[OF 2 rw_step.write_set[of "(\<lambda>_. Idle)(0 := Reading)" 1]] by (simp add: rw_ops)
qed

theorem try_write_failure_locks_forever_witness:
  "rw_step False (\<lparr>rw_rcnt = 1, rw_wcnt = True\<rparr>, (\<lambda>_. Idle)(0 := Reading, 1 := TryWrite))
     (\<lparr>rw_rcnt = 1, rw_wcnt = True\<rparr>, ((\<lambda>_. Idle)(0 := Reading, 1 := TryWrite))(1 := Idle))"
  using try_write_failure_locks_forever[OF rw_reach_try[of False], of 1 1] by (simp add: rw_ops)

end
