(* ===== verification/OnceCell.thy ===== *)
theory OnceCell
  imports OctoxPrelude
begin

text \<open>
  \<^verbatim>\<open>src/kernel/sync.rs\<close>: one-time initialisation. A cell is the state word of its
  \<^verbatim>\<open>Once\<close> and the slot for the value. The calls of one thread are functions: a call that
  finds the state running spins until another thread changes it, which is the result
  \<^term>\<open>None\<close>. The threads together are a step relation on the atomic operations of
  \<^verbatim>\<open>call_inner\<close>.
\<close>

section \<open>Once\<close>

definition IMCOMPLETE :: nat where "IMCOMPLETE = 0"

definition POISONED :: nat where "POISONED = 1"

definition RUNNING :: nat where "RUNNING = 2"

definition COMPLETE :: nat where "COMPLETE = 3"

definition STATE_MASK :: nat where "STATE_MASK = 3"

lemmas once_consts = IMCOMPLETE_def POISONED_def RUNNING_def COMPLETE_def STATE_MASK_def

definition Once_new :: nat where "Once_new = IMCOMPLETE"

definition is_completed :: "nat \<Rightarrow> bool" where "is_completed st \<longleftrightarrow> st = COMPLETE"

text \<open>\<^verbatim>\<open>OnceGuard\<close> stores its target state when it is dropped.\<close>

definition OnceGuard_drop :: "nat \<Rightarrow> nat \<Rightarrow> nat rust" where
  "OnceGuard_drop set_to st = rbind (rassert (st AND STATE_MASK = RUNNING) ''state'') (\<lambda>_. Inr set_to)"

text \<open>
  The initialiser works on an environment of its own and says in which state the cell ends:
  \<^verbatim>\<open>COMPLETE\<close>, or \<^verbatim>\<open>POISONED\<close> after \<^verbatim>\<open>OnceState::poison\<close>.
\<close>

type_synonym 'e initialiser = "bool \<Rightarrow> 'e \<Rightarrow> (nat \<times> 'e) rust"

definition call_inner :: "bool \<Rightarrow> 'e initialiser \<Rightarrow> nat \<Rightarrow> 'e \<Rightarrow> (nat \<times> 'e) option rust" where
  "call_inner ignore_poisoning f st e =
     (if st = COMPLETE then Inr (Some (st, e))
      else if st = POISONED \<and> \<not> ignore_poisoning then Inl (Panic ''Once instance has previously poisoned'')
      else if st = POISONED \<or> st = IMCOMPLETE then
        rbind (f (st = POISONED) e) (\<lambda>(set_to, e1).
        rbind (OnceGuard_drop set_to RUNNING) (\<lambda>st1. Inr (Some (st1, e1))))
      else rbind (rassert (st AND STATE_MASK = RUNNING) ''state'') (\<lambda>_. Inr None))"

definition call_once :: "'e initialiser \<Rightarrow> nat \<Rightarrow> 'e \<Rightarrow> (nat \<times> 'e) option rust" where
  "call_once f st e = (if is_completed st then Inr (Some (st, e)) else call_inner False f st e)"

definition call_once_force :: "'e initialiser \<Rightarrow> nat \<Rightarrow> 'e \<Rightarrow> (nat \<times> 'e) option rust" where
  "call_once_force f st e = (if is_completed st then Inr (Some (st, e)) else call_inner True f st e)"

section \<open>OnceLock\<close>

record 'a oncelock =
  ol_once :: nat
  ol_value :: "'a option"

definition OnceLock_new :: "'a oncelock" where
  "OnceLock_new = \<lparr>ol_once = Once_new, ol_value = None\<rparr>"

definition is_initialized :: "'a oncelock \<Rightarrow> bool" where
  "is_initialized c \<longleftrightarrow> is_completed (ol_once c)"

text \<open>Reading a slot that was never written is undefined behaviour; here it is the panic \<^term>\<open>UnwrapNone\<close>.\<close>

definition get_unchecked :: "'a oncelock \<Rightarrow> 'a rust" where
  "get_unchecked c = rbind (rassert (is_initialized c) ''is_initialized'') (\<lambda>_. unwrap (ol_value c))"

definition OnceLock_get :: "'a oncelock \<Rightarrow> 'a option rust" where
  "OnceLock_get c =
     (if is_initialized c then rbind (get_unchecked c) (\<lambda>v. Inr (Some v)) else Inr None)"

text \<open>
  The closures of the source capture a variable of the caller, here an environment of type
  \<^typ>\<open>'c\<close>: it is passed to the closure and comes back with its result.
\<close>

definition OnceLock_initialize ::
  "('c \<Rightarrow> (('e + 'a) \<times> 'c) rust) \<Rightarrow> 'c \<Rightarrow> 'a oncelock \<Rightarrow> (('e + unit) \<times> 'c \<times> 'a oncelock) option rust" where
  "OnceLock_initialize f c0 c =
     rbind (call_once_force
       (\<lambda>_ (slot, res, env).
          rbind (f env) (\<lambda>(r, env1).
          case r of
            Inr value \<Rightarrow> Inr (COMPLETE, (Some value, res, env1))
          | Inl e \<Rightarrow> Inr (POISONED, (slot, Inl e, env1))))
       (ol_once c) (ol_value c, Inr (), c0))
     (\<lambda>r. Inr (map_option (\<lambda>(st, slot, res, env). (res, env, \<lparr>ol_once = st, ol_value = slot\<rparr>)) r))"

definition get_or_try_init ::
  "('c \<Rightarrow> (('e + 'a) \<times> 'c) rust) \<Rightarrow> 'c \<Rightarrow> 'a oncelock \<Rightarrow> (('e + 'a) \<times> 'c \<times> 'a oncelock) option rust" where
  "get_or_try_init f env c =
     rbind (OnceLock_get c) (\<lambda>g.
     case g of
       Some v \<Rightarrow> Inr (Some (Inr v, env, c))
     | None \<Rightarrow>
         rbind (OnceLock_initialize f env c) (\<lambda>r.
         case r of
           None \<Rightarrow> Inr None
         | Some (Inl e, env1, c1) \<Rightarrow> Inr (Some (Inl e, env1, c1))
         | Some (Inr _, env1, c1) \<Rightarrow>
             rbind (rassert (is_initialized c1) ''is_initialized'') (\<lambda>_.
             rbind (get_unchecked c1) (\<lambda>v. Inr (Some (Inr v, env1, c1))))))"

definition get_or_init ::
  "('c \<Rightarrow> ('a \<times> 'c) rust) \<Rightarrow> 'c \<Rightarrow> 'a oncelock \<Rightarrow> ('a \<times> 'c \<times> 'a oncelock) option rust" where
  "get_or_init f env c =
     rbind (get_or_try_init (\<lambda>e. rbind (f e) (\<lambda>(v, e1). Inr (Inr v :: unit + _, e1))) env c) (\<lambda>r.
     case r of
       None \<Rightarrow> Inr None
     | Some (Inr v, env1, c1) \<Rightarrow> Inr (Some (v, env1, c1))
     | Some (Inl _, _) \<Rightarrow> Inl Unreachable)"

text \<open>\<^verbatim>\<open>set\<close>: the result is the value given back when the cell was initialised already.\<close>

definition OnceLock_set :: "'a \<Rightarrow> 'a oncelock \<Rightarrow> (('a + unit) \<times> 'a oncelock) option rust" where
  "OnceLock_set v c =
     rbind (get_or_init (\<lambda>value. rbind (unwrap value) (\<lambda>x. Inr (x, None))) (Some v) c) (\<lambda>r.
     Inr (map_option (\<lambda>(_, value, c1). (case value of None \<Rightarrow> Inr () | Some x \<Rightarrow> Inl x, c1)) r))"

definition OnceLock_take :: "'a oncelock \<Rightarrow> ('a option \<times> 'a oncelock) rust" where
  "OnceLock_take c =
     (if is_initialized c then rbind (unwrap (ol_value c)) (\<lambda>v. Inr (Some v, c\<lparr>ol_once := Once_new\<rparr>))
      else Inr (None, c))"

definition OnceLock_into_inner :: "'a oncelock \<Rightarrow> 'a option rust" where
  "OnceLock_into_inner c = rbind (OnceLock_take c) (\<lambda>(v, _). Inr v)"

definition OnceLock_from :: "'a \<Rightarrow> 'a oncelock option rust" where
  "OnceLock_from v =
     rbind (OnceLock_set v OnceLock_new) (\<lambda>r.
     case r of
       None \<Rightarrow> Inr None
     | Some (Inr _, c) \<Rightarrow> Inr (Some c)
     | Some (Inl _, _) \<Rightarrow> Inl Unreachable)"

definition OnceLock_clone :: "'a oncelock \<Rightarrow> 'a oncelock option rust" where
  "OnceLock_clone c =
     rbind (OnceLock_get c) (\<lambda>g.
     case g of
       None \<Rightarrow> Inr (Some OnceLock_new)
     | Some v \<Rightarrow>
         rbind (OnceLock_set v OnceLock_new) (\<lambda>r.
         case r of
           None \<Rightarrow> Inr None
         | Some (Inr _, c1) \<Rightarrow> Inr (Some c1)
         | Some (Inl _, _) \<Rightarrow> Inl Unreachable))"

section \<open>LazyLock\<close>

record 'a lazylock =
  lz_cell :: "'a oncelock"
  lz_init :: "(unit \<Rightarrow> 'a rust) option"

definition LazyLock_new :: "(unit \<Rightarrow> 'a rust) \<Rightarrow> 'a lazylock" where
  "LazyLock_new f = \<lparr>lz_cell = OnceLock_new, lz_init = Some f\<rparr>"

definition LazyLock_force :: "'a lazylock \<Rightarrow> ('a \<times> 'a lazylock) option rust" where
  "LazyLock_force l =
     rbind (get_or_init
       (\<lambda>ini. case ini of
                Some f \<Rightarrow> rbind (f ()) (\<lambda>v. Inr (v, None))
              | None \<Rightarrow> Inl (Panic ''Lazy instance has previously been poisoned''))
       (lz_init l) (lz_cell l)) (\<lambda>r.
     Inr (map_option (\<lambda>(v, ini, c). (v, \<lparr>lz_cell = c, lz_init = ini\<rparr>)) r))"

section \<open>One thread\<close>

text \<open>A cell that no thread is initialising, and whose value is there when it says so.\<close>

definition ol_ok :: "'a oncelock \<Rightarrow> bool" where
  "ol_ok c \<longleftrightarrow> ol_once c \<in> {IMCOMPLETE, POISONED, COMPLETE} \<and> (ol_once c = COMPLETE \<longrightarrow> ol_value c \<noteq> None)"

lemmas once_defs = OnceLock_get_def get_or_init_def get_or_try_init_def OnceLock_initialize_def
  call_once_force_def call_inner_def get_unchecked_def is_initialized_def is_completed_def OnceGuard_drop_def

lemma running_mask: "RUNNING AND STATE_MASK = RUNNING"
  by (simp add: once_consts)

lemma get_or_init_ready:
  "ol_once c = COMPLETE \<Longrightarrow> ol_value c = Some v \<Longrightarrow> get_or_init f env c = Inr (Some (v, env, c))"
  by (simp add: once_defs)

lemma get_or_init_fresh:
  "ol_ok c \<Longrightarrow> ol_once c \<noteq> COMPLETE \<Longrightarrow> f env = Inr (v, env') \<Longrightarrow>
   get_or_init f env c = Inr (Some (v, env', \<lparr>ol_once = COMPLETE, ol_value = Some v\<rparr>))"
  by (auto simp: ol_ok_def once_defs running_mask once_consts)

text \<open>
  A cell is set at most once and then read back: setting a cell without a value succeeds, and
  from then on every read returns that value; setting a cell that has a value returns the new
  value to the caller and changes nothing.
\<close>

theorem OnceLock_set_get:
  assumes "ol_ok c"
  shows "\<exists>r c'. OnceLock_set v c = Inr (Some (r, c')) \<and> ol_ok c' \<and>
    (if OnceLock_get c = Inr None then r = Inr () \<and> OnceLock_get c' = Inr (Some v)
     else r = Inl v \<and> c' = c)"
proof (cases "ol_once c = COMPLETE")
  case True
  then obtain w where "ol_value c = Some w" using assms by (auto simp: ol_ok_def)
  with True get_or_init_ready[of c w] show ?thesis using assms by (simp add: OnceLock_set_def once_defs)
next
  case False
  let ?c = "\<lparr>ol_once = COMPLETE, ol_value = Some v\<rparr>"
  have "get_or_init (\<lambda>value. rbind (unwrap value) (\<lambda>x. Inr (x, None))) (Some v) c = Inr (Some (v, None, ?c))"
    using assms False by (rule get_or_init_fresh) simp
  then have "OnceLock_set v c = Inr (Some (Inr (), ?c))" by (simp add: OnceLock_set_def)
  moreover have "ol_ok ?c" "OnceLock_get ?c = Inr (Some v)"
    by (simp_all add: ol_ok_def OnceLock_get_def get_unchecked_def is_initialized_def is_completed_def)
  moreover have "OnceLock_get c = Inr None" using False by (simp add: OnceLock_get_def is_initialized_def is_completed_def)
  ultimately show ?thesis by simp
qed

theorem OnceLock_set_get_witness:
  "\<exists>c'. OnceLock_set (5::nat) OnceLock_new = Inr (Some (Inr (), c')) \<and> OnceLock_get c' = Inr (Some 5)"
proof -
  have ok: "ol_ok (OnceLock_new :: nat oncelock)"
    by (simp add: ol_ok_def OnceLock_new_def Once_new_def once_consts)
  have "OnceLock_get (OnceLock_new :: nat oncelock) = Inr None"
    by (simp add: OnceLock_new_def Once_new_def OnceLock_get_def is_initialized_def is_completed_def once_consts)
  with OnceLock_set_get[OF ok, of 5] show ?thesis by auto
qed

text \<open>
  The initialiser of a lazy cell runs at most once: forcing returns its value, and forcing the
  result again returns the same value without the initialiser.
\<close>

lemma LazyLock_force_once:
  assumes "f () = Inr v"
  shows "\<exists>l. LazyLock_force (LazyLock_new f) = Inr (Some (v, l)) \<and> lz_init l = None \<and>
    LazyLock_force l = Inr (Some (v, l))"
proof -
  have "ol_ok OnceLock_new" "ol_once OnceLock_new \<noteq> COMPLETE"
    by (simp_all add: ol_ok_def OnceLock_new_def Once_new_def once_consts)
  then have "get_or_init (\<lambda>ini. case ini of
        Some f \<Rightarrow> rbind (f ()) (\<lambda>v. Inr (v, None))
      | None \<Rightarrow> Inl (Panic ''Lazy instance has previously been poisoned'')) (Some f) OnceLock_new =
      Inr (Some (v, None, \<lparr>ol_once = COMPLETE, ol_value = Some v\<rparr>))"
    by (rule get_or_init_fresh) (simp add: assms)
  then show ?thesis by (simp add: LazyLock_force_def LazyLock_new_def get_or_init_ready)
qed

section \<open>Many threads\<close>

text \<open>
  A thread in \<^verbatim>\<open>call_once_force\<close>: before its first load, with the state it last read, inside
  the initialiser, or returned. The number counts the initialisers that ended with success.
\<close>

datatype once_phase = Outside | Read nat | Inside | Returned

type_synonym once_sys = "nat \<times> (nat \<Rightarrow> once_phase) \<times> nat"

inductive once_step :: "once_sys \<Rightarrow> once_sys \<Rightarrow> bool" where
  load: "P t = Outside \<Longrightarrow> once_step (st, P, n) (st, P(t := Read st), n)"
| complete: "P t = Read COMPLETE \<Longrightarrow> once_step (st, P, n) (st, P(t := Returned), n)"
| won: "P t = Read v \<Longrightarrow> v \<in> {POISONED, IMCOMPLETE} \<Longrightarrow> st = v \<Longrightarrow>
    once_step (st, P, n) (RUNNING, P(t := Inside), n)"
| lost: "P t = Read v \<Longrightarrow> v \<in> {POISONED, IMCOMPLETE} \<Longrightarrow> st \<noteq> v \<Longrightarrow>
    once_step (st, P, n) (st, P(t := Read st), n)"
| spin: "P t = Read v \<Longrightarrow> v \<notin> {POISONED, IMCOMPLETE, COMPLETE} \<Longrightarrow> v AND STATE_MASK = RUNNING \<Longrightarrow>
    once_step (st, P, n) (st, P(t := Read st), n)"
| success: "P t = Inside \<Longrightarrow> OnceGuard_drop COMPLETE st = Inr st' \<Longrightarrow>
    once_step (st, P, n) (st', P(t := Returned), Suc n)"
| failure: "P t = Inside \<Longrightarrow> OnceGuard_drop POISONED st = Inr st' \<Longrightarrow>
    once_step (st, P, n) (st', P(t := Returned), n)"

inductive once_reachable :: "once_sys \<Rightarrow> bool" where
  init: "once_reachable (Once_new, \<lambda>_. Outside, 0)"
| step: "once_reachable x \<Longrightarrow> once_step x y \<Longrightarrow> once_reachable y"

definition once_inv :: "once_sys \<Rightarrow> bool" where
  "once_inv x \<longleftrightarrow> (case x of (st, P, n) \<Rightarrow>
     st \<in> {IMCOMPLETE, POISONED, RUNNING, COMPLETE} \<and> (\<forall>t. P t = Inside \<longrightarrow> st = RUNNING) \<and>
     (\<forall>t u. P t = Inside \<longrightarrow> P u = Inside \<longrightarrow> t = u) \<and> n = (if st = COMPLETE then 1 else 0) \<and>
     (\<forall>t v. P t = Read v \<longrightarrow> v \<in> {IMCOMPLETE, POISONED, RUNNING, COMPLETE}))"

lemma once_inv_step: "once_step x y \<Longrightarrow> once_inv x \<Longrightarrow> once_inv y"
proof (induction rule: once_step.induct)
  case (won P t v st n)
  then show ?case by (auto simp: once_inv_def once_consts)
next
  case (success P t st st' n)
  then show ?case by (auto simp: once_inv_def OnceGuard_drop_def) (auto simp: once_consts)
next
  case (failure P t st st' n)
  then show ?case by (auto simp: once_inv_def OnceGuard_drop_def) (auto simp: once_consts)
qed (auto simp: once_inv_def)

lemma once_reachable_inv: "once_reachable x \<Longrightarrow> once_inv x"
proof (induction rule: once_reachable.induct)
  case init
  then show ?case by (simp add: once_inv_def Once_new_def once_consts)
next
  case (step x y)
  then show ?case using once_inv_step by blast
qed

text \<open>
  (C21) One-time initialisation is one-time: in every state that threads reach by racing into
  \<^verbatim>\<open>call_once_force\<close>, at most one thread is inside the initialiser, at most one initialiser
  has ended with success, the guard of the running one can be dropped without its assertion
  failing, and the state word is one of the four constants, so that the assertion of the spinning
  threads holds.
\<close>

theorem Once_exclusive:
  assumes "once_reachable (st, P, n)"
  shows "n \<le> 1 \<and> (\<forall>t u. P t = Inside \<longrightarrow> P u = Inside \<longrightarrow> t = u) \<and>
    (\<forall>t. P t = Inside \<longrightarrow> OnceGuard_drop COMPLETE st = Inr COMPLETE) \<and>
    (\<forall>t v. P t = Read v \<longrightarrow> v \<in> {POISONED, IMCOMPLETE, COMPLETE} \<or> v AND STATE_MASK = RUNNING)"
proof -
  have i: "\<forall>t. P t = Inside \<longrightarrow> st = RUNNING" "\<forall>t u. P t = Inside \<longrightarrow> P u = Inside \<longrightarrow> t = u"
    "n = (if st = COMPLETE then 1 else 0)"
    "\<forall>t v. P t = Read v \<longrightarrow> v \<in> {IMCOMPLETE, POISONED, RUNNING, COMPLETE}"
    using once_reachable_inv[OF assms] unfolding once_inv_def prod.case by blast+
  moreover have "v \<in> {POISONED, IMCOMPLETE, COMPLETE} \<or> v AND STATE_MASK = RUNNING" if "P t = Read v" for t v
    using i(4) that running_mask by blast
  moreover have "OnceGuard_drop COMPLETE st = Inr COMPLETE" if "P t = Inside" for t
    using i(1) that by (auto simp: OnceGuard_drop_def running_mask)
  ultimately show ?thesis by auto
qed

theorem Once_exclusive_witness:
  "once_reachable (RUNNING, (\<lambda>_. Outside)(3 := Inside), 0) \<and> OnceGuard_drop COMPLETE RUNNING = Inr COMPLETE"
proof -
  have 1: "once_reachable (IMCOMPLETE, (\<lambda>_. Outside)(3 := Read IMCOMPLETE), 0)"
    using once_reachable.step[OF once_reachable.init once_step.load[of "\<lambda>_. Outside" 3]] by (simp add: Once_new_def)
  have 2: "once_reachable (RUNNING, (\<lambda>_. Outside)(3 := Inside), 0)"
    using once_reachable.step[OF 1 once_step.won[of "(\<lambda>_. Outside)(3 := Read IMCOMPLETE)" 3 IMCOMPLETE]] by simp
  have "\<forall>t::nat. ((\<lambda>_. Outside)(3 := Inside)) t = Inside \<longrightarrow> OnceGuard_drop COMPLETE RUNNING = Inr COMPLETE"
    using Once_exclusive[OF 2] by blast
  from spec[OF this, of 3] 2 show ?thesis by simp
qed

end
