(* ===== verification/Proc.thy ===== *)
theory Proc
  imports Vm Spinlock HartProofs
begin

text \<open>
  \<^verbatim>\<open>src/kernel/proc.rs\<close>: the process table and the operations that move a process between
  its states. A slot holds the fields that its lock protects, its parent and its private data;
  user memory and open files are values of type variables. An operation holds the lock of the
  slots it changes from its test to its update, so each is one function of the table; the
  processors interleave them as a step relation. What the heap answers to an allocation is an
  argument. The locks themselves, and what becomes of the one that a process holds when it leaves
  its processor, are in \<^verbatim>\<open>Scheduler\<close>.
\<close>

section \<open>State\<close>

definition NPROC :: nat where "NPROC = 64"

datatype ProcState = UNUSED | USED | SLEEPING | RUNNABLE | RUNNING | ZOMBIE

record ('u, 'f) proc =
  p_state :: ProcState
  p_chan :: nat
  p_killed :: bool
  p_xstate :: int
  p_pid :: nat
  p_parent :: "nat option"
  p_kstack :: nat
  p_sz :: nat
  p_uvm :: "'u option"
  p_trapframe :: "(tf_field \<Rightarrow> usize) option"
  p_context :: "reg \<Rightarrow> usize"
  p_name :: string
  p_ofile :: "'f option list"
  p_cwd :: "nat option"

record ('u, 'f) psys =
  ps_pool :: "('u, 'f) proc list"
  ps_cpu :: "nat \<Rightarrow> nat option"
  ps_nextid :: nat
  ps_init :: "nat option"

definition NOFILE :: nat where "NOFILE = 16"

definition Proc_new :: "('u, 'f) proc" where
  "Proc_new = \<lparr>p_state = UNUSED, p_chan = 0, p_killed = False, p_xstate = 0, p_pid = 0, p_parent = None,
     p_kstack = 0, p_sz = 0, p_uvm = None, p_trapframe = None, p_context = (\<lambda>_. 0), p_name = '''',
     p_ofile = replicate NOFILE None, p_cwd = None\<rparr>"

definition Procs_new :: "('u, 'f) proc list" where
  "Procs_new = replicate NPROC Proc_new"

text \<open>\<^verbatim>\<open>init\<close> gives every slot its kernel stack.\<close>

fun init_kstacks :: "nat \<Rightarrow> ('u, 'f) proc list \<Rightarrow> ('u, 'f) proc list rust" where
  "init_kstacks i [] = Inr []"
| "init_kstacks i (p # ps) =
     rbind (kstack i) (\<lambda>k. rbind (init_kstacks (Suc i) ps) (\<lambda>qs. Inr (p\<lparr>p_kstack := k\<rparr> # qs)))"

definition PId_alloc :: "('u, 'f) psys \<Rightarrow> nat \<times> ('u, 'f) psys" where
  "PId_alloc s = (ps_nextid s, s\<lparr>ps_nextid := (ps_nextid s + 1) mod 2 ^ 64\<rparr>)"

abbreviation slot :: "('u, 'f) psys \<Rightarrow> nat \<Rightarrow> ('u, 'f) proc" where
  "slot s i \<equiv> ps_pool s ! i"

definition set_slot :: "nat \<Rightarrow> ('u, 'f) proc \<Rightarrow> ('u, 'f) psys \<Rightarrow> ('u, 'f) psys" where
  "set_slot i p s = s\<lparr>ps_pool := (ps_pool s)[i := p]\<rparr>"

section \<open>Slots\<close>

text \<open>
  What \<^verbatim>\<open>free_proc\<close> does to the slot; the call of \<^verbatim>\<open>proc_uvmfree\<close> on the memory that it takes out
  is in \<^verbatim>\<open>VmUser\<close>.
\<close>

definition free_proc :: "('u, 'f) proc \<Rightarrow> ('u, 'f) proc" where
  "free_proc p = p\<lparr>p_trapframe := None, p_uvm := None, p_sz := 0, p_pid := 0, p_parent := None,
     p_name := '''', p_chan := 0, p_killed := False, p_xstate := 0, p_state := UNUSED\<rparr>"

definition Context_zero :: "reg \<Rightarrow> usize" where
  "Context_zero = (\<lambda>_. 0)"

text \<open>
  \<^verbatim>\<open>alloc_proc\<close>: the loop over the pool, at slot \<open>i\<close>; \<open>tf\<close> is what the heap gives for the trap
  frame, \<open>uvm\<close> what \<^verbatim>\<open>proc_uvmcreate\<close> of \<^verbatim>\<open>VmUser\<close> returns when it does not panic, \<open>fork_ret\<close> the
  address of the function.
\<close>

fun alloc_slots ::
  "(tf_field \<Rightarrow> usize) option \<Rightarrow> 'u option \<Rightarrow> usize \<Rightarrow> nat \<Rightarrow> nat \<Rightarrow> ('u, 'f) psys \<Rightarrow> nat option \<times> ('u, 'f) psys" where
  "alloc_slots tf uvm fork_ret i 0 s = (None, s)"
| "alloc_slots tf uvm fork_ret i (Suc n) s =
     (if p_state (slot s i) = UNUSED then
        let (pid, s1) = PId_alloc s;
            p = (slot s1 i)\<lparr>p_pid := pid, p_state := USED\<rparr>
        in case tf of
             None \<Rightarrow> (None, set_slot i (free_proc p) s1)
           | Some t \<Rightarrow>
               let p = p\<lparr>p_trapframe := Some t\<rparr>
               in case uvm of
                    None \<Rightarrow> (None, set_slot i (free_proc p) s1)
                  | Some u \<Rightarrow>
                      let p = p\<lparr>p_uvm := Some u\<rparr>;
                          ctx = Context_zero(RA := fork_ret, SP := of_nat (p_kstack p + PGSIZE));
                          p = p\<lparr>p_context := ctx\<rparr>
                      in (Some i, set_slot i p s1)
      else (None, s))"

definition alloc_proc ::
  "(tf_field \<Rightarrow> usize) option \<Rightarrow> 'u option \<Rightarrow> usize \<Rightarrow> ('u, 'f) psys \<Rightarrow> nat option \<times> ('u, 'f) psys" where
  "alloc_proc tf uvm fork_ret s = alloc_slots tf uvm fork_ret 0 (length (ps_pool s)) s"

section \<open>Sleep and wakeup\<close>

text \<open>\<^verbatim>\<open>my_proc\<close> of processor \<open>c\<close>.\<close>

definition my_proc :: "nat \<Rightarrow> ('u, 'f) psys \<Rightarrow> nat option" where
  "my_proc c s = ps_cpu s c"

definition wake_one :: "nat \<Rightarrow> ('u, 'f) proc \<Rightarrow> ('u, 'f) proc" where
  "wake_one chan p = (if p_state p = SLEEPING \<and> p_chan p = chan then p\<lparr>p_state := RUNNABLE\<rparr> else p)"

text \<open>\<^verbatim>\<open>wakeup\<close> on processor \<open>c\<close>: the loop over the slots from \<open>i\<close> on.\<close>

fun wake_slots :: "nat option \<Rightarrow> nat \<Rightarrow> nat \<Rightarrow> ('u, 'f) proc list \<Rightarrow> ('u, 'f) proc list" where
  "wake_slots mine chan i [] = []"
| "wake_slots mine chan i (p # ps) =
     (case mine of
        Some m \<Rightarrow> if i \<noteq> m then wake_one chan p else p
      | None \<Rightarrow> p) # wake_slots mine chan (Suc i) ps"

definition wakeup :: "nat \<Rightarrow> nat \<Rightarrow> ('u, 'f) psys \<Rightarrow> ('u, 'f) psys" where
  "wakeup c chan s = s\<lparr>ps_pool := wake_slots (my_proc c s) chan 0 (ps_pool s)\<rparr>"

fun kill_slots :: "nat \<Rightarrow> ('u, 'f) proc list \<Rightarrow> ('u, 'f) proc list option" where
  "kill_slots pid [] = None"
| "kill_slots pid (p # ps) =
     (if p_pid p = pid then
        let p1 = p\<lparr>p_killed := True\<rparr>
        in Some ((if p_state p1 = SLEEPING then p1\<lparr>p_state := RUNNABLE\<rparr> else p1) # ps)
      else map_option (\<lambda>qs. p # qs) (kill_slots pid ps))"

definition kill :: "nat \<Rightarrow> ('u, 'f) psys \<Rightarrow> bool \<times> ('u, 'f) psys" where
  "kill pid s =
     (case kill_slots pid (ps_pool s) of
        None \<Rightarrow> (False, s)
      | Some ps \<Rightarrow> (True, s\<lparr>ps_pool := ps\<rparr>))"

text \<open>
  The part of \<^verbatim>\<open>sleep\<close> before the switch, and what it does when the process runs again; the
  lock of the caller is released and taken again by the caller's model.
\<close>

definition sleep_begin :: "nat \<Rightarrow> ('u, 'f) proc \<Rightarrow> ('u, 'f) proc" where
  "sleep_begin chan p = p\<lparr>p_chan := chan, p_state := SLEEPING\<rparr>"

definition sleep_end :: "('u, 'f) proc \<Rightarrow> ('u, 'f) proc" where
  "sleep_end p = p\<lparr>p_chan := 0\<rparr>"

definition yielding :: "('u, 'f) proc \<Rightarrow> ('u, 'f) proc" where
  "yielding p = p\<lparr>p_state := RUNNABLE\<rparr>"

text \<open>The assertions of \<^verbatim>\<open>sched\<close>, on the core and the slot of the process that leaves.\<close>

definition sched :: "bool \<Rightarrow> core \<Rightarrow> ('u, 'f) proc \<Rightarrow> unit rust" where
  "sched held c p =
     rbind (rassert held ''sched proc lock'') (\<lambda>_.
     rbind (rassert (co_noff c = 1) ''sched multiple locks'') (\<lambda>_.
     rbind (rassert (p_state p \<noteq> RUNNING) ''shced running'') (\<lambda>_.
     rassert (\<not> intr_get (co_csrs c)) ''sched interruptible'')))"

section \<open>Processes\<close>

text \<open>The address of a slot is the channel of \<^verbatim>\<open>wait\<close>; \<open>addr_of\<close> gives it.\<close>

fun reparent_slots ::
  "(nat \<Rightarrow> nat) \<Rightarrow> nat \<Rightarrow> nat \<Rightarrow> nat \<Rightarrow> nat \<Rightarrow> ('u, 'f) psys \<Rightarrow> ('u, 'f) psys rust" where
  "reparent_slots addr_of c i j 0 s = Inr s"
| "reparent_slots addr_of c i j (Suc n) s =
     (if p_parent (slot s j) = Some i then
        rbind (unwrap (ps_init s)) (\<lambda>ini.
        reparent_slots addr_of c i (Suc j) n
          (wakeup c (addr_of ini) (set_slot j ((slot s j)\<lparr>p_parent := Some ini\<rparr>) s)))
      else reparent_slots addr_of c i (Suc j) n s)"

definition reparent :: "(nat \<Rightarrow> nat) \<Rightarrow> nat \<Rightarrow> nat \<Rightarrow> ('u, 'f) psys \<Rightarrow> ('u, 'f) psys rust" where
  "reparent addr_of c i s = reparent_slots addr_of c i 0 (length (ps_pool s)) s"

definition exit :: "(nat \<Rightarrow> nat) \<Rightarrow> nat \<Rightarrow> int \<Rightarrow> ('u, 'f) psys \<Rightarrow> ('u, 'f) psys rust" where
  "exit addr_of c status s =
     rbind (unwrap (my_proc c s)) (\<lambda>i.
     rbind (unwrap (ps_init s)) (\<lambda>ini.
     rbind (rassert (i \<noteq> ini) ''init exiting'') (\<lambda>_.
     let s1 = set_slot i ((slot s i)\<lparr>p_ofile := replicate (length (p_ofile (slot s i))) None, p_cwd := None\<rparr>) s
     in rbind (reparent addr_of c i s1) (\<lambda>s2.
        rbind (unwrap (p_parent (slot s2 i))) (\<lambda>pp.
        let s3 = wakeup c (addr_of pp) s2
        in Inr (set_slot i ((slot s3 i)\<lparr>p_xstate := status, p_state := ZOMBIE\<rparr>) s3))))))"

datatype wait_result = NoChild | Sleep | CopyError | Reaped nat

text \<open>
  One round of \<^verbatim>\<open>wait\<close>: the scan for an exited child. \<open>copy\<close> says whether the copy of the exit
  status into a user memory succeeds and gives the memory after it.
\<close>

fun wait_scan ::
  "('u \<Rightarrow> int \<Rightarrow> 'u option) \<Rightarrow> nat \<Rightarrow> bool \<Rightarrow> nat \<Rightarrow> ('u, 'f) proc list \<Rightarrow> (bool + (wait_result \<times> ('u, 'f) proc list)) rust" where
  "wait_scan copy i havekids j [] = Inr (Inl havekids)"
| "wait_scan copy i havekids j (p # ps) =
     (if p_parent p = Some i then
        if p_state p = ZOMBIE then
          rbind (unwrap (p_uvm p)) (\<lambda>u.
          case copy u (p_xstate p) of
            None \<Rightarrow> Inr (Inr (CopyError, p # ps))
          | Some u1 \<Rightarrow> Inr (Inr (Reaped (p_pid p), free_proc p # ps)))
        else rbind (wait_scan copy i True (Suc j) ps) (\<lambda>r.
               Inr (map_sum id (\<lambda>(w, qs). (w, p # qs)) r))
      else rbind (wait_scan copy i havekids (Suc j) ps) (\<lambda>r.
             Inr (map_sum id (\<lambda>(w, qs). (w, p # qs)) r)))"

definition wait_round ::
  "(nat \<Rightarrow> nat) \<Rightarrow> ('u \<Rightarrow> int \<Rightarrow> 'u option) \<Rightarrow> nat \<Rightarrow> bool \<Rightarrow> ('u, 'f) psys \<Rightarrow> (wait_result \<times> bool \<times> ('u, 'f) psys) rust" where
  "wait_round addr_of copy c havekids s =
     rbind (unwrap (my_proc c s)) (\<lambda>i.
     rbind (wait_scan copy i havekids 0 (ps_pool s)) (\<lambda>r.
     case r of
       Inr (w, ps) \<Rightarrow> Inr (w, True, s\<lparr>ps_pool := ps\<rparr>)
     | Inl kids \<Rightarrow>
         if \<not> kids \<or> p_killed (slot s i) then Inr (NoChild, kids, s)
         else Inr (Sleep, kids, set_slot i (sleep_begin (addr_of i) (slot s i)) s)))"

text \<open>\<^verbatim>\<open>fork\<close>: \<open>ucopy\<close> is the copy of the user memory.\<close>

definition fork ::
  "(tf_field \<Rightarrow> usize) option \<Rightarrow> 'u option \<Rightarrow> usize \<Rightarrow> ('u \<Rightarrow> 'u \<Rightarrow> nat \<Rightarrow> 'u option) \<Rightarrow>
   nat \<Rightarrow> ('u, 'f) psys \<Rightarrow> (nat option \<times> ('u, 'f) psys) rust" where
  "fork tf uvm fork_ret ucopy c s =
     rbind (unwrap (my_proc c s)) (\<lambda>i.
     let (r, s1) = alloc_proc tf uvm fork_ret s
     in case r of
          None \<Rightarrow> Inr (None, s1)
        | Some n \<Rightarrow>
            rbind (unwrap (p_uvm (slot s1 i))) (\<lambda>u.
            rbind (unwrap (p_uvm (slot s1 n))) (\<lambda>nu.
            case ucopy u nu (p_sz (slot s1 i)) of
              None \<Rightarrow> Inr (None, set_slot n (free_proc (slot s1 n)) s1)
            | Some u1 \<Rightarrow>
                rbind (unwrap (p_trapframe (slot s1 i))) (\<lambda>t.
                let p = slot s1 i; np = slot s1 n;
                    np = np\<lparr>p_uvm := Some u1, p_sz := p_sz p, p_trapframe := Some (t(Tf A0 := 0)),
                            p_ofile := p_ofile p, p_cwd := p_cwd p, p_name := p_name np @ p_name p,
                            p_parent := Some i, p_state := RUNNABLE\<rparr>
                in Inr (Some (p_pid np), set_slot n np s1)))))"

text \<open>\<^verbatim>\<open>user_init\<close>: \<open>uinit\<close> is the load of the first program, \<open>root\<close> the inode of the root.\<close>

definition user_init ::
  "(tf_field \<Rightarrow> usize) option \<Rightarrow> 'u option \<Rightarrow> usize \<Rightarrow> ('u \<Rightarrow> 'u rust) \<Rightarrow> nat option \<Rightarrow> ('u, 'f) psys \<Rightarrow> ('u, 'f) psys rust" where
  "user_init tf uvm fork_ret uinit root s =
     (let (r, s1) = alloc_proc tf uvm fork_ret s
      in rbind (unwrap r) (\<lambda>i.
         rbind (if ps_init s1 = None then Inr () else Inl (Panic ''INITPROC'')) (\<lambda>_.
         rbind (unwrap (p_uvm (slot s1 i))) (\<lambda>u.
         rbind (uinit u) (\<lambda>u1.
         rbind (unwrap (p_trapframe (slot s1 i))) (\<lambda>t.
         Inr (set_slot i ((slot s1 i)\<lparr>p_uvm := Some u1, p_sz := PGSIZE,
                p_trapframe := Some (t(Epc := 0, Tf SP := of_nat PGSIZE)),
                p_name := p_name (slot s1 i) @ ''initcode'', p_cwd := root, p_state := RUNNABLE\<rparr>)
              (s1\<lparr>ps_init := Some i\<rparr>))))))))"

section \<open>The scheduler\<close>

text \<open>
  The scheduler of processor \<open>c\<close> at slot \<open>i\<close>: a runnable process becomes the one that runs; when
  it comes back, the processor has none. That is all the scheduler does then: it does not release
  the lock of the process (see \<^verbatim>\<open>Scheduler\<close>).
\<close>

definition sched_enter :: "nat \<Rightarrow> nat \<Rightarrow> ('u, 'f) psys \<Rightarrow> ('u, 'f) psys option" where
  "sched_enter c i s =
     (if p_state (slot s i) = RUNNABLE then
        Some ((set_slot i ((slot s i)\<lparr>p_state := RUNNING\<rparr>) s)\<lparr>ps_cpu := (ps_cpu s)(c := Some i)\<rparr>)
      else None)"

definition sched_return :: "nat \<Rightarrow> ('u, 'f) psys \<Rightarrow> ('u, 'f) psys" where
  "sched_return c s = s\<lparr>ps_cpu := (ps_cpu s)(c := None)\<rparr>"

section \<open>User memory\<close>

text \<open>
  \<^verbatim>\<open>grow_proc\<close>: the new size, or \<^term>\<open>None\<close> for the error. \<open>n\<close> is an \<^verbatim>\<open>isize\<close>; the
  casts reinterpret 64 bits, the addition is checked.
\<close>

definition as_isize :: "nat \<Rightarrow> int" where
  "as_isize x = (if x < 2 ^ 63 then int x else int x - 2 ^ 64)"

definition iadd :: "int \<Rightarrow> int \<Rightarrow> int rust" where
  "iadd x y = (if - (2 ^ 63) \<le> x + y \<and> x + y < 2 ^ 63 then Inr (x + y) else Inl Overflow)"

definition grow_proc ::
  "'s palloc \<Rightarrow> 's pfree \<Rightarrow> nat \<Rightarrow> nat \<Rightarrow> int \<Rightarrow> 's vmst \<Rightarrow> (nat option \<times> 's vmst) rust" where
  "grow_proc palloc pfree root sz n st =
     (if n > 0 then
        rbind (uadd sz (nat n)) (\<lambda>newsz. Uvm_alloc palloc pfree root sz newsz PTE_W st)
      else if n < 0 then
        rbind (iadd (as_isize sz) n) (\<lambda>t.
        rbind (Uvm_dealloc palloc pfree root sz (nat (t mod 2 ^ 64)) st) (\<lambda>(z, st1). Inr (Some z, st1)))
      else Inr (Some sz, st))"

text \<open>
  \<^verbatim>\<open>either_copyout\<close> and \<^verbatim>\<open>either_copyin\<close>: to and from a user address through the page
  table, to and from a kernel address directly; \<open>km\<close> is the memory of the kernel by bytes.
\<close>

definition either_copyout ::
  "'s palloc \<Rightarrow> nat \<Rightarrow> VirtAddr \<Rightarrow> u8 list \<Rightarrow> 's vmst \<times> (nat \<Rightarrow> u8) \<Rightarrow> (bool \<times> 's vmst \<times> (nat \<Rightarrow> u8)) rust" where
  "either_copyout palloc root dst src m =
     (case dst of
        User a \<Rightarrow> rbind (copyout palloc root a src (fst m)) (\<lambda>(ok, st). Inr (ok, st, snd m))
      | Kernel a \<Rightarrow> Inr (True, fst m, \<lambda>x. if a \<le> x \<and> x < a + length src then src ! (x - a) else snd m x)
      | Physical a \<Rightarrow> Inr (True, fst m, \<lambda>x. if a \<le> x \<and> x < a + length src then src ! (x - a) else snd m x))"

definition either_copyin ::
  "'s palloc \<Rightarrow> nat \<Rightarrow> u8 list \<Rightarrow> VirtAddr \<Rightarrow> 's vmst \<times> (nat \<Rightarrow> u8) \<Rightarrow> ((bool \<times> u8 list) \<times> 's vmst \<times> (nat \<Rightarrow> u8)) rust" where
  "either_copyin palloc root dst src m =
     (case src of
        User a \<Rightarrow> rbind (copyin palloc root dst a (fst m)) (\<lambda>(r, st). Inr (r, st, snd m))
      | Kernel a \<Rightarrow> Inr ((True, map (\<lambda>j. snd m (a + j)) [0..<length dst]), m)
      | Physical a \<Rightarrow> Inr ((True, map (\<lambda>j. snd m (a + j)) [0..<length dst]), m))"

end
