(* ===== verification/ProcProofs.thy ===== *)
theory ProcProofs
  imports Proc
begin

text \<open>
  The process table under all processors: the invariant that ties the states of the slots to what
  the processors run, and what sleeping, waking, exiting and waiting do.
\<close>

section \<open>Steps\<close>

inductive proc_step :: "(nat \<Rightarrow> nat) \<Rightarrow> ('u, 'f) psys \<Rightarrow> ('u, 'f) psys \<Rightarrow> bool" for addr_of where
  pick: "c < NCPU \<Longrightarrow> ps_cpu s c = None \<Longrightarrow> i < length (ps_pool s) \<Longrightarrow> sched_enter c i s = Some s' \<Longrightarrow>
    proc_step addr_of s s'"
| yield: "my_proc c s = Some i \<Longrightarrow> proc_step addr_of s (sched_return c (set_slot i (yielding (slot s i)) s))"
| sleep: "my_proc c s = Some i \<Longrightarrow> proc_step addr_of s (sched_return c (set_slot i (sleep_begin chan (slot s i)) s))"
| awake: "my_proc c s = Some i \<Longrightarrow> proc_step addr_of s (set_slot i (sleep_end (slot s i)) s)"
| wake: "proc_step addr_of s (wakeup c chan s)"
| kill: "kill pid s = (r, s') \<Longrightarrow> proc_step addr_of s s'"
| exit: "exit addr_of c status s = Inr s' \<Longrightarrow> proc_step addr_of s (sched_return c s')"
| wait: "wait_round addr_of copy c kids s = Inr (w, kids', s') \<Longrightarrow>
    proc_step addr_of s (if w = Sleep then sched_return c s' else s')"
| fork: "fork tf uvm fork_ret ucopy c s = Inr (r, s') \<Longrightarrow> proc_step addr_of s s'"

section \<open>Invariant\<close>

definition slot_ok :: "('u, 'f) proc \<Rightarrow> bool" where
  "slot_ok p \<longleftrightarrow> (p_state p \<noteq> UNUSED \<longrightarrow> p_trapframe p \<noteq> None \<and> p_uvm p \<noteq> None) \<and>
     (p_state p = UNUSED \<longrightarrow> p_trapframe p = None \<and> p_uvm p = None \<and> p_parent p = None)"

definition psys_inv :: "('u, 'f) psys \<Rightarrow> bool" where
  "psys_inv s \<longleftrightarrow>
     length (ps_pool s) = NPROC \<and> (\<forall>p\<in>set (ps_pool s). slot_ok p) \<and>
     (\<forall>c i. ps_cpu s c = Some i \<longrightarrow> i < NPROC \<and> p_state (slot s i) = RUNNING) \<and>
     (\<forall>c c' i. ps_cpu s c = Some i \<longrightarrow> ps_cpu s c' = Some i \<longrightarrow> c = c') \<and>
     (\<forall>i<NPROC. p_state (slot s i) = RUNNING \<longrightarrow> (\<exists>c. ps_cpu s c = Some i))"

lemma psys_invD:
  assumes "psys_inv s"
  shows "length (ps_pool s) = NPROC" "i < NPROC \<Longrightarrow> slot_ok (slot s i)"
    "ps_cpu s c = Some i \<Longrightarrow> i < NPROC" "ps_cpu s c = Some i \<Longrightarrow> p_state (slot s i) = RUNNING"
    "ps_cpu s c = Some i \<Longrightarrow> ps_cpu s c' = Some i \<Longrightarrow> c = c'"
    "i < NPROC \<Longrightarrow> p_state (slot s i) = RUNNING \<Longrightarrow> \<exists>c. ps_cpu s c = Some i"
  using assms by (auto simp: psys_inv_def)

text \<open>An update of the table that keeps who runs.\<close>

lemma psys_inv_pool:
  assumes inv: "psys_inv s" and len: "length ps = NPROC"
    and ok: "\<And>i. i < NPROC \<Longrightarrow> slot_ok (ps ! i)"
    and run: "\<And>i. i < NPROC \<Longrightarrow> p_state (ps ! i) = RUNNING \<longleftrightarrow> p_state (slot s i) = RUNNING"
    and pool: "ps_pool s' = ps" "ps_cpu s' = ps_cpu s"
  shows "psys_inv s'"
proof -
  have "\<forall>p\<in>set ps. slot_ok p" using ok len by (auto simp: in_set_conv_nth)
  moreover have "i < NPROC \<and> p_state (ps ! i) = RUNNING" if "ps_cpu s c = Some i" for c i
    using psys_invD(3,4)[OF inv that] run by simp
  moreover have "\<exists>c. ps_cpu s c = Some i" if "i < NPROC" "p_state (ps ! i) = RUNNING" for i
    using psys_invD(6)[OF inv that(1)] run that by simp
  ultimately show ?thesis using len psys_invD(5)[OF inv] unfolding psys_inv_def pool by blast
qed

text \<open>A processor gives up its process, which is no longer running.\<close>

lemma psys_inv_leave:
  assumes inv: "psys_inv s" and c: "ps_cpu s c = Some i" and len: "length ps = NPROC"
    and ok: "\<And>j. j < NPROC \<Longrightarrow> slot_ok (ps ! j)" and i: "p_state (ps ! i) \<noteq> RUNNING"
    and run: "\<And>j. j < NPROC \<Longrightarrow> j \<noteq> i \<Longrightarrow> p_state (ps ! j) = RUNNING \<longleftrightarrow> p_state (slot s j) = RUNNING"
    and pool: "ps_pool s' = ps" "ps_cpu s' = (ps_cpu s)(c := None)"
  shows "psys_inv s'"
proof -
  have "\<forall>p\<in>set ps. slot_ok p" using ok len by (auto simp: in_set_conv_nth)
  moreover have "j < NPROC \<and> p_state (ps ! j) = RUNNING" if "((ps_cpu s)(c := None)) d = Some j" for d j
  proof -
    have d: "d \<noteq> c" "ps_cpu s d = Some j" using that by (auto split: if_splits)
    then have "j \<noteq> i" using psys_invD(5)[OF inv c] by blast
    then show ?thesis using psys_invD(3,4)[OF inv d(2)] run by simp
  qed
  moreover have "\<exists>d. ((ps_cpu s)(c := None)) d = Some j" if j: "j < NPROC" "p_state (ps ! j) = RUNNING" for j
  proof -
    have "j \<noteq> i" using j(2) i by blast
    then obtain d where "ps_cpu s d = Some j" using psys_invD(6)[OF inv j(1)] run j by auto
    moreover have "d \<noteq> c" using calculation c \<open>j \<noteq> i\<close> by auto
    ultimately show ?thesis by auto
  qed
  moreover have "d = d'" if "((ps_cpu s)(c := None)) d = Some j" "((ps_cpu s)(c := None)) d' = Some j" for d d' j
    using psys_invD(5)[OF inv, of d j d'] that by (auto split: if_splits)
  ultimately show ?thesis using len unfolding psys_inv_def pool by blast
qed

section \<open>The loops over the pool\<close>

lemma length_wake_slots [simp]: "length (wake_slots m chan i ps) = length ps"
  by (induction ps arbitrary: i) auto

lemma nth_wake_slots:
  "j < length ps \<Longrightarrow> wake_slots mine chan i ps ! j =
   (case mine of Some m \<Rightarrow> if i + j \<noteq> m then wake_one chan (ps ! j) else ps ! j | None \<Rightarrow> ps ! j)"
proof (induction ps arbitrary: i j)
  case (Cons p ps)
  then show ?case by (cases j) (auto split: option.splits)
qed simp

lemma wake_one_simps [simp]:
  "p_trapframe (wake_one chan p) = p_trapframe p" "p_uvm (wake_one chan p) = p_uvm p"
  "p_parent (wake_one chan p) = p_parent p" "p_pid (wake_one chan p) = p_pid p"
  "p_state (wake_one chan p) = RUNNING \<longleftrightarrow> p_state p = RUNNING"
  "p_state (wake_one chan p) = UNUSED \<longleftrightarrow> p_state p = UNUSED"
  "p_state (wake_one chan p) = ZOMBIE \<longleftrightarrow> p_state p = ZOMBIE"
  by (simp_all add: wake_one_def)

lemma wakeup_fields [simp]:
  "length (ps_pool (wakeup c chan s)) = length (ps_pool s)" "ps_cpu (wakeup c chan s) = ps_cpu s"
  "ps_init (wakeup c chan s) = ps_init s" "ps_nextid (wakeup c chan s) = ps_nextid s"
  by (simp_all add: wakeup_def)

lemma slot_wakeup:
  "i < length (ps_pool s) \<Longrightarrow> slot (wakeup c chan s) i =
   (case ps_cpu s c of Some m \<Rightarrow> if i \<noteq> m then wake_one chan (slot s i) else slot s i | None \<Rightarrow> slot s i)"
  by (simp add: wakeup_def nth_wake_slots my_proc_def split: option.splits)

lemma slot_wakeup_simps [simp]:
  assumes "i < length (ps_pool s)"
  shows "p_trapframe (slot (wakeup c chan s) i) = p_trapframe (slot s i)"
    "p_uvm (slot (wakeup c chan s) i) = p_uvm (slot s i)"
    "p_parent (slot (wakeup c chan s) i) = p_parent (slot s i)"
    "p_state (slot (wakeup c chan s) i) = RUNNING \<longleftrightarrow> p_state (slot s i) = RUNNING"
    "p_state (slot (wakeup c chan s) i) = UNUSED \<longleftrightarrow> p_state (slot s i) = UNUSED"
    "slot_ok (slot (wakeup c chan s) i) \<longleftrightarrow> slot_ok (slot s i)"
  using assms by (auto simp: slot_wakeup slot_ok_def split: option.splits)

lemma psys_inv_wakeup: "psys_inv s \<Longrightarrow> psys_inv (wakeup c chan s)"
  by (rule psys_inv_pool[where ps = "ps_pool (wakeup c chan s)"]) (auto simp: psys_invD)

lemma kill_slots_Some:
  "kill_slots pid ps = Some qs \<Longrightarrow> length qs = length ps \<and> (\<forall>j<length ps.
     qs ! j = ps ! j \<or> qs ! j = (ps ! j)\<lparr>p_killed := True\<rparr> \<or>
     (p_state (ps ! j) = SLEEPING \<and> qs ! j = (ps ! j)\<lparr>p_killed := True, p_state := RUNNABLE\<rparr>))"
proof (induction ps arbitrary: qs)
  case (Cons p ps)
  show ?case
  proof (cases "p_pid p = pid")
    case True
    then show ?thesis using Cons.prems by (auto simp: Let_def nth_Cons' split: if_splits)
  next
    case False
    then obtain rs where "kill_slots pid ps = Some rs" "qs = p # rs" using Cons.prems by auto
    with Cons.IH[OF this(1)] show ?thesis by (auto simp: nth_Cons')
  qed
qed simp

lemma psys_inv_kill:
  assumes inv: "psys_inv s" and k: "kill pid s = (r, s')"
  shows "psys_inv s'"
proof (cases "kill_slots pid (ps_pool s)")
  case None
  then show ?thesis using k inv by (simp add: kill_def)
next
  case (Some qs)
  have l: "length qs = NPROC" and f: "\<And>j. j < NPROC \<Longrightarrow> qs ! j = slot s j \<or> qs ! j = (slot s j)\<lparr>p_killed := True\<rparr> \<or>
      (p_state (slot s j) = SLEEPING \<and> qs ! j = (slot s j)\<lparr>p_killed := True, p_state := RUNNABLE\<rparr>)"
    using kill_slots_Some[OF Some] psys_invD(1)[OF inv] by auto
  have s': "ps_pool s' = qs" "ps_cpu s' = ps_cpu s" using k Some by (auto simp: kill_def)
  show ?thesis
  proof (rule psys_inv_pool[OF inv l _ _ s'])
    fix j assume j: "j < NPROC"
    show "slot_ok (qs ! j)" using f[OF j] psys_invD(2)[OF inv j] by (auto simp: slot_ok_def)
    show "p_state (qs ! j) = RUNNING \<longleftrightarrow> p_state (slot s j) = RUNNING" using f[OF j] by auto
  qed
qed

section \<open>Operations keep the invariant\<close>

lemma set_slot_simps [simp]:
  "length (ps_pool (set_slot i p s)) = length (ps_pool s)" "ps_cpu (set_slot i p s) = ps_cpu s"
  "ps_init (set_slot i p s) = ps_init s" "i < length (ps_pool s) \<Longrightarrow> slot (set_slot i p s) i = p"
  "j \<noteq> i \<Longrightarrow> slot (set_slot i p s) j = slot s j" "ps_nextid (set_slot i p s) = ps_nextid s"
  by (simp_all add: set_slot_def)

lemma psys_inv_set:
  assumes "psys_inv s" and "i < NPROC" and "slot_ok p" and "p_state p = RUNNING \<longleftrightarrow> p_state (slot s i) = RUNNING"
  shows "psys_inv (set_slot i p s)"
proof (rule psys_inv_pool[OF assms(1), where ps = "ps_pool (set_slot i p s)"])
  fix j assume "j < NPROC"
  then show "slot_ok (slot (set_slot i p s) j)" "p_state (slot (set_slot i p s) j) = RUNNING \<longleftrightarrow> p_state (slot s j) = RUNNING"
    using assms psys_invD(1,2)[OF assms(1)] by (cases "j = i"; simp)+
qed (simp_all add: psys_invD(1)[OF assms(1)])

lemma psys_inv_set_leave:
  assumes "psys_inv s" and "ps_cpu s c = Some i" and "slot_ok p" and "p_state p \<noteq> RUNNING"
  shows "psys_inv (sched_return c (set_slot i p s))"
proof (rule psys_inv_leave[OF assms(1,2), where ps = "ps_pool (set_slot i p s)"])
  have i: "i < length (ps_pool s)" using psys_invD(1,3)[OF assms(1)] assms(2) by simp
  then show "p_state (slot (set_slot i p s) i) \<noteq> RUNNING" using assms(4) by simp
  fix j assume "j < NPROC"
  then show "slot_ok (slot (set_slot i p s) j)"
    using assms(3) i psys_invD(2)[OF assms(1)] by (cases "j = i") simp_all
qed (simp_all add: psys_invD(1)[OF assms(1)] sched_return_def)

lemma psys_inv_enter:
  assumes inv: "psys_inv s" and idle: "ps_cpu s c = None" and i: "i < NPROC" and e: "sched_enter c i s = Some s'"
  shows "psys_inv s'"
proof -
  have r: "p_state (slot s i) = RUNNABLE" and s': "s' = (set_slot i ((slot s i)\<lparr>p_state := RUNNING\<rparr>) s)\<lparr>ps_cpu := (ps_cpu s)(c := Some i)\<rparr>"
    using e by (auto simp: sched_enter_def split: if_splits)
  have l: "i < length (ps_pool s)" using i psys_invD(1)[OF inv] by simp
  have pool: "ps_pool s' = (ps_pool s)[i := (slot s i)\<lparr>p_state := RUNNING\<rparr>]" and cpu: "ps_cpu s' = (ps_cpu s)(c := Some i)"
    by (simp_all add: s' set_slot_def)
  have ni: "ps_cpu s d \<noteq> Some i" for d using psys_invD(4)[OF inv, of d i] r by auto
  have "\<forall>p\<in>set (ps_pool s'). slot_ok p"
    using inv psys_invD(2)[OF inv i] r unfolding pool
    by (auto simp: psys_inv_def slot_ok_def dest!: set_update_subset_insert[THEN subsetD])
  moreover have "j < NPROC \<and> p_state (slot s' j) = RUNNING" if "ps_cpu s' d = Some j" for d j
    using that psys_invD(3,4)[OF inv, of d j] i l unfolding cpu pool by (cases "d = c"; cases "j = i") auto
  moreover have "d = d'" if "ps_cpu s' d = Some j" "ps_cpu s' d' = Some j" for d d' j
    using that psys_invD(5)[OF inv, of d j d'] ni unfolding cpu by (auto split: if_splits)
  moreover have "\<exists>d. ps_cpu s' d = Some j" if j: "j < NPROC" "p_state (slot s' j) = RUNNING" for j
  proof (cases "j = i")
    case False
    then obtain d where "ps_cpu s d = Some j" using j psys_invD(6)[OF inv j(1)] unfolding pool by auto
    then show ?thesis using idle unfolding cpu by (intro exI[of _ d]) auto
  qed (auto simp: cpu)
  moreover have "length (ps_pool s') = NPROC" using psys_invD(1)[OF inv] by (simp add: pool)
  ultimately show ?thesis unfolding psys_inv_def by blast
qed

lemma psys_inv_reparent:
  "psys_inv s \<Longrightarrow> j + n \<le> NPROC \<Longrightarrow> reparent_slots addr_of c i j n s = Inr s' \<Longrightarrow>
   psys_inv s' \<and> ps_cpu s' = ps_cpu s \<and> ps_init s' = ps_init s"
proof (induction n arbitrary: j s)
  case (Suc n)
  show ?case
  proof (cases "p_parent (slot s j) = Some i")
    case True
    then obtain ini where ini: "reparent_slots addr_of c i (Suc j) n
        (wakeup c (addr_of ini) (set_slot j ((slot s j)\<lparr>p_parent := Some ini\<rparr>) s)) = Inr s'"
      using Suc.prems(3) by (auto split: if_splits)
    have "slot_ok (slot s j)" using psys_invD(2)[OF Suc.prems(1), of j] Suc.prems(2) by simp
    then have "slot_ok ((slot s j)\<lparr>p_parent := Some ini\<rparr>)" using True by (auto simp: slot_ok_def)
    then have "psys_inv (set_slot j ((slot s j)\<lparr>p_parent := Some ini\<rparr>) s)"
      using Suc.prems by (intro psys_inv_set) simp_all
    from Suc.IH[OF psys_inv_wakeup[OF this] _ ini] Suc.prems(2) show ?thesis by simp
  next
    case False
    then show ?thesis using Suc.IH[OF Suc.prems(1), of "Suc j"] Suc.prems(2,3) by simp
  qed
qed simp

lemma psys_inv_exit:
  assumes inv: "psys_inv s" and e: "exit addr_of c status s = Inr s'"
  shows "psys_inv (sched_return c s')"
proof -
  obtain i where i: "ps_cpu s c = Some i"
    using e by (auto simp: exit_def my_proc_def)
  let ?s1 = "set_slot i ((slot s i)\<lparr>p_ofile := replicate (length (p_ofile (slot s i))) None, p_cwd := None\<rparr>) s"
  obtain s2 pp where r: "reparent addr_of c i ?s1 = Inr s2"
    and s': "s' = set_slot i ((slot (wakeup c (addr_of pp) s2) i)\<lparr>p_xstate := status, p_state := ZOMBIE\<rparr>) (wakeup c (addr_of pp) s2)"
    using e i by (auto simp: exit_def my_proc_def Let_def)
  have i': "i < NPROC" "p_state (slot s i) = RUNNING" using psys_invD(3,4)[OF inv i] by auto
  have "psys_inv ?s1" using psys_invD(2)[OF inv i'(1)] i' inv
    by (intro psys_inv_set) (auto simp: slot_ok_def)
  from psys_inv_reparent[OF this, of 0 NPROC addr_of c i s2] r
  have s2: "psys_inv s2" "ps_cpu s2 = ps_cpu s" by (simp_all add: reparent_def psys_invD(1)[OF inv])
  let ?s3 = "wakeup c (addr_of pp) s2"
  have s3: "psys_inv ?s3" "ps_cpu ?s3 c = Some i" using psys_inv_wakeup[OF s2(1)] s2(2) i by simp_all
  have "slot_ok (slot ?s3 i)" "p_state (slot ?s3 i) = RUNNING"
    using psys_invD(2)[OF s3(1) i'(1)] psys_invD(4)[OF s3(1,2)] by auto
  then have "slot_ok ((slot ?s3 i)\<lparr>p_xstate := status, p_state := ZOMBIE\<rparr>)" by (simp add: slot_ok_def)
  from psys_inv_set_leave[OF s3 this] show ?thesis by (simp add: s')
qed

lemma slot_ok_free [simp]: "slot_ok (free_proc p)"
  by (simp add: slot_ok_def free_proc_def)

lemma map_sum_id_eq_Inr [simp]: "map_sum id f r = Inr z \<longleftrightarrow> (\<exists>y. r = Inr y \<and> z = f y)"
  by (cases r) auto

lemma wait_scan_result:
  "wait_scan copy i kids j ps = Inr (Inr (w, qs)) \<Longrightarrow>
   (w = CopyError \<and> qs = ps) \<or>
   (\<exists>k<length ps. p_parent (ps ! k) = Some i \<and> p_state (ps ! k) = ZOMBIE \<and> w = Reaped (p_pid (ps ! k)) \<and>
      qs = ps[k := free_proc (ps ! k)])"
proof (induction ps arbitrary: kids j qs)
  case (Cons p ps)
  show ?case
  proof (cases "p_parent p = Some i \<and> p_state p = ZOMBIE")
    case True
    then show ?thesis using Cons.prems by (auto split: option.splits intro!: exI[of _ 0])
  next
    case False
    then obtain kids' rs where r: "wait_scan copy i kids' (Suc j) ps = Inr (Inr (w, rs))" "qs = p # rs"
      using Cons.prems by (auto split: if_splits)
    from Cons.IH[OF r(1)] show ?thesis
    proof (elim disjE exE conjE)
      fix k assume "k < length ps" "p_parent (ps ! k) = Some i" "p_state (ps ! k) = ZOMBIE"
        "w = Reaped (p_pid (ps ! k))" "rs = ps[k := free_proc (ps ! k)]"
      then show ?thesis using r(2) by (intro disjI2 exI[of _ "Suc k"]) simp
    qed (simp add: r(2))
  qed
qed simp

lemma psys_inv_wait:
  assumes inv: "psys_inv s" and w: "wait_round addr_of copy c kids s = Inr (w, kids', s')"
  shows "psys_inv (if w = Sleep then sched_return c s' else s')"
proof -
  obtain i r where i: "ps_cpu s c = Some i" and r: "wait_scan copy i kids 0 (ps_pool s) = Inr r"
    using w by (auto simp: wait_round_def my_proc_def)
  have i': "i < NPROC" "p_state (slot s i) = RUNNING" using psys_invD(3,4)[OF inv i] by auto
  show ?thesis
  proof (cases r)
    case (Inl k)
    have "slot_ok (sleep_begin (addr_of i) (slot s i))"
      using psys_invD(2)[OF inv i'(1)] i'(2) by (simp add: slot_ok_def sleep_begin_def)
    from psys_inv_set_leave[OF inv i this] show ?thesis
      using w i r Inl inv by (auto simp: wait_round_def my_proc_def sleep_begin_def split: if_splits)
  next
    case (Inr wq)
    then obtain qs where qs: "wait_scan copy i kids 0 (ps_pool s) = Inr (Inr (w, qs))" "s' = s\<lparr>ps_pool := qs\<rparr>"
      using w i r by (cases wq) (auto simp: wait_round_def my_proc_def)
    from wait_scan_result[OF qs(1)] show ?thesis
    proof (elim disjE exE conjE)
      fix k assume k: "k < length (ps_pool s)" "p_state (slot s k) = ZOMBIE" "w = Reaped (p_pid (slot s k))"
        "qs = (ps_pool s)[k := free_proc (slot s k)]"
      have "psys_inv (set_slot k (free_proc (slot s k)) s)"
        using k psys_invD(1)[OF inv] inv by (intro psys_inv_set) (simp_all, simp add: free_proc_def)
      then show ?thesis using qs(2) k(3,4) by (simp add: set_slot_def)
    qed (use qs(2) inv in simp)
  qed
qed

lemma alloc_slots_result:
  assumes "alloc_slots tf uvm fork_ret i n s = (r, s')" and "i + n \<le> length (ps_pool s)"
  shows "s' = s \<and> r = None \<or>
    (i < length (ps_pool s) \<and> p_state (slot s i) = UNUSED \<and>
     (\<exists>q s1. s' = set_slot i q s1 \<and> ps_pool s1 = ps_pool s \<and> ps_cpu s1 = ps_cpu s \<and> ps_init s1 = ps_init s \<and>
       (r = None \<and> p_state q = UNUSED \<and> slot_ok q \<or>
        r = Some i \<and> p_state q = USED \<and> p_trapframe q \<noteq> None \<and> p_uvm q \<noteq> None \<and> p_killed q = p_killed (slot s i))))"
proof (cases n)
  case 0
  then show ?thesis using assms by simp
next
  case (Suc m)
  show ?thesis
  proof (cases "p_state (slot s i) = UNUSED")
    case True
    then show ?thesis using assms Suc
      by (auto simp: PId_alloc_def Let_def split: option.splits
          intro!: exI[of _ "s\<lparr>ps_nextid := (ps_nextid s + 1) mod 2 ^ 64\<rparr>"] exI[of _ "slot s' i"])
        (auto simp: set_slot_def free_proc_def slot_ok_def)
  next
    case False
    then show ?thesis using assms Suc by simp
  qed
qed

lemma psys_inv_alloc:
  assumes inv: "psys_inv s" and a: "alloc_proc tf uvm fork_ret s = (r, s')"
  shows "psys_inv s' \<and> ps_cpu s' = ps_cpu s \<and>
    (\<forall>n. r = Some n \<longrightarrow> n < NPROC \<and> p_state (slot s n) = UNUSED \<and> p_state (slot s' n) = USED)"
proof -
  have l: "length (ps_pool s) = NPROC" by (rule psys_invD(1)[OF inv])
  note res = alloc_slots_result[OF a[unfolded alloc_proc_def], unfolded add_0, OF order_refl]
  show ?thesis
  proof (cases "s' = s \<and> r = None")
    case False
    with res obtain q s1 where q: "s' = set_slot 0 q s1" "ps_pool s1 = ps_pool s" "ps_cpu s1 = ps_cpu s"
      "p_state (slot s 0) = UNUSED" "0 < length (ps_pool s)"
      and r: "r = None \<and> p_state q = UNUSED \<and> slot_ok q \<or>
        r = Some 0 \<and> p_state q = USED \<and> p_trapframe q \<noteq> None \<and> p_uvm q \<noteq> None \<and> p_killed q = p_killed (slot s 0)"
      by blast
    have s1: "psys_inv s1" using inv l by (intro psys_inv_pool[OF inv, of "ps_pool s"]) (simp_all add: q psys_invD)
    have "slot_ok q" "p_state q \<noteq> RUNNING" using r by (auto simp: slot_ok_def)
    then have "psys_inv s'" unfolding q(1) using q l by (intro psys_inv_set[OF s1]) simp_all
    then show ?thesis using r q l by auto
  qed (use inv in simp)
qed

lemma psys_inv_fork:
  assumes inv: "psys_inv s" and f: "fork tf uvm fork_ret ucopy c s = Inr (r, s')"
  shows "psys_inv s'"
proof -
  obtain i a s1 where i: "ps_cpu s c = Some i" and a: "alloc_proc tf uvm fork_ret s = (a, s1)"
    using f by (cases "alloc_proc tf uvm fork_ret s") (auto simp: fork_def my_proc_def)
  note s1 = psys_inv_alloc[OF inv a]
  show ?thesis
  proof (cases a)
    case None
    then show ?thesis using f i a s1 by (simp add: fork_def my_proc_def)
  next
    case (Some n)
    then have n: "n < NPROC" "p_state (slot s1 n) = USED" using s1 by auto
    have set: "psys_inv (set_slot n q s1)" if "slot_ok q" "p_state q \<noteq> RUNNING" for q
      using that n s1 by (intro psys_inv_set) simp_all
    obtain u nu where u: "p_uvm (slot s1 i) = Some u" "p_uvm (slot s1 n) = Some nu"
      using f i a Some by (auto simp: fork_def my_proc_def)
    show ?thesis
    proof (cases "ucopy u nu (p_sz (slot s1 i))")
      case None
      then have "s' = set_slot n (free_proc (slot s1 n)) s1"
        using f i a Some u by (simp add: fork_def my_proc_def)
      then show ?thesis using set[OF slot_ok_free] by (simp add: free_proc_def)
    next
      case (Some u1)
      moreover obtain t where "p_trapframe (slot s1 i) = Some t"
        using psys_invD(2)[of s1 i] psys_invD(3,4)[of s1 c i] s1 i by (auto simp: slot_ok_def)
      ultimately have "psys_inv (snd (projr (fork tf uvm fork_ret ucopy c s)))"
        using u unfolding fork_def my_proc_def i a \<open>a = Some n\<close>
        by (simp add: Let_def) (rule set, simp_all add: slot_ok_def)
      then show ?thesis by (simp add: f)
    qed
  qed
qed

lemma psys_inv_step: "proc_step addr_of s s' \<Longrightarrow> psys_inv s \<Longrightarrow> psys_inv s'"
proof (induction rule: proc_step.induct)
  case (pick c s i s')
  then show ?case using psys_inv_enter[OF pick(5,2) _ pick(4)] psys_invD(1)[OF pick(5)] by simp
next
  case (yield c s i)
  then have i: "ps_cpu s c = Some i" by (simp add: my_proc_def)
  show ?case using psys_invD(2)[OF yield(2) psys_invD(3)[OF yield(2) i]] psys_invD(4)[OF yield(2) i]
    by (intro psys_inv_set_leave[OF yield(2) i]) (simp_all add: slot_ok_def yielding_def)
next
  case (sleep c s i chan)
  then have i: "ps_cpu s c = Some i" by (simp add: my_proc_def)
  show ?case using psys_invD(2)[OF sleep(2) psys_invD(3)[OF sleep(2) i]] psys_invD(4)[OF sleep(2) i]
    by (intro psys_inv_set_leave[OF sleep(2) i]) (simp_all add: slot_ok_def sleep_begin_def)
next
  case (awake c s i)
  then have i: "ps_cpu s c = Some i" by (simp add: my_proc_def)
  show ?case using psys_invD(2)[OF awake(2) psys_invD(3)[OF awake(2) i]] psys_invD(3,4)[OF awake(2) i] awake(2)
    by (intro psys_inv_set) (simp_all add: slot_ok_def sleep_end_def)
qed (rule psys_inv_wakeup psys_inv_kill psys_inv_exit psys_inv_fork psys_inv_wait; assumption)+

section \<open>The first process\<close>

text \<open>The table when \<^verbatim>\<open>main\<close> calls \<^verbatim>\<open>user_init\<close>: \<^verbatim>\<open>init\<close> has given every slot its stack.\<close>

definition psys_boot :: "('u, 'f) proc list \<Rightarrow> ('u, 'f) psys" where
  "psys_boot ps = \<lparr>ps_pool = ps, ps_cpu = (\<lambda>_. None), ps_nextid = 0, ps_init = None\<rparr>"

lemma init_kstacks_slots:
  "init_kstacks i ps = Inr qs \<Longrightarrow> length qs = length ps \<and> (\<forall>j<length ps. \<exists>k. qs ! j = (ps ! j)\<lparr>p_kstack := k\<rparr>)"
proof (induction ps arbitrary: i qs)
  case (Cons p ps)
  then obtain k rs where "init_kstacks (Suc i) ps = Inr rs" "qs = p\<lparr>p_kstack := k\<rparr> # rs" by auto
  with Cons.IH[OF this(1)] show ?case by (auto simp: nth_Cons split: nat.splits)
qed simp

lemma psys_boot_inv:
  assumes "init_kstacks 0 Procs_new = Inr ps"
  shows "psys_inv (psys_boot ps)" and "p_state (slot (psys_boot ps) 0) = UNUSED"
proof -
  have l: "length ps = NPROC" and k: "\<And>j. j < NPROC \<Longrightarrow> \<exists>k. ps ! j = Proc_new\<lparr>p_kstack := k\<rparr>"
    using init_kstacks_slots[OF assms] by (auto simp: Procs_new_def)
  have u: "p_state (ps ! j) = UNUSED \<and> slot_ok (ps ! j)" if "j < NPROC" for j
    using k[OF that] by (auto simp: Proc_new_def slot_ok_def)
  show "psys_inv (psys_boot ps)" using l u by (auto simp: psys_inv_def psys_boot_def in_set_conv_nth)
  show "p_state (slot (psys_boot ps) 0) = UNUSED" using u[of 0] by (simp add: psys_boot_def NPROC_def)
qed

definition init_alive :: "('u, 'f) psys \<Rightarrow> bool" where
  "init_alive s \<longleftrightarrow> ps_init s = Some 0 \<and> p_state (slot s 0) \<noteq> UNUSED \<and> p_state (slot s 0) \<noteq> ZOMBIE"

lemma user_init_ok:
  assumes inv: "psys_inv s" and u: "user_init tf uvm fork_ret uinit root s = Inr s'"
  shows "psys_inv s' \<and> init_alive s'"
proof -
  obtain r s1 where a: "alloc_proc tf uvm fork_ret s = (r, s1)" by (cases "alloc_proc tf uvm fork_ret s")
  obtain i where i: "r = Some i" using u a by (auto simp: user_init_def)
  have s1: "psys_inv s1" "i < NPROC" "p_state (slot s1 i) = USED" using psys_inv_alloc[OF inv a] i by auto
  have i0: "i = 0" using alloc_slots_result[OF a[unfolded alloc_proc_def], unfolded add_0, OF order_refl] i by auto
  have b: "psys_inv (s1\<lparr>ps_init := Some i\<rparr>)"
    by (rule psys_inv_pool[OF s1(1), of "ps_pool s1"]) (simp_all add: psys_invD[OF s1(1)])
  have set: "psys_inv (set_slot i q (s1\<lparr>ps_init := Some i\<rparr>))" if "slot_ok q" "p_state q \<noteq> RUNNING" for q
    using that s1 by (intro psys_inv_set[OF b]) simp_all
  obtain u0 u1 t where t: "p_uvm (slot s1 i) = Some u0" "uinit u0 = Inr u1" "p_trapframe (slot s1 i) = Some t" "ps_init s1 = None"
    using u unfolding user_init_def a i by (auto split: if_splits)
  have l: "i < length (ps_pool s1)" using psys_invD(1)[OF s1(1)] s1(2) by simp
  have "psys_inv (projr (user_init tf uvm fork_ret uinit root s)) \<and> init_alive (projr (user_init tf uvm fork_ret uinit root s))"
    unfolding user_init_def a i
    by (simp add: t, intro conjI set) (use l i0 in \<open>simp_all add: slot_ok_def init_alive_def\<close>)
  then show ?thesis by (simp add: u)
qed

lemma alloc_proc_first:
  "p_state (slot s 0) \<noteq> UNUSED \<Longrightarrow> alloc_proc tf uvm fork_ret s = (None, s)"
  by (cases "length (ps_pool s)") (simp_all add: alloc_proc_def)

lemma init_alive_set: "init_alive s \<Longrightarrow> i = 0 \<Longrightarrow> p_state q \<noteq> UNUSED \<Longrightarrow> p_state q \<noteq> ZOMBIE \<Longrightarrow> init_alive (set_slot i q s)"
  by (cases "ps_pool s") (simp_all add: init_alive_def set_slot_def)

lemma init_alive_other: "init_alive s \<Longrightarrow> i \<noteq> 0 \<Longrightarrow> init_alive (set_slot i q s)"
  by (simp add: init_alive_def)

lemma init_alive_slot:
  "init_alive s \<Longrightarrow> p_state q \<noteq> UNUSED \<Longrightarrow> p_state q \<noteq> ZOMBIE \<Longrightarrow> init_alive (set_slot i q s)"
  by (cases "i = 0") (simp_all add: init_alive_set init_alive_other)

lemma init_alive_parent: "init_alive s \<Longrightarrow> init_alive (set_slot j ((slot s j)\<lparr>p_parent := x\<rparr>) s)"
  by (cases "j = 0", rule init_alive_set) (simp_all add: init_alive_def)

lemma init_alive_wakeup: "init_alive s \<Longrightarrow> psys_inv s \<Longrightarrow> init_alive (wakeup c chan s)"
  using psys_invD(1)[of s] by (auto simp: init_alive_def slot_wakeup NPROC_def split: option.splits)

lemma init_alive_reparent:
  "init_alive s \<Longrightarrow> psys_inv s \<Longrightarrow> j + n \<le> NPROC \<Longrightarrow> reparent_slots addr_of c i j n s = Inr s' \<Longrightarrow> init_alive s'"
proof (induction n arbitrary: j s)
  case (Suc n)
  show ?case
  proof (cases "p_parent (slot s j) = Some i")
    case True
    let ?t = "set_slot j ((slot s j)\<lparr>p_parent := Some 0\<rparr>) s"
    have r: "reparent_slots addr_of c i (Suc j) n (wakeup c (addr_of 0) ?t) = Inr s'"
      using Suc.prems(1,4) True by (simp add: init_alive_def)
    have "slot_ok ((slot s j)\<lparr>p_parent := Some 0\<rparr>)"
      using True psys_invD(2)[OF Suc.prems(2), of j] Suc.prems(3) by (auto simp: slot_ok_def)
    then have t: "psys_inv ?t" using Suc.prems by (intro psys_inv_set) simp_all
    show ?thesis
      using Suc.IH[OF init_alive_wakeup[OF init_alive_parent[OF Suc.prems(1)] t] psys_inv_wakeup[OF t] _ r] Suc.prems(3)
      by simp
  next
    case False
    then show ?thesis using Suc.IH[OF Suc.prems(1,2), of "Suc j"] Suc.prems(3,4) by simp
  qed
qed simp

lemma init_alive_exit:
  assumes alive: "init_alive s" and inv: "psys_inv s" and e: "exit addr_of c status s = Inr s'"
  shows "init_alive s'"
proof -
  obtain i where i: "ps_cpu s c = Some i" "i \<noteq> 0"
    using e alive by (auto simp: exit_def my_proc_def init_alive_def)
  let ?s1 = "set_slot i ((slot s i)\<lparr>p_ofile := replicate (length (p_ofile (slot s i))) None, p_cwd := None\<rparr>) s"
  obtain s2 pp where r: "reparent addr_of c i ?s1 = Inr s2"
    and s': "s' = set_slot i ((slot (wakeup c (addr_of pp) s2) i)\<lparr>p_xstate := status, p_state := ZOMBIE\<rparr>) (wakeup c (addr_of pp) s2)"
    using e i by (auto simp: exit_def my_proc_def Let_def)
  have "psys_inv ?s1" using psys_invD(2)[OF inv psys_invD(3)[OF inv i(1)]] psys_invD(3,4)[OF inv i(1)] inv
    by (intro psys_inv_set) (auto simp: slot_ok_def)
  then have "init_alive s2" "psys_inv s2"
    using init_alive_reparent[OF init_alive_other[OF alive i(2)], of "_" 0 NPROC addr_of c i s2]
      psys_inv_reparent[of ?s1 0 NPROC addr_of c i s2] r psys_invD(1)[OF inv]
    by (simp_all add: reparent_def)
  then show ?thesis unfolding s' by (intro init_alive_other[OF init_alive_wakeup] i(2))
qed

lemma init_alive_kill:
  assumes "init_alive s" and inv: "psys_inv s" and k: "kill pid s = (r, s')"
  shows "init_alive s'"
proof (cases "kill_slots pid (ps_pool s)")
  case (Some qs)
  have "0 < length (ps_pool s)" using psys_invD(1)[OF inv] by (simp add: NPROC_def)
  with kill_slots_Some[OF Some] have "qs ! 0 = slot s 0 \<or> qs ! 0 = (slot s 0)\<lparr>p_killed := True\<rparr> \<or>
      qs ! 0 = (slot s 0)\<lparr>p_killed := True, p_state := RUNNABLE\<rparr>" by blast
  then show ?thesis using assms(1) k Some by (auto simp: kill_def init_alive_def)
qed (use assms in \<open>simp add: kill_def\<close>)

lemma init_alive_wait:
  assumes alive: "init_alive s" and w: "wait_round addr_of copy c kids s = Inr (w, kids', s')"
  shows "init_alive s'"
proof -
  obtain i r where i: "ps_cpu s c = Some i" and r: "wait_scan copy i kids 0 (ps_pool s) = Inr r"
    using w by (auto simp: wait_round_def my_proc_def)
  show ?thesis
  proof (cases r)
    case (Inl k)
    then show ?thesis using w i r alive
      by (auto simp: wait_round_def my_proc_def sleep_begin_def split: if_splits intro!: init_alive_slot)
  next
    case (Inr wq)
    then obtain qs where qs: "wait_scan copy i kids 0 (ps_pool s) = Inr (Inr (w, qs))" "s' = s\<lparr>ps_pool := qs\<rparr>"
      using w i r by (cases wq) (auto simp: wait_round_def my_proc_def)
    from wait_scan_result[OF qs(1)] show ?thesis
    proof (elim disjE exE conjE)
      fix k assume k: "p_state (slot s k) = ZOMBIE" "qs = (ps_pool s)[k := free_proc (slot s k)]"
      then have "k \<noteq> 0" using alive by (cases k) (auto simp: init_alive_def)
      then show ?thesis using alive by (simp add: qs(2) k(2) init_alive_def)
    qed (use qs(2) alive in simp)
  qed
qed

lemma init_alive_return [simp]: "init_alive (sched_return c s) = init_alive s"
  by (simp add: init_alive_def sched_return_def)

lemma init_alive_step: "proc_step addr_of s s' \<Longrightarrow> psys_inv s \<Longrightarrow> init_alive s \<Longrightarrow> init_alive s'"
proof (induction rule: proc_step.induct)
  case (pick c s i s')
  then show ?case by (cases "i = 0") (auto simp: sched_enter_def init_alive_def set_slot_def split: if_splits)
next
  case (awake c s i)
  then have "p_state (slot s i) = RUNNING" using psys_invD(4) by (auto simp: my_proc_def)
  with awake show ?case by (auto intro!: init_alive_slot simp: sleep_end_def)
next
  case (wait copy c kids s w kids' s')
  then show ?case using init_alive_wait[of s addr_of copy c kids w kids' s'] by simp
next
  case (fork tf uvm fork_ret ucopy c s r s')
  then show ?case by (auto simp: fork_def alloc_proc_first init_alive_def)
qed (auto intro!: init_alive_slot init_alive_wakeup simp: yielding_def sleep_begin_def dest: init_alive_kill init_alive_exit)

lemma proc_steps_inv:
  assumes "(proc_step addr_of)\<^sup>*\<^sup>* s s'" and "psys_inv s" and "init_alive s"
  shows "psys_inv s' \<and> init_alive s'"
  using assms by (induction rule: rtranclp_induct) (blast dest: psys_inv_step init_alive_step)+

section \<open>Waiting\<close>

lemma wait_scan_zombie:
  assumes "k < length ps" and "p_parent (ps ! k) = Some i" and "p_state (ps ! k) = ZOMBIE"
    and "\<And>p. p \<in> set ps \<Longrightarrow> p_state p = ZOMBIE \<Longrightarrow> p_uvm p \<noteq> None"
  shows "\<exists>w qs. wait_scan copy i kids j ps = Inr (Inr (w, qs))"
  using assms
proof (induction ps arbitrary: k kids j)
  case (Cons p ps)
  show ?case
  proof (cases "p_parent p = Some i \<and> p_state p = ZOMBIE")
    case True
    moreover obtain u where "p_uvm p = Some u" using Cons.prems(4)[of p] True by auto
    ultimately show ?thesis by (cases "copy u (p_xstate p)") auto
  next
    case False
    then obtain l where k: "k = Suc l" using Cons.prems by (cases k) auto
    have "\<exists>w qs. wait_scan copy i kids j ps = Inr (Inr (w, qs))" for kids j
      using Cons.IH[of l kids j] Cons.prems unfolding k by simp
    from this[of True "Suc j"] this[of kids "Suc j"] show ?thesis using False by auto
  qed
qed simp

section \<open>Properties\<close>

text \<open>
  The moves of the table, without the locks that \<^verbatim>\<open>Scheduler\<close> adds: after \<^verbatim>\<open>user_init\<close>, a slot is
  RUNNING exactly when one and only one processor runs it, and every slot in use has a trap frame
  and a page table.
\<close>

lemma process_table_consistent:
  assumes "init_kstacks 0 Procs_new = Inr ps"
    and "user_init tf uvm fork_ret uinit root (psys_boot ps) = Inr s0"
    and "(proc_step addr_of)\<^sup>*\<^sup>* s0 s" and "i < NPROC"
  shows "(p_state (slot s i) = RUNNING \<longleftrightarrow> (\<exists>!c. ps_cpu s c = Some i)) \<and>
    (p_state (slot s i) \<noteq> UNUSED \<longleftrightarrow> p_trapframe (slot s i) \<noteq> None \<and> p_uvm (slot s i) \<noteq> None)"
proof -
  have inv: "psys_inv s"
    using proc_steps_inv[OF assms(3)] user_init_ok[OF psys_boot_inv(1)[OF assms(1)] assms(2)] by blast
  have "p_state (slot s i) = RUNNING \<longleftrightarrow> (\<exists>!c. ps_cpu s c = Some i)"
    using psys_invD(4,5)[OF inv] psys_invD(6)[OF inv assms(4)] by blast
  then show ?thesis
    using psys_invD(2)[OF inv assms(4)] by (auto simp: slot_ok_def)
qed

lemma init_kstacks_total: "i + length ps \<le> NPROC \<Longrightarrow> \<exists>qs. init_kstacks i ps = Inr qs"
proof (induction ps arbitrary: i)
  case (Cons p ps)
  then obtain qs where "init_kstacks (Suc i) ps = Inr qs" by force
  moreover have "(i + 1) * 5 * PGSIZE \<le> TRAMPOLINE"
    using Cons.prems by (simp add: NPROC_def PGSIZE_def TRAMPOLINE_def MAXVA_def)
  ultimately show ?case by (auto simp: kstack_def usub_def)
qed simp

text \<open>The first process after \<^verbatim>\<open>user_init\<close>, then on processor 0.\<close>

lemma first_process:
  obtains ps :: "(unit, unit) proc list" and s0 s where
    "init_kstacks 0 Procs_new = Inr ps"
    "user_init (Some (\<lambda>_. 0)) (Some ()) 0 (\<lambda>u. Inr u) None (psys_boot ps) = Inr s0"
    "(proc_step id)\<^sup>*\<^sup>* s0 s" "my_proc 0 s = Some 0" "p_state (slot s 0) = RUNNING"
proof -
  obtain ps :: "(unit, unit) proc list" where ps: "init_kstacks 0 Procs_new = Inr ps"
    using init_kstacks_total[of 0 Procs_new] by (auto simp: Procs_new_def)
  obtain n where l: "length (ps_pool (psys_boot ps)) = Suc n"
    using psys_invD(1)[OF psys_boot_inv(1)[OF ps]] by (cases "ps_pool (psys_boot ps)") (simp_all add: NPROC_def)
  then obtain p qs where pq: "ps = p # qs" by (cases ps) (auto simp: psys_boot_def)
  note u = psys_boot_inv(2)[OF ps]
  obtain s0 where s0: "user_init (Some (\<lambda>_. 0)) (Some ()) 0 (\<lambda>u. Inr u) None (psys_boot ps) = Inr s0"
    and r: "p_state (slot s0 0) = RUNNABLE" "ps_cpu s0 = (\<lambda>_. None)" "0 < length (ps_pool s0)"
    using u l unfolding user_init_def alloc_proc_def l
    by (simp add: PId_alloc_def set_slot_def psys_boot_def pq Let_def)
  obtain s where s: "sched_enter 0 0 s0 = Some s" using r by (simp add: sched_enter_def)
  then have "p_state (slot s 0) = RUNNING" "my_proc 0 s = Some 0"
    using r by (auto simp: sched_enter_def my_proc_def set_slot_def split: if_splits)
  moreover have "proc_step id s0 s"
    by (rule proc_step.pick[OF _ _ r(3) s]) (simp_all add: r NCPU_def)
  ultimately show thesis using that[OF ps s0] by blast
qed

text \<open>
  (C25) Once \<^verbatim>\<open>user_init\<close> has run, the first process is never freed and never a zombie, and it stays
  in slot 0. Because \<^verbatim>\<open>alloc_proc\<close> gives up at the first slot that is not UNUSED, every
  \<^verbatim>\<open>fork\<close> from then on fails and changes nothing.
\<close>

theorem fork_fails_after_user_init:
  assumes "init_kstacks 0 Procs_new = Inr ps"
    and "user_init tf uvm fork_ret uinit root (psys_boot ps) = Inr s0"
    and "(proc_step addr_of)\<^sup>*\<^sup>* s0 s" and "my_proc c s = Some i"
  shows "ps_init s = Some 0 \<and> p_state (slot s 0) \<noteq> UNUSED \<and> p_state (slot s 0) \<noteq> ZOMBIE \<and>
    fork tf' uvm' fork_ret' ucopy c s = Inr (None, s)"
proof -
  have "init_alive s"
    using proc_steps_inv[OF assms(3)] user_init_ok[OF psys_boot_inv(1)[OF assms(1)] assms(2)] by blast
  then show ?thesis using assms(4) by (simp add: init_alive_def fork_def alloc_proc_first)
qed

theorem fork_fails_after_user_init_witness:
  "\<exists>s :: (unit, unit) psys. my_proc 0 s = Some 0 \<and>
     fork (Some (\<lambda>_. 0)) (Some ()) 0 (\<lambda>u nu sz. Some nu) 0 s = Inr (None, s)"
proof -
  obtain ps :: "(unit, unit) proc list" and s0 s where h: "init_kstacks 0 Procs_new = Inr ps"
    "user_init (Some (\<lambda>_. 0)) (Some ()) 0 (\<lambda>u. Inr u) None (psys_boot ps) = Inr s0"
    "(proc_step id)\<^sup>*\<^sup>* s0 s" "my_proc 0 s = Some 0"
    by (rule first_process)
  from fork_fails_after_user_init[OF h] h(4) show ?thesis by blast
qed

text \<open>
  \<^verbatim>\<open>wakeup\<close> on a processor that runs a process makes exactly the sleepers on the channel
  runnable, the caller apart, and touches nothing else; on a processor that runs no process, as
  when a device interrupts the scheduler's loop, it wakes nobody.
\<close>

theorem wakeup_exact:
  "wakeup c chan s =
     (case my_proc c s of
        None \<Rightarrow> s
      | Some m \<Rightarrow> s\<lparr>ps_pool := map (\<lambda>i.
          if i \<noteq> m \<and> p_state (slot s i) = SLEEPING \<and> p_chan (slot s i) = chan
          then (slot s i)\<lparr>p_state := RUNNABLE\<rparr> else slot s i) [0..<length (ps_pool s)]\<rparr>)"
proof (cases "my_proc c s")
  case None
  then have "ps_pool (wakeup c chan s) = ps_pool s"
    by (intro nth_equalityI) (simp_all add: slot_wakeup my_proc_def)
  then show ?thesis using None by (simp add: wakeup_def)
next
  case (Some m)
  then have "ps_pool (wakeup c chan s) = map (\<lambda>i.
          if i \<noteq> m \<and> p_state (slot s i) = SLEEPING \<and> p_chan (slot s i) = chan
          then (slot s i)\<lparr>p_state := RUNNABLE\<rparr> else slot s i) [0..<length (ps_pool s)]"
    by (intro nth_equalityI) (simp_all add: slot_wakeup my_proc_def wake_one_def)
  then show ?thesis using Some by (simp add: wakeup_def)
qed

text \<open>
  The scan of \<^verbatim>\<open>wait\<close> on a table with an exited child: it neither sleeps nor reports that there is none:
  unless the copy of the status fails it frees exactly one exited child of the caller and returns
  its identifier.
\<close>

lemma wait_reaps_zombie:
  assumes "psys_inv s" and "my_proc c s = Some i"
    and "k < NPROC" and "p_parent (slot s k) = Some i" and "p_state (slot s k) = ZOMBIE"
  shows "wait_round addr_of copy c kids s = Inr (CopyError, True, s) \<or>
    (\<exists>j. j < NPROC \<and> p_parent (slot s j) = Some i \<and> p_state (slot s j) = ZOMBIE \<and>
       wait_round addr_of copy c kids s = Inr (Reaped (p_pid (slot s j)), True, set_slot j (free_proc (slot s j)) s))"
proof -
  have l: "length (ps_pool s) = NPROC" by (rule psys_invD(1)[OF assms(1)])
  have "slot_ok p" if "p \<in> set (ps_pool s)" for p using assms(1) that unfolding psys_inv_def by blast
  then have "p_uvm p \<noteq> None" if "p \<in> set (ps_pool s)" "p_state p = ZOMBIE" for p
    using that by (simp add: slot_ok_def)
  moreover have "k < length (ps_pool s)" using l assms(3) by simp
  ultimately obtain w qs where w: "wait_scan copy i kids 0 (ps_pool s) = Inr (Inr (w, qs))"
    using wait_scan_zombie[OF _ assms(4,5), of copy kids 0] by blast
  then have r: "wait_round addr_of copy c kids s = Inr (w, True, s\<lparr>ps_pool := qs\<rparr>)"
    by (simp add: wait_round_def assms(2))
  from wait_scan_result[OF w] show ?thesis
  proof (elim disjE exE conjE)
    fix j assume "j < length (ps_pool s)" "p_parent (slot s j) = Some i" "p_state (slot s j) = ZOMBIE"
      "w = Reaped (p_pid (slot s j))" "qs = (ps_pool s)[j := free_proc (slot s j)]"
    then show ?thesis using r l by (auto simp: set_slot_def)
  qed (use r in simp)
qed

end
