(* ===== verification/Scheduler.thy ===== *)
theory Scheduler
  imports Proc
begin

text \<open>
  The loop of \<^verbatim>\<open>scheduler\<close>, \<^verbatim>\<open>sched\<close> and \<^verbatim>\<open>fork_ret\<close> of \<^verbatim>\<open>src/kernel/proc.rs\<close> with the locks
  of the slots: mutex \<open>i\<close> of \<^verbatim>\<open>Spinlock\<close> is \<^verbatim>\<open>inner\<close> of slot \<open>i\<close>, the mutexes from \<open>NPROC\<close> on are
  all others. A guard is kept where the code keeps it: in a local variable of the function that the
  processor or the suspended process is in, or in \<^verbatim>\<open>proc_lock\<close> of the processor.
\<close>

section \<open>State\<close>

record ('u, 'f) ssys =
  ss_smp :: smp
  ss_ps :: "('u, 'f) psys"
  ss_proc_lock :: "nat \<Rightarrow> nat option"
  ss_fresh :: "nat \<Rightarrow> bool"

text \<open>
  \<open>ss_fresh\<close> of a slot says that its saved context is the one that \<^verbatim>\<open>alloc_proc\<close> made, which starts
  in \<^verbatim>\<open>fork_ret\<close>. Where a processor is: the scheduler before slot \<open>i\<close>; a process that was switched
  to and is at the start of \<^verbatim>\<open>fork_ret\<close> or at the return of \<^verbatim>\<open>sched\<close>; a process that runs; and one that
  has taken its own lock to leave.
\<close>

datatype hart_pc = Scan nat | Starts nat | Resumes nat | Runs nat | Leaves nat

fun on_slot :: "hart_pc \<Rightarrow> nat option" where
  "on_slot (Scan i) = None"
| "on_slot (Starts i) = Some i"
| "on_slot (Resumes i) = Some i"
| "on_slot (Runs i) = Some i"
| "on_slot (Leaves i) = Some i"

text \<open>The fields of \<^verbatim>\<open>ProcInner\<close>, which the lock of the slot protects.\<close>

definition proc_inner :: "('u, 'f) proc \<Rightarrow> ProcState \<times> nat \<times> bool \<times> int \<times> nat" where
  "proc_inner p = (p_state p, p_chan p, p_killed p, p_xstate p, p_pid p)"

text \<open>\<^verbatim>\<open>lock\<close> with one attempt of its loop; \<^term>\<open>None\<close> when the attempt fails and the loop goes on.\<close>

definition lock_now :: "nat \<Rightarrow> nat \<Rightarrow> smp \<Rightarrow> smp option rust" where
  "lock_now c l m =
     rbind (Mutex_lock_enter c l m) (\<lambda>m1.
     let (ok, m2) = Mutex_lock_try c l m1 in Inr (if ok then Some m2 else None))"

section \<open>Operations\<close>

text \<open>\<^verbatim>\<open>c.proc_lock.replace(inner)\<close>: the guard that was there, if any, is dropped.\<close>

definition proc_lock_replace :: "nat \<Rightarrow> nat \<Rightarrow> ('u, 'f) ssys \<Rightarrow> ('u, 'f) ssys rust" where
  "proc_lock_replace c i s =
     (let s1 = s\<lparr>ss_proc_lock := (ss_proc_lock s)(c := Some i)\<rparr>
      in case ss_proc_lock s c of
           None \<Rightarrow> Inr s1
         | Some j \<Rightarrow> rbind (MutexGuard_drop c j (ss_smp s)) (\<lambda>m. Inr (s1\<lparr>ss_smp := m\<rparr>)))"

text \<open>
  The body of the loop once the lock is taken: whether it switches to the process. When it does not,
  the guard is dropped at the end of the body.
\<close>

definition scheduler_body :: "nat \<Rightarrow> nat \<Rightarrow> ('u, 'f) ssys \<Rightarrow> (bool \<times> ('u, 'f) ssys) rust" where
  "scheduler_body c i s =
     (case sched_enter c i (ss_ps s) of
        Some ps \<Rightarrow> rbind (proc_lock_replace c i (s\<lparr>ss_ps := ps\<rparr>)) (\<lambda>s1. Inr (True, s1))
      | None \<Rightarrow> rbind (MutexGuard_drop c i (ss_smp s)) (\<lambda>m. Inr (False, s\<lparr>ss_smp := m\<rparr>)))"

text \<open>The next slot of the loop; a new round of it turns interrupts on.\<close>

definition scan_next :: "nat \<Rightarrow> nat \<Rightarrow> ('u, 'f) ssys \<Rightarrow> hart_pc \<times> ('u, 'f) ssys" where
  "scan_next c i s =
     (if Suc i < NPROC then (Scan (Suc i), s)
      else (Scan 0, s\<lparr>ss_smp := set_core c ((sm_core (ss_smp s) c)\<lparr>co_csrs := intr_on (co_csrs (sm_core (ss_smp s) c))\<rparr>) (ss_smp s)\<rparr>))"

text \<open>\<^verbatim>\<open>drop(CPUS.my_cpu().proc_lock.take())\<close> of \<^verbatim>\<open>fork_ret\<close>.\<close>

definition fork_ret_unlock :: "nat \<Rightarrow> ('u, 'f) ssys \<Rightarrow> ('u, 'f) ssys rust" where
  "fork_ret_unlock c s =
     (let s1 = s\<lparr>ss_proc_lock := (ss_proc_lock s)(c := None)\<rparr>
      in case ss_proc_lock s c of
           None \<Rightarrow> Inr s1
         | Some j \<Rightarrow> rbind (MutexGuard_drop c j (ss_smp s)) (\<lambda>m. Inr (s1\<lparr>ss_smp := m\<rparr>)))"

text \<open>
  The ways to leave the processor, each with the lock of the slot held: \<^verbatim>\<open>yielding\<close>, \<^verbatim>\<open>sleep\<close> and
  \<^verbatim>\<open>exit\<close>.
\<close>

datatype leaving = Yields | Sleeps nat | Exits int

fun leave_slot :: "leaving \<Rightarrow> ('u, 'f) proc \<Rightarrow> ('u, 'f) proc" where
  "leave_slot Yields p = yielding p"
| "leave_slot (Sleeps chan) p = sleep_begin chan p"
| "leave_slot (Exits status) p = p\<lparr>p_xstate := status, p_state := ZOMBIE\<rparr>"

text \<open>
  The assertions of \<^verbatim>\<open>sched\<close> and the switch. The guard stays in the frame of \<^verbatim>\<open>sched\<close> on the stack
  of the process; the scheduler, which the switch returns to, takes the process out of \<^verbatim>\<open>c.proc\<close> and
  goes on with the next slot.
\<close>

definition sched_switch :: "leaving \<Rightarrow> nat \<Rightarrow> nat \<Rightarrow> ('u, 'f) ssys \<Rightarrow> (hart_pc \<times> ('u, 'f) ssys) rust" where
  "sched_switch k c i s =
     (let p = leave_slot k (slot (ss_ps s) i)
      in rbind (sched (holding c i (ss_smp s)) (sm_core (ss_smp s) c) p) (\<lambda>_.
         Inr (scan_next c i (s\<lparr>ss_ps := sched_return c (set_slot i p (ss_ps s)), ss_fresh := (ss_fresh s)(i := False)\<rparr>))))"

section \<open>Processors that run together\<close>

text \<open>
  A processor takes and drops other locks, also in an interrupt. A process that runs may, under the lock of a slot, change that slot,
  but does not make it or cease to be RUNNING (\<^verbatim>\<open>wakeup\<close>, \<^verbatim>\<open>kill\<close>, \<^verbatim>\<open>alloc_proc\<close>, \<^verbatim>\<open>fork\<close>, \<^verbatim>\<open>wait\<close>);
  without it, it may change the parent of any slot and its own private data.
  A processor that does not get a lock repeats its attempt, which changes nothing, and one that
  panics takes no step.
\<close>

inductive sched_step :: "(nat \<Rightarrow> hart_pc) \<times> ('u, 'f) ssys \<Rightarrow> (nat \<Rightarrow> hart_pc) \<times> ('u, 'f) ssys \<Rightarrow> bool" where
  pick: "pc c = Scan i \<Longrightarrow> i < NPROC \<Longrightarrow> lock_now c i (ss_smp s) = Inr (Some m) \<Longrightarrow>
    scheduler_body c i (s\<lparr>ss_smp := m\<rparr>) = Inr (True, s') \<Longrightarrow>
    sched_step (pc, s) (pc(c := if ss_fresh s i then Starts i else Resumes i), s')"
| pass: "pc c = Scan i \<Longrightarrow> i < NPROC \<Longrightarrow> lock_now c i (ss_smp s) = Inr (Some m) \<Longrightarrow>
    scheduler_body c i (s\<lparr>ss_smp := m\<rparr>) = Inr (False, s1) \<Longrightarrow> scan_next c i s1 = (q, s') \<Longrightarrow>
    sched_step (pc, s) (pc(c := q), s')"
| start: "pc c = Starts i \<Longrightarrow> fork_ret_unlock c s = Inr s' \<Longrightarrow> sched_step (pc, s) (pc(c := Runs i), s')"
| resume: "pc c = Resumes i \<Longrightarrow> MutexGuard_drop c i (ss_smp s) = Inr m \<Longrightarrow>
    sched_step (pc, s) (pc(c := Runs i), s\<lparr>ss_smp := m\<rparr>)"
| change: "pc c = Runs i \<Longrightarrow> j < NPROC \<Longrightarrow> lock_now c j (ss_smp s) = Inr (Some m) \<Longrightarrow>
    p_state p = RUNNING \<longleftrightarrow> p_state (slot (ss_ps s) j) = RUNNING \<Longrightarrow> MutexGuard_drop c j m = Inr m' \<Longrightarrow>
    sched_step (pc, s) (pc, s\<lparr>ss_smp := m', ss_ps := set_slot j p (ss_ps s),
      ss_fresh := (ss_fresh s)(j := (p_state (slot (ss_ps s) j) = UNUSED \<or> ss_fresh s j))\<rparr>)"
| unlocked: "pc c = Runs i \<Longrightarrow> j < NPROC \<Longrightarrow> proc_inner p = proc_inner (slot (ss_ps s) j) \<Longrightarrow>
    sched_step (pc, s) (pc, s\<lparr>ss_ps := set_slot j p (ss_ps s)\<rparr>)"
| take_lock: "NPROC \<le> l \<Longrightarrow> lock_now c l (ss_smp s) = Inr (Some m) \<Longrightarrow>
    sched_step (pc, s) (pc, s\<lparr>ss_smp := m\<rparr>)"
| drop_lock: "NPROC \<le> l \<Longrightarrow> MutexGuard_drop c l (ss_smp s) = Inr m \<Longrightarrow>
    sched_step (pc, s) (pc, s\<lparr>ss_smp := m\<rparr>)"
| leave: "pc c = Runs i \<Longrightarrow> lock_now c i (ss_smp s) = Inr (Some m) \<Longrightarrow> sched_step (pc, s) (pc(c := Leaves i), s\<lparr>ss_smp := m\<rparr>)"
| switch: "pc c = Leaves i \<Longrightarrow> sched_switch k c i s = Inr (q, s') \<Longrightarrow> sched_step (pc, s) (pc(c := q), s')"

definition sched_boot :: "(nat \<Rightarrow> hart_pc) \<times> ('u, 'f) ssys \<Rightarrow> bool" where
  "sched_boot x \<longleftrightarrow> fst x = (\<lambda>_. Scan 0) \<and> length (ps_pool (ss_ps (snd x))) = NPROC \<and>
     list_all (\<lambda>p. p_state p \<noteq> RUNNING) (ps_pool (ss_ps (snd x))) \<and>
     ss_fresh (snd x) = (\<lambda>_. True) \<and>
     ss_proc_lock (snd x) = (\<lambda>_. None) \<and> sm_locked (ss_smp (snd x)) = (\<lambda>_. None)"

section \<open>Invariant\<close>

text \<open>A process that has left processor \<open>c\<close>: its lock is held there, and no processor has a guard of it or is at it.\<close>

definition gone :: "nat \<Rightarrow> nat \<Rightarrow> (nat \<Rightarrow> hart_pc) \<times> ('u, 'f) ssys \<Rightarrow> bool" where
  "gone c i x \<longleftrightarrow> sm_locked (ss_smp (snd x)) i = Some c \<and> (\<forall>d. on_slot (fst x d) \<noteq> Some i \<and> ss_proc_lock (snd x) d \<noteq> Some i)"

text \<open>
  A processor is at no more than its own process, which is RUNNING; a guard is in \<^verbatim>\<open>proc_lock\<close> only
  until \<^verbatim>\<open>fork_ret\<close>; and a process whose context is not fresh has left for good.
\<close>

definition sched_inv :: "(nat \<Rightarrow> hart_pc) \<times> ('u, 'f) ssys \<Rightarrow> bool" where
  "sched_inv x \<longleftrightarrow> length (ps_pool (ss_ps (snd x))) = NPROC \<and>
     (\<forall>c i. on_slot (fst x c) = Some i \<longrightarrow> i < NPROC \<and> p_state (slot (ss_ps (snd x)) i) = RUNNING) \<and>
     (\<forall>c d i. on_slot (fst x c) = Some i \<longrightarrow> on_slot (fst x d) = Some i \<longrightarrow> c = d) \<and>
     (\<forall>c j. ss_proc_lock (snd x) c = Some j \<longrightarrow> fst x c = Starts j) \<and>
     (\<forall>i<NPROC. \<not> ss_fresh (snd x) i \<longrightarrow> (\<exists>c. gone c i x))"

lemma sched_invD:
  assumes "sched_inv (pc, s)"
  shows "length (ps_pool (ss_ps s)) = NPROC" "on_slot (pc c) = Some i \<Longrightarrow> i < NPROC"
    "on_slot (pc c) = Some i \<Longrightarrow> p_state (slot (ss_ps s) i) = RUNNING"
    "on_slot (pc c) = Some i \<Longrightarrow> on_slot (pc d) = Some i \<Longrightarrow> c = d"
    "ss_proc_lock s c = Some j \<Longrightarrow> pc c = Starts j"
    "i < NPROC \<Longrightarrow> \<not> ss_fresh s i \<Longrightarrow> \<exists>c. gone c i (pc, s)"
  using assms unfolding sched_inv_def fst_conv snd_conv by blast+

lemma lock_now_Some:
  assumes "lock_now c l m = Inr (Some m')"
  shows "sm_locked m l = None" "sm_locked m' = (sm_locked m)(l := Some c)"
proof -
  obtain m1 where e: "Mutex_lock_enter c l m = Inr m1" using assms by (cases "Mutex_lock_enter c l m") (auto simp: lock_now_def)
  then have t: "Mutex_lock_try c l m1 = (True, m')"
    using assms by (cases "Mutex_lock_try c l m1") (auto simp: lock_now_def split: if_splits)
  have "sm_locked m1 = sm_locked m" using Mutex_lock_enter_Inr(1)[OF e] by (auto simp: set_core_def)
  then show "sm_locked m l = None" "sm_locked m' = (sm_locked m)(l := Some c)"
    using t by (auto simp: Mutex_lock_try_def split: if_splits)
qed

lemma drop_locked:
  assumes "MutexGuard_drop c l m = Inr m'"
  shows "sm_locked m' = (sm_locked m)(l := None)"
  using MutexGuard_drop_Inr(1)[OF assms] by (auto simp: set_core_def)

lemma scan_next_fields:
  assumes "scan_next c i s = (q, s')"
  shows "on_slot q = None" "ss_ps s' = ss_ps s" "ss_proc_lock s' = ss_proc_lock s" "ss_fresh s' = ss_fresh s"
    "sm_locked (ss_smp s') = sm_locked (ss_smp s)"
  using assms by (auto simp: scan_next_def set_core_def split: if_splits)

lemma scheduler_body_True:
  assumes "scheduler_body c i s = Inr (True, s')"
  shows "p_state (slot (ss_ps s) i) = RUNNABLE"
    "ss_ps s' = (set_slot i ((slot (ss_ps s) i)\<lparr>p_state := RUNNING\<rparr>) (ss_ps s))\<lparr>ps_cpu := (ps_cpu (ss_ps s))(c := Some i)\<rparr>"
    "ss_proc_lock s' = (ss_proc_lock s)(c := Some i)" "ss_fresh s' = ss_fresh s"
    "l \<noteq> i \<Longrightarrow> ss_proc_lock s c \<noteq> Some l \<Longrightarrow> sm_locked (ss_smp s') l = sm_locked (ss_smp s) l"
  using assms by (auto simp: scheduler_body_def sched_enter_def proc_lock_replace_def Let_def drop_locked split: option.splits if_splits)

lemma scheduler_body_False:
  assumes "scheduler_body c i s = Inr (False, s')"
  shows "ss_ps s' = ss_ps s" "ss_proc_lock s' = ss_proc_lock s" "ss_fresh s' = ss_fresh s"
    "sm_locked (ss_smp s') = (sm_locked (ss_smp s))(i := None)"
  using assms by (auto simp: scheduler_body_def proc_lock_replace_def Let_def drop_locked split: option.splits)

lemma fork_ret_unlock_Inr:
  assumes "fork_ret_unlock c s = Inr s'"
  shows "ss_ps s' = ss_ps s" "ss_proc_lock s' = (ss_proc_lock s)(c := None)" "ss_fresh s' = ss_fresh s"
    "ss_proc_lock s c \<noteq> Some l \<Longrightarrow> sm_locked (ss_smp s') l = sm_locked (ss_smp s) l"
  using assms by (auto simp: fork_ret_unlock_def Let_def drop_locked split: option.splits)

lemma sched_switch_Inr:
  assumes "sched_switch k c i s = Inr (q, s')"
  shows "on_slot q = None" "ss_ps s' = sched_return c (set_slot i (leave_slot k (slot (ss_ps s) i)) (ss_ps s))"
    "ss_proc_lock s' = ss_proc_lock s" "ss_fresh s' = (ss_fresh s)(i := False)"
    "sm_locked (ss_smp s') = sm_locked (ss_smp s)" "sm_locked (ss_smp s) i = Some c"
proof -
  let ?p = "leave_slot k (slot (ss_ps s) i)"
  obtain u where h: "sched (holding c i (ss_smp s)) (sm_core (ss_smp s) c) ?p = Inr u"
    and n: "scan_next c i (s\<lparr>ss_ps := sched_return c (set_slot i ?p (ss_ps s)), ss_fresh := (ss_fresh s)(i := False)\<rparr>) = (q, s')"
    using assms by (auto simp: sched_switch_def Let_def)
  show "sm_locked (ss_smp s) i = Some c" using h by (auto simp: sched_def rassert_def holding_def split: if_splits)
  show "on_slot q = None" "ss_ps s' = sched_return c (set_slot i ?p (ss_ps s))" "ss_proc_lock s' = ss_proc_lock s"
    "ss_fresh s' = (ss_fresh s)(i := False)" "sm_locked (ss_smp s') = sm_locked (ss_smp s)"
    using scan_next_fields[OF n] by simp_all
qed

text \<open>No step brings back a process that has left.\<close>

lemma gone_step: "sched_step x y \<Longrightarrow> gone c i x \<Longrightarrow> i < NPROC \<Longrightarrow> gone c i y \<and>
   proc_inner (slot (ss_ps (snd y)) i) = proc_inner (slot (ss_ps (snd x)) i)"
proof (induction rule: sched_step.induct)
  case (pick pc d j s m s')
  then have "j \<noteq> i" using lock_now_Some(1)[OF pick(3)] by (auto simp: gone_def)
  then show ?case using pick scheduler_body_True[OF pick(4)] lock_now_Some(2)[OF pick(3)]
    by (auto simp: gone_def set_slot_def)
next
  case (pass pc d j s m s1 q s')
  then have "j \<noteq> i" using lock_now_Some(1)[OF pass(3)] by (auto simp: gone_def)
  then show ?case using pass scheduler_body_False[OF pass(4)] lock_now_Some(2)[OF pass(3)] scan_next_fields[OF pass(5)]
    by (auto simp: gone_def)
next
  case (start pc d j s s')
  then have "on_slot (pc d) \<noteq> Some i" "ss_proc_lock s d \<noteq> Some i" unfolding gone_def fst_conv snd_conv by blast+
  then show ?case using start fork_ret_unlock_Inr[OF start(2)] by (auto simp: gone_def)
next
  case (resume pc d j s m)
  then have "on_slot (pc d) \<noteq> Some i" unfolding gone_def fst_conv snd_conv by blast
  then show ?case using resume drop_locked[OF resume(2)] by (auto simp: gone_def)
next
  case (change pc d k j s m p m')
  then have "j \<noteq> i" using lock_now_Some(1)[OF change(3)] by (auto simp: gone_def)
  then show ?case using change lock_now_Some(2)[OF change(3)] drop_locked[OF change(5)] by (auto simp: gone_def set_slot_def)
next
  case (unlocked pc d k j p s)
  then show ?case by (cases "j = i"; cases "i < length (ps_pool (ss_ps s))") (simp_all add: gone_def set_slot_def list_update_beyond)
next
  case (take_lock l d s m pc)
  then show ?case using lock_now_Some(2)[OF take_lock(2)] by (auto simp: gone_def)
next
  case (drop_lock l d s m pc)
  then show ?case using drop_locked[OF drop_lock(2)] by (auto simp: gone_def)
next
  case (leave pc d j s m)
  then have "on_slot (pc d) \<noteq> Some i" unfolding gone_def fst_conv snd_conv by blast
  then show ?case using leave lock_now_Some(2)[OF leave(2)] by (auto simp: gone_def)
next
  case (switch pc d j k s q s')
  then have "on_slot (pc d) \<noteq> Some i" unfolding gone_def fst_conv snd_conv by blast
  then show ?case using switch sched_switch_Inr[OF switch(2)] by (auto simp: gone_def set_slot_def sched_return_def)
qed

text \<open>A step moves one processor.\<close>

lemma sched_inv_upd:
  assumes inv: "sched_inv (pc, s)" and st: "sched_step (pc, s) (pc(c := q), s')"
    and len: "length (ps_pool (ss_ps s')) = NPROC"
    and new: "\<And>i. on_slot q = Some i \<Longrightarrow> i < NPROC \<and> p_state (slot (ss_ps s') i) = RUNNING \<and> (\<forall>d. d \<noteq> c \<longrightarrow> on_slot (pc d) \<noteq> Some i)"
    and old: "\<And>d i. d \<noteq> c \<Longrightarrow> on_slot (pc d) = Some i \<Longrightarrow> p_state (slot (ss_ps s') i) = RUNNING"
    and lk: "\<And>d j. ss_proc_lock s' d = Some j \<Longrightarrow> (if d = c then q = Starts j else ss_proc_lock s d = Some j)"
    and fr: "\<And>i. i < NPROC \<Longrightarrow> \<not> ss_fresh s' i \<Longrightarrow> \<not> ss_fresh s i \<or> (\<exists>e. gone e i (pc(c := q), s'))"
  shows "sched_inv (pc(c := q), s')"
  unfolding sched_inv_def fst_conv snd_conv
proof (intro conjI allI impI)
  fix d i assume a: "on_slot ((pc(c := q)) d) = Some i"
  show "i < NPROC" using a new[of i] sched_invD(2)[OF inv, of d i] by (cases "d = c") auto
  show "p_state (slot (ss_ps s') i) = RUNNING" using a new[of i] old[of d i] by (cases "d = c") auto
next
  fix d e i assume a: "on_slot ((pc(c := q)) d) = Some i" "on_slot ((pc(c := q)) e) = Some i"
  show "d = e" using a new[of i] sched_invD(4)[OF inv, of d i e] by (cases "d = c"; cases "e = c") auto
next
  fix d j assume "ss_proc_lock s' d = Some j"
  then show "(pc(c := q)) d = Starts j" using lk[of d j] sched_invD(5)[OF inv, of d j] by (cases "d = c") auto
next
  fix i assume i: "i < NPROC" "\<not> ss_fresh s' i"
  then show "\<exists>e. gone e i (pc(c := q), s')"
    using fr[OF i] sched_invD(6)[OF inv i(1)] gone_step[OF st _ i(1)] by blast
qed (rule len)

lemma sched_inv_step: "sched_step x y \<Longrightarrow> sched_inv x \<Longrightarrow> sched_inv y"
proof (induction rule: sched_step.induct)
  case (pick pc c i s m s')
  note I = sched_invD[OF pick(5)] and b = scheduler_body_True[OF pick(4)]
  have f: "ss_fresh s i" using I(6)[OF pick(2)] lock_now_Some(1)[OF pick(3)] by (auto simp: gone_def)
  have no: "on_slot (pc d) \<noteq> Some i" for d using I(3)[of d i] b(1) by auto
  show ?case
    by (rule sched_inv_upd[OF pick(5) sched_step.pick[of pc c, OF pick(1-4)]])
      (use I b f no pick(2) in \<open>auto simp: set_slot_def nth_list_update split: if_splits\<close>)
next
  case (pass pc c i s m s1 q s')
  note I = sched_invD[OF pass(6)] and b = scheduler_body_False[OF pass(4)] and n = scan_next_fields[OF pass(5)]
  have l: "ss_proc_lock s c = None" using I(5)[of c] pass(1) by (cases "ss_proc_lock s c") auto
  show ?case
    by (rule sched_inv_upd[OF pass(6) sched_step.pass[of pc c, OF pass(1-5)]]) (use I b n l in \<open>auto split: if_splits\<close>)
next
  case (start pc c i s s')
  note I = sched_invD[OF start(3)] and b = fork_ret_unlock_Inr[OF start(2)]
  show ?case
    by (rule sched_inv_upd[OF start(3) sched_step.start[of pc c, OF start(1,2)]])
      (use I I(2-4)[of c i] start(1) b in \<open>auto split: if_splits\<close>)
next
  case (resume pc c i s m)
  note I = sched_invD[OF resume(3)]
  have "ss_proc_lock s c = None" using I(5)[of c] resume(1) by (cases "ss_proc_lock s c") auto
  then show ?case
    by (intro sched_inv_upd[OF resume(3) sched_step.resume[of pc c, OF resume(1,2)]])
      (use I I(2-4)[of c i] resume(1) in \<open>auto split: if_splits\<close>)
next
  case (change pc c i j s m p m')
  note I = sched_invD[OF change(6)]
  have st: "sched_step (pc, s) (pc(c := pc c), s\<lparr>ss_smp := m', ss_ps := set_slot j p (ss_ps s),
      ss_fresh := (ss_fresh s)(j := (p_state (slot (ss_ps s) j) = UNUSED \<or> ss_fresh s j))\<rparr>)"
    unfolding fun_upd_triv by (rule sched_step.change[of pc c, OF change(1-5)])
  have r: "p_state (slot (set_slot j p (ss_ps s)) k) = RUNNING" if "on_slot (pc d) = Some k" for d k
    using I(1) I(2,3)[OF that] change(2,4) by (auto simp: set_slot_def nth_list_update)
  show ?case
    by (rule sched_inv_upd[OF change(6) st, unfolded fun_upd_triv])
      (use I r in \<open>auto simp: set_slot_def split: if_splits\<close>)
next
  case (unlocked pc c i j p s)
  note I = sched_invD[OF unlocked(4)]
  have st: "sched_step (pc, s) (pc(c := pc c), s\<lparr>ss_ps := set_slot j p (ss_ps s)\<rparr>)"
    unfolding fun_upd_triv by (rule sched_step.unlocked[of pc c, OF unlocked(1-3)])
  have r: "p_state (slot (set_slot j p (ss_ps s)) k) = RUNNING" if "on_slot (pc d) = Some k" for d k
    using I(1) I(2,3)[OF that] unlocked(2,3) by (auto simp: set_slot_def nth_list_update proc_inner_def)
  show ?case
    by (rule sched_inv_upd[OF unlocked(4) st, unfolded fun_upd_triv])
      (use I r in \<open>auto simp: set_slot_def split: if_splits\<close>)
next
  case (take_lock l c s m pc)
  note I = sched_invD[OF take_lock(3)]
  have st: "sched_step (pc, s) (pc(c := pc c), s\<lparr>ss_smp := m\<rparr>)" unfolding fun_upd_triv by (rule sched_step.take_lock[of l c, OF take_lock(1,2)])
  show ?case by (rule sched_inv_upd[OF take_lock(3) st, unfolded fun_upd_triv]) (use I in \<open>auto split: if_splits\<close>)
next
  case (drop_lock l c s m pc)
  note I = sched_invD[OF drop_lock(3)]
  have st: "sched_step (pc, s) (pc(c := pc c), s\<lparr>ss_smp := m\<rparr>)" unfolding fun_upd_triv by (rule sched_step.drop_lock[of l c, OF drop_lock(1,2)])
  show ?case by (rule sched_inv_upd[OF drop_lock(3) st, unfolded fun_upd_triv]) (use I in \<open>auto split: if_splits\<close>)
next
  case (leave pc c i s m)
  note I = sched_invD[OF leave(3)]
  have "ss_proc_lock s c = None" using I(5)[of c] leave(1) by (cases "ss_proc_lock s c") auto
  then show ?case
    by (intro sched_inv_upd[OF leave(3) sched_step.leave[of pc c, OF leave(1,2)]])
      (use I I(2-4)[of c i] leave(1) in \<open>auto split: if_splits\<close>)
next
  case (switch pc c i k s q s')
  note I = sched_invD[OF switch(3)] and b = sched_switch_Inr[OF switch(2)]
  have l: "ss_proc_lock s d \<noteq> Some i" for d using I(4)[of c i d] I(5)[of d i] switch(1) by fastforce
  have g: "gone c i (pc(c := q), s')" using b l I(4)[of c i] switch(1) by (auto simp: gone_def)
  have lc: "ss_proc_lock s c = None" using I(5)[of c] switch(1) by (cases "ss_proc_lock s c") auto
  have r: "p_state (slot (ss_ps s') j) = RUNNING" if "d \<noteq> c" "on_slot (pc d) = Some j" for d j
  proof -
    have "i \<noteq> j" using I(4)[of d j c] that switch(1) by auto
    then show ?thesis using I(3)[OF that(2)] by (simp add: b(2) sched_return_def set_slot_def)
  qed
  show ?case
    by (rule sched_inv_upd[OF switch(3) sched_step.switch[of pc c, OF switch(1,2)]])
      (use I b g lc r in \<open>auto simp: sched_return_def set_slot_def split: if_splits\<close>)
qed

lemma sched_steps_inv: "sched_step\<^sup>*\<^sup>* x y \<Longrightarrow> sched_boot x \<Longrightarrow> sched_inv y"
proof (induction rule: rtranclp_induct)
  case base
  then show ?case by (auto simp: sched_inv_def sched_boot_def)
next
  case (step y z)
  then show ?case using sched_inv_step by blast
qed

lemma gone_steps: "sched_step\<^sup>*\<^sup>* x y \<Longrightarrow> gone c i x \<Longrightarrow> i < NPROC \<Longrightarrow> gone c i y \<and>
   proc_inner (slot (ss_ps (snd y)) i) = proc_inner (slot (ss_ps (snd x)) i)"
proof (induction rule: rtranclp_induct)
  case (step y z)
  then show ?case using gone_step[of y z c i] by simp
qed simp

section \<open>Properties\<close>

text \<open>
  (C9) A process that leaves its processor, by yielding, sleeping or exiting, never runs again. The
  scheduler does not release the lock of the process that came back to it, so the lock stays with
  the processor that the process left: from then on, whatever the processors do, every attempt to
  take it fails, that of the same processor with a panic; no processor is ever at the process again,
  and nothing changes what the lock protects, so a sleeper is never woken and a zombie never reaped.
\<close>

theorem left_process_never_runs:
  assumes "sched_boot x0" and "sched_step\<^sup>*\<^sup>* x0 (pc, s)" and "pc c = Leaves i"
    and "sched_switch k c i s = Inr (q, s1)" and "sched_step\<^sup>*\<^sup>* (pc(c := q), s1) (pc', s')"
  shows "sm_locked (ss_smp s') i = Some c \<and> (\<forall>d. on_slot (pc' d) \<noteq> Some i) \<and>
    (\<forall>d m. lock_now d i (ss_smp s') \<noteq> Inr (Some m)) \<and> (\<exists>e. lock_now c i (ss_smp s') = Inl e) \<and>
    proc_inner (slot (ss_ps s') i) = proc_inner (leave_slot k (slot (ss_ps s) i))"
proof -
  note I = sched_invD[OF sched_steps_inv[OF assms(2,1)]] and b = sched_switch_Inr[OF assms(4)]
  have i: "i < NPROC" using I(2)[of c i] assms(3) by simp
  have "ss_proc_lock s d \<noteq> Some i" for d using I(4)[of c i d] I(5)[of d i] assms(3) by fastforce
  then have "gone c i (pc(c := q), s1)" using b I(4)[of c i] assms(3) by (auto simp: gone_def)
  from gone_steps[OF assms(5) this i] have g: "gone c i (pc', s')" and p: "proc_inner (slot (ss_ps s') i) = proc_inner (slot (ss_ps s1) i)" by simp_all
  have l: "sm_locked (ss_smp s') i = Some c" using g by (simp add: gone_def)
  have n: "lock_now d i (ss_smp s') \<noteq> Inr (Some m)" for d m using lock_now_Some(1)[of d i "ss_smp s'" m] l by auto
  have "Mutex_lock_enter c i (ss_smp s') \<noteq> Inr m" for m using Mutex_lock_enter_Inr(2)[of c i "ss_smp s'" m] l by auto
  then have "\<exists>e. lock_now c i (ss_smp s') = Inl e" by (cases "Mutex_lock_enter c i (ss_smp s')") (auto simp: lock_now_def)
  moreover have "slot (ss_ps s1) i = leave_slot k (slot (ss_ps s) i)" using i I(1) by (simp add: b(2) sched_return_def set_slot_def)
  ultimately show ?thesis using g l n p by (simp add: gone_def)
qed

text \<open>A core with interrupts off takes and drops the lock of slot 0.\<close>

definition demo_core :: "csrs \<Rightarrow> int \<Rightarrow> core" where
  "demo_core k n = \<lparr>co_csrs = k, co_noff = n, co_intena = False\<rparr>"

lemma demo_lock:
  assumes "\<not> intr_get k" and "C 0 = demo_core k 0"
  shows "lock_now 0 0 \<lparr>sm_core = C, sm_locked = \<lambda>_. None\<rparr> = Inr (Some \<lparr>sm_core = C(0 := demo_core k 1), sm_locked = (\<lambda>_. None)(0 := Some 0)\<rparr>)"
  using assms intr_same(2)[of k]
  by (simp add: lock_now_def Mutex_lock_enter_def my_cpu_def NCPU_def intr_lock_def Cpu_lock_def demo_core_def holding_def set_core_def Mutex_lock_try_def)

lemma demo_drop:
  assumes "\<not> intr_get k" and "C 0 = demo_core k 1"
  shows "MutexGuard_drop 0 0 \<lparr>sm_core = C, sm_locked = (\<lambda>_. None)(0 := Some 0)\<rparr> = Inr \<lparr>sm_core = C(0 := demo_core k 0), sm_locked = \<lambda>_. None\<rparr>"
  using assms
  by (simp add: MutexGuard_drop_def MutexGuard_holding_def my_cpu_def NCPU_def Cpu_unlock_def demo_core_def holding_def set_core_def fun_upd_def fun_eq_iff)

text \<open>The first process starts on processor 0 and takes its lock to leave.\<close>

lemma demo_leaves:
  assumes k: "\<not> intr_get k"
  obtains x0 pc and s :: "(unit, unit) ssys" where "sched_boot x0" "sched_step\<^sup>*\<^sup>* x0 (pc, s)" "pc 0 = Leaves 0"
    "sm_locked (ss_smp s) 0 = Some 0" "sm_core (ss_smp s) 0 = demo_core k 1"
proof -
  define ps :: "(unit, unit) psys" where "ps = \<lparr>ps_pool = Procs_new[0 := Proc_new\<lparr>p_state := RUNNABLE\<rparr>], ps_cpu = (\<lambda>_. None), ps_nextid = 1, ps_init = Some 0\<rparr>"
  define s0 :: "(unit, unit) ssys" where "s0 = \<lparr>ss_smp = \<lparr>sm_core = \<lambda>_. demo_core k 0, sm_locked = \<lambda>_. None\<rparr>, ss_ps = ps, ss_proc_lock = \<lambda>_. None, ss_fresh = \<lambda>_. True\<rparr>"
  define m1 where "m1 = \<lparr>sm_core = (\<lambda>_. demo_core k 0)(0 := demo_core k 1), sm_locked = (\<lambda>_. None)(0 := Some 0)\<rparr>"
  define m2 where "m2 = \<lparr>sm_core = ((\<lambda>_. demo_core k 0)(0 := demo_core k 1))(0 := demo_core k 0), sm_locked = \<lambda>_. None :: nat option\<rparr>"
  have b: "sched_boot ((\<lambda>_. Scan 0), s0)"
    by (simp add: sched_boot_def s0_def ps_def Procs_new_def Proc_new_def NPROC_def list_all_iff numeral_eq_Suc)
  have l1: "lock_now 0 0 (ss_smp s0) = Inr (Some m1)" using demo_lock[OF k] by (simp add: s0_def m1_def)
  have d1: "MutexGuard_drop 0 0 m1 = Inr m2" using demo_drop[OF k] by (simp add: m1_def m2_def)
  have r: "p_state (slot ps 0) = RUNNABLE" by (simp add: ps_def Procs_new_def NPROC_def)
  obtain ps1 where e: "sched_enter 0 0 ps = Some ps1" using r by (simp add: sched_enter_def)
  define s1 where "s1 = s0\<lparr>ss_smp := m1, ss_ps := ps1, ss_proc_lock := (\<lambda>_. None)(0 := Some 0)\<rparr>"
  have "scheduler_body 0 0 (s0\<lparr>ss_smp := m1\<rparr>) = Inr (True, s1)"
    using e by (simp add: scheduler_body_def proc_lock_replace_def s1_def) (simp add: s0_def proc_lock_replace_def)
  from sched_step.pick[of "\<lambda>_. Scan 0" 0 0 s0 m1 s1, OF _ _ l1 this]
  have t1: "sched_step ((\<lambda>_. Scan 0), s0) ((\<lambda>_. Scan 0)(0 := Starts 0), s1)" by (simp add: NPROC_def) (simp add: s0_def)
  define s2 where "s2 = s1\<lparr>ss_smp := m2, ss_proc_lock := ((\<lambda>_. None)(0 := Some 0))(0 := None)\<rparr>"
  have "fork_ret_unlock 0 s1 = Inr s2" using d1 by (simp add: fork_ret_unlock_def s2_def s1_def)
  from sched_step.start[of "(\<lambda>_. Scan 0)(0 := Starts 0)" 0 0 s1 s2, OF _ this]
  have t2: "sched_step ((\<lambda>_. Scan 0)(0 := Starts 0), s1) (((\<lambda>_. Scan 0)(0 := Starts 0))(0 := Runs 0), s2)" by simp
  obtain m3 where m3: "lock_now 0 0 m2 = Inr (Some m3)" "sm_locked m3 0 = Some 0" "sm_core m3 0 = demo_core k 1"
    using demo_lock[OF k] by (simp add: m2_def)
  define pc :: "nat \<Rightarrow> hart_pc" where "pc = (((\<lambda>_. Scan 0)(0 := Starts 0))(0 := Runs 0))(0 := Leaves 0)"
  have t3: "sched_step (((\<lambda>_. Scan 0)(0 := Starts 0))(0 := Runs 0), s2) (pc, s2\<lparr>ss_smp := m3\<rparr>)"
    unfolding pc_def by (rule sched_step.leave) (simp_all add: s2_def m3)
  have run: "sched_step\<^sup>*\<^sup>* ((\<lambda>_. Scan 0), s0) (pc, s2\<lparr>ss_smp := m3\<rparr>)"
    by (rule converse_rtranclp_into_rtranclp[of sched_step, OF t1 converse_rtranclp_into_rtranclp[of sched_step, OF t2 r_into_rtranclp[of sched_step, OF t3]]])
  have "pc 0 = Leaves 0" by (simp add: pc_def)
  from that[OF b run this] m3(2,3) show thesis by simp
qed

theorem left_process_never_runs_witness:
  "\<exists>x0 pc (s :: (unit, unit) ssys) s1. sched_boot x0 \<and> sched_step\<^sup>*\<^sup>* x0 (pc, s) \<and> pc 0 = Leaves 0 \<and>
     sched_switch Yields 0 0 s = Inr (Scan 1, s1) \<and> p_state (slot (ss_ps s1) 0) = RUNNABLE \<and>
     lock_now 0 0 (ss_smp s1) = Inl (AssertFailed ''acquire'') \<and> (\<forall>d m. lock_now d 0 (ss_smp s1) \<noteq> Inr (Some m))"
proof -
  obtain k :: csrs where k: "\<not> intr_get k" using intr_off_get by blast
  obtain x0 pc and s :: "(unit, unit) ssys" where h: "sched_boot x0" "sched_step\<^sup>*\<^sup>* x0 (pc, s)" "pc 0 = Leaves 0"
    "sm_locked (ss_smp s) 0 = Some 0" "sm_core (ss_smp s) 0 = demo_core k 1"
    by (rule demo_leaves[OF k])
  obtain s1 where sw: "sched_switch Yields 0 0 s = Inr (Scan 1, s1)" and m: "ss_smp s1 = ss_smp s"
    using h(4,5) k by (simp add: sched_switch_def sched_def holding_def demo_core_def yielding_def scan_next_def NPROC_def)
  have a: "lock_now 0 0 (ss_smp s) = Inl (AssertFailed ''acquire'')"
    using h(4,5) by (simp add: lock_now_def Mutex_lock_enter_def my_cpu_def NCPU_def intr_lock_def Cpu_lock_def demo_core_def holding_def set_core_def rassert_def)
  from left_process_never_runs[OF h(1-3) sw rtranclp.rtrancl_refl]
  have "p_state (slot (ss_ps s1) 0) = RUNNABLE" "\<forall>d m. lock_now d 0 (ss_smp s1) \<noteq> Inr (Some m)"
    by (simp_all add: proc_inner_def yielding_def)
  with h sw a m show ?thesis by (intro exI[of _ x0] exI[of _ pc] exI[of _ s] exI[of _ s1]) simp
qed

end
