(* ===== verification/Channel.thy ===== *)
theory Channel
  imports Proc
begin

text \<open>
  \<^verbatim>\<open>src/kernel/semaphore.rs\<close>, \<^verbatim>\<open>condvar.rs\<close> and \<^verbatim>\<open>mpmc.rs\<close>: the counting semaphore and the
  bounded channel between many senders and receivers. A
  critical section of a spin lock is one step of a thread; \<^verbatim>\<open>recv\<close> posts the semaphore while it
  holds the lock of the buffer, which the phase \<open>Posting\<close> shows. A wait on a condition variable is
  the sleep on its channel, so that it and the test before it are one step.
\<close>

section \<open>Semaphore\<close>

text \<open>One turn of \<^verbatim>\<open>wait\<close>: \<^term>\<open>None\<close> when the thread has to wait for the condition.\<close>

definition Semaphore_wait :: "nat \<Rightarrow> nat \<Rightarrow> nat option rust" where
  "Semaphore_wait lim cnt = (if cnt \<ge> lim then Inr None else rbind (uadd cnt 1) (\<lambda>c. Inr (Some c)))"

text \<open>\<^verbatim>\<open>post\<close>: the new count and whether the waiters are notified.\<close>

definition Semaphore_post :: "nat \<Rightarrow> nat \<Rightarrow> (nat \<times> bool) rust" where
  "Semaphore_post lim cnt =
     rbind (rassert (cnt > 0) ''cnt > 0'') (\<lambda>_.
     rbind (usub cnt 1) (\<lambda>c. Inr (c, c \<le> lim)))"

section \<open>Channel\<close>

record 'a channel =
  ch_cnt :: nat
  ch_max :: nat
  ch_buf :: "'a list"

definition sync_channel :: "nat \<Rightarrow> 'a channel" where
  "sync_channel lim = \<lparr>ch_cnt = 0, ch_max = lim, ch_buf = []\<rparr>"

definition send_push :: "'a \<Rightarrow> 'a channel \<Rightarrow> 'a channel" where
  "send_push data ch = ch\<lparr>ch_buf := ch_buf ch @ [data]\<rparr>"

definition recv_pop :: "'a channel \<Rightarrow> ('a \<times> 'a channel) option" where
  "recv_pop ch = (case ch_buf ch of [] \<Rightarrow> None | data # rest \<Rightarrow> Some (data, ch\<lparr>ch_buf := rest\<rparr>))"

datatype 'a ch_phase = Idle | Sending 'a | SemAsleep 'a | Ready 'a | Receiving | BufAsleep | Posting 'a

text \<open>The wakeups on the condition of the semaphore and on the one of the buffer.\<close>

definition sem_notify :: "(nat \<Rightarrow> 'a ch_phase) \<Rightarrow> nat \<Rightarrow> 'a ch_phase" where
  "sem_notify ph t = (case ph t of SemAsleep d \<Rightarrow> Sending d | x \<Rightarrow> x)"

definition buf_notify :: "(nat \<Rightarrow> 'a ch_phase) \<Rightarrow> nat \<Rightarrow> 'a ch_phase" where
  "buf_notify ph t = (case ph t of BufAsleep \<Rightarrow> Receiving | x \<Rightarrow> x)"

text \<open>A system: the channel, the phases, what was pushed and what was popped so far.\<close>

type_synonym 'a ch_sys = "'a channel \<times> (nat \<Rightarrow> 'a ch_phase) \<times> 'a list \<times> 'a list"

definition buf_free :: "(nat \<Rightarrow> 'a ch_phase) \<Rightarrow> bool" where
  "buf_free ph \<longleftrightarrow> (\<forall>t d. ph t \<noteq> Posting d)"

inductive ch_step :: "'a ch_sys \<Rightarrow> 'a ch_sys \<Rightarrow> bool" where
  send: "ph t = Idle \<Longrightarrow> ch_step (ch, ph, s, r) (ch, ph(t := Sending d), s, r)"
| sem_wait: "ph t = Sending d \<Longrightarrow> Semaphore_wait (ch_max ch) (ch_cnt ch) = Inr (Some c) \<Longrightarrow>
    ch_step (ch, ph, s, r) (ch\<lparr>ch_cnt := c\<rparr>, ph(t := Ready d), s, r)"
| sem_sleep: "ph t = Sending d \<Longrightarrow> Semaphore_wait (ch_max ch) (ch_cnt ch) = Inr None \<Longrightarrow>
    ch_step (ch, ph, s, r) (ch, ph(t := SemAsleep d), s, r)"
| push: "ph t = Ready d \<Longrightarrow> buf_free ph \<Longrightarrow>
    ch_step (ch, ph, s, r) (send_push d ch, buf_notify (ph(t := Idle)), s @ [d], r)"
| recv: "ph t = Idle \<Longrightarrow> ch_step (ch, ph, s, r) (ch, ph(t := Receiving), s, r)"
| pop: "ph t = Receiving \<Longrightarrow> buf_free ph \<Longrightarrow> recv_pop ch = Some (d, ch') \<Longrightarrow>
    ch_step (ch, ph, s, r) (ch', ph(t := Posting d), s, r @ [d])"
| buf_sleep: "ph t = Receiving \<Longrightarrow> buf_free ph \<Longrightarrow> recv_pop ch = None \<Longrightarrow>
    ch_step (ch, ph, s, r) (ch, ph(t := BufAsleep), s, r)"
| post: "ph t = Posting d \<Longrightarrow> Semaphore_post (ch_max ch) (ch_cnt ch) = Inr (c, note) \<Longrightarrow>
    ch_step (ch, ph, s, r)
      (ch\<lparr>ch_cnt := c\<rparr>, (if note then sem_notify (ph(t := Idle)) else ph(t := Idle)), s, r)"

section \<open>Invariant\<close>

text \<open>The threads that have a unit of the semaphore and no element in the buffer.\<close>

definition in_flight :: "(nat \<Rightarrow> 'a ch_phase) \<Rightarrow> nat set" where
  "in_flight ph = {t. \<exists>d. ph t = Ready d \<or> ph t = Posting d}"

definition ch_inv :: "nat \<Rightarrow> 'a ch_sys \<Rightarrow> bool" where
  "ch_inv lim = (\<lambda>(ch, ph, s, r).
     ch_max ch = lim \<and> finite (in_flight ph) \<and> ch_cnt ch = length (ch_buf ch) + card (in_flight ph) \<and>
     ch_cnt ch \<le> lim \<and> s = r @ ch_buf ch \<and>
     (ch_buf ch \<noteq> [] \<longrightarrow> (\<forall>t. ph t \<noteq> BufAsleep)) \<and>
     (ch_cnt ch < lim \<longrightarrow> (\<forall>t d. ph t \<noteq> SemAsleep d)))"

lemma in_flight_upd [simp]:
  "in_flight (ph(t := Ready d)) = insert t (in_flight ph)" "in_flight (ph(t := Posting d)) = insert t (in_flight ph)"
  "in_flight (ph(t := Idle)) = in_flight ph - {t}" "in_flight (ph(t := Sending d)) = in_flight ph - {t}"
  "in_flight (ph(t := SemAsleep d)) = in_flight ph - {t}" "in_flight (ph(t := Receiving)) = in_flight ph - {t}"
  "in_flight (ph(t := BufAsleep)) = in_flight ph - {t}"
  by (auto simp: in_flight_def)

lemma notify_simps [simp]:
  "sem_notify ph t \<noteq> SemAsleep d" "sem_notify ph t = BufAsleep \<longleftrightarrow> ph t = BufAsleep"
  "sem_notify ph t = Ready d \<longleftrightarrow> ph t = Ready d" "sem_notify ph t = Posting d \<longleftrightarrow> ph t = Posting d"
  "buf_notify ph t \<noteq> BufAsleep" "buf_notify ph t = SemAsleep d \<longleftrightarrow> ph t = SemAsleep d"
  "buf_notify ph t = Ready d \<longleftrightarrow> ph t = Ready d" "buf_notify ph t = Posting d \<longleftrightarrow> ph t = Posting d"
  by (cases "ph t"; simp add: sem_notify_def buf_notify_def)+

lemma in_flight_notify [simp]: "in_flight (sem_notify ph) = in_flight ph" "in_flight (buf_notify ph) = in_flight ph"
  by (simp_all add: in_flight_def)

lemma in_flight_phase: "ph t = Ready d \<Longrightarrow> t \<in> in_flight ph" "ph t = Posting d \<Longrightarrow> t \<in> in_flight ph"
  "ph t = Idle \<Longrightarrow> t \<notin> in_flight ph" "ph t = Sending d \<Longrightarrow> t \<notin> in_flight ph" "ph t = Receiving \<Longrightarrow> t \<notin> in_flight ph"
  by (auto simp: in_flight_def)

lemma card_in_flight_Suc: "finite A \<Longrightarrow> t \<in> A \<Longrightarrow> card A = Suc (card (A - {t}))"
  by (rule card.remove)

lemma ch_invD:
  assumes "ch_inv lim (ch, ph, s, r)"
  shows "ch_max ch = lim" "finite (in_flight ph)" "ch_cnt ch = length (ch_buf ch) + card (in_flight ph)"
    "ch_cnt ch \<le> lim" "s = r @ ch_buf ch" "ch_buf ch \<noteq> [] \<Longrightarrow> ph t \<noteq> BufAsleep" "ch_cnt ch < lim \<Longrightarrow> ph t \<noteq> SemAsleep d"
  using assms by (auto simp: ch_inv_def)

lemma ch_invI:
  assumes "ch_max ch = lim" "finite (in_flight ph)" "ch_cnt ch = length (ch_buf ch) + card (in_flight ph)"
    "ch_cnt ch \<le> lim" "s = r @ ch_buf ch" "\<And>t. ch_buf ch \<noteq> [] \<Longrightarrow> ph t \<noteq> BufAsleep"
    "\<And>t d. ch_cnt ch < lim \<Longrightarrow> ph t \<noteq> SemAsleep d"
  shows "ch_inv lim (ch, ph, s, r)"
  using assms by (simp add: ch_inv_def)

text \<open>A thread outside the channel moves to another phase outside it.\<close>

lemma ch_inv_phase:
  assumes "ch_inv lim (ch, ph, s, r)" and "t \<notin> in_flight ph" and "in_flight (ph(t := x)) = in_flight ph - {t}"
    and "x = BufAsleep \<Longrightarrow> ch_buf ch = []" and "\<And>d. x = SemAsleep d \<Longrightarrow> ch_cnt ch = lim"
  shows "ch_inv lim (ch, ph(t := x), s, r)"
  using assms(2-) ch_invD(1-5)[OF assms(1)] ch_invD(6,7)[OF assms(1)] by (intro ch_invI) (auto split: if_splits)

lemma ch_inv_step: "ch_step x y \<Longrightarrow> ch_inv lim x \<Longrightarrow> ch_inv lim y"
proof (induction rule: ch_step.induct)
  case (send ph t ch s r d)
  then show ?case using in_flight_phase(3)[of ph t] by (intro ch_inv_phase) simp_all
next
  case (sem_wait ph t d ch c s r)
  note inv = ch_invD(1-5)[OF sem_wait(3)] ch_invD(6,7)[OF sem_wait(3)]
  have c: "c = Suc (ch_cnt ch)" "ch_cnt ch < lim"
    using sem_wait(2) inv(1) by (auto simp: Semaphore_wait_def uadd_def split: if_splits)
  have t: "t \<notin> in_flight ph" using sem_wait(1) by (rule in_flight_phase)
  show ?case by (rule ch_invI) (use inv c t in \<open>simp_all split: if_splits\<close>)
next
  case (sem_sleep ph t d ch s r)
  then show ?case using in_flight_phase(4)[of ph t d] ch_invD(1,4)[OF sem_sleep(3)]
    by (intro ch_inv_phase) (auto simp: Semaphore_wait_def split: if_splits)
next
  case (push ph t d ch s r)
  note inv = ch_invD(1-5)[OF push(3)] ch_invD(7)[OF push(3)]
  have t: "t \<in> in_flight ph" using push(1) by (rule in_flight_phase)
  show ?case by (rule ch_invI) (use inv in \<open>simp_all add: send_push_def card_in_flight_Suc[OF _ t]\<close>)
next
  case (recv ph t ch s r)
  then show ?case using in_flight_phase(3)[of ph t] by (intro ch_inv_phase) simp_all
next
  case (pop ph t ch d ch' s r)
  note inv = ch_invD(1-5)[OF pop(4)] ch_invD(6,7)[OF pop(4)]
  obtain rest where b: "ch_buf ch = d # rest" "ch' = ch\<lparr>ch_buf := rest\<rparr>"
    using pop(3) by (auto simp: recv_pop_def split: list.splits)
  have t: "t \<notin> in_flight ph" using pop(1) by (rule in_flight_phase)
  show ?case by (rule ch_invI) (use inv b t in \<open>simp_all split: if_splits\<close>)
next
  case (buf_sleep ph t ch s r)
  then show ?case using in_flight_phase(5)[of ph t]
    by (intro ch_inv_phase) (auto simp: recv_pop_def split: list.splits)
next
  case (post ph t d ch c nt s r)
  note inv = ch_invD(1-5)[OF post(3)] ch_invD(6)[OF post(3)]
  have t: "t \<in> in_flight ph" using post(1) by (rule in_flight_phase)
  have c: "ch_cnt ch = Suc c" "nt"
    using post(2) inv(1,4) by (auto simp: Semaphore_post_def usub_def rassert_def split: if_splits)
  show ?case by (rule ch_invI) (use inv c card_in_flight_Suc[OF inv(2) t] in \<open>simp_all\<close>)
qed

lemma ch_inv_new: "ch_inv lim (sync_channel lim, \<lambda>_. Idle, [], [])"
  by (simp add: ch_inv_def sync_channel_def in_flight_def)

lemma ch_inv_steps: "ch_step\<^sup>*\<^sup>* (sync_channel lim, \<lambda>_. Idle, [], []) x \<Longrightarrow> ch_inv lim x"
  by (induction rule: rtranclp_induct) (auto intro: ch_inv_new ch_inv_step)

section \<open>Properties\<close>


text \<open>Thread 0 sends an element through a channel of one place.\<close>

lemma one_sent:
  "ch_step\<^sup>*\<^sup>* (sync_channel 1, \<lambda>_. Idle, [], []) (\<lparr>ch_cnt = 1, ch_max = 1, ch_buf = [d]\<rparr>, \<lambda>_. Idle, [d], [])"
proof -
  let ?c = "sync_channel 1"
  have "ch_step (?c, \<lambda>_. Idle, [], []) (?c, (\<lambda>_. Idle)(0 := Sending d), [], [])"
    by (rule ch_step.send) simp
  moreover have "ch_step (?c, (\<lambda>_. Idle)(0 := Sending d), [], []) (?c\<lparr>ch_cnt := 1\<rparr>, (\<lambda>_. Idle)(0 := Sending d, 0 := Ready d), [], [])"
    by (rule ch_step.sem_wait) (simp_all add: sync_channel_def Semaphore_wait_def uadd_def)
  moreover have "ch_step (?c\<lparr>ch_cnt := 1\<rparr>, (\<lambda>_. Idle)(0 := Sending d, 0 := Ready d), [], [])
     (send_push d (?c\<lparr>ch_cnt := 1\<rparr>), buf_notify ((\<lambda>_. Idle)(0 := Sending d, 0 := Ready d, 0 := Idle)), [] @ [d], [])"
    by (rule ch_step.push) (auto simp: buf_free_def)
  ultimately have "ch_step\<^sup>*\<^sup>* (?c, \<lambda>_. Idle, [], [])
     (send_push d (?c\<lparr>ch_cnt := 1\<rparr>), buf_notify ((\<lambda>_. Idle)(0 := Sending d, 0 := Ready d, 0 := Idle)), [] @ [d], [])"
    by (meson converse_rtranclp_into_rtranclp r_into_rtranclp)
  moreover have "buf_notify ((\<lambda>_. Idle)(0 := Sending d, 0 := Ready d, 0 := Idle)) = (\<lambda>_. Idle)"
    by (simp add: buf_notify_def fun_eq_iff)
  ultimately show ?thesis by (simp add: send_push_def sync_channel_def)
qed

text \<open>Thread 1 then finds the channel full and sleeps on the semaphore.\<close>

lemma second_sleeps:
  "ch_step\<^sup>*\<^sup>* (sync_channel 1, \<lambda>_. Idle, [], []) (\<lparr>ch_cnt = 1, ch_max = 1, ch_buf = [d]\<rparr>, (\<lambda>_. Idle)(1 := SemAsleep e), [d], [])"
proof -
  let ?c = "\<lparr>ch_cnt = 1, ch_max = 1, ch_buf = [d]\<rparr>"
  have s: "ch_step (?c, \<lambda>_. Idle, [d], []) (?c, (\<lambda>_. Idle)(1 := Sending e), [d], [])"
    by (rule ch_step.send) simp
  have "ch_step (?c, (\<lambda>_. Idle)(1 := Sending e), [d], []) (?c, (\<lambda>_. Idle)(1 := Sending e, 1 := SemAsleep e), [d], [])"
    by (rule ch_step.sem_sleep) (simp_all add: Semaphore_wait_def)
  then have w: "ch_step (?c, (\<lambda>_. Idle)(1 := Sending e), [d], []) (?c, (\<lambda>_. Idle)(1 := SemAsleep e), [d], [])" by simp
  show ?thesis by (rule rtranclp.rtrancl_into_rtrancl[OF rtranclp.rtrancl_into_rtrancl[OF one_sent s] w])
qed


end
