(* ===== verification/SleepLock.thy ===== *)
theory SleepLock
  imports Proc
begin

text \<open>
  \<^verbatim>\<open>src/kernel/sleeplock.rs\<close>: locks that a process may hold while it sleeps. The spin lock inside
  makes each critical section one step; processes, named by their identifiers, interleave the
  steps. A guard is the phase of the process that has it.
\<close>

section \<open>Operations\<close>

record SleepLockInfo =
  sl_locked :: bool
  sl_pid :: nat

definition SleepLockInfo_new :: "bool \<Rightarrow> nat \<Rightarrow> SleepLockInfo" where
  "SleepLockInfo_new locked pid = \<lparr>sl_locked = locked, sl_pid = pid\<rparr>"

definition SleepLock_new :: SleepLockInfo where
  "SleepLock_new = SleepLockInfo_new False 0"

text \<open>One turn of the loop of \<^verbatim>\<open>lock\<close>: \<^term>\<open>None\<close> when the process has to sleep.\<close>

definition SleepLock_lock :: "nat \<Rightarrow> SleepLockInfo \<Rightarrow> SleepLockInfo option" where
  "SleepLock_lock pid lk = (if sl_locked lk then None else Some (lk\<lparr>sl_locked := True, sl_pid := pid\<rparr>))"

definition SleepLock_holding :: "nat \<Rightarrow> SleepLockInfo \<Rightarrow> bool" where
  "SleepLock_holding pid lk \<longleftrightarrow> sl_locked lk \<and> sl_pid lk = pid"

text \<open>The two critical sections of the drop of a guard.\<close>

definition SleepLockGuard_check :: "nat \<Rightarrow> SleepLockInfo \<Rightarrow> unit rust" where
  "SleepLockGuard_check pid lk = rassert (SleepLock_holding pid lk) ''release''"

definition SleepLockGuard_release :: "SleepLockInfo \<Rightarrow> SleepLockInfo" where
  "SleepLockGuard_release lk = lk\<lparr>sl_locked := False, sl_pid := 0\<rparr>"

section \<open>Processes\<close>

datatype sl_phase = Free | Asleep | Guard | Releasing

type_synonym sl_state = "SleepLockInfo \<times> (nat \<Rightarrow> sl_phase)"

definition sl_wakeup :: "(nat \<Rightarrow> sl_phase) \<Rightarrow> nat \<Rightarrow> sl_phase" where
  "sl_wakeup ph = (\<lambda>p. if ph p = Asleep then Free else ph p)"

inductive sl_step :: "sl_state \<Rightarrow> sl_state \<Rightarrow> bool" where
  take: "ph p = Free \<Longrightarrow> SleepLock_lock p lk = Some lk' \<Longrightarrow> sl_step (lk, ph) (lk', ph(p := Guard))"
| wait: "ph p = Free \<Longrightarrow> SleepLock_lock p lk = None \<Longrightarrow> sl_step (lk, ph) (lk, ph(p := Asleep))"
| check: "ph p = Guard \<Longrightarrow> SleepLockGuard_check p lk = Inr () \<Longrightarrow> sl_step (lk, ph) (lk, ph(p := Releasing))"
| release: "ph p = Releasing \<Longrightarrow>
    sl_step (lk, ph) (SleepLockGuard_release lk, sl_wakeup (ph(p := Free)))"

definition sl_inv :: "sl_state \<Rightarrow> bool" where
  "sl_inv = (\<lambda>(lk, ph).
     (\<forall>p. ph p = Guard \<or> ph p = Releasing \<longrightarrow> SleepLock_holding p lk) \<and>
     (sl_locked lk \<longrightarrow> (\<exists>p. ph p = Guard \<or> ph p = Releasing)) \<and>
     (\<not> sl_locked lk \<longrightarrow> (\<forall>p. ph p \<noteq> Asleep)))"

lemma sl_inv_step: "sl_step s s' \<Longrightarrow> sl_inv s \<Longrightarrow> sl_inv s'"
proof (induction rule: sl_step.induct)
  case (take ph p lk lk')
  then have "\<not> sl_locked lk" "lk' = lk\<lparr>sl_locked := True, sl_pid := p\<rparr>" by (auto simp: SleepLock_lock_def split: if_splits)
  with take show ?case by (auto simp: sl_inv_def SleepLock_holding_def)
next
  case (wait ph p lk)
  then have "sl_locked lk" by (simp add: SleepLock_lock_def split: if_splits)
  with wait(3) obtain q where q: "ph q = Guard \<or> ph q = Releasing" by (auto simp: sl_inv_def)
  then have "q \<noteq> p" using wait(1) by auto
  with q wait(3) \<open>sl_locked lk\<close> show ?case by (auto simp: sl_inv_def intro!: exI[of _ q])
next
  case (check ph p lk)
  then show ?case by (auto simp: sl_inv_def SleepLockGuard_check_def)
next
  case (release ph p lk)
  then have "q = p" if "ph q = Guard \<or> ph q = Releasing" for q
    using that by (auto simp: sl_inv_def SleepLock_holding_def)
  then show ?case by (auto simp: sl_inv_def SleepLockGuard_release_def sl_wakeup_def)
qed

lemma sl_inv_new: "sl_inv (SleepLock_new, \<lambda>_. Free)"
  by (simp add: sl_inv_def SleepLock_new_def SleepLockInfo_new_def)

lemma sl_inv_steps: "sl_step\<^sup>*\<^sup>* (SleepLock_new, \<lambda>_. Free) s \<Longrightarrow> sl_inv s"
  by (induction rule: rtranclp_induct) (auto intro: sl_inv_new sl_inv_step)

text \<open>
  However processes interleave, at most one has a guard of a sleep lock; the assertion in
  the drop of the guard holds; and while the lock is free no process sleeps on it, so that no
  wakeup is lost.
\<close>

theorem SleepLock_exclusion:
  assumes "sl_step\<^sup>*\<^sup>* (SleepLock_new, \<lambda>_. Free) (lk, ph)"
  shows "(\<forall>p q. ph p \<in> {Guard, Releasing} \<and> ph q \<in> {Guard, Releasing} \<longrightarrow> p = q) \<and>
    (\<forall>p. ph p = Guard \<longrightarrow> SleepLockGuard_check p lk = Inr ()) \<and>
    (\<not> sl_locked lk \<longrightarrow> (\<forall>p. ph p \<noteq> Asleep))"
  using sl_inv_steps[OF assms] by (auto simp: sl_inv_def SleepLock_holding_def SleepLockGuard_check_def rassert_def)

text \<open>Process 3 takes the lock, process 4 waits for it.\<close>

lemma sl_contended:
  "sl_step\<^sup>*\<^sup>* (SleepLock_new, \<lambda>_. Free) (\<lparr>sl_locked = True, sl_pid = 3\<rparr>, (\<lambda>_. Free)(3 := Guard, 4 := Asleep))"
proof -
  have "sl_step (SleepLock_new, \<lambda>_. Free) (\<lparr>sl_locked = True, sl_pid = 3\<rparr>, (\<lambda>_. Free)(3 := Guard))"
    by (rule sl_step.take) (simp_all add: SleepLock_new_def SleepLockInfo_new_def SleepLock_lock_def)
  moreover have "sl_step (\<lparr>sl_locked = True, sl_pid = 3\<rparr>, (\<lambda>_. Free)(3 := Guard))
      (\<lparr>sl_locked = True, sl_pid = 3\<rparr>, (\<lambda>_. Free)(3 := Guard, 4 := Asleep))"
    by (rule sl_step.wait) (simp_all add: SleepLock_lock_def)
  ultimately show ?thesis by (rule converse_rtranclp_into_rtranclp[OF _ r_into_rtranclp])
qed

theorem SleepLock_exclusion_witness:
  "SleepLockGuard_check 3 \<lparr>sl_locked = True, sl_pid = 3\<rparr> = Inr ()"
  using SleepLock_exclusion[OF sl_contended, THEN conjunct2, THEN conjunct1, rule_format, of 3] by simp

end
