(* ===== verification/Bio.thy ===== *)
theory Bio
  imports SleepLock
begin

text \<open>
  \<^verbatim>\<open>src/kernel/bio.rs\<close>: the buffer cache. The nodes of the doubly linked list are numbered in the
  order in which they are added; a node has its links, the strong counts of the \<^verbatim>\<open>Rc\<close> that holds
  the node and of the \<^verbatim>\<open>Arc\<close> that holds its data, and the data with its sleep lock. A walk along
  the links is a partial function whose value \<^term>\<open>None\<close> means that it does not return. The disk
  driver is an argument.
\<close>

section \<open>State\<close>

definition BSIZE :: nat where "BSIZE = 1024"

definition NBUF :: nat where "NBUF = 30"

record Data =
  d_data :: "u8 list"
  d_disk :: bool
  d_blockno :: nat
  d_dev :: nat
  d_valid :: bool

record Buf =
  b_lock :: SleepLockInfo
  b_data :: Data
  b_refs :: nat
  b_rc :: nat
  m_dev :: nat
  m_blockno :: nat
  m_next :: "nat option"
  m_prev :: "nat option"

record Lru =
  lru_bufs :: "Buf list"
  lru_head :: "nat option"
  lru_tail :: "nat option"
  lru_n :: nat

definition Data_new :: Data where
  "Data_new = \<lparr>d_data = replicate BSIZE 0, d_disk = False, d_blockno = 0, d_dev = 0, d_valid = False\<rparr>"

definition Buf_new :: Buf where
  "Buf_new = \<lparr>b_lock = SleepLock_new, b_data = Data_new, b_refs = 1, b_rc = 1, m_dev = 0, m_blockno = 0,
     m_next = None, m_prev = None\<rparr>"

definition Lru_new :: Lru where
  "Lru_new = \<lparr>lru_bufs = [], lru_head = None, lru_tail = None, lru_n = 0\<rparr>"

abbreviation buf :: "Lru \<Rightarrow> nat \<Rightarrow> Buf" where
  "buf s i \<equiv> lru_bufs s ! i"

definition upd_buf :: "nat \<Rightarrow> (Buf \<Rightarrow> Buf) \<Rightarrow> Lru \<Rightarrow> Lru" where
  "upd_buf i f s = s\<lparr>lru_bufs := (lru_bufs s)[i := f (buf s i)]\<rparr>"

text \<open>\<^verbatim>\<open>Weak::upgrade\<close>, and the drop of one strong reference to a node, which drops what it links to.\<close>

definition upgrade :: "Lru \<Rightarrow> nat \<Rightarrow> nat option" where
  "upgrade s i = (if b_rc (buf s i) > 0 then Some i else None)"

fun drop_rc :: "nat \<Rightarrow> nat option \<Rightarrow> Lru \<Rightarrow> Lru" where
  "drop_rc fuel None s = s"
| "drop_rc 0 (Some i) s = s"
| "drop_rc (Suc fuel) (Some i) s =
     (let s1 = upd_buf i (\<lambda>b. b\<lparr>b_rc := b_rc b - 1\<rparr>) s
      in if b_rc (buf s1 i) = 0 then drop_rc fuel (m_next (buf s i)) s1 else s1)"

definition drop_link :: "nat option \<Rightarrow> Lru \<Rightarrow> Lru" where
  "drop_link r s = drop_rc (Suc (length (lru_bufs s))) r s"

text \<open>The assignment to a \<^verbatim>\<open>next\<close> field: the old value is dropped.\<close>

definition set_next :: "nat \<Rightarrow> nat option \<Rightarrow> Lru \<Rightarrow> Lru" where
  "set_next i v s = drop_link (m_next (buf s i)) (upd_buf i (\<lambda>b. b\<lparr>m_next := v\<rparr>) s)"

definition clone_link :: "nat option \<Rightarrow> Lru \<Rightarrow> Lru" where
  "clone_link r s = (case r of None \<Rightarrow> s | Some i \<Rightarrow> upd_buf i (\<lambda>b. b\<lparr>b_rc := b_rc b + 1\<rparr>) s)"

section \<open>The list\<close>

definition Lru_add :: "Lru \<Rightarrow> Lru rust" where
  "Lru_add s =
     (let i = length (lru_bufs s);
          s1 = s\<lparr>lru_bufs := lru_bufs s @ [Buf_new], lru_tail := None\<rparr>
      in rbind (case lru_tail s of
                  Some t \<Rightarrow> rbind (unwrap (upgrade s1 t)) (\<lambda>t.
                    Inr (upd_buf i (\<lambda>b. b\<lparr>m_prev := Some t\<rparr>) (set_next t (Some i) s1)))
                | None \<Rightarrow> Inr (s1\<lparr>lru_head := Some i\<rparr>)) (\<lambda>s2.
         rbind (uadd (lru_n s2) 1) (\<lambda>n. Inr (s2\<lparr>lru_tail := Some i, lru_n := n\<rparr>))))"

partial_function (option) fwd_find :: "(Buf \<Rightarrow> bool) \<Rightarrow> Lru \<Rightarrow> nat option \<Rightarrow> nat option option" where
  "fwd_find P s cur =
     (case cur of
        None \<Rightarrow> Some None
      | Some i \<Rightarrow> if P (buf s i) then Some (Some i) else fwd_find P s (m_next (buf s i)))"

partial_function (option) rev_find :: "(Buf \<Rightarrow> bool) \<Rightarrow> Lru \<Rightarrow> nat option \<Rightarrow> nat option option" where
  "rev_find P s cur =
     (case cur of
        None \<Rightarrow> Some None
      | Some i \<Rightarrow> if P (buf s i) then Some (Some i)
          else rev_find P s (Option.bind (m_prev (buf s i)) (upgrade s)))"

text \<open>
  Taking the sleep lock of a buffer while the spin lock of the list is held: where the lock is
  busy, \<^verbatim>\<open>sleep\<close> calls \<^verbatim>\<open>sched\<close> with the spin lock still held, which panics.
\<close>

definition lock_buf :: "nat \<Rightarrow> nat \<Rightarrow> Lru \<Rightarrow> Lru rust" where
  "lock_buf pid i s =
     (case SleepLock_lock pid (b_lock (buf s i)) of
        None \<Rightarrow> Inl (Panic ''sched multiple locks'')
      | Some lk \<Rightarrow> Inr (upd_buf i (\<lambda>b. b\<lparr>b_lock := lk\<rparr>) s))"

definition guard_refs :: "nat \<Rightarrow> Lru \<Rightarrow> Lru" where
  "guard_refs i s = upd_buf i (\<lambda>b. b\<lparr>b_refs := b_refs b + 1, b_rc := b_rc b + 1\<rparr>) s"

definition Lru_get :: "nat \<Rightarrow> nat \<Rightarrow> nat \<Rightarrow> Lru \<Rightarrow> (nat \<times> Lru) rust option" where
  "Lru_get pid dev blockno s =
     Option.bind (fwd_find (\<lambda>b. m_dev b = dev \<and> m_blockno b = blockno) s (lru_head s)) (\<lambda>hit.
     case hit of
       Some i \<Rightarrow> Some (rbind (lock_buf pid i s) (\<lambda>s1. Inr (i, guard_refs i s1)))
     | None \<Rightarrow>
         Option.bind (rev_find (\<lambda>b. b_refs b = 1) s (Option.bind (lru_tail s) (upgrade s))) (\<lambda>victim.
         case victim of
           None \<Rightarrow> Some (Inl (Panic ''no buffers''))
         | Some i \<Rightarrow>
             let s1 = upd_buf i (\<lambda>b. b\<lparr>m_dev := dev, m_blockno := blockno\<rparr>) s
             in Some (rbind (lock_buf pid i s1) (\<lambda>s2.
                  Inr (i, guard_refs i (upd_buf i (\<lambda>b. b\<lparr>b_data := (b_data b)\<lparr>d_blockno := blockno, d_dev := dev, d_valid := False\<rparr>\<rparr>) s2))))))"

definition Lru_relse :: "nat \<Rightarrow> Lru \<Rightarrow> Lru rust" where
  "Lru_relse i s =
     (if b_refs (buf s i) = 1 then
        let nxt = m_next (buf s i); prv = m_prev (buf s i);
            s1 = upd_buf i (\<lambda>b. b\<lparr>m_next := None, m_prev := None\<rparr>) s;
            s2 = (case nxt of None \<Rightarrow> s1 | Some n \<Rightarrow> upd_buf n (\<lambda>b. b\<lparr>m_prev := prv\<rparr>) s1)
        in rbind (case prv of
                    None \<Rightarrow> Inr s2
                  | Some p \<Rightarrow> rbind (unwrap (upgrade s2 p)) (\<lambda>p. Inr (set_next p nxt (clone_link nxt s2)))) (\<lambda>s3.
           let s4 = (case lru_head s3 of
                       Some h \<Rightarrow> set_next i (Some h) (upd_buf h (\<lambda>b. b\<lparr>m_prev := Some i\<rparr>) s3)
                     | None \<Rightarrow> s3\<lparr>lru_tail := Some i\<rparr>);
               s5 = s4\<lparr>lru_head := Some i\<rparr>
           in Inr (drop_link nxt s5))
      else Inr (drop_link (Some i) s))"

section \<open>Guards\<close>

definition BufGuard_holding :: "nat \<Rightarrow> nat \<Rightarrow> Lru \<Rightarrow> bool" where
  "BufGuard_holding pid i s = SleepLock_holding pid (b_lock (buf s i))"

definition BufGuard_write ::
  "(bool \<Rightarrow> Data \<Rightarrow> 'd \<Rightarrow> (Data \<times> 'd) rust) \<Rightarrow> nat \<Rightarrow> nat \<Rightarrow> Lru \<times> 'd \<Rightarrow> (Lru \<times> 'd) rust" where
  "BufGuard_write rw pid i = (\<lambda>(s, disk).
     if BufGuard_holding pid i s then Inl (Panic ''bwrite'')
     else rbind (rw True (b_data (buf s i)) disk) (\<lambda>(dat, disk1).
          Inr (upd_buf i (\<lambda>b. b\<lparr>b_data := dat\<rparr>) s, disk1)))"

definition BufGuard_pin :: "nat \<Rightarrow> Lru \<Rightarrow> Lru" where
  "BufGuard_pin i s = upd_buf i (\<lambda>b. b\<lparr>b_refs := b_refs b + 1\<rparr>) s"

definition BufGuard_unpin :: "nat \<Rightarrow> Lru \<Rightarrow> Lru" where
  "BufGuard_unpin i s = upd_buf i (\<lambda>b. b\<lparr>b_refs := b_refs b - 1\<rparr>) s"

definition BufGuard_drop :: "nat \<Rightarrow> nat \<Rightarrow> Lru \<Rightarrow> Lru rust" where
  "BufGuard_drop pid i s =
     (if \<not> BufGuard_holding pid i s then Inl (Panic ''drop - brelse'')
      else rbind (SleepLockGuard_check pid (b_lock (buf s i))) (\<lambda>_.
           Lru_relse i (upd_buf i (\<lambda>b. b\<lparr>b_lock := SleepLockGuard_release (b_lock b), b_refs := b_refs b - 1\<rparr>) s)))"

definition BCache_read ::
  "(bool \<Rightarrow> Data \<Rightarrow> 'd \<Rightarrow> (Data \<times> 'd) rust) \<Rightarrow> nat \<Rightarrow> nat \<Rightarrow> nat \<Rightarrow> Lru \<times> 'd \<Rightarrow> (nat \<times> Lru \<times> 'd) rust option" where
  "BCache_read rw pid dev blockno = (\<lambda>(s, disk).
     map_option (\<lambda>r. rbind r (\<lambda>(i, s1).
       if \<not> d_valid (b_data (buf s1 i)) then
         rbind (rw False (b_data (buf s1 i)) disk) (\<lambda>(dat, disk1).
         Inr (i, upd_buf i (\<lambda>b. b\<lparr>b_data := dat\<lparr>d_valid := True\<rparr>\<rparr>) s1, disk1))
       else Inr (i, s1, disk)))
       (Lru_get pid dev blockno s))"

fun bio_add :: "nat \<Rightarrow> Lru \<Rightarrow> Lru rust" where
  "bio_add 0 s = Inr s"
| "bio_add (Suc n) s = rbind (Lru_add s) (bio_add n)"

definition bio_init :: "Lru rust" where
  "bio_init = bio_add NBUF Lru_new"

end
