(* ===== verification/BioProofs.thy ===== *)
theory BioProofs
  imports Bio
begin

text \<open>
  The list of the buffer cache as a sequence of nodes: what \<^verbatim>\<open>get\<close> finds, how \<^verbatim>\<open>relse\<close> reorders
  the sequence, and the releases after which a walk along the list does not end.
\<close>

section \<open>Sequences of nodes\<close>

text \<open>The links lead from \<open>cur\<close> through the nodes \<open>xs\<close> to \<open>nxt\<close>.\<close>

fun fseg :: "Lru \<Rightarrow> nat option \<Rightarrow> nat list \<Rightarrow> nat option \<Rightarrow> bool" where
  "fseg s cur [] nxt \<longleftrightarrow> cur = nxt"
| "fseg s cur (x # xs) nxt \<longleftrightarrow> cur = Some x \<and> fseg s (m_next (buf s x)) xs nxt"

fun bseg :: "Lru \<Rightarrow> nat option \<Rightarrow> nat list \<Rightarrow> nat option \<Rightarrow> bool" where
  "bseg s cur [] nxt \<longleftrightarrow> cur = nxt"
| "bseg s cur (x # xs) nxt \<longleftrightarrow> cur = Some x \<and> bseg s (m_prev (buf s x)) xs nxt"

definition Lru_ok :: "Lru \<Rightarrow> nat list \<Rightarrow> bool" where
  "Lru_ok s xs \<longleftrightarrow> fseg s (lru_head s) xs None \<and> bseg s (lru_tail s) (rev xs) None \<and> distinct xs \<and>
     set xs = {..<length (lru_bufs s)} \<and> (\<forall>x\<in>set xs. b_rc (buf s x) > 0)"

lemma fseg_append: "fseg s cur (xs @ ys) nxt \<longleftrightarrow> (\<exists>mid. fseg s cur xs mid \<and> fseg s mid ys nxt)"
  by (induction xs arbitrary: cur) auto

lemma bseg_append: "bseg s cur (xs @ ys) nxt \<longleftrightarrow> (\<exists>mid. bseg s cur xs mid \<and> bseg s mid ys nxt)"
  by (induction xs arbitrary: cur) auto

lemma fseg_cong: "(\<And>x. x \<in> set xs \<Longrightarrow> m_next (buf t x) = m_next (buf s x)) \<Longrightarrow> fseg t cur xs nxt = fseg s cur xs nxt"
  by (induction xs arbitrary: cur) auto

lemma bseg_cong: "(\<And>x. x \<in> set xs \<Longrightarrow> m_prev (buf t x) = m_prev (buf s x)) \<Longrightarrow> bseg t cur xs nxt = bseg s cur xs nxt"
  by (induction xs arbitrary: cur) auto

lemma fwd_find_seg:
  "fseg s cur xs None \<Longrightarrow> fwd_find P s cur = Some (List.find (\<lambda>i. P (buf s i)) xs)"
  by (induction xs arbitrary: cur) (auto simp: fwd_find.simps)

lemma rev_find_seg:
  "bseg s cur xs None \<Longrightarrow> (\<And>x. x \<in> set xs \<Longrightarrow> b_rc (buf s x) > 0) \<Longrightarrow>
   rev_find P s (Option.bind cur (upgrade s)) = Some (List.find (\<lambda>i. P (buf s i)) xs)"
  by (induction xs arbitrary: cur) (auto simp: rev_find.simps upgrade_def)

text \<open>A node that links to itself and is not the one looked for keeps the walk going for ever.\<close>

lemma fwd_find_self_loop:
  assumes "m_next (buf s h) = Some h" and "\<not> Q (buf s h)"
  shows "fwd_find Q s (Some h) = None"
proof (cases "fwd_find Q s (Some h)")
  case (Some y)
  have "((Q, s), Some h) = ((Q, s), Some h) \<longrightarrow> False"
    by (rule fwd_find.raw_induct[where Pa = "\<lambda>x y. x = ((Q, s), Some h) \<longrightarrow> False", OF _ Some])
      (auto simp: assms, blast)
  then show ?thesis by simp
qed

section \<open>Updates of nodes\<close>

lemma upd_buf_simps [simp]:
  "length (lru_bufs (upd_buf i f s)) = length (lru_bufs s)" "lru_head (upd_buf i f s) = lru_head s"
  "lru_tail (upd_buf i f s) = lru_tail s" "lru_n (upd_buf i f s) = lru_n s"
  by (simp_all add: upd_buf_def)

lemma buf_upd [simp]: "i < length (lru_bufs s) \<Longrightarrow> buf (upd_buf i f s) i = f (buf s i)" "j \<noteq> i \<Longrightarrow> buf (upd_buf i f s) j = buf s j"
  by (simp_all add: upd_buf_def)

lemma buf_upd_if: "i < length (lru_bufs s) \<Longrightarrow> buf (upd_buf i f s) j = (if j = i then f (buf s i) else buf s j)"
  by simp

lemma drop_link_None [simp]: "drop_link None s = s"
  by (simp add: drop_link_def)

lemma drop_link_Some:
  "i < length (lru_bufs s) \<Longrightarrow> b_rc (buf s i) > 1 \<Longrightarrow> drop_link (Some i) s = upd_buf i (\<lambda>b. b\<lparr>b_rc := b_rc b - 1\<rparr>) s"
  by (simp add: drop_link_def Let_def)

text \<open>The fields of a node but its links and the count of the node.\<close>

definition same_entry :: "Buf \<Rightarrow> Buf \<Rightarrow> bool" where
  "same_entry b c \<longleftrightarrow> b_lock b = b_lock c \<and> b_data b = b_data c \<and> b_refs b = b_refs c \<and> m_dev b = m_dev c \<and> m_blockno b = m_blockno c"

lemma Lru_relse_links:
  assumes refs: "b_refs (buf s i) = 1" and i: "i < length (lru_bufs s)" "b_rc (buf s i) > 1" "h \<noteq> i"
    and p: "m_prev (buf s i) = Some p" "p < length (lru_bufs s)" "b_rc (buf s p) > 0" "p \<noteq> i" "m_next (buf s p) = Some i"
    and h: "lru_head s = Some h" "h < length (lru_bufs s)"
    and n: "\<And>n. m_next (buf s i) = Some n \<Longrightarrow> n < length (lru_bufs s) \<and> n \<noteq> i \<and> n \<noteq> p \<and> n \<noteq> h \<and> b_rc (buf s n) > 0"
  obtains s' where "Lru_relse i s = Inr s'" "length (lru_bufs s') = length (lru_bufs s)"
    "lru_head s' = Some i" "lru_tail s' = lru_tail s"
    "\<And>x. m_next (buf s' x) = (if x = i then Some h else if x = p then m_next (buf s i) else m_next (buf s x))"
    "\<And>x. m_prev (buf s' x) = (if x = i then None else if x = h then Some i
       else if m_next (buf s i) = Some x then Some p else m_prev (buf s x))"
    "\<And>x. b_rc (buf s' x) = (if x = i then b_rc (buf s i) - 1 else b_rc (buf s x))"
    "\<And>x. same_entry (buf s' x) (buf s x)"
proof (cases "m_next (buf s i)")
  case None
  define s1 where "s1 = upd_buf i (\<lambda>b. b\<lparr>m_next := None, m_prev := None\<rparr>) s"
  define s3 where "s3 = upd_buf i (\<lambda>b. b\<lparr>b_rc := b_rc b - 1\<rparr>) (upd_buf p (\<lambda>b. b\<lparr>m_next := None\<rparr>) s1)"
  define s4 where "s4 = upd_buf i (\<lambda>b. b\<lparr>m_next := Some h\<rparr>) (upd_buf h (\<lambda>b. b\<lparr>m_prev := Some i\<rparr>) s3)"
  note d = s1_def s3_def s4_def
  have "upgrade s1 p = Some p" "set_next p None s1 = s3" "set_next i (Some h) (upd_buf h (\<lambda>b. b\<lparr>m_prev := Some i\<rparr>) s3) = s4"
    "lru_head s3 = Some h"
    using assms by (simp_all add: d upgrade_def set_next_def drop_link_Some)
  then have r: "Lru_relse i s = Inr (s4\<lparr>lru_head := Some i\<rparr>)"
    by (simp add: Lru_relse_def refs Let_def None p(1) clone_link_def s1_def[symmetric])
  show thesis by (rule that[OF r]) (use assms None in \<open>auto simp: d same_entry_def buf_upd_if\<close>)
next
  case (Some k)
  note n = n[OF this]
  define s1 where "s1 = upd_buf i (\<lambda>b. b\<lparr>m_next := None, m_prev := None\<rparr>) s"
  define s2 where "s2 = upd_buf k (\<lambda>b. b\<lparr>m_prev := Some p\<rparr>) s1"
  define s2' where "s2' = upd_buf k (\<lambda>b. b\<lparr>b_rc := b_rc b + 1\<rparr>) s2"
  define s3 where "s3 = upd_buf i (\<lambda>b. b\<lparr>b_rc := b_rc b - 1\<rparr>) (upd_buf p (\<lambda>b. b\<lparr>m_next := Some k\<rparr>) s2')"
  define s4 where "s4 = upd_buf i (\<lambda>b. b\<lparr>m_next := Some h\<rparr>) (upd_buf h (\<lambda>b. b\<lparr>m_prev := Some i\<rparr>) s3)"
  define s5 where "s5 = upd_buf k (\<lambda>b. b\<lparr>b_rc := b_rc b - 1\<rparr>) (s4\<lparr>lru_head := Some i\<rparr>)"
  note d = s1_def s2_def s2'_def s3_def s4_def s5_def
  have "upgrade s2 p = Some p" "clone_link (Some k) s2 = s2'" "set_next p (Some k) s2' = s3"
    "set_next i (Some h) (upd_buf h (\<lambda>b. b\<lparr>m_prev := Some i\<rparr>) s3) = s4"
    "lru_head s3 = Some h" "drop_link (Some k) (s4\<lparr>lru_head := Some i\<rparr>) = s5"
    using assms(1-12) n by (simp_all add: d upgrade_def set_next_def clone_link_def drop_link_Some)
  then have r: "Lru_relse i s = Inr s5"
    by (simp add: Lru_relse_def refs Let_def Some p(1) s1_def[symmetric] s2_def[symmetric])
  have neq: "k \<noteq> i" "k \<noteq> p" "k \<noteq> h" "h \<noteq> i" "p \<noteq> i" "i \<noteq> k" "p \<noteq> k" "h \<noteq> k" "i \<noteq> h" "i \<noteq> p"
    and lt: "k < length (lru_bufs s)" "i < length (lru_bufs s)" "p < length (lru_bufs s)" "h < length (lru_bufs s)"
    using i p h n by auto
  have b: "buf s5 x = (if x = i then (buf s i)\<lparr>m_next := Some h, m_prev := None, b_rc := b_rc (buf s i) - 1\<rparr>
      else if x = k then (buf s k)\<lparr>m_prev := Some p\<rparr>
      else (buf s x)\<lparr>m_next := if x = p then Some k else m_next (buf s x), m_prev := if x = h then Some i else m_prev (buf s x)\<rparr>)" for x
    by (cases "p = h") (simp_all add: d buf_upd_if lt neq)
  show thesis by (rule that[OF r]) (simp_all add: b Some neq same_entry_def, simp_all add: d)
qed

section \<open>Release\<close>

lemma Lru_ok_split:
  assumes "Lru_ok s (ys @ i # zs)"
  shows "fseg s (lru_head s) ys (Some i)" "fseg s (m_next (buf s i)) zs None"
    "bseg s (lru_tail s) (rev zs) (Some i)" "bseg s (m_prev (buf s i)) (rev ys) None"
    "distinct (ys @ i # zs)" "set (ys @ i # zs) = {..<length (lru_bufs s)}"
    "\<And>x. x \<in> set (ys @ i # zs) \<Longrightarrow> x < length (lru_bufs s) \<and> b_rc (buf s x) > 0"
  using assms by (auto simp: Lru_ok_def fseg_append bseg_append set_eq_iff)

text \<open>The node in front of \<open>i\<close>, the first node, and the one after \<open>i\<close>.\<close>

lemma Lru_ok_neighbours:
  assumes ok: "Lru_ok s (ys @ i # zs)" and ys: "ys \<noteq> []"
  shows "m_prev (buf s i) = Some (last ys)" "m_next (buf s (last ys)) = Some i" "lru_head s = Some (hd ys)"
    "m_next (buf s i) = (case zs of [] \<Rightarrow> None | n # _ \<Rightarrow> Some n)"
proof -
  have "ys = butlast ys @ [last ys]" using ys by simp
  then have "fseg s (lru_head s) (butlast ys @ [last ys]) (Some i)" "bseg s (m_prev (buf s i)) (rev (butlast ys @ [last ys])) None"
    using Lru_ok_split(1,4)[OF ok] by simp_all
  then show "m_prev (buf s i) = Some (last ys)" "m_next (buf s (last ys)) = Some i" by (auto simp: fseg_append)
  show "lru_head s = Some (hd ys)" using Lru_ok_split(1)[OF ok] ys by (cases ys) auto
  show "m_next (buf s i) = (case zs of [] \<Rightarrow> None | n # _ \<Rightarrow> Some n)"
    using Lru_ok_split(2)[OF ok] by (cases zs) auto
qed

lemma fseg_front:
  assumes f: "fseg s (Some (hd ys)) ys (Some i)" "fseg s (m_next (buf s i)) zs None" and d: "distinct (ys @ i # zs)" and ys: "ys \<noteq> []"
    and nx: "\<And>x. m_next (buf s' x) = (if x = i then Some (hd ys) else if x = last ys then m_next (buf s i) else m_next (buf s x))"
  shows "fseg s' (Some i) (i # ys @ zs) None"
proof -
  obtain as p where as: "ys = as @ [p]" using ys by (cases ys rule: rev_cases) auto
  have "fseg s (Some (hd ys)) as (Some p)" using f(1) by (simp add: as fseg_append)
  then have "fseg s' (Some (hd ys)) as (Some p)" by (subst fseg_cong[of _ _ s]) (use d as in \<open>auto simp: nx\<close>)
  moreover have "fseg s' (m_next (buf s i)) zs None"
    using f(2) by (subst fseg_cong[of _ _ s]) (use d as in \<open>auto simp: nx\<close>)
  moreover have "m_next (buf s' p) = m_next (buf s i)" "m_next (buf s' i) = Some (hd ys)" using d as by (auto simp: nx)
  ultimately show ?thesis by (simp add: as fseg_append)
qed

lemma bseg_front:
  assumes b: "bseg s tp (rev zs) (Some i)" "bseg s (Some (last ys)) (rev ys) None" and d: "distinct (ys @ i # zs)" and ys: "ys \<noteq> []"
    and nb: "m_next (buf s i) = (case zs of [] \<Rightarrow> None | n # _ \<Rightarrow> Some n)"
    and pv: "\<And>x. m_prev (buf s' x) = (if x = i then None else if x = hd ys then Some i
       else if m_next (buf s i) = Some x then Some (last ys) else m_prev (buf s x))"
  shows "bseg s' (if zs = [] then Some (last ys) else tp) (rev (i # ys @ zs)) None"
proof -
  obtain h as where as: "ys = h # as" using ys by (cases ys) auto
  have nz: "m_next (buf s i) = Some x \<Longrightarrow> x \<in> set zs" for x using nb by (cases zs) auto
  have "bseg s (Some (last ys)) (rev as) (Some h)" using b(2) by (simp add: as bseg_append)
  then have "bseg s' (Some (last ys)) (rev as) (Some h)" by (subst bseg_cong[of _ _ s]) (use d as nz in \<open>auto simp: pv\<close>)
  moreover have "m_prev (buf s' h) = Some i" "m_prev (buf s' i) = None" using d as by (auto simp: pv)
  ultimately have front: "bseg s' (Some (last ys)) (rev (i # ys)) None" by (simp add: as bseg_append)
  show ?thesis
  proof (cases zs)
    case (Cons n ns)
    have "bseg s tp (rev ns) (Some n)" using b(1) by (simp add: Cons bseg_append)
    then have "bseg s' tp (rev ns) (Some n)" by (subst bseg_cong[of _ _ s]) (use d as nb Cons in \<open>auto simp: pv\<close>)
    moreover have "m_prev (buf s' n) = Some (last ys)" using d as nb Cons by (auto simp: pv)
    ultimately have "bseg s' tp (rev zs @ rev (i # ys)) None" using front by (simp add: Cons bseg_append)
    then show ?thesis by (simp add: Cons)
  qed (use front in simp)
qed

lemma Lru_relse_ok:
  assumes ok: "Lru_ok s (ys @ i # zs)" and ys: "ys \<noteq> []" and refs: "b_refs (buf s i) = 1" and rc: "b_rc (buf s i) > 1"
  obtains s' where "Lru_relse i s = Inr s'" "length (lru_bufs s') = length (lru_bufs s)" "lru_tail s' = lru_tail s"
    "fseg s' (lru_head s') (i # ys @ zs) None" "bseg s' (if zs = [] then Some (last ys) else lru_tail s) (rev (i # ys @ zs)) None"
    "\<And>x. x < length (lru_bufs s) \<Longrightarrow> b_rc (buf s' x) > 0" "\<And>x. same_entry (buf s' x) (buf s x)" "m_prev (buf s' i) = None"
proof -
  note sp = Lru_ok_split[OF ok] and nb = Lru_ok_neighbours[OF ok ys]
  have lt: "x < length (lru_bufs s)" "b_rc (buf s x) > 0" if "x \<in> set (ys @ i # zs)" for x using sp(7)[OF that] by auto
  have mem: "hd ys \<in> set ys" "last ys \<in> set ys" using ys by simp_all
  have i: "i < length (lru_bufs s)" "hd ys \<noteq> i" and p: "last ys < length (lru_bufs s)" "b_rc (buf s (last ys)) > 0" "last ys \<noteq> i"
    and h: "hd ys < length (lru_bufs s)"
    using lt[of i] lt[of "hd ys"] lt[of "last ys"] sp(5) mem by auto
  have n: "n < length (lru_bufs s) \<and> n \<noteq> i \<and> n \<noteq> last ys \<and> n \<noteq> hd ys \<and> b_rc (buf s n) > 0" if "m_next (buf s i) = Some n" for n
  proof -
    have "n \<in> set zs" using that nb(4) by (cases zs) auto
    then show ?thesis using lt[of n] sp(5) mem by auto
  qed
  obtain s' where r: "Lru_relse i s = Inr s'" "length (lru_bufs s') = length (lru_bufs s)"
    "lru_head s' = Some i" "lru_tail s' = lru_tail s"
    and nx: "\<And>x. m_next (buf s' x) = (if x = i then Some (hd ys) else if x = last ys then m_next (buf s i) else m_next (buf s x))"
    and pv: "\<And>x. m_prev (buf s' x) = (if x = i then None else if x = hd ys then Some i
       else if m_next (buf s i) = Some x then Some (last ys) else m_prev (buf s x))"
    and c: "\<And>x. b_rc (buf s' x) = (if x = i then b_rc (buf s i) - 1 else b_rc (buf s x))"
    and e: "\<And>x. same_entry (buf s' x) (buf s x)"
    by (rule Lru_relse_links[OF refs i(1) rc i(2) nb(1) p nb(2,3) h n]) blast+
  show thesis
  proof (rule that[OF r(1,2,4)])
    have "fseg s (Some (hd ys)) ys (Some i)" using sp(1) nb(3) by simp
    from fseg_front[OF this sp(2,5) ys nx] show "fseg s' (lru_head s') (i # ys @ zs) None" by (simp add: r(3))
    have "bseg s (Some (last ys)) (rev ys) None" using sp(4) nb(1) by simp
    from bseg_front[OF sp(3) this sp(5) ys nb(4) pv]
    show "bseg s' (if zs = [] then Some (last ys) else lru_tail s) (rev (i # ys @ zs)) None" by simp
    show "m_prev (buf s' i) = None" by (simp add: pv)
    show "\<And>x. x < length (lru_bufs s) \<Longrightarrow> b_rc (buf s' x) > 0"
      using lt(2) sp(6) rc by (auto simp: c set_eq_iff)
    show "\<And>x. same_entry (buf s' x) (buf s x)" by (rule e)
  qed
qed

text \<open>Dropping references changes counts only.\<close>

lemma drop_rc_links:
  "length (lru_bufs (drop_rc k r s)) = length (lru_bufs s) \<and> lru_head (drop_rc k r s) = lru_head s \<and> lru_tail (drop_rc k r s) = lru_tail s \<and>
   m_next (buf (drop_rc k r s) x) = m_next (buf s x) \<and> m_prev (buf (drop_rc k r s) x) = m_prev (buf s x) \<and>
   same_entry (buf (drop_rc k r s) x) (buf s x)"
proof (induction k r s rule: drop_rc.induct)
  case (3 fuel i s)
  let ?s1 = "upd_buf i (\<lambda>b. b\<lparr>b_rc := b_rc b - 1\<rparr>) s"
  have "m_next (buf ?s1 x) = m_next (buf s x) \<and> m_prev (buf ?s1 x) = m_prev (buf s x) \<and> same_entry (buf ?s1 x) (buf s x)"
    by (cases "i < length (lru_bufs s)"; cases "x = i") (simp_all add: same_entry_def upd_buf_def list_update_beyond)
  then show ?case using 3[OF refl] by (auto simp: Let_def same_entry_def)
qed (simp_all add: same_entry_def)

lemma drop_link_links [simp]:
  "length (lru_bufs (drop_link r s)) = length (lru_bufs s)" "lru_head (drop_link r s) = lru_head s" "lru_tail (drop_link r s) = lru_tail s"
  "m_next (buf (drop_link r s) x) = m_next (buf s x)" "m_prev (buf (drop_link r s) x) = m_prev (buf s x)"
  using drop_rc_links[of _ r s x] by (simp_all add: drop_link_def)

lemma same_entry_drop_link: "same_entry (buf (drop_link r s) x) (buf s x)"
  using drop_rc_links[of _ r s x] by (simp add: drop_link_def)

lemma Lru_relse_head:
  assumes "b_refs (buf s i) = 1" and "i < length (lru_bufs s)" and "lru_head s = Some i" and "m_prev (buf s i) = None"
  obtains s' where "Lru_relse i s = Inr s'" "lru_head s' = Some i" "m_next (buf s' i) = Some i" "same_entry (buf s' i) (buf s i)"
proof -
  define s1 where "s1 = upd_buf i (\<lambda>b. b\<lparr>m_next := None, m_prev := None\<rparr>) s"
  define s2 where "s2 = (case m_next (buf s i) of None \<Rightarrow> s1 | Some n \<Rightarrow> upd_buf n (\<lambda>b. b\<lparr>m_prev := None\<rparr>) s1)"
  have s2: "lru_head s2 = Some i" "length (lru_bufs s2) = length (lru_bufs s)" "m_next (buf s2 i) = None" "same_entry (buf s2 i) (buf s i)"
    using assms by (auto simp: s2_def s1_def same_entry_def upd_buf_def nth_list_update split: option.splits)
  define s4 where "s4 = upd_buf i (\<lambda>b. b\<lparr>m_next := Some i\<rparr>) (upd_buf i (\<lambda>b. b\<lparr>m_prev := Some i\<rparr>) s2)"
  have "set_next i (Some i) (upd_buf i (\<lambda>b. b\<lparr>m_prev := Some i\<rparr>) s2) = s4"
    using s2 assms(2) by (simp add: set_next_def s4_def)
  then have r: "Lru_relse i s = Inr (drop_link (m_next (buf s i)) (s4\<lparr>lru_head := Some i\<rparr>))"
    using assms s2 by (simp add: Lru_relse_def Let_def s1_def[symmetric] s2_def[symmetric])
  show thesis
  proof (rule that[OF r])
    have "same_entry (buf (s4\<lparr>lru_head := Some i\<rparr>) i) (buf s i)"
      using s2 assms(2) by (simp add: s4_def same_entry_def)
    then show "same_entry (buf (drop_link (m_next (buf s i)) (s4\<lparr>lru_head := Some i\<rparr>)) i) (buf s i)"
      using same_entry_drop_link[of "m_next (buf s i)" "s4\<lparr>lru_head := Some i\<rparr>" i] by (simp add: same_entry_def)
  qed (use s2 assms(2) in \<open>simp_all add: s4_def\<close>)
qed

section \<open>Reading and releasing a block\<close>

text \<open>What \<^verbatim>\<open>get\<close> and the read of the block leave at the node of the guard.\<close>

definition with_guard :: "SleepLockInfo \<Rightarrow> Data \<Rightarrow> nat \<Rightarrow> nat \<Rightarrow> nat \<Rightarrow> Buf \<Rightarrow> Buf" where
  "with_guard lk dat extra dev blockno b =
     b\<lparr>b_lock := lk, b_data := dat, b_refs := b_refs b + extra, b_rc := b_rc b + 1, m_dev := dev, m_blockno := blockno\<rparr>"

lemma upd_buf_upd: "upd_buf i f (upd_buf i g s) = upd_buf i (\<lambda>b. f (g b)) s"
  by (cases "i < length (lru_bufs s)") (simp_all add: upd_buf_def list_update_beyond)

lemma upd_buf_eq: "f (buf s i) = g (buf s i) \<Longrightarrow> upd_buf i f s = upd_buf i g s"
  by (simp add: upd_buf_def)

definition hit :: "nat \<Rightarrow> nat \<Rightarrow> Buf \<Rightarrow> bool" where
  "hit dev blockno b \<longleftrightarrow> m_dev b = dev \<and> m_blockno b = blockno"

lemma lock_buf_Inr: "lock_buf pid i s = Inr s1 \<Longrightarrow> \<exists>lk. SleepLock_holding pid lk \<and> s1 = upd_buf i (\<lambda>b. b\<lparr>b_lock := lk\<rparr>) s"
  by (rule exI[of _ "(b_lock (buf s i))\<lparr>sl_locked := True, sl_pid := pid\<rparr>"])
    (auto simp: lock_buf_def SleepLock_lock_def SleepLock_holding_def split: if_splits)

text \<open>What \<^verbatim>\<open>get\<close> does when it returns: the node it picks, and how that node changes.\<close>

lemma Lru_get_result:
  assumes g: "Lru_get pid dev blockno s = Some (Inr (i, s1))"
    and hitP: "\<And>j. fwd_find (hit dev blockno) s (lru_head s) = Some (Some j) \<Longrightarrow> hit dev blockno (buf s j)"
  shows "(fwd_find (hit dev blockno) s (lru_head s) = Some (Some i) \<or>
      fwd_find (hit dev blockno) s (lru_head s) = Some None \<and>
      rev_find (\<lambda>b. b_refs b = 1) s (Option.bind (lru_tail s) (upgrade s)) = Some (Some i)) \<and>
    (\<exists>lk dat. SleepLock_holding pid lk \<and> s1 = upd_buf i (with_guard lk dat 1 dev blockno) s)"
proof -
  have "(\<lambda>b. m_dev b = dev \<and> m_blockno b = blockno) = hit dev blockno" by (simp add: fun_eq_iff hit_def)
  note g = g[unfolded Lru_get_def this]
  obtain h where h: "fwd_find (hit dev blockno) s (lru_head s) = Some h"
    using g by (cases "fwd_find (hit dev blockno) s (lru_head s)") simp_all
  show ?thesis
  proof (cases h)
    case (Some j)
    from g h Some obtain s2 where j: "j = i" and l: "lock_buf pid i s = Inr s2" and s1: "s1 = guard_refs i s2" by auto
    obtain lk where lk: "SleepLock_holding pid lk" "s2 = upd_buf i (\<lambda>b. b\<lparr>b_lock := lk\<rparr>) s" using lock_buf_Inr[OF l] by blast
    have "hit dev blockno (buf s i)" using hitP h Some j by simp
    then have "s1 = upd_buf i (with_guard lk (b_data (buf s i)) 1 dev blockno) s"
      unfolding s1 lk(2) guard_refs_def upd_buf_upd by (intro upd_buf_eq) (auto simp: with_guard_def hit_def)
    then show ?thesis using h Some j lk(1) by blast
  next
    case None
    obtain v where v: "rev_find (\<lambda>b. b_refs b = 1) s (Option.bind (lru_tail s) (upgrade s)) = Some v"
      using g h None by (cases "rev_find (\<lambda>b. b_refs b = 1) s (Option.bind (lru_tail s) (upgrade s))") simp_all
    obtain j where j: "v = Some j" using g h None v by (cases v) simp_all
    from g h None v j obtain s2 where ji: "j = i"
      and l: "lock_buf pid i (upd_buf i (\<lambda>b. b\<lparr>m_dev := dev, m_blockno := blockno\<rparr>) s) = Inr s2"
      and s1: "s1 = guard_refs i (upd_buf i (\<lambda>b. b\<lparr>b_data := (b_data b)\<lparr>d_blockno := blockno, d_dev := dev, d_valid := False\<rparr>\<rparr>) s2)"
      by (auto simp: Let_def)
    obtain lk where lk: "SleepLock_holding pid lk"
      "s2 = upd_buf i (\<lambda>b. b\<lparr>b_lock := lk\<rparr>) (upd_buf i (\<lambda>b. b\<lparr>m_dev := dev, m_blockno := blockno\<rparr>) s)"
      using lock_buf_Inr[OF l] by blast
    have "s1 = upd_buf i (with_guard lk ((b_data (buf s i))\<lparr>d_blockno := blockno, d_dev := dev, d_valid := False\<rparr>) 1 dev blockno) s"
      unfolding s1 lk(2) guard_refs_def upd_buf_upd by (intro upd_buf_eq) (simp add: with_guard_def)
    then show ?thesis using h None v j ji lk(1) by blast
  qed
qed

lemma BCache_read_Inr:
  assumes "BCache_read rw pid dev blockno (s, d) = Some (Inr (i, s1, d1))"
  obtains t dat where "Lru_get pid dev blockno s = Some (Inr (i, t))" "s1 = upd_buf i (\<lambda>b. b\<lparr>b_data := dat\<rparr>) t"
proof -
  obtain t where t: "Lru_get pid dev blockno s = Some (Inr (i, t))"
    using assms by (auto simp: BCache_read_def split: if_splits)
  show thesis
  proof (cases "d_valid (b_data (buf t i))")
    case True
    have "s1 = t" using assms t True by (simp add: BCache_read_def)
    also have "t = upd_buf i (\<lambda>b. b\<lparr>b_data := b_data (buf t i)\<rparr>) t" by (simp add: upd_buf_def)
    finally show ?thesis using that[OF t] by blast
  next
    case False
    obtain dat d2 where "rw False (b_data (buf t i)) d = Inr (dat, d2)"
      using assms t False by (cases "rw False (b_data (buf t i)) d") (auto simp: BCache_read_def)
    then have "s1 = upd_buf i (\<lambda>b. b\<lparr>b_data := dat\<lparr>d_valid := True\<rparr>\<rparr>) t"
      using assms t False by (simp add: BCache_read_def)
    then show ?thesis by (rule that[OF t])
  qed
qed

lemma read_release:
  assumes r: "BCache_read rw pid dev blockno (s, d) = Some (Inr (i, s1, d1))" and drop: "BufGuard_drop pid i s1 = Inr s2"
    and hitP: "\<And>j. fwd_find (hit dev blockno) s (lru_head s) = Some (Some j) \<Longrightarrow> hit dev blockno (buf s j)"
  shows "(fwd_find (hit dev blockno) s (lru_head s) = Some (Some i) \<or>
      fwd_find (hit dev blockno) s (lru_head s) = Some None \<and>
      rev_find (\<lambda>b. b_refs b = 1) s (Option.bind (lru_tail s) (upgrade s)) = Some (Some i)) \<and>
    (i < length (lru_bufs s) \<longrightarrow> (\<exists>lk dat. \<not> sl_locked lk \<and> Lru_relse i (upd_buf i (with_guard lk dat 0 dev blockno) s) = Inr s2))"
proof -
  obtain t dat' where t: "Lru_get pid dev blockno s = Some (Inr (i, t))" "s1 = upd_buf i (\<lambda>b. b\<lparr>b_data := dat'\<rparr>) t"
    using BCache_read_Inr[OF r] by blast
  from Lru_get_result[OF t(1) hitP] obtain lk dat where lk: "SleepLock_holding pid lk" "t = upd_buf i (with_guard lk dat 1 dev blockno) s"
    and f: "fwd_find (hit dev blockno) s (lru_head s) = Some (Some i) \<or>
      fwd_find (hit dev blockno) s (lru_head s) = Some None \<and>
      rev_find (\<lambda>b. b_refs b = 1) s (Option.bind (lru_tail s) (upgrade s)) = Some (Some i)" by blast
  have "\<exists>lk dat. \<not> sl_locked lk \<and> Lru_relse i (upd_buf i (with_guard lk dat 0 dev blockno) s) = Inr s2" if i: "i < length (lru_bufs s)"
  proof -
    have s1: "s1 = upd_buf i (with_guard lk dat' 1 dev blockno) s"
      unfolding t(2) lk(2) upd_buf_upd by (rule upd_buf_eq) (simp add: with_guard_def)
    have "Lru_relse i (upd_buf i (\<lambda>b. b\<lparr>b_lock := SleepLockGuard_release (b_lock b), b_refs := b_refs b - 1\<rparr>) s1) = Inr s2"
      using drop lk(1) i by (auto simp: BufGuard_drop_def BufGuard_holding_def s1 with_guard_def split: if_splits)
    moreover have "upd_buf i (\<lambda>b. b\<lparr>b_lock := SleepLockGuard_release (b_lock b), b_refs := b_refs b - 1\<rparr>) s1 =
        upd_buf i (with_guard (SleepLockGuard_release lk) dat' 0 dev blockno) s"
      unfolding s1 upd_buf_upd by (rule upd_buf_eq) (simp add: with_guard_def)
    ultimately show ?thesis by (intro exI[of _ "SleepLockGuard_release lk"] exI[of _ dat']) (simp add: SleepLockGuard_release_def)
  qed
  then show ?thesis using f by blast
qed

section \<open>The list after \<^verbatim>\<open>init\<close>\<close>

definition unused :: "Buf \<Rightarrow> bool" where
  "unused b \<longleftrightarrow> b_refs b = 1 \<and> b_rc b = 1 \<and> m_dev b = 0 \<and> m_blockno b = 0 \<and> \<not> sl_locked (b_lock b)"

definition Lru_fresh :: "nat \<Rightarrow> Lru \<Rightarrow> bool" where
  "Lru_fresh n s \<longleftrightarrow> Lru_ok s [0..<n] \<and> length (lru_bufs s) = n \<and> lru_n s = n \<and> (\<forall>x<n. unused (buf s x))"

lemma Lru_fresh_new: "Lru_fresh 0 Lru_new"
  by (simp add: Lru_fresh_def Lru_ok_def Lru_new_def)

lemma unused_new: "unused Buf_new" "unused (b\<lparr>m_next := x\<rparr>) = unused b" "unused (b\<lparr>m_prev := x\<rparr>) = unused b"
  by (simp_all add: unused_def Buf_new_def SleepLock_new_def SleepLockInfo_new_def)

lemma Lru_add_bufs:
  assumes f: "Lru_fresh n s" and n: "n < 2 ^ 64 - 1"
  obtains s' where "Lru_add s = Inr s'" "lru_n s' = Suc n" "lru_tail s' = Some n"
    "lru_head s' = (if n = 0 then Some 0 else lru_head s)"
    "lru_bufs s' = (if n = 0 then [Buf_new] else
       (lru_bufs s)[n - 1 := (buf s (n - 1))\<lparr>m_next := Some n\<rparr>] @ [Buf_new\<lparr>m_prev := Some (n - 1)\<rparr>])"
proof (cases n)
  case 0
  then have "lru_tail s = None" "lru_bufs s = []" "lru_n s = 0" using f by (simp_all add: Lru_fresh_def Lru_ok_def)
  then show thesis using 0 by (intro that[of "s\<lparr>lru_bufs := [Buf_new], lru_tail := Some 0, lru_head := Some 0, lru_n := 1\<rparr>"])
      (simp_all add: Lru_add_def uadd_def)
next
  case (Suc m)
  have l: "length (lru_bufs s) = Suc m" "lru_n s = Suc m" using f Suc by (simp_all add: Lru_fresh_def)
  have "Lru_ok s ([0..<m] @ m # [])" using f Suc by (simp add: Lru_fresh_def)
  from Lru_ok_split(2,3,7)[OF this] have t: "m_next (buf s m) = None" "lru_tail s = Some m" "b_rc (buf s m) > 0" by simp_all
  let ?s1 = "s\<lparr>lru_bufs := lru_bufs s @ [Buf_new], lru_tail := None\<rparr>"
  have u: "upgrade ?s1 m = Some m" using t l by (simp add: upgrade_def nth_append)
  have nx: "set_next m (Some (Suc m)) ?s1 = upd_buf m (\<lambda>b. b\<lparr>m_next := Some (Suc m)\<rparr>) ?s1"
    using t l by (simp add: set_next_def nth_append)
  have r: "Lru_add s = Inr ((upd_buf (Suc m) (\<lambda>b. b\<lparr>m_prev := Some m\<rparr>) (upd_buf m (\<lambda>b. b\<lparr>m_next := Some (Suc m)\<rparr>) ?s1))
      \<lparr>lru_tail := Some (Suc m), lru_n := Suc (Suc m)\<rparr>)"
    using n Suc by (simp add: Lru_add_def t l Let_def u nx uadd_def)
  show thesis using l Suc by (intro that[OF r]) (simp_all add: upd_buf_def nth_append list_update_append)
qed

lemma Lru_add_fresh:
  assumes f: "Lru_fresh n s" and n: "n < 2 ^ 64 - 1"
  obtains s' where "Lru_add s = Inr s'" "Lru_fresh (Suc n) s'"
proof -
  obtain s' where s': "Lru_add s = Inr s'" "lru_n s' = Suc n" "lru_tail s' = Some n"
    "lru_head s' = (if n = 0 then Some 0 else lru_head s)"
    and b: "lru_bufs s' = (if n = 0 then [Buf_new] else
       (lru_bufs s)[n - 1 := (buf s (n - 1))\<lparr>m_next := Some n\<rparr>] @ [Buf_new\<lparr>m_prev := Some (n - 1)\<rparr>])"
    by (rule Lru_add_bufs[OF f n])
  have l: "length (lru_bufs s) = n" and u: "\<And>x. x < n \<Longrightarrow> unused (buf s x)" using f by (simp_all add: Lru_fresh_def)
  have l': "length (lru_bufs s') = Suc n" using l by (simp add: b)
  have u': "unused (buf s' x)" if "x < Suc n" for x
    using u that l by (cases "x = n"; cases "x = n - 1") (auto simp: b nth_append unused_new nth_list_update)
  have "fseg s' (lru_head s') [0..<Suc n] None \<and> bseg s' (lru_tail s') (rev [0..<Suc n]) None"
  proof (cases n)
    case 0
    then show ?thesis using s' by (simp add: b Buf_new_def)
  next
    case (Suc m)
    have ok: "Lru_ok s ([0..<m] @ m # [])" using f Suc by (simp add: Lru_fresh_def)
    have old: "buf s' x = buf s x" if "x < m" for x using that l Suc by (simp add: b nth_append)
    have new: "m_next (buf s' m) = Some n" "m_prev (buf s' m) = m_prev (buf s m)" "m_next (buf s' n) = None" "m_prev (buf s' n) = Some m"
      using l Suc by (simp_all add: b nth_append Buf_new_def)
    have "fseg s' (lru_head s) [0..<m] (Some m)" using Lru_ok_split(1)[OF ok] by (subst fseg_cong[of _ _ s]) (simp_all add: old)
    moreover have "bseg s' (m_prev (buf s m)) (rev [0..<m]) None"
      using Lru_ok_split(4)[OF ok] by (subst bseg_cong[of _ _ s]) (simp_all add: old)
    ultimately show ?thesis using s' Suc new by (simp add: fseg_append)
  qed
  moreover have "\<forall>x<Suc n. b_rc (buf s' x) > 0" using u' by (simp add: unused_def)
  ultimately have "Lru_fresh (Suc n) s'" using l' u' s'(2) unfolding Lru_fresh_def Lru_ok_def by (simp add: lessThan_Suc atLeast0LessThan less_Suc_eq)
  then show thesis by (rule that[OF s'(1)])
qed

lemma bio_add_fresh: "Lru_fresh n s \<Longrightarrow> n + k < 2 ^ 64 \<Longrightarrow> \<exists>s'. bio_add k s = Inr s' \<and> Lru_fresh (n + k) s'"
proof (induction k arbitrary: n s)
  case (Suc k)
  obtain s1 where s1: "Lru_add s = Inr s1" "Lru_fresh (Suc n) s1" by (rule Lru_add_fresh[OF Suc.prems(1)]) (use Suc.prems(2) in simp)
  from Suc.IH[OF s1(2)] Suc.prems(2) s1(1) show ?case by simp
qed simp

lemma bio_init_fresh: "\<exists>s. bio_init = Inr s \<and> Lru_fresh NBUF s"
  using bio_add_fresh[OF Lru_fresh_new, of NBUF] by (simp add: bio_init_def NBUF_def)

section \<open>Two reads\<close>

lemma with_guard_simps [simp]:
  "m_next (with_guard lk dat e dev n b) = m_next b" "m_prev (with_guard lk dat e dev n b) = m_prev b"
  "b_rc (with_guard lk dat e dev n b) = b_rc b + 1" "b_refs (with_guard lk dat e dev n b) = b_refs b + e"
  "m_dev (with_guard lk dat e dev n b) = dev" "m_blockno (with_guard lk dat e dev n b) = n" "b_lock (with_guard lk dat e dev n b) = lk"
  by (simp_all add: with_guard_def)

lemma Lru_ok_guard:
  assumes "Lru_ok s xs" and "i < length (lru_bufs s)"
  shows "Lru_ok (upd_buf i (with_guard lk dat e dev n) s) xs"
proof -
  let ?t = "upd_buf i (with_guard lk dat e dev n) s"
  have "m_next (buf ?t x) = m_next (buf s x)" "m_prev (buf ?t x) = m_prev (buf s x)" "b_rc (buf s x) > 0 \<Longrightarrow> b_rc (buf ?t x) > 0" for x
    using assms(2) by (simp_all add: buf_upd_if)
  then show ?thesis using assms(1) fseg_cong[of xs ?t s] bseg_cong[of "rev xs" ?t s]
    unfolding Lru_ok_def by simp
qed

text \<open>After the first read and release: the recycled node is first, and it is still the tail.\<close>

definition tail_stale :: "nat \<Rightarrow> nat \<Rightarrow> nat \<Rightarrow> Lru \<Rightarrow> bool" where
  "tail_stale k dev blockno s \<longleftrightarrow> length (lru_bufs s) = Suc k \<and> fseg s (lru_head s) (k # [0..<k]) None \<and> lru_tail s = Some k \<and>
     m_prev (buf s k) = None \<and> b_rc (buf s k) > 0 \<and> b_refs (buf s k) = 1 \<and> \<not> sl_locked (b_lock (buf s k)) \<and>
     hit dev blockno (buf s k) \<and> (\<forall>x<k. m_dev (buf s x) = 0)"

lemma find_last: "P k \<Longrightarrow> List.find P (rev [0..<Suc k]) = Some k"
  by simp

lemma fresh_find:
  assumes "Lru_fresh n s" and "dev \<noteq> 0"
  shows "fwd_find (hit dev blockno) s (lru_head s) = Some None"
proof -
  have "\<not> hit dev blockno (buf s i)" if "i \<in> set [0..<n]" for i
    using assms that by (simp add: Lru_fresh_def unused_def hit_def)
  then have "List.find (\<lambda>i. hit dev blockno (buf s i)) [0..<n] = None" by (simp only: find_None_iff) blast
  then show ?thesis using fwd_find_seg[of s "lru_head s" "[0..<n]" "hit dev blockno"] assms(1) by (simp add: Lru_fresh_def Lru_ok_def)
qed

lemma fresh_rev_find:
  assumes "Lru_fresh (Suc k) s"
  shows "rev_find (\<lambda>b. b_refs b = 1) s (Option.bind (lru_tail s) (upgrade s)) = Some (Some k)"
proof -
  have "bseg s (lru_tail s) (rev [0..<Suc k]) None" "b_refs (buf s k) = 1"
    using assms unfolding Lru_fresh_def Lru_ok_def unused_def by blast+
  moreover have "b_rc (buf s x) > 0" if "x \<in> set (rev [0..<Suc k])" for x
    using assms that unfolding Lru_fresh_def Lru_ok_def set_rev by blast
  ultimately show ?thesis using rev_find_seg[of s "lru_tail s" "rev [0..<Suc k]" "\<lambda>b. b_refs b = 1"] by (simp add: find_last)
qed

lemma first_read:
  assumes f: "Lru_fresh (Suc k) s" and k: "0 < k" and dev: "dev \<noteq> 0"
    and r: "BCache_read rw pid dev blockno (s, d) = Some (Inr (i, s1, d1))" and drop: "BufGuard_drop pid i s1 = Inr s2"
  shows "tail_stale k dev blockno s2"
proof -
  have l: "length (lru_bufs s) = Suc k" using f by (simp add: Lru_fresh_def)
  from read_release[OF r drop] fresh_find[OF f dev] fresh_rev_find[OF f]
  obtain lk dat where i: "i = k" and lk: "\<not> sl_locked lk" and rel: "Lru_relse k (upd_buf k (with_guard lk dat 0 dev blockno) s) = Inr s2"
    using l by auto
  let ?t = "upd_buf k (with_guard lk dat 0 dev blockno) s"
  have ok: "Lru_ok ?t ([0..<k] @ k # [])" using Lru_ok_guard[of s "[0..<Suc k]" k] f l by (simp add: Lru_fresh_def)
  have t: "b_refs (buf ?t k) = 1" "b_rc (buf ?t k) > 1" using f l by (simp_all add: Lru_fresh_def unused_def)
  obtain s' where s': "Lru_relse k ?t = Inr s'" "length (lru_bufs s') = length (lru_bufs ?t)" "lru_tail s' = lru_tail ?t"
    "fseg s' (lru_head s') (k # [0..<k] @ []) None" "\<And>x. x < length (lru_bufs ?t) \<Longrightarrow> b_rc (buf s' x) > 0"
    "\<And>x. same_entry (buf s' x) (buf ?t x)" "m_prev (buf s' k) = None"
    using Lru_relse_ok[OF ok _ t] k by force
  have e: "b_refs (buf s' k) = 1" "b_lock (buf s' k) = lk" "hit dev blockno (buf s' k)"
    using s'(6)[of k] t l by (simp_all add: same_entry_def hit_def)
  have "m_dev (buf s' x) = 0" if "x < k" for x
    using s'(6)[of x] that f by (simp add: same_entry_def Lru_fresh_def unused_def)
  moreover have "lru_tail s = Some k" using Lru_ok_split(3)[OF ok] by simp
  ultimately show ?thesis using s' e lk rel l unfolding tail_stale_def by simp
qed

lemma second_read:
  assumes st: "tail_stale k dev b1 s" and dev: "dev \<noteq> 0"
    and r: "BCache_read rw pid dev blockno (s, d) = Some (Inr (i, s1, d1))" and drop: "BufGuard_drop pid i s1 = Inr s2"
  shows "lru_head s2 = Some k \<and> m_next (buf s2 k) = Some k \<and> hit dev blockno (buf s2 k)"
proof -
  note st' = st[unfolded tail_stale_def]
  have fw: "fwd_find (hit dev blockno) s (lru_head s) = Some (if blockno = b1 then Some k else None)"
    using fwd_find_seg[of s "lru_head s" "k # [0..<k]" "hit dev blockno"] st' dev
    by (auto simp: hit_def find_None_iff)
  have rv: "rev_find (\<lambda>b. b_refs b = 1) s (Option.bind (lru_tail s) (upgrade s)) = Some (Some k)"
    using st' by (simp add: upgrade_def rev_find.simps)
  have "hit dev blockno (buf s j)" if "fwd_find (hit dev blockno) s (lru_head s) = Some (Some j)" for j
    using that st' by (auto simp: fw split: if_splits)
  from read_release[OF r drop this] fw rv
  obtain lk dat where rel: "Lru_relse k (upd_buf k (with_guard lk dat 0 dev blockno) s) = Inr s2"
    using st' by (auto split: if_splits)
  let ?t = "upd_buf k (with_guard lk dat 0 dev blockno) s"
  obtain s' where "Lru_relse k ?t = Inr s'" "lru_head s' = Some k" "m_next (buf s' k) = Some k" "same_entry (buf s' k) (buf ?t k)"
    by (rule Lru_relse_head[of ?t k]) (use st' in simp_all)
  then show ?thesis using rel st' by (simp add: same_entry_def hit_def)
qed

section \<open>The value of \<^verbatim>\<open>get\<close>\<close>

text \<open>The guard of node \<open>i\<close> for a block, whose data are those of the block already or are still to be read.\<close>

definition guard_of :: "nat \<Rightarrow> nat \<Rightarrow> nat \<Rightarrow> bool \<Rightarrow> nat \<Rightarrow> Lru \<Rightarrow> (nat \<times> Lru) rust" where
  "guard_of pid dev blockno recycled i s =
     (if sl_locked (b_lock (buf s i)) then Inl (Panic ''sched multiple locks'')
      else Inr (i, upd_buf i (with_guard ((b_lock (buf s i))\<lparr>sl_locked := True, sl_pid := pid\<rparr>)
        (if recycled then (b_data (buf s i))\<lparr>d_blockno := blockno, d_dev := dev, d_valid := False\<rparr> else b_data (buf s i)) 1 dev blockno) s))"

lemma hit_fun: "(\<lambda>b. m_dev b = dev \<and> m_blockno b = blockno) = hit dev blockno"
  by (simp add: fun_eq_iff hit_def)

lemma Lru_get_hit:
  assumes "fwd_find (hit dev blockno) s (lru_head s) = Some (Some i)" and "hit dev blockno (buf s i)"
  shows "Lru_get pid dev blockno s = Some (guard_of pid dev blockno False i s)"
proof -
  have "guard_refs i (upd_buf i (\<lambda>b. b\<lparr>b_lock := lk\<rparr>) s) = upd_buf i (with_guard lk (b_data (buf s i)) 1 dev blockno) s" for lk
    unfolding guard_refs_def upd_buf_upd by (rule upd_buf_eq) (use assms(2) in \<open>auto simp: with_guard_def hit_def\<close>)
  then show ?thesis unfolding Lru_get_def hit_fun using assms(1)
    by (simp add: lock_buf_def SleepLock_lock_def guard_of_def)
qed

lemma Lru_get_recycle:
  assumes "fwd_find (hit dev blockno) s (lru_head s) = Some None" and i: "i < length (lru_bufs s)"
    and "rev_find (\<lambda>b. b_refs b = 1) s (Option.bind (lru_tail s) (upgrade s)) = Some (Some i)"
  shows "Lru_get pid dev blockno s = Some (guard_of pid dev blockno True i s)"
proof -
  have "guard_refs i (upd_buf i (\<lambda>b. b\<lparr>b_data := (b_data b)\<lparr>d_blockno := blockno, d_dev := dev, d_valid := False\<rparr>\<rparr>)
      (upd_buf i (\<lambda>b. b\<lparr>b_lock := lk\<rparr>) (upd_buf i (\<lambda>b. b\<lparr>m_dev := dev, m_blockno := blockno\<rparr>) s))) =
    upd_buf i (with_guard lk ((b_data (buf s i))\<lparr>d_blockno := blockno, d_dev := dev, d_valid := False\<rparr>) 1 dev blockno) s" for lk
    unfolding guard_refs_def upd_buf_upd by (rule upd_buf_eq) (simp add: with_guard_def)
  then show ?thesis unfolding Lru_get_def hit_fun using assms
    by (simp add: lock_buf_def SleepLock_lock_def guard_of_def Let_def)
qed

section \<open>Properties\<close>

text \<open>
  (C38) On a well-formed list the search for a buffer always returns, and returns what the cache
  promises: the first buffer of the block when it is cached, otherwise the least recently used
  buffer that nobody refers to, marked as not read; it panics when every buffer is in use, and
  when the buffer it picks is locked by another process.
\<close>

theorem Lru_get_returns:
  assumes "Lru_ok s xs"
  shows "Lru_get pid dev blockno s = Some
    (case List.find (\<lambda>i. m_dev (buf s i) = dev \<and> m_blockno (buf s i) = blockno) xs of
       Some i \<Rightarrow> guard_of pid dev blockno False i s
     | None \<Rightarrow>
         (case List.find (\<lambda>i. b_refs (buf s i) = 1) (rev xs) of
            Some i \<Rightarrow> guard_of pid dev blockno True i s
          | None \<Rightarrow> Inl (Panic ''no buffers'')))"
proof -
  have ok: "fseg s (lru_head s) xs None" "bseg s (lru_tail s) (rev xs) None" "set xs = {..<length (lru_bufs s)}"
    and rc: "\<And>x. x \<in> set (rev xs) \<Longrightarrow> b_rc (buf s x) > 0"
    using assms by (auto simp: Lru_ok_def)
  note fw = fwd_find_seg[OF ok(1), of "hit dev blockno"] and rv = rev_find_seg[OF ok(2) rc, of "\<lambda>b. b_refs b = 1"]
  show ?thesis
  proof (cases "List.find (\<lambda>i. hit dev blockno (buf s i)) xs")
    case (Some i)
    then have "hit dev blockno (buf s i)" by (auto simp: find_Some_iff)
    from Lru_get_hit[OF _ this] fw Some show ?thesis by (simp add: hit_def)
  next
    case None
    show ?thesis
    proof (cases "List.find (\<lambda>i. b_refs (buf s i) = 1) (rev xs)")
      case (Some i)
      then have "i \<in> set (rev xs)" by (metis find_Some_iff nth_mem)
      then have "i < length (lru_bufs s)" using ok(3) by auto
      from Lru_get_recycle[OF _ this] fw None rv Some show ?thesis by (simp add: hit_def)
    next
      case none: None
      then have "rev_find (\<lambda>b. b_refs b = 1) s (Option.bind (lru_tail s) (upgrade s)) = Some None" using rv by simp
      then have "Lru_get pid dev blockno s = Some (Inl (Panic ''no buffers''))"
        unfolding Lru_get_def hit_fun using fw None by simp
      then show ?thesis using None none by (simp add: hit_def)
    qed
  qed
qed

theorem Lru_get_returns_witness:
  "\<exists>s. bio_init = Inr s \<and> Lru_get 7 1 42 s \<noteq> None"
proof -
  obtain s where s: "bio_init = Inr s" "Lru_fresh NBUF s" using bio_init_fresh by blast
  then have "Lru_ok s [0..<NBUF]" by (simp add: Lru_fresh_def)
  from Lru_get_returns[OF this, of 7 1 42] have "Lru_get 7 1 42 s \<noteq> None" by simp
  then show ?thesis using s(1) by blast
qed

text \<open>
  Releasing the last reference to a buffer that is neither the first nor the last of the
  list moves it to the front: the list stays well-formed, the order of the others and the content
  of every entry stay the same.
\<close>

theorem Lru_relse_moves_to_front:
  assumes "Lru_ok s (ys @ i # zs)" and "ys \<noteq> []" and "zs \<noteq> []" and "b_refs (buf s i) = 1" and "b_rc (buf s i) > 1"
  shows "\<exists>s'. Lru_relse i s = Inr s' \<and> Lru_ok s' (i # ys @ zs) \<and> (\<forall>x. same_entry (buf s' x) (buf s x))"
proof -
  obtain s' where s': "Lru_relse i s = Inr s'" "length (lru_bufs s') = length (lru_bufs s)" "lru_tail s' = lru_tail s"
    "fseg s' (lru_head s') (i # ys @ zs) None" "bseg s' (if zs = [] then Some (last ys) else lru_tail s) (rev (i # ys @ zs)) None"
    "\<And>x. x < length (lru_bufs s) \<Longrightarrow> b_rc (buf s' x) > 0" "\<And>x. same_entry (buf s' x) (buf s x)" "m_prev (buf s' i) = None"
    by (rule Lru_relse_ok[OF assms(1,2,4,5)]) blast
  have "distinct (i # ys @ zs)" "set (i # ys @ zs) = {..<length (lru_bufs s)}"
    using Lru_ok_split(5,6)[OF assms(1)] by auto
  then have "Lru_ok s' (i # ys @ zs)" using s' assms(3) unfolding Lru_ok_def by simp
  then show ?thesis using s'(1,7) by blast
qed

theorem Lru_relse_moves_to_front_witness:
  "\<exists>s s'. Lru_relse 1 s = Inr s' \<and> Lru_ok s' (1 # [0] @ [2..<NBUF])"
proof -
  obtain s where s: "Lru_fresh NBUF s" using bio_init_fresh by blast
  then have l: "length (lru_bufs s) = NBUF" "unused (buf s 1)" by (simp_all add: Lru_fresh_def NBUF_def)
  let ?t = "upd_buf 1 (with_guard SleepLock_new Data_new 0 1 42) s"
  have "[0..<NBUF] = [0] @ 1 # [2..<NBUF]" by (simp add: NBUF_def upt_conv_Cons)
  then have ok: "Lru_ok ?t ([0] @ 1 # [2..<NBUF])"
    using Lru_ok_guard[of s "[0..<NBUF]" 1] s l by (simp add: Lru_fresh_def NBUF_def)
  have t: "b_refs (buf ?t 1) = 1" "b_rc (buf ?t 1) > 1" "[2..<NBUF] \<noteq> []" "[0::nat] \<noteq> []"
    using l by (simp_all add: unused_def NBUF_def)
  from Lru_relse_moves_to_front[OF ok t(4,3,1,2)] show ?thesis by blast
qed

text \<open>
  (C39) After \<^verbatim>\<open>init\<close>, once two blocks have been read and released, the next read of any block but
  the second does not return: releasing the only buffer that a search from the tail still sees,
  which is also the first of the list, links it to itself.
\<close>

theorem third_read_hangs:
  assumes "bio_init = Inr s0" and "dev \<noteq> 0"
    and "BCache_read rw p1 dev b1 (s0, d0) = Some (Inr (i1, s1, d1))" and "BufGuard_drop p1 i1 s1 = Inr s2"
    and "BCache_read rw p2 dev b2 (s2, d1) = Some (Inr (i2, s3, d2))" and "BufGuard_drop p2 i2 s3 = Inr s4"
    and "b3 \<noteq> b2"
  shows "BCache_read rw p3 dev b3 (s4, d2) = None"
proof -
  have "Lru_fresh NBUF s0" using bio_init_fresh unfolding assms(1) by blast
  then have "Lru_fresh (Suc 29) s0" by (simp add: NBUF_def)
  from first_read[OF this _ assms(2-4)] have "tail_stale 29 dev b1 s2" by simp
  from second_read[OF this assms(2,5,6)]
  have s4: "lru_head s4 = Some 29" "m_next (buf s4 29) = Some 29" "hit dev b2 (buf s4 29)" by simp_all
  then have "\<not> hit dev b3 (buf s4 29)" using assms(7) by (simp add: hit_def)
  from fwd_find_self_loop[where Q = "hit dev b3", OF s4(2) this] have "Lru_get p3 dev b3 s4 = None"
    unfolding Lru_get_def hit_fun s4(1) by simp
  then show ?thesis by (simp add: BCache_read_def)
qed

text \<open>With a driver that answers at once both reads and both releases return.\<close>

lemma read_drop_returns:
  assumes get: "Lru_get pid dev blockno s = Some (guard_of pid dev blockno recycled i s)" and i: "i < length (lru_bufs s)"
    and free: "\<not> sl_locked (b_lock (buf s i))"
    and rel: "\<And>lk dat. \<exists>s2. Lru_relse i (upd_buf i (with_guard lk dat 0 dev blockno) s) = Inr s2"
  shows "\<exists>s1 s2. BCache_read (\<lambda>w dat d. Inr (dat, d)) pid dev blockno (s, ()) = Some (Inr (i, s1, ())) \<and> BufGuard_drop pid i s1 = Inr s2"
proof -
  let ?lk = "(b_lock (buf s i))\<lparr>sl_locked := True, sl_pid := pid\<rparr>"
  obtain dat where "Lru_get pid dev blockno s = Some (Inr (i, upd_buf i (with_guard ?lk dat 1 dev blockno) s))"
    using get free by (simp add: guard_of_def)
  then have "\<exists>dat. BCache_read (\<lambda>w dat d. Inr (dat, d)) pid dev blockno (s, ()) = Some (Inr (i, upd_buf i (with_guard ?lk dat 1 dev blockno) s, ()))"
    using i upd_buf_eq[of "\<lambda>b. (with_guard ?lk dat 1 dev blockno b)\<lparr>b_data := dat\<lparr>d_valid := True\<rparr>\<rparr>" s i
        "with_guard ?lk (dat\<lparr>d_valid := True\<rparr>) 1 dev blockno"]
    by (cases "d_valid dat") (auto simp: BCache_read_def upd_buf_upd with_guard_def)
  then obtain dat where r: "BCache_read (\<lambda>w dat d. Inr (dat, d)) pid dev blockno (s, ()) = Some (Inr (i, upd_buf i (with_guard ?lk dat 1 dev blockno) s, ()))"
    by blast
  let ?s1 = "upd_buf i (with_guard ?lk dat 1 dev blockno) s"
  have "upd_buf i (\<lambda>b. b\<lparr>b_lock := SleepLockGuard_release (b_lock b), b_refs := b_refs b - 1\<rparr>) ?s1 =
      upd_buf i (with_guard (SleepLockGuard_release ?lk) dat 0 dev blockno) s"
    unfolding upd_buf_upd by (rule upd_buf_eq) (simp add: with_guard_def)
  then have "BufGuard_drop pid i ?s1 = Lru_relse i (upd_buf i (with_guard (SleepLockGuard_release ?lk) dat 0 dev blockno) s)"
    using i by (simp add: BufGuard_drop_def BufGuard_holding_def SleepLock_holding_def SleepLockGuard_check_def rassert_def)
  then show ?thesis using r rel[of "SleepLockGuard_release ?lk" dat] by auto
qed

lemma first_read_returns:
  assumes f: "Lru_fresh (Suc k) s" and k: "0 < k" and dev: "dev \<noteq> 0"
  shows "\<exists>s1 s2. BCache_read (\<lambda>w dat d. Inr (dat, d)) pid dev blockno (s, ()) = Some (Inr (k, s1, ())) \<and> BufGuard_drop pid k s1 = Inr s2"
proof (rule read_drop_returns[OF Lru_get_recycle[OF fresh_find[OF f dev] _ fresh_rev_find[OF f]]])
  show l: "k < length (lru_bufs s)" "k < length (lru_bufs s)" "\<not> sl_locked (b_lock (buf s k))"
    using f by (simp_all add: Lru_fresh_def unused_def)
  fix lk dat
  let ?t = "upd_buf k (with_guard lk dat 0 dev blockno) s"
  have ok: "Lru_ok ?t ([0..<k] @ k # [])" using Lru_ok_guard[of s "[0..<Suc k]" k] f l by (simp add: Lru_fresh_def)
  have t: "b_refs (buf ?t k) = 1" "b_rc (buf ?t k) > 1" "[0..<k] \<noteq> []" using f l k by (simp_all add: Lru_fresh_def unused_def)
  show "\<exists>s2. Lru_relse k ?t = Inr s2" by (rule Lru_relse_ok[OF ok t(3,1,2)]) blast
qed

lemma second_read_returns:
  assumes st: "tail_stale k dev b1 s" and dev: "dev \<noteq> 0" "blockno \<noteq> b1"
  shows "\<exists>s1 s2. BCache_read (\<lambda>w dat d. Inr (dat, d)) pid dev blockno (s, ()) = Some (Inr (k, s1, ())) \<and> BufGuard_drop pid k s1 = Inr s2"
proof (rule read_drop_returns[OF Lru_get_recycle])
  note st' = st[unfolded tail_stale_def]
  show "fwd_find (hit dev blockno) s (lru_head s) = Some None"
    using fwd_find_seg[of s "lru_head s" "k # [0..<k]" "hit dev blockno"] st' dev by (auto simp: hit_def find_None_iff)
  show "rev_find (\<lambda>b. b_refs b = 1) s (Option.bind (lru_tail s) (upgrade s)) = Some (Some k)"
    using st' by (simp add: upgrade_def rev_find.simps)
  show "k < length (lru_bufs s)" "k < length (lru_bufs s)" "\<not> sl_locked (b_lock (buf s k))" using st' by simp_all
  fix lk dat
  show "\<exists>s2. Lru_relse k (upd_buf k (with_guard lk dat 0 dev blockno) s) = Inr s2"
    by (rule Lru_relse_head[of "upd_buf k (with_guard lk dat 0 dev blockno) s" k]) (use st' in auto)
qed

theorem third_read_hangs_witness:
  "\<exists>s4. BCache_read (\<lambda>w dat d. Inr (dat, d)) 7 1 3 (s4, ()) = None"
proof -
  obtain s0 where s0: "bio_init = Inr s0" "Lru_fresh (Suc 29) s0" using bio_init_fresh by (auto simp: NBUF_def)
  obtain s1 s2 where r1: "BCache_read (\<lambda>w dat d. Inr (dat, d)) 7 1 1 (s0, ()) = Some (Inr (29, s1, ()))" "BufGuard_drop 7 29 s1 = Inr s2"
    using first_read_returns[OF s0(2), of 1 7 1] by auto
  from first_read[OF s0(2) _ _ r1] have "tail_stale 29 1 1 s2" by simp
  from second_read_returns[OF this, of 2 7]
  obtain s3 s4 where r2: "BCache_read (\<lambda>w dat d. Inr (dat, d)) 7 1 2 (s2, ()) = Some (Inr (29, s3, ()))" "BufGuard_drop 7 29 s3 = Inr s4"
    by auto
  have "(1::nat) \<noteq> 0" "(3::nat) \<noteq> 2" by simp_all
  from third_read_hangs[OF s0(1) this(1) r1 r2 this(2)] show ?thesis by blast
qed

text \<open>
  Writing a buffer to disk panics for the process that has it locked: \<^verbatim>\<open>BufGuard::write\<close>
  refuses a guard that is held, and a guard that was obtained from the cache is.
\<close>

theorem BufGuard_write_panics:
  assumes "Lru_ok s xs" and "Lru_get pid dev blockno s = Some (Inr (i, s1))"
  shows "BufGuard_write rw pid i (s1, d) = Inl (Panic ''bwrite'')"
proof -
  note ok = assms(1)[unfolded Lru_ok_def]
  have fw: "fwd_find (hit dev blockno) s (lru_head s) = Some (List.find (\<lambda>i. hit dev blockno (buf s i)) xs)"
    and rv: "rev_find (\<lambda>b. b_refs b = 1) s (Option.bind (lru_tail s) (upgrade s)) = Some (List.find (\<lambda>i. b_refs (buf s i) = 1) (rev xs))"
    using ok by (blast intro: fwd_find_seg, intro rev_find_seg) (simp_all)
  have mem: "x \<in> set ys" if "List.find P ys = Some x" for P and x :: nat and ys using that by (metis find_Some_iff nth_mem)
  have "hit dev blockno (buf s j)" if "fwd_find (hit dev blockno) s (lru_head s) = Some (Some j)" for j
    using that fw by (auto simp: find_Some_iff)
  from Lru_get_result[OF assms(2) this] obtain lk dat where lk: "SleepLock_holding pid lk" "s1 = upd_buf i (with_guard lk dat 1 dev blockno) s"
    and "fwd_find (hit dev blockno) s (lru_head s) = Some (Some i) \<or>
      rev_find (\<lambda>b. b_refs b = 1) s (Option.bind (lru_tail s) (upgrade s)) = Some (Some i)" by blast
  then have "i \<in> set xs" using fw rv mem by (metis option.inject set_rev)
  then have "i < length (lru_bufs s)" using ok by auto
  then show ?thesis using lk by (simp add: BufGuard_write_def BufGuard_holding_def)
qed

theorem BufGuard_write_panics_witness:
  "\<exists>i s1. BufGuard_write (\<lambda>w dat d. Inr (dat, d)) 7 i (s1, ()) = Inl (Panic ''bwrite'')"
proof -
  obtain s where s: "Lru_fresh (Suc 29) s" using bio_init_fresh by (auto simp: NBUF_def)
  have "29 < length (lru_bufs s)" "\<not> sl_locked (b_lock (buf s 29))" using s by (simp_all add: Lru_fresh_def unused_def)
  then obtain s1 where g: "Lru_get 7 1 42 s = Some (Inr (29, s1))"
    using Lru_get_recycle[OF fresh_find[OF s] _ fresh_rev_find[OF s], of 1 7 42] by (auto simp: guard_of_def)
  have "Lru_ok s [0..<Suc 29]" using s unfolding Lru_fresh_def by blast
  from BufGuard_write_panics[OF this g] show ?thesis by (intro exI)
qed

end
