(* ===== verification/Log.thy ===== *)
theory Log
  imports Bio
begin

text \<open>
  \<^verbatim>\<open>src/kernel/log.rs\<close>: the redo log. The part that counts the operations of a transaction works on
  the record of the log only. The part that moves blocks works on a store of blocks: the disk, as
  its first content and the writes to it in their order, and the buffers that were read or
  modified, which stay in the cache. That the buffers are aligned for the header is taken for
  granted, and that every read of a block returns.
\<close>

section \<open>State\<close>

definition MAXOPBLOCKS :: nat where "MAXOPBLOCKS = 10"

definition LOGSIZE :: nat where "LOGSIZE = MAXOPBLOCKS * 3"

record LogHeader =
  lh_n :: nat
  lh_block :: "nat list"

record Log =
  log_start :: nat
  log_size :: nat
  log_dev :: nat
  log_outstanding :: nat
  log_committing :: bool
  log_lh :: LogHeader

text \<open>Checked arithmetic on \<^verbatim>\<open>u32\<close>.\<close>

definition u32_add :: "nat \<Rightarrow> nat \<Rightarrow> nat rust" where
  "u32_add a b = (if a + b < 2 ^ 32 then Inr (a + b) else Inl Overflow)"

section \<open>The header on disk\<close>

definition le32 :: "nat \<Rightarrow> u8 list" where
  "le32 x = map (\<lambda>i. of_nat (x div 256 ^ i)) [0..<4]"

definition of_le32 :: "u8 list \<Rightarrow> nat" where
  "of_le32 bs = (\<Sum>i<4. unat (bs ! i) * 256 ^ i)"

definition LogHeader_bytes :: "LogHeader \<Rightarrow> u8 list" where
  "LogHeader_bytes lh = le32 (lh_n lh) @ concat (map le32 (lh_block lh))"

definition LogHeader_read :: "u8 list \<Rightarrow> LogHeader" where
  "LogHeader_read bs = \<lparr>lh_n = of_le32 bs, lh_block = map (\<lambda>i. of_le32 (drop (4 * Suc i) bs)) [0..<LOGSIZE]\<rparr>"

section \<open>The store of blocks\<close>

type_synonym disk = "nat \<Rightarrow> u8 list"

record bstore =
  bs_base :: disk
  bs_writes :: "(nat \<times> u8 list) list"
  bs_cache :: "nat \<Rightarrow> u8 list option"

fun apply_writes :: "(nat \<times> u8 list) list \<Rightarrow> disk \<Rightarrow> disk" where
  "apply_writes [] d = d"
| "apply_writes ((b, x) # ws) d = apply_writes ws (d(b := x))"

definition bs_disk :: "bstore \<Rightarrow> disk" where
  "bs_disk st = apply_writes (bs_writes st) (bs_base st)"

definition bread :: "nat \<Rightarrow> bstore \<Rightarrow> u8 list" where
  "bread b st = (case bs_cache st b of Some x \<Rightarrow> x | None \<Rightarrow> bs_disk st b)"

definition bmodify :: "nat \<Rightarrow> u8 list \<Rightarrow> bstore \<Rightarrow> bstore" where
  "bmodify b x st = st\<lparr>bs_cache := (bs_cache st)(b \<mapsto> x)\<rparr>"

definition disk_write :: "nat \<Rightarrow> bstore \<Rightarrow> bstore" where
  "disk_write b st = st\<lparr>bs_writes := bs_writes st @ [(b, bread b st)]\<rparr>"

text \<open>
  \<^verbatim>\<open>BufGuard::write\<close>, where \<open>held\<close> is the answer of \<^verbatim>\<open>holding()\<close>. The functions below have it as an
  argument: a guard that comes from \<^verbatim>\<open>BCACHE.read\<close> is held by the process that has it
  (\<^verbatim>\<open>BufGuard_write_panics\<close> of \<^verbatim>\<open>BioProofs\<close>), so the kernel runs them with \<^term>\<open>True\<close>. With
  \<^term>\<open>False\<close> they are the protocol as it would run if the test were the other way round.
\<close>

definition bwrite :: "bool \<Rightarrow> nat \<Rightarrow> bstore \<Rightarrow> bstore rust" where
  "bwrite held b st = (if held then Inl (Panic ''bwrite'') else Inr (disk_write b st))"

text \<open>The store after a crash that lets the first \<open>k\<close> writes reach the disk.\<close>

definition crash :: "nat \<Rightarrow> bstore \<Rightarrow> bstore" where
  "crash k st = \<lparr>bs_base = apply_writes (take k (bs_writes st)) (bs_base st), bs_writes = [], bs_cache = (\<lambda>_. None)\<rparr>"

section \<open>Commit and recovery\<close>

definition read_head :: "Log \<Rightarrow> bstore \<Rightarrow> Log" where
  "read_head log st = log\<lparr>log_lh := LogHeader_read (bread (log_start log) st)\<rparr>"

definition write_head :: "bool \<Rightarrow> Log \<Rightarrow> bstore \<Rightarrow> bstore rust" where
  "write_head held log st =
     (let b = log_start log
      in bwrite held b (bmodify b (LogHeader_bytes (log_lh log) @ drop (4 + 4 * LOGSIZE) (bread b st)) st))"

text \<open>The loops over \<^verbatim>\<open>0..lh.n\<close>, from \<open>tail\<close> on with \<open>k\<close> turns to go.\<close>

fun install_from :: "bool \<Rightarrow> nat \<Rightarrow> nat \<Rightarrow> Log \<Rightarrow> bstore \<Rightarrow> bstore rust" where
  "install_from held tail 0 log st = Inr st"
| "install_from held tail (Suc k) log st =
     rbind (u32_add (log_start log) tail) (\<lambda>a.
     rbind (u32_add a 1) (\<lambda>l.
     rbind (index (lh_block (log_lh log)) tail) (\<lambda>dst.
     rbind (bwrite held dst (bmodify dst (bread l st) st)) (install_from held (Suc tail) k log))))"

definition install_trans :: "bool \<Rightarrow> Log \<Rightarrow> bstore \<Rightarrow> bstore rust" where
  "install_trans held log st = install_from held 0 (lh_n (log_lh log)) log st"

fun write_log_from :: "bool \<Rightarrow> nat \<Rightarrow> nat \<Rightarrow> Log \<Rightarrow> bstore \<Rightarrow> bstore rust" where
  "write_log_from held tail 0 log st = Inr st"
| "write_log_from held tail (Suc k) log st =
     rbind (u32_add (log_start log) tail) (\<lambda>a.
     rbind (u32_add a 1) (\<lambda>l.
     rbind (index (lh_block (log_lh log)) tail) (\<lambda>src.
     rbind (bwrite held l (bmodify l (bread src st) st)) (write_log_from held (Suc tail) k log))))"

definition write_log :: "bool \<Rightarrow> Log \<Rightarrow> bstore \<Rightarrow> bstore rust" where
  "write_log held log st = write_log_from held 0 (lh_n (log_lh log)) log st"

definition clear_lh :: "Log \<Rightarrow> Log" where
  "clear_lh log = log\<lparr>log_lh := (log_lh log)\<lparr>lh_n := 0\<rparr>\<rparr>"

definition commit :: "bool \<Rightarrow> Log \<Rightarrow> bstore \<Rightarrow> (Log \<times> bstore) rust" where
  "commit held log st =
     (if lh_n (log_lh log) > 0 then
        rbind (write_log held log st) (\<lambda>st1.
        rbind (write_head held log st1) (\<lambda>st2.
        rbind (install_trans held log st2) (\<lambda>st3.
        rbind (write_head held (clear_lh log) st3) (\<lambda>st4. Inr (clear_lh log, st4)))))
      else Inr (log, st))"

definition recover :: "bool \<Rightarrow> Log \<Rightarrow> bstore \<Rightarrow> (Log \<times> bstore) rust" where
  "recover held log st =
     (let log1 = read_head log st
      in rbind (install_trans held log1 st) (\<lambda>st1.
         rbind (write_head held (clear_lh log1) st1) (\<lambda>st2. Inr (clear_lh log1, st2))))"

definition Log_new :: "nat \<Rightarrow> nat \<Rightarrow> nat \<Rightarrow> bstore \<Rightarrow> (Log \<times> bstore) rust" where
  "Log_new lstart nlog dev st =
     recover True \<lparr>log_start = lstart, log_size = nlog, log_dev = dev, log_outstanding = 0, log_committing = False,
       log_lh = \<lparr>lh_n = 0, lh_block = replicate LOGSIZE 0\<rparr>\<rparr> st"

section \<open>Operations of a transaction\<close>

definition Log_init :: "nat \<Rightarrow> unit rust" where
  "Log_init header_size = rassert (header_size \<ge> BSIZE) ''initlog: too big log header''"

text \<open>One turn of \<^verbatim>\<open>begin_op\<close>: \<^term>\<open>None\<close> when the process has to sleep.\<close>

definition begin_op :: "Log \<Rightarrow> Log option rust" where
  "begin_op log =
     (if log_committing log then Inr None
      else rbind (u32_add (log_outstanding log) 1) (\<lambda>out.
           if lh_n (log_lh log) + out * MAXOPBLOCKS > LOGSIZE then Inr None
           else Inr (Some (log\<lparr>log_outstanding := out\<rparr>))))"

text \<open>The two critical sections of \<^verbatim>\<open>end_op\<close>; the first says whether this operation commits.\<close>

definition end_op_first :: "Log \<Rightarrow> (bool \<times> Log) rust" where
  "end_op_first log =
     rbind (usub (log_outstanding log) 1) (\<lambda>out.
     let log1 = log\<lparr>log_outstanding := out\<rparr>
     in if log_committing log1 then Inl (Panic ''log.commiting'')
        else if log_outstanding log1 = 0 then Inr (True, log1\<lparr>log_committing := True\<rparr>)
        else Inr (False, log1))"

definition end_op_last :: "Log \<Rightarrow> Log" where
  "end_op_last log = log\<lparr>log_committing := False\<rparr>"

text \<open>\<^verbatim>\<open>write\<close>: whether the buffer is pinned, and the log.\<close>

definition Log_write :: "nat \<Rightarrow> Log \<Rightarrow> (bool \<times> Log) rust" where
  "Log_write blockno log =
     (let n = lh_n (log_lh log)
      in rbind (if n \<ge> LOGSIZE then Inr True else rbind (usub (log_size log) 1) (\<lambda>z. Inr (n \<ge> z))) (\<lambda>big.
         if big then Inl (Panic ''too big a transaction'')
         else if log_outstanding log < 1 then Inl (Panic ''LOG.write outside of trans'')
         else if blockno \<in> set (take n (lh_block (log_lh log))) then Inr (False, log)
         else rbind (index_set (lh_block (log_lh log)) n blockno) (\<lambda>bl.
              Inr (True, log\<lparr>log_lh := \<lparr>lh_n = n + 1, lh_block = bl\<rparr>\<rparr>))))"

end
