(* ===== verification/LogProofs.thy ===== *)
theory LogProofs
  imports Log
begin

text \<open>
  The log: the space that operations reserve, the panic of every commit, and that the protocol
  itself is right: with writes that do not panic, a crash at any write of a commit would leave, after
  recovery, either none or all of the transaction.
\<close>

section \<open>Reservation\<close>

text \<open>
  Operations in progress, each with the number of blocks it may still write. A write of a block
  that the log has already costs nothing.
\<close>

inductive log_step :: "Log \<times> (nat \<Rightarrow> nat option) \<Rightarrow> Log \<times> (nat \<Rightarrow> nat option) \<Rightarrow> bool" where
  enter: "ops t = None \<Longrightarrow> begin_op log = Inr (Some log') \<Longrightarrow> log_step (log, ops) (log', ops(t \<mapsto> MAXOPBLOCKS))"
| log: "ops t = Some (Suc k) \<Longrightarrow> Log_write b log = Inr (True, log') \<Longrightarrow> log_step (log, ops) (log', ops(t \<mapsto> k))"
| absorb: "ops t = Some k \<Longrightarrow> Log_write b log = Inr (False, log') \<Longrightarrow> log_step (log, ops) (log', ops)"
| end_more: "ops t = Some k \<Longrightarrow> end_op_first log = Inr (False, log') \<Longrightarrow> log_step (log, ops) (log', ops(t := None))"
| end_last: "ops t = Some k \<Longrightarrow> end_op_first log = Inr (True, log') \<Longrightarrow> log_step (log, ops) (log', ops(t := None))"
| committed: "log_committing log \<Longrightarrow> commit True log st = Inr (log', st') \<Longrightarrow> log_step (log, ops) (end_op_last log', ops)"

definition reserved :: "(nat \<Rightarrow> nat option) \<Rightarrow> nat" where
  "reserved ops = (\<Sum>t\<in>dom ops. the (ops t))"

definition log_inv :: "nat \<Rightarrow> Log \<times> (nat \<Rightarrow> nat option) \<Rightarrow> bool" where
  "log_inv z = (\<lambda>(log, ops). log_size log = z \<and> length (lh_block (log_lh log)) = LOGSIZE \<and>
     finite (dom ops) \<and> log_outstanding log = card (dom ops) \<and> (\<forall>t k. ops t = Some k \<longrightarrow> k \<le> MAXOPBLOCKS) \<and>
     lh_n (log_lh log) + reserved ops \<le> LOGSIZE \<and> (log_committing log \<longrightarrow> dom ops = {}) \<and>
     distinct (take (lh_n (log_lh log)) (lh_block (log_lh log))))"

lemma reserved_le: "finite (dom ops) \<Longrightarrow> (\<And>t k. ops t = Some k \<Longrightarrow> k \<le> m) \<Longrightarrow> reserved ops \<le> card (dom ops) * m"
  unfolding reserved_def by (rule order_trans[OF sum_bounded_above[of _ _ m]]) auto

lemma reserved_new: "finite (dom ops) \<Longrightarrow> ops t = None \<Longrightarrow> reserved (ops(t \<mapsto> k)) = reserved ops + k"
proof -
  assume a: "finite (dom ops)" "ops t = None"
  have "(\<Sum>x\<in>dom ops. the ((ops(t \<mapsto> k)) x)) = (\<Sum>x\<in>dom ops. the (ops x))"
    using a(2) by (intro sum.cong) auto
  then show ?thesis using a by (simp add: reserved_def domIff)
qed

lemma reserved_remove: "finite (dom ops) \<Longrightarrow> ops t = Some k \<Longrightarrow> reserved ops = reserved (ops(t := None)) + k"
  using reserved_new[of "ops(t := None)" t k] by (simp add: fun_upd_idem)

lemma reserved_upd: "finite (dom ops) \<Longrightarrow> ops t = Some k \<Longrightarrow> reserved (ops(t \<mapsto> j)) + k = reserved ops + j"
  using reserved_remove[of "ops(t \<mapsto> j)" t j] reserved_remove[of ops t k] by simp

lemma log_invD:
  assumes "log_inv z (log, ops)"
  shows "log_size log = z" "length (lh_block (log_lh log)) = LOGSIZE" "finite (dom ops)" "log_outstanding log = card (dom ops)"
    "ops t = Some k \<Longrightarrow> k \<le> MAXOPBLOCKS" "lh_n (log_lh log) + reserved ops \<le> LOGSIZE" "log_committing log \<Longrightarrow> dom ops = {}"
    "distinct (take (lh_n (log_lh log)) (lh_block (log_lh log)))"
  using assms by (simp_all add: log_inv_def)

lemma log_invI:
  assumes "log_size log = z" "length (lh_block (log_lh log)) = LOGSIZE" "finite (dom ops)" "log_outstanding log = card (dom ops)"
    "\<And>t k. ops t = Some k \<Longrightarrow> k \<le> MAXOPBLOCKS" "lh_n (log_lh log) + reserved ops \<le> LOGSIZE" "log_committing log \<Longrightarrow> dom ops = {}"
    "distinct (take (lh_n (log_lh log)) (lh_block (log_lh log)))"
  shows "log_inv z (log, ops)"
  using assms by (simp add: log_inv_def)

text \<open>A write that is not absorbed.\<close>

lemma Log_write_True:
  assumes "Log_write b log = Inr (True, log')" and "length (lh_block (log_lh log)) = LOGSIZE"
  shows "lh_n (log_lh log) < LOGSIZE" "b \<notin> set (take (lh_n (log_lh log)) (lh_block (log_lh log)))"
    "log' = log\<lparr>log_lh := \<lparr>lh_n = lh_n (log_lh log) + 1, lh_block = (lh_block (log_lh log))[lh_n (log_lh log) := b]\<rparr>\<rparr>"
  using assms by (auto simp: Log_write_def Let_def index_set_def usub_def split: if_splits)

lemma Log_write_False: "Log_write b log = Inr (False, log') \<Longrightarrow> log' = log"
  by (auto simp: Log_write_def Let_def split: if_splits)

lemma end_op_first_Inr:
  assumes "end_op_first log = Inr (c, log')"
  shows "0 < log_outstanding log" "\<not> log_committing log"
    "log' = log\<lparr>log_outstanding := log_outstanding log - 1, log_committing := (log_outstanding log = 1)\<rparr>"
  using assms by (auto simp: end_op_first_def usub_def Let_def split: if_splits)

lemma log_inv_end:
  assumes inv: "log_inv z (log, ops)" and t: "ops t = Some k" and e: "end_op_first log = Inr (c, log')"
  shows "log_inv z (log', ops(t := None))"
proof -
  note e = end_op_first_Inr[OF e]
  have fin: "finite (dom ops)" and td: "t \<in> dom ops" using log_invD(3)[OF inv] t by auto
  have c: "card (dom ops) = Suc (card (dom ops - {t}))" using fin td by (rule card.remove)
  have r: "reserved (ops(t := None)) \<le> reserved ops" using reserved_remove[OF fin t] by simp
  show ?thesis
  proof (rule log_invI)
    show "dom (ops(t := None)) = {}" if "log_committing log'"
      using that e(3) c log_invD(4)[OF inv] fin by simp
    show "\<And>u j. (ops(t := None)) u = Some j \<Longrightarrow> j \<le> MAXOPBLOCKS" using log_invD(5)[OF inv] by (auto split: if_splits)
  qed (use e(3) c r fin log_invD[OF inv] in \<open>simp_all\<close>)
qed

lemma log_inv_write:
  assumes inv: "log_inv z (log, ops)" and t: "ops t = Some (Suc k)" and w: "Log_write b log = Inr (True, log')"
  shows "log_inv z (log', ops(t \<mapsto> k))"
proof -
  note w = Log_write_True[OF w log_invD(2)[OF inv]] and d = log_invD[OF inv]
  have dom: "dom (ops(t \<mapsto> k)) = dom ops" using t by auto
  have r: "reserved (ops(t \<mapsto> k)) + Suc k = reserved ops + k" by (rule reserved_upd[OF d(3) t])
  show ?thesis
  proof (rule log_invI)
    show "\<And>u j. (ops(t \<mapsto> k)) u = Some j \<Longrightarrow> j \<le> MAXOPBLOCKS" using d(5) Suc_leD[OF d(5)[OF t]] by (auto split: if_splits)
    show "distinct (take (lh_n (log_lh log')) (lh_block (log_lh log')))"
      using w d(2,8) by (simp add: take_Suc_conv_app_nth)
    show "log_committing log' \<Longrightarrow> dom (ops(t \<mapsto> k)) = {}" using w(3) d(7) t by auto
  qed (use w r d dom in \<open>simp_all\<close>)
qed

lemma log_inv_step: "log_step x y \<Longrightarrow> log_inv z x \<Longrightarrow> log_inv z y"
proof (induction rule: log_step.induct)
  case (enter ops t log log')
  note d = log_invD[OF enter(3)]
  have b: "\<not> log_committing log" "log' = log\<lparr>log_outstanding := log_outstanding log + 1\<rparr>"
    "lh_n (log_lh log) + (log_outstanding log + 1) * MAXOPBLOCKS \<le> LOGSIZE"
    using enter(2) by (auto simp: begin_op_def u32_add_def split: if_splits)
  have "reserved ops \<le> card (dom ops) * MAXOPBLOCKS" by (rule reserved_le[OF d(3)]) (rule d(5))
  moreover have "reserved (ops(t \<mapsto> MAXOPBLOCKS)) = reserved ops + MAXOPBLOCKS" by (rule reserved_new[OF d(3) enter(1)])
  moreover have "card (insert t (dom ops)) = Suc (card (dom ops))" using d(3) enter(1) by (simp add: domIff)
  ultimately show ?case
    by (intro log_invI) (use b d enter(1) in \<open>auto split: if_splits\<close>)
next
  case (absorb ops t k b log log')
  then show ?case using Log_write_False by blast
next
  case (committed log st log' st' ops)
  note d = log_invD[OF committed(3)]
  have "log' = log \<and> lh_n (log_lh log) = 0 \<or> log' = clear_lh log"
    using committed(2) by (auto simp: commit_def split: if_splits)
  then show ?case using d(7)[OF committed(1)] d
    by (intro log_invI) (auto simp: end_op_last_def clear_lh_def reserved_def)
qed (blast intro: log_inv_end log_inv_write)+

lemma log_inv_steps: "log_step\<^sup>*\<^sup>* x y \<Longrightarrow> log_inv z x \<Longrightarrow> log_inv z y"
  by (induction rule: rtranclp_induct) (auto intro: log_inv_step)

section \<open>The header on disk\<close>

lemma length_le32 [simp]: "length (le32 x) = 4"
  by (simp add: le32_def)

lemma sum_digits: "(\<Sum>i<k. (x div m ^ i) mod m * m ^ i) = x mod (m::nat) ^ k"
proof (induction k)
  case (Suc k)
  have "x mod (m ^ k * m) = m ^ k * (x div m ^ k mod m) + x mod m ^ k" by (rule mod_mult2_eq)
  then show ?case using Suc by (simp add: mult.commute add.commute)
qed simp

lemma of_le32_le32: "x < 2 ^ 32 \<Longrightarrow> of_le32 (le32 x @ ys) = x"
proof -
  assume x: "x < 2 ^ 32"
  have "(le32 x @ ys) ! i = of_nat (x div 256 ^ i)" if "i < 4" for i
    using that by (simp add: nth_append) (simp add: le32_def)
  then have "of_le32 (le32 x @ ys) = (\<Sum>i<4. (x div 256 ^ i) mod 256 * 256 ^ i)"
    by (simp add: of_le32_def unat_of_nat)
  also have "\<dots> = x" using x by (simp add: sum_digits)
  finally show ?thesis .
qed

lemma drop_concat_le32: "i \<le> length xs \<Longrightarrow> drop (4 * i) (concat (map le32 xs) @ ys) = concat (map le32 (drop i xs)) @ ys"
proof (induction xs arbitrary: i)
  case (Cons x xs)
  then show ?case by (cases i) simp_all
qed simp

lemma LogHeader_roundtrip:
  assumes "lh_n lh < 2 ^ 32" and "length (lh_block lh) = LOGSIZE" and "\<forall>b\<in>set (lh_block lh). b < 2 ^ 32"
  shows "LogHeader_read (LogHeader_bytes lh @ rest) = lh"
proof -
  have "of_le32 (drop (4 * Suc i) (LogHeader_bytes lh @ rest)) = lh_block lh ! i" if i: "i < LOGSIZE" for i
  proof -
    have "drop (4 * Suc i) (LogHeader_bytes lh @ rest) = concat (map le32 (drop i (lh_block lh))) @ rest"
      using drop_concat_le32[of i "lh_block lh" rest] i assms(2) by (simp add: LogHeader_bytes_def)
    also have "drop i (lh_block lh) = lh_block lh ! i # drop (Suc i) (lh_block lh)"
      using i assms(2) by (simp add: Cons_nth_drop_Suc)
    finally show ?thesis using of_le32_le32[of "lh_block lh ! i"] assms(2,3) i by simp
  qed
  then have "lh_block (LogHeader_read (LogHeader_bytes lh @ rest)) = lh_block lh"
    using assms(2) by (intro nth_equalityI) (simp_all add: LogHeader_read_def)
  moreover have "lh_n (LogHeader_read (LogHeader_bytes lh @ rest)) = lh_n lh"
    using of_le32_le32[OF assms(1)] by (simp add: LogHeader_read_def LogHeader_bytes_def)
  ultimately show ?thesis by (cases lh; cases "LogHeader_read (LogHeader_bytes lh @ rest)") simp
qed

lemma length_LogHeader_bytes: "length (lh_block lh) = LOGSIZE \<Longrightarrow> length (LogHeader_bytes lh) = 4 + 4 * LOGSIZE"
proof -
  have "length (concat (map le32 xs)) = 4 * length xs" for xs by (induction xs) simp_all
  then show "length (lh_block lh) = LOGSIZE \<Longrightarrow> ?thesis" by (simp add: LogHeader_bytes_def)
qed

section \<open>Writes of the disk\<close>

lemma apply_writes_append [simp]: "apply_writes (xs @ ys) d = apply_writes ys (apply_writes xs d)"
  by (induction xs arbitrary: d) auto

lemma apply_writes_other: "b \<notin> fst ` set ws \<Longrightarrow> apply_writes ws d b = d b"
  by (induction ws arbitrary: d) auto

lemma apply_writes_hit: "distinct (map f ts) \<Longrightarrow> t \<in> set ts \<Longrightarrow> apply_writes (map (\<lambda>t. (f t, g t)) ts) d (f t) = g t"
proof (induction ts arbitrary: d)
  case (Cons x ts)
  show ?case
  proof (cases "t = x")
    case True
    have "f x \<notin> fst ` set (map (\<lambda>t. (f t, g t)) ts)" using Cons.prems(1) by force
    then show ?thesis using True by (simp add: apply_writes_other)
  qed (use Cons in simp)
qed simp

lemma bstore_simps [simp]:
  "bs_base (bmodify b x st) = bs_base st" "bs_writes (bmodify b x st) = bs_writes st"
  "bs_base (disk_write b st) = bs_base st" "bs_writes (disk_write b st) = bs_writes st @ [(b, bread b st)]"
  "bread b (bmodify b x st) = x"
  by (simp_all add: bmodify_def disk_write_def bread_def)

text \<open>A buffer that was put into the cache and written: reads of other blocks give what they gave.\<close>

lemma bread_disk_write: "bread c (disk_write b (bmodify b x st)) = (if c = b then x else bread c st)"
  by (auto simp: bread_def disk_write_def bmodify_def bs_disk_def split: option.splits)

text \<open>The header as \<^verbatim>\<open>write_head\<close> writes it when it does not panic.\<close>

definition head_written :: "Log \<Rightarrow> bstore \<Rightarrow> bstore" where
  "head_written log st =
     (let b = log_start log
      in disk_write b (bmodify b (LogHeader_bytes (log_lh log) @ drop (4 + 4 * LOGSIZE) (bread b st)) st))"

lemma bwrite_simps [simp]: "bwrite True b st = Inl (Panic ''bwrite'')" "bwrite False b st = Inr (disk_write b st)"
  by (simp_all add: bwrite_def)

lemma write_head_simps [simp]: "write_head True log st = Inl (Panic ''bwrite'')" "write_head False log st = Inr (head_written log st)"
  by (simp_all add: write_head_def head_written_def Let_def)

section \<open>The loops of commit and recovery\<close>

definition log_wf :: "Log \<Rightarrow> bool" where
  "log_wf log \<longleftrightarrow> (let n = lh_n (log_lh log); bl = lh_block (log_lh log); a = log_start log in
     length bl = LOGSIZE \<and> n \<le> LOGSIZE \<and> distinct (take n bl) \<and> (\<forall>b\<in>set bl. b < 2 ^ 32) \<and>
     (\<forall>b\<in>set (take n bl). b < a \<or> a + n < b) \<and> a + n + 1 < 2 ^ 32)"

lemma log_wfD:
  assumes "log_wf log" and "n = lh_n (log_lh log)" and "a = log_start log" and "bl = lh_block (log_lh log)"
  shows "length bl = LOGSIZE" "n \<le> LOGSIZE" "distinct (take n bl)" "\<forall>b\<in>set bl. b < 2 ^ 32" "a + n + 1 < 2 ^ 32"
    "t < n \<Longrightarrow> bl ! t < a \<or> a + n < bl ! t" "t < n \<Longrightarrow> u \<le> n \<Longrightarrow> bl ! t \<noteq> a + u"
proof -
  have "bl ! t < a \<or> a + n < bl ! t" if "t < n" for t
  proof -
    have "bl ! t \<in> set (take n bl)" using that assms by (auto simp: log_wf_def Let_def in_set_conv_nth intro!: exI[of _ t])
    then show ?thesis using assms by (auto simp: log_wf_def Let_def)
  qed
  then show "t < n \<Longrightarrow> bl ! t < a \<or> a + n < bl ! t" "t < n \<Longrightarrow> u \<le> n \<Longrightarrow> bl ! t \<noteq> a + u" by fastforce+
qed (use assms in \<open>simp_all add: log_wf_def Let_def\<close>)

lemma write_log_from_result:
  assumes wf: "log_wf log" and n: "n = lh_n (log_lh log)" and a: "a = log_start log" and bl: "bl = lh_block (log_lh log)"
  shows "tail + k = n \<Longrightarrow> \<exists>st'. write_log_from False tail k log st = Inr st' \<and> bs_base st' = bs_base st \<and>
     bs_writes st' = bs_writes st @ map (\<lambda>t. (a + t + 1, bread (bl ! t) st)) [tail..<n] \<and>
     (\<forall>t<n. bread (bl ! t) st' = bread (bl ! t) st) \<and>
     (\<forall>t<tail. bread (a + t + 1) st' = bread (a + t + 1) st) \<and>
     (\<forall>t<n. tail \<le> t \<longrightarrow> bread (a + t + 1) st' = bread (bl ! t) st)"
proof (induction k arbitrary: tail st)
  case (Suc k)
  note w = log_wfD[OF wf n a bl]
  have t: "tail < n" using Suc.prems by simp
  define st1 where "st1 = disk_write (a + tail + 1) (bmodify (a + tail + 1) (bread (bl ! tail) st) st)"
  have r: "write_log_from False tail (Suc k) log st = write_log_from False (Suc tail) k log st1"
    using t w(1,2,5) by (simp add: u32_add_def index_def a[symmetric] bl[symmetric] st1_def)
  have same: "bread (bl ! u) st1 = bread (bl ! u) st" if "u < n" for u
    using w(7)[OF that, of "tail + 1"] t by (simp add: bread_disk_write st1_def)
  have low: "bread (a + u + 1) st1 = bread (a + u + 1) st" if "u < tail" for u using that by (simp add: bread_disk_write st1_def)
  have here: "bread (a + tail + 1) st1 = bread (bl ! tail) st" by (simp add: bread_disk_write st1_def)
  have st1: "bs_base st1 = bs_base st" "bs_writes st1 = bs_writes st @ [(a + tail + 1, bread (bl ! tail) st)]"
    by (simp_all add: st1_def)
  obtain st' where st': "write_log_from False (Suc tail) k log st1 = Inr st'" "bs_base st' = bs_base st1"
     "bs_writes st' = bs_writes st1 @ map (\<lambda>t. (a + t + 1, bread (bl ! t) st1)) [Suc tail..<n]"
     "\<forall>t<n. bread (bl ! t) st' = bread (bl ! t) st1" "\<forall>t<Suc tail. bread (a + t + 1) st' = bread (a + t + 1) st1"
     "\<forall>t<n. Suc tail \<le> t \<longrightarrow> bread (a + t + 1) st' = bread (bl ! t) st1"
    using Suc.IH[of "Suc tail" st1] Suc.prems by auto
  have "map (\<lambda>t. (a + t + 1, bread (bl ! t) st1)) [Suc tail..<n] = map (\<lambda>t. (a + t + 1, bread (bl ! t) st)) [Suc tail..<n]"
    by (rule map_cong) (simp_all add: same)
  then have ws: "bs_writes st' = bs_writes st @ map (\<lambda>t. (a + t + 1, bread (bl ! t) st)) [tail..<n]"
    using st'(3) t st1(2) by (simp add: upt_conv_Cons)
  have last: "bread (a + u + 1) st' = bread (bl ! u) st" if "u < n" "tail \<le> u" for u
    using that st'(5,6) here same by (cases "u = tail") auto
  show ?case using r st' ws last same low st1(1) by auto
qed simp

lemma install_from_result:
  assumes wf: "log_wf log" and n: "n = lh_n (log_lh log)" and a: "a = log_start log" and bl: "bl = lh_block (log_lh log)"
  shows "tail + k = n \<Longrightarrow> \<exists>st'. install_from False tail k log st = Inr st' \<and> bs_base st' = bs_base st \<and>
     bs_writes st' = bs_writes st @ map (\<lambda>t. (bl ! t, bread (a + t + 1) st)) [tail..<n]"
proof (induction k arbitrary: tail st)
  case (Suc k)
  note w = log_wfD[OF wf n a bl]
  have t: "tail < n" using Suc.prems by simp
  define st1 where "st1 = disk_write (bl ! tail) (bmodify (bl ! tail) (bread (a + tail + 1) st) st)"
  have r: "install_from False tail (Suc k) log st = install_from False (Suc tail) k log st1"
    using t w(1,2,5) by (simp add: u32_add_def index_def a[symmetric] bl[symmetric] st1_def)
  have same: "bread (a + u + 1) st1 = bread (a + u + 1) st" if "u < n" for u
    using w(7)[OF t, of "u + 1"] that by (auto simp: bread_disk_write st1_def)
  have st1: "bs_base st1 = bs_base st" "bs_writes st1 = bs_writes st @ [(bl ! tail, bread (a + tail + 1) st)]"
    by (simp_all add: st1_def)
  obtain st' where st': "install_from False (Suc tail) k log st1 = Inr st'" "bs_base st' = bs_base st1"
     "bs_writes st' = bs_writes st1 @ map (\<lambda>t. (bl ! t, bread (a + t + 1) st1)) [Suc tail..<n]"
    using Suc.IH[of "Suc tail" st1] Suc.prems by auto
  have "map (\<lambda>t. (bl ! t, bread (a + t + 1) st1)) [Suc tail..<n] = map (\<lambda>t. (bl ! t, bread (a + t + 1) st)) [Suc tail..<n]"
    by (rule map_cong[OF refl]) (use same in auto)
  then have "bs_writes st' = bs_writes st @ map (\<lambda>t. (bl ! t, bread (a + t + 1) st)) [tail..<n]"
    using st'(3) t st1(2) by (simp add: upt_conv_Cons)
  then show ?case unfolding r using st'(1,2) st1(1) by (intro exI[of _ st']) simp
qed simp

lemma write_head_result:
  "bs_base (head_written log st) = bs_base st"
  "\<exists>rest. bs_writes (head_written log st) = bs_writes st @ [(log_start log, LogHeader_bytes (log_lh log) @ rest)]"
  "b \<noteq> log_start log \<Longrightarrow> bread b (head_written log st) = bread b st"
  by (auto simp: head_written_def Let_def bread_disk_write)

text \<open>The writes of a commit, in their order.\<close>

lemma commit_writes:
  assumes wf: "log_wf log" and n: "n = lh_n (log_lh log)" and a: "a = log_start log" and bl: "bl = lh_block (log_lh log)"
    and pos: "0 < n" and new: "bs_writes st = []"
  obtains st' rest rest' where "commit False log st = Inr (clear_lh log, st')" "bs_base st' = bs_base st"
    "bs_writes st' = map (\<lambda>t. (a + t + 1, bread (bl ! t) st)) [0..<n] @ (a, LogHeader_bytes (log_lh log) @ rest) #
       map (\<lambda>t. (bl ! t, bread (bl ! t) st)) [0..<n] @ [(a, LogHeader_bytes (log_lh (clear_lh log)) @ rest')]"
proof -
  obtain s1 where s1: "write_log False log st = Inr s1" "bs_base s1 = bs_base st"
    "bs_writes s1 = map (\<lambda>t. (a + t + 1, bread (bl ! t) st)) [0..<n]" "\<forall>t<n. bread (a + t + 1) s1 = bread (bl ! t) st"
    using write_log_from_result[OF wf n a bl, of 0 n st] new by (auto simp: write_log_def n)
  define s2 where "s2 = head_written log s1"
  obtain rest where s2: "bs_base s2 = bs_base st" "bs_writes s2 = bs_writes s1 @ [(a, LogHeader_bytes (log_lh log) @ rest)]"
    using write_head_result(1,2)[of log s1] s1(2) by (auto simp: s2_def a)
  have rd: "bread (a + t + 1) s2 = bread (bl ! t) st" if "t < n" for t
    using write_head_result(3)[of "a + t + 1" log s1] s1(4) that by (simp add: s2_def a)
  obtain s3 where s3: "install_trans False log s2 = Inr s3" "bs_base s3 = bs_base s2"
    "bs_writes s3 = bs_writes s2 @ map (\<lambda>t. (bl ! t, bread (a + t + 1) s2)) [0..<n]"
    using install_from_result[OF wf n a bl, of 0 n s2] by (auto simp: install_trans_def n)
  have m: "map (\<lambda>t. (bl ! t, bread (a + t + 1) s2)) [0..<n] = map (\<lambda>t. (bl ! t, bread (bl ! t) st)) [0..<n]"
    by (rule map_cong[OF refl]) (use rd in auto)
  obtain rest' where s4: "bs_writes (head_written (clear_lh log) s3) = bs_writes s3 @ [(a, LogHeader_bytes (log_lh (clear_lh log)) @ rest')]"
    using write_head_result(2)[of "clear_lh log" s3] by (auto simp: clear_lh_def a)
  have "commit False log st = Inr (clear_lh log, head_written (clear_lh log) s3)"
    using pos s1(1) s3(1) by (simp add: commit_def n s2_def)
  then show thesis using s1 s2 s3 s4 write_head_result(1)[of "clear_lh log" s3]
    by (intro that[of "head_written (clear_lh log) s3" rest rest']) (simp_all add: m[simplified] rd[simplified])
qed

section \<open>Recovery\<close>

lemma recover_clean:
  assumes "bs_writes c = []" and "bs_cache c = (\<lambda>_. None)" and "lh_n (LogHeader_read (bs_base c (log_start log))) = 0"
  shows "\<exists>log' c'. recover False log c = Inr (log', c') \<and> (\<forall>b. b \<noteq> log_start log \<longrightarrow> bs_disk c' b = bs_base c b)"
proof -
  let ?l = "clear_lh (read_head log c)"
  have "bread (log_start log) c = bs_base c (log_start log)" using assms by (simp add: bread_def bs_disk_def)
  then have "recover False log c = Inr (?l, head_written ?l c)"
    using assms(3) by (simp add: recover_def Let_def read_head_def install_trans_def)
  moreover have "bs_disk (head_written ?l c) b = bs_base c b" if "b \<noteq> log_start log" for b
    using write_head_result(1,2)[of ?l c] that assms(1) by (auto simp: bs_disk_def clear_lh_def read_head_def)
  ultimately show ?thesis by blast
qed

lemma recover_committed:
  assumes "bs_writes c = []" and "bs_cache c = (\<lambda>_. None)" and h: "LogHeader_read (bs_base c a) = lh" and a: "log_start log = a"
    and wf: "log_wf (log\<lparr>log_lh := lh\<rparr>)"
  shows "\<exists>log' c'. recover False log c = Inr (log', c') \<and> (\<forall>b. b \<noteq> a \<longrightarrow>
     bs_disk c' b = apply_writes (map (\<lambda>t. (lh_block lh ! t, bs_base c (a + t + 1))) [0..<lh_n lh]) (bs_base c) b)"
proof -
  let ?l = "log\<lparr>log_lh := lh\<rparr>"
  have rd: "bread b c = bs_base c b" for b using assms(1,2) by (simp add: bread_def bs_disk_def)
  then have l: "read_head log c = ?l" by (simp add: read_head_def a h)
  obtain c1 where c1: "install_trans False ?l c = Inr c1" "bs_base c1 = bs_base c"
    "bs_writes c1 = map (\<lambda>t. (lh_block lh ! t, bs_base c (a + t + 1))) [0..<lh_n lh]"
    using install_from_result[OF wf refl refl refl, of 0 "lh_n lh" c] assms(1) by (auto simp: install_trans_def a rd)
  have "recover False log c = Inr (clear_lh ?l, head_written (clear_lh ?l) c1)" using c1(1) by (simp add: recover_def Let_def l)
  moreover have "bs_disk (head_written (clear_lh ?l) c1) b = apply_writes (bs_writes c1) (bs_base c) b" if "b \<noteq> a" for b
    using write_head_result(1,2)[of "clear_lh ?l" c1] that c1(2) by (auto simp: bs_disk_def clear_lh_def a)
  ultimately show ?thesis using c1(3) by auto
qed

text \<open>The blocks outside the log are as before the commit, or as after it.\<close>

definition disk_old :: "Log \<Rightarrow> bstore \<Rightarrow> disk \<Rightarrow> bool" where
  "disk_old log st d \<longleftrightarrow> (\<forall>b. b \<notin> {log_start log .. log_start log + lh_n (log_lh log)} \<longrightarrow> d b = bs_base st b)"

definition disk_new :: "Log \<Rightarrow> bstore \<Rightarrow> disk \<Rightarrow> bool" where
  "disk_new log st d \<longleftrightarrow> (\<forall>b. b \<notin> {log_start log .. log_start log + lh_n (log_lh log)} \<longrightarrow>
     d b = (if b \<in> set (take (lh_n (log_lh log)) (lh_block (log_lh log))) then bread b st else bs_base st b))"

lemma crash_simps [simp]: "bs_writes (crash k st) = []" "bs_cache (crash k st) = (\<lambda>_. None)"
  "bs_base (crash k st) = apply_writes (take k (bs_writes st)) (bs_base st)"
  by (simp_all add: crash_def)

lemma take_nth_map: "n \<le> length bl \<Longrightarrow> map ((!) bl) [0..<n] = take n bl"
  by (rule nth_equalityI) simp_all

lemma take_nth_set: "n \<le> length bl \<Longrightarrow> set (take n bl) = (!) bl ` {..<n}"
  by (simp add: take_nth_map[symmetric] atLeast0LessThan)

lemma distinct_take_nth: "distinct (take n bl) \<Longrightarrow> n \<le> length bl \<Longrightarrow> distinct (map ((!) bl) [0..<n])"
  by (simp only: take_nth_map)

text \<open>The writes to the home blocks give the new content, those before give the old one.\<close>

lemma installed_disk:
  assumes wf: "log_wf log" and n: "n = lh_n (log_lh log)" and a: "a = log_start log" and bl: "bl = lh_block (log_lh log)"
    and d: "\<And>b. b \<notin> {a..a + n} \<Longrightarrow> b \<notin> set (take n bl) \<Longrightarrow> d b = bs_base st b" and g: "\<And>t. t < n \<Longrightarrow> g t = bread (bl ! t) st"
    and e: "\<And>b. b \<noteq> a \<Longrightarrow> d' b = apply_writes (map (\<lambda>t. (bl ! t, g t)) [0..<n]) d b"
  shows "disk_new log st d'"
proof -
  note w = log_wfD[OF wf n a bl]
  have s: "set (take n bl) = (!) bl ` {..<n}" using w(1,2) by (simp add: take_nth_set)
  have "d' (bl ! t) = bread (bl ! t) st" if "t < n" for t
  proof -
    have "bl ! t \<noteq> a" using w(7)[OF that, of 0] by simp
    then have "d' (bl ! t) = apply_writes (map (\<lambda>t. (bl ! t, g t)) [0..<n]) d (bl ! t)" by (rule e)
    also have "\<dots> = g t" using distinct_take_nth[OF w(3)] w(1,2) that by (intro apply_writes_hit) simp_all
    finally show ?thesis using g[OF that] by simp
  qed
  moreover have "d' b = bs_base st b" if b: "b \<notin> {a..a + n}" "b \<notin> set (take n bl)" for b
  proof -
    have "b \<notin> fst ` set (map (\<lambda>t. (bl ! t, g t)) [0..<n])" using b(2) s by auto
    then show ?thesis using e[of b] d[OF b] b(1) by (auto simp: apply_writes_other)
  qed
  ultimately show ?thesis using s unfolding disk_new_def n[symmetric] a[symmetric] bl[symmetric] by auto
qed

lemma log_region_writes:
  assumes "fst ` set ws \<subseteq> {a..a + (n::nat)}" and "b \<notin> {a..a + n}"
  shows "apply_writes ws d b = d b"
  using assms by (intro apply_writes_other) auto

text \<open>Before the header is written the log on disk is still empty.\<close>

lemma crash_before_header:
  assumes k: "k \<le> n" and ws: "bs_writes st' = map (\<lambda>t. (a + t + 1, f t)) [0..<n] @ ws" and base: "bs_base st' = bs_base st"
    and clean: "lh_n (LogHeader_read (bs_base st a)) = 0" and a: "a = log_start log" "log_start log0 = a" and n: "n = lh_n (log_lh log)"
  shows "\<exists>log1 c. recover False log0 (crash k st') = Inr (log1, c) \<and> disk_old log st (bs_disk c)"
proof -
  have tk: "take k (bs_writes st') = take k (map (\<lambda>t. (a + t + 1, f t)) [0..<n])" using k by (simp add: ws)
  have "fst ` set (take k (map (\<lambda>t. (a + t + 1, f t)) [0..<n])) \<subseteq> {a + 1..a + n}" by (auto dest!: in_set_takeD)
  then have D: "apply_writes (take k (bs_writes st')) (bs_base st) b = bs_base st b" if "b \<notin> {a + 1..a + n}" for b
    unfolding tk using that by (intro apply_writes_other) blast
  have "lh_n (LogHeader_read (bs_base (crash k st') (log_start log0))) = 0" using D[of a] clean a by (simp add: base)
  from recover_clean[OF _ _ this] obtain log1 c where c: "recover False log0 (crash k st') = Inr (log1, c)"
    "\<forall>b. b \<noteq> a \<longrightarrow> bs_disk c b = bs_base (crash k st') b" using a by auto
  have "disk_old log st (bs_disk c)"
    unfolding disk_old_def a(1)[symmetric] n[symmetric] using c(2) D by (auto simp: base)
  then show ?thesis using c(1) by blast
qed

text \<open>The content of the log's blocks once they and the header are on disk.\<close>

lemma logged_disk:
  assumes wf: "log_wf log" and n: "n = lh_n (log_lh log)" and a: "a = log_start log" and bl: "bl = lh_block (log_lh log)"
    and D: "D = apply_writes (take j (map (\<lambda>t. (bl ! t, g t)) [0..<n])) ((apply_writes (map (\<lambda>t. (a + t + 1, f t)) [0..<n]) d)(a := h))"
  shows "D a = h" "t < n \<Longrightarrow> D (a + t + 1) = f t" "b \<notin> {a..a + n} \<Longrightarrow> b \<notin> set (take n bl) \<Longrightarrow> D b = d b"
proof -
  note w = log_wfD[OF wf n a bl]
  let ?m = "(apply_writes (map (\<lambda>t. (a + t + 1, f t)) [0..<n]) d)(a := h)"
  have sub: "fst ` set (take j (map (\<lambda>t. (bl ! t, g t)) [0..<n])) \<subseteq> set (take n bl)"
    using w(1,2) by (auto simp: take_nth_set dest!: in_set_takeD)
  have out: "D b = ?m b" if "b \<notin> set (take n bl)" for b unfolding D using that sub by (intro apply_writes_other) blast
  have nin: "a + u \<notin> set (take n bl)" if "u \<le> n" for u using w(1,2) w(7)[OF _ that] by (fastforce simp: take_nth_set)
  show "D a = h" using out[of a] nin[of 0] by simp
  show "D (a + t + 1) = f t" if t: "t < n"
  proof -
    have "apply_writes (map (\<lambda>t. (a + t + 1, f t)) [0..<n]) d (a + t + 1) = f t"
      using t by (intro apply_writes_hit[of "\<lambda>t. a + t + 1"]) (simp_all add: distinct_map inj_on_def)
    then show ?thesis using out[of "a + t + 1"] nin[of "t + 1"] t by simp
  qed
  show "D b = d b" if b: "b \<notin> {a..a + n}" "b \<notin> set (take n bl)"
  proof -
    have "fst ` set (map (\<lambda>t. (a + t + 1, f t)) [0..<n]) \<subseteq> {a..a + n}" by auto
    from log_region_writes[OF this b(1), of d] show ?thesis using out[OF b(2)] b(1) by auto
  qed
qed

lemma crash_after_header:
  assumes wf: "log_wf log" and n: "n = lh_n (log_lh log)" and a: "a = log_start log" and bl: "bl = lh_block (log_lh log)"
    and a0: "log_start log0 = a" and base: "bs_base st' = bs_base st"
    and tk: "take k (bs_writes st') = map (\<lambda>t. (a + t + 1, bread (bl ! t) st)) [0..<n] @ (a, LogHeader_bytes (log_lh log) @ rest) #
       take j (map (\<lambda>t. (bl ! t, bread (bl ! t) st)) [0..<n])"
  shows "\<exists>log1 c. recover False log0 (crash k st') = Inr (log1, c) \<and> disk_new log st (bs_disk c)"
proof -
  note w = log_wfD[OF wf n a bl]
  let ?D = "bs_base (crash k st')"
  have D: "?D = apply_writes (take j (map (\<lambda>t. (bl ! t, bread (bl ! t) st)) [0..<n]))
      ((apply_writes (map (\<lambda>t. (a + t + 1, bread (bl ! t) st)) [0..<n]) (bs_base st))(a := LogHeader_bytes (log_lh log) @ rest))"
    by (simp add: tk base)
  note L = logged_disk[OF wf n a bl D]
  have h: "LogHeader_read (?D a) = log_lh log"
    unfolding L(1) using w(1,2,4) by (intro LogHeader_roundtrip) (simp_all add: n bl LOGSIZE_def MAXOPBLOCKS_def)
  have wf0: "log_wf (log0\<lparr>log_lh := log_lh log\<rparr>)" using wf a0 a by (simp add: log_wf_def)
  obtain log1 c where c: "recover False log0 (crash k st') = Inr (log1, c)"
    "\<forall>b. b \<noteq> a \<longrightarrow> bs_disk c b = apply_writes (map (\<lambda>t. (bl ! t, ?D (a + t + 1))) [0..<n]) ?D b"
    using recover_committed[OF _ _ h a0 wf0] by (auto simp: n bl)
  have "disk_new log st (bs_disk c)"
    by (rule installed_disk[OF wf n a bl, where d = ?D and g = "\<lambda>t. ?D (a + t + 1)"]) (use L(2,3) c(2) in auto)
  then show ?thesis using c(1) by blast
qed

lemma crash_after_commit:
  assumes wf: "log_wf log" and n: "n = lh_n (log_lh log)" and a: "a = log_start log" and bl: "bl = lh_block (log_lh log)"
    and a0: "log_start log0 = a" and base: "bs_base st' = bs_base st"
    and tk: "take k (bs_writes st') = map (\<lambda>t. (a + t + 1, bread (bl ! t) st)) [0..<n] @ (a, h) #
       map (\<lambda>t. (bl ! t, bread (bl ! t) st)) [0..<n] @ [(a, LogHeader_bytes (log_lh (clear_lh log)) @ rest)]"
  shows "\<exists>log1 c. recover False log0 (crash k st') = Inr (log1, c) \<and> disk_new log st (bs_disk c)"
proof -
  note w = log_wfD[OF wf n a bl]
  let ?M = "(apply_writes (map (\<lambda>t. (a + t + 1, bread (bl ! t) st)) [0..<n]) (bs_base st))(a := h)"
  let ?D = "bs_base (crash k st')"
  have D: "?D = (apply_writes (map (\<lambda>t. (bl ! t, bread (bl ! t) st)) [0..<n]) ?M)(a := LogHeader_bytes (log_lh (clear_lh log)) @ rest)"
    by (simp add: tk base)
  have "LogHeader_read (?D a) = log_lh (clear_lh log)"
    unfolding D using w(1,2,4) by (simp add: LogHeader_roundtrip n bl clear_lh_def)
  then have "lh_n (LogHeader_read (?D (log_start log0))) = 0" by (simp add: a0 clear_lh_def)
  from recover_clean[OF _ _ this] obtain log1 c where c: "recover False log0 (crash k st') = Inr (log1, c)"
    "\<forall>b. b \<noteq> a \<longrightarrow> bs_disk c b = ?D b" using a0 by auto
  have "fst ` set (map (\<lambda>t. (a + t + 1, bread (bl ! t) st)) [0..<n]) \<subseteq> {a..a + n}" by auto
  then have M: "?M b = bs_base st b" if "b \<notin> {a..a + n}" for b using log_region_writes[OF _ that] that by auto
  have "disk_new log st (bs_disk c)"
    by (rule installed_disk[OF wf n a bl, where d = ?M and g = "\<lambda>t. bread (bl ! t) st"]) (use c(2) M D in auto)
  then show ?thesis using c(1) by blast
qed

section \<open>Properties\<close>

text \<open>
  With writes that do not panic, a commit of the log would be atomic: whichever number of its disk
  writes happen before a crash, recovery at the next boot returns and leaves every block outside the
  log as it was before the commit, or every such block with the content of the transaction; when all
  writes happen it is the latter.
\<close>

theorem log_commit_atomic:
  assumes wf: "log_wf log" and new: "bs_writes st = []"
    and clean: "lh_n (LogHeader_read (bs_base st (log_start log))) = 0" and a0: "log_start log0 = log_start log"
  shows "\<exists>log' st'. commit False log st = Inr (log', st') \<and>
    (\<forall>k. \<exists>log1 c. recover False log0 (crash k st') = Inr (log1, c) \<and> (disk_old log st (bs_disk c) \<or> disk_new log st (bs_disk c))) \<and>
    (\<exists>log1 c. recover False log0 (crash (length (bs_writes st')) st') = Inr (log1, c) \<and> disk_new log st (bs_disk c))"
proof (cases "lh_n (log_lh log) = 0")
  case True
  have "crash k st = crash 0 st" for k by (simp add: crash_def new)
  moreover have "\<exists>log1 c. recover False log0 (crash 0 st) = Inr (log1, c) \<and> disk_old log st (bs_disk c)"
    by (rule crash_before_header[where n = 0 and ws = "[]" and a = "log_start log"]) (use True new clean a0 in simp_all)
  ultimately have "\<exists>log1 c. recover False log0 (crash k st) = Inr (log1, c) \<and> disk_old log st (bs_disk c)" for k by metis
  moreover have "disk_old log st = disk_new log st" by (auto simp: disk_old_def disk_new_def fun_eq_iff True)
  ultimately show ?thesis using True by (simp add: commit_def)
next
  case False
  define n a bl where "n = lh_n (log_lh log)" and "a = log_start log" and "bl = lh_block (log_lh log)"
  obtain st' rest rest' where c: "commit False log st = Inr (clear_lh log, st')" and base: "bs_base st' = bs_base st"
    and ws: "bs_writes st' = map (\<lambda>t. (a + t + 1, bread (bl ! t) st)) [0..<n] @ (a, LogHeader_bytes (log_lh log) @ rest) #
       map (\<lambda>t. (bl ! t, bread (bl ! t) st)) [0..<n] @ [(a, LogHeader_bytes (log_lh (clear_lh log)) @ rest')]"
    by (rule commit_writes[OF wf n_def a_def bl_def _ new]) (use False n_def in blast)+
  have a0: "log_start log0 = a" by (simp add: a_def a0)
  have late: "\<exists>log1 c. recover False log0 (crash k st') = Inr (log1, c) \<and> disk_new log st (bs_disk c)" if "2 * n + 2 \<le> k" for k
    using crash_after_commit[OF wf n_def a_def bl_def a0 base, of k] that by (simp add: ws)
  have "\<exists>log1 c. recover False log0 (crash k st') = Inr (log1, c) \<and> (disk_old log st (bs_disk c) \<or> disk_new log st (bs_disk c))" for k
  proof -
    consider "k \<le> n" | "n < k" "k \<le> 2 * n + 1" | "2 * n + 2 \<le> k" by linarith
    then show ?thesis
    proof cases
      case 1
      from crash_before_header[OF 1 ws base clean[folded a_def] a_def a0 n_def] show ?thesis by blast
    next
      case 2
      then obtain j where j: "k = n + Suc j" "j \<le> n" by (metis less_imp_Suc_add add_Suc_right Suc_le_mono add_le_cancel_left mult_2 Suc_eq_plus1 add.assoc)
      have "take k (bs_writes st') = map (\<lambda>t. (a + t + 1, bread (bl ! t) st)) [0..<n] @ (a, LogHeader_bytes (log_lh log) @ rest) #
          take j (map (\<lambda>t. (bl ! t, bread (bl ! t) st)) [0..<n])"
        using j by (simp add: ws take_Cons')
      from crash_after_header[OF wf n_def a_def bl_def a0 base this] show ?thesis by blast
    next
      case 3
      from late[OF this] show ?thesis by blast
    qed
  qed
  moreover have "length (bs_writes st') = 2 * n + 2" by (simp add: ws)
  ultimately show ?thesis using c late by auto
qed

text \<open>A log at block 2 with a transaction of two blocks.\<close>

definition demo_log :: Log where
  "demo_log = \<lparr>log_start = 2, log_size = 31, log_dev = 1, log_outstanding = 0, log_committing = True,
     log_lh = \<lparr>lh_n = 2, lh_block = 100 # 101 # replicate (LOGSIZE - 2) 0\<rparr>\<rparr>"

definition demo_store :: bstore where
  "demo_store = \<lparr>bs_base = (\<lambda>_. replicate BSIZE 0), bs_writes = [], bs_cache = [100 \<mapsto> replicate BSIZE 1, 101 \<mapsto> replicate BSIZE 2]\<rparr>"

theorem log_commit_atomic_witness:
  "\<exists>log' st'. commit False demo_log demo_store = Inr (log', st') \<and>
    (\<exists>log1 c. recover False demo_log (crash (length (bs_writes st')) st') = Inr (log1, c) \<and> disk_new demo_log demo_store (bs_disk c))"
proof -
  have "log_wf demo_log" by (simp add: log_wf_def demo_log_def Let_def LOGSIZE_def MAXOPBLOCKS_def take_Cons')
  moreover have "bs_writes demo_store = []" "lh_n (LogHeader_read (bs_base demo_store (log_start demo_log))) = 0"
    by (simp_all add: demo_store_def LogHeader_read_def of_le32_def BSIZE_def)
  ultimately show ?thesis using log_commit_atomic[of demo_log demo_store demo_log] by blast
qed

lemma install_panics:
  assumes "log_start log + 1 < 2 ^ 32" and "length (lh_block (log_lh log)) = LOGSIZE"
  shows "install_trans True log st = (if lh_n (log_lh log) = 0 then Inr st else Inl (Panic ''bwrite''))"
  using assms by (cases "lh_n (log_lh log)") (simp_all add: install_trans_def u32_add_def index_def LOGSIZE_def MAXOPBLOCKS_def)

lemma recover_panics:
  assumes "log_start log + 1 < 2 ^ 32"
  shows "recover True log st = Inl (Panic ''bwrite'')"
proof -
  have "install_trans True (read_head log st) st = (if lh_n (log_lh (read_head log st)) = 0 then Inr st else Inl (Panic ''bwrite''))"
    by (rule install_panics) (use assms in \<open>simp_all add: read_head_def LogHeader_read_def\<close>)
  then show ?thesis by (simp add: recover_def Let_def)
qed

lemma commit_True: "commit True log st = Inr (log', st') \<Longrightarrow> log' = log \<and> st' = st \<and> lh_n (log_lh log) = 0"
  by (auto simp: commit_def split: if_splits)




text \<open>Three operations, of which two write ten blocks and the third nine: the tenth panics.\<close>

definition demo_full :: "nat \<Rightarrow> nat \<Rightarrow> Log" where
  "demo_full out n = \<lparr>log_start = 2, log_size = LOGSIZE, log_dev = 1, log_outstanding = out, log_committing = False,
     log_lh = \<lparr>lh_n = n, lh_block = [100..<100 + n] @ replicate (LOGSIZE - n) 0\<rparr>\<rparr>"

lemma demo_writes:
  "ops t = Some (j + m) \<Longrightarrow> n + m < LOGSIZE \<Longrightarrow> log_step\<^sup>*\<^sup>* (demo_full 3 n, ops) (demo_full 3 (n + m), ops(t \<mapsto> j))"
proof (induction m arbitrary: n ops)
  case 0
  then show ?case by (simp add: fun_upd_idem)
next
  case (Suc m)
  have l: "LOGSIZE - n = Suc (LOGSIZE - Suc n)" using Suc.prems by simp
  have u: "[100..<101 + n] = [100..<100 + n] @ [100 + n]" using upt_Suc_append[of 100 "100 + n"] by simp
  have "\<not> LOGSIZE - Suc 0 \<le> n" using Suc.prems by simp
  then have "Log_write (100 + n) (demo_full 3 n) = Inr (True, demo_full 3 (Suc n))"
    using Suc.prems by (simp add: Log_write_def demo_full_def Let_def usub_def index_set_def l list_update_append u)
  then have "log_step (demo_full 3 n, ops) (demo_full 3 (Suc n), ops(t \<mapsto> j + m))"
    using Suc.prems by (intro log_step.log) simp_all
  moreover have "log_step\<^sup>*\<^sup>* (demo_full 3 (Suc n), ops(t \<mapsto> j + m)) (demo_full 3 (Suc n + m), (ops(t \<mapsto> j + m))(t \<mapsto> j))"
    by (rule Suc.IH) (use Suc.prems in simp_all)
  ultimately have "log_step\<^sup>*\<^sup>* (demo_full 3 n, ops) (demo_full 3 (Suc n + m), (ops(t \<mapsto> j + m))(t \<mapsto> j))"
    by (rule converse_rtranclp_into_rtranclp)
  then show ?case by (simp only: add_Suc add_Suc_right fun_upd_upd)
qed


end
