(* ===== verification/VirtioDisk.thy ===== *)
theory VirtioDisk
  imports Bio
begin

text \<open>
  \<^verbatim>\<open>src/kernel/virtio_disk.rs\<close>: the driver of the virtio block device. The queue is a record of
  the driver's memory that the device shares; what the device registers return is an argument,
  what the driver writes to them is a list. A buffer that the device works on is named by a
  number. \<^verbatim>\<open>rw\<close> is split where it may sleep: submission, the wait for completion, and the end.
\<close>

section \<open>Registers and flags\<close>

datatype VirtioMMIO = MagicValue | Version | DeviceId | VenderId | DeviceFeatures | DriverFeatures | QueueSel
  | QueueNumMax | QueueNum | QueueReady | QueueNotify | InterruptStatus | InterruptAck | Status
  | QueueDescLow | QueueDescHigh | DriverDescLow | DriverDescHigh | DeviceDescLow | DeviceDescHigh

fun mmio_offset :: "VirtioMMIO \<Rightarrow> nat" where
  "mmio_offset MagicValue = 0x00"
| "mmio_offset Version = 0x004"
| "mmio_offset DeviceId = 8"
| "mmio_offset VenderId = 0x00c"
| "mmio_offset DeviceFeatures = 0x010"
| "mmio_offset DriverFeatures = 0x020"
| "mmio_offset QueueSel = 0x030"
| "mmio_offset QueueNumMax = 0x034"
| "mmio_offset QueueNum = 0x038"
| "mmio_offset QueueReady = 0x044"
| "mmio_offset QueueNotify = 0x050"
| "mmio_offset InterruptStatus = 0x060"
| "mmio_offset InterruptAck = 0x064"
| "mmio_offset Status = 0x070"
| "mmio_offset QueueDescLow = 0x080"
| "mmio_offset QueueDescHigh = 0x084"
| "mmio_offset DriverDescLow = 0x090"
| "mmio_offset DriverDescHigh = 0x094"
| "mmio_offset DeviceDescLow = 0x0a0"
| "mmio_offset DeviceDescHigh = 0x0a4"

definition mmio_addr :: "VirtioMMIO \<Rightarrow> nat" where
  "mmio_addr r = VIRTIO0 + mmio_offset r"

type_synonym u16 = "16 word"
type_synonym u32 = "32 word"

definition virtio_status_ACKNOWLEDGE :: u32 where "virtio_status_ACKNOWLEDGE = 1"
definition virtio_status_DRIVER :: u32 where "virtio_status_DRIVER = 2"
definition virtio_status_DRIVER_OK :: u32 where "virtio_status_DRIVER_OK = 4"
definition virtio_status_FEATURES_OK :: u32 where "virtio_status_FEATURES_OK = 8"

definition BLK_F_RO :: u32 where "BLK_F_RO = push_bit 5 1"
definition BLK_F_SCSI :: u32 where "BLK_F_SCSI = push_bit 7 1"
definition BLK_F_CONFIG_WCE :: u32 where "BLK_F_CONFIG_WCE = push_bit 11 1"
definition BLK_F_MQ :: u32 where "BLK_F_MQ = push_bit 12 1"
definition F_ANY_LAYOUT :: u32 where "F_ANY_LAYOUT = push_bit 27 1"
definition RING_F_INDIRECT_DESC :: u32 where "RING_F_INDIRECT_DESC = push_bit 28 1"
definition RING_F_EVENT_IDX :: u32 where "RING_F_EVENT_IDX = push_bit 29 1"

definition virtq_desc_FREED :: u16 where "virtq_desc_FREED = 0"
definition virtq_desc_NEXT :: u16 where "virtq_desc_NEXT = 1"
definition virtq_desc_WRITE :: u16 where "virtq_desc_WRITE = 2"

definition VIRTIO_BLK_T_IN :: u32 where "VIRTIO_BLK_T_IN = 0"
definition VIRTIO_BLK_T_OUT :: u32 where "VIRTIO_BLK_T_OUT = 1"

definition NUM :: nat where "NUM = 8"

section \<open>The queue\<close>

record VirtqDesc =
  vd_addr :: usize
  vd_len :: u32
  vd_flags :: u16
  vd_next :: u16

record VirtqAvail =
  av_flags :: u16
  av_idx :: nat
  av_ring :: "u16 list"

record VirtqUsed =
  us_flags :: u16
  us_idx :: nat
  us_ring :: "nat list"

record Info =
  in_buf :: "nat option"
  in_status :: u8

record VirtioBlkReq =
  rq_type :: u32
  rq_reserved :: u32
  rq_sector :: nat

record Disk =
  dk_desc :: "VirtqDesc list"
  dk_avail :: VirtqAvail
  dk_used :: VirtqUsed
  dk_free :: "bool list"
  dk_used_idx :: nat
  dk_info :: "Info list"
  dk_ops :: "VirtioBlkReq list"

definition VirtqDesc_new :: VirtqDesc where
  "VirtqDesc_new = \<lparr>vd_addr = 0, vd_len = 0, vd_flags = virtq_desc_FREED, vd_next = 0\<rparr>"

definition VirtqAvail_new :: VirtqAvail where
  "VirtqAvail_new = \<lparr>av_flags = 0, av_idx = 0, av_ring = replicate NUM 0\<rparr>"

definition VirtqUsed_new :: VirtqUsed where
  "VirtqUsed_new = \<lparr>us_flags = 0, us_idx = 0, us_ring = replicate NUM 0\<rparr>"

definition Info_new :: Info where
  "Info_new = \<lparr>in_buf = None, in_status = 0\<rparr>"

definition VirtioBlkReq_new :: VirtioBlkReq where
  "VirtioBlkReq_new = \<lparr>rq_type = 0, rq_reserved = 0, rq_sector = 0\<rparr>"

definition Disk_new :: Disk where
  "Disk_new = \<lparr>dk_desc = replicate NUM VirtqDesc_new, dk_avail = VirtqAvail_new, dk_used = VirtqUsed_new,
     dk_free = replicate NUM False, dk_used_idx = 0, dk_info = replicate NUM Info_new,
     dk_ops = replicate NUM VirtioBlkReq_new\<rparr>"

section \<open>Initialisation\<close>

text \<open>
  \<open>rd\<close> is what a register returns; the second value of \<^verbatim>\<open>Status\<close> is \<open>status\<close>. \<open>desc\<close>,
  \<open>avail\<close> and \<open>used\<close> are the addresses of the three areas.
\<close>

definition clear_features :: "u32 \<Rightarrow> u32" where
  "clear_features f =
     (let f = f AND NOT BLK_F_RO; f = f AND NOT BLK_F_SCSI; f = f AND NOT BLK_F_CONFIG_WCE; f = f AND NOT BLK_F_MQ;
          f = f AND NOT F_ANY_LAYOUT; f = f AND NOT RING_F_EVENT_IDX; f = f AND NOT RING_F_INDIRECT_DESC in f)"

definition low32 :: "usize \<Rightarrow> u32" where
  "low32 a = ucast a"

definition high32 :: "usize \<Rightarrow> u32" where
  "high32 a = ucast (drop_bit 32 a)"

definition Disk_init ::
  "(VirtioMMIO \<Rightarrow> u32) \<Rightarrow> u32 \<Rightarrow> usize \<Rightarrow> usize \<Rightarrow> usize \<Rightarrow> Disk \<Rightarrow> ((VirtioMMIO \<times> u32) list \<times> Disk) rust" where
  "Disk_init rd status desc avail used d =
     (if rd MagicValue \<noteq> 0x74726976 \<or> rd Version \<noteq> 2 \<or> rd DeviceId \<noteq> 2 \<or> rd VenderId \<noteq> 0x554d4551
      then Inl (Panic ''could not find virtio disk'')
      else
        let st1 = 0 OR virtio_status_ACKNOWLEDGE;
            st2 = st1 OR virtio_status_DRIVER;
            features = clear_features (rd DeviceFeatures);
            st3 = st2 OR virtio_status_FEATURES_OK
        in rbind (rassert (status AND virtio_status_FEATURES_OK \<noteq> 0) ''virtio disk FEATURES_OK unset'') (\<lambda>_.
           rbind (rassert (rd QueueReady = 0) ''virtio disk shoud not be ready'') (\<lambda>_.
           rbind (rassert (rd QueueNumMax \<noteq> 0) ''virtio disk has no queue 0'') (\<lambda>_.
           rbind (rassert (rd QueueNumMax \<ge> of_nat NUM) ''virtio disk max queue too short'') (\<lambda>_.
           Inr ([(Status, 0), (Status, st1), (Status, st2), (DriverFeatures, features), (Status, st3), (QueueSel, 0),
                 (QueueNum, of_nat NUM), (QueueDescLow, low32 desc), (QueueDescHigh, high32 desc),
                 (DriverDescLow, low32 avail), (DriverDescHigh, high32 avail), (DeviceDescLow, low32 used),
                 (DeviceDescHigh, high32 used), (QueueReady, 1), (Status, status OR virtio_status_DRIVER_OK)],
                d\<lparr>dk_free := map (\<lambda>_. True) (dk_free d)\<rparr>))))))"

section \<open>Descriptors\<close>

fun first_free :: "nat \<Rightarrow> bool list \<Rightarrow> nat option" where
  "first_free i [] = None"
| "first_free i (v # vs) = (if v then Some i else first_free (Suc i) vs)"

definition alloc_desc :: "Disk \<Rightarrow> nat option \<times> Disk" where
  "alloc_desc d =
     (case first_free 0 (dk_free d) of
        None \<Rightarrow> (None, d)
      | Some i \<Rightarrow> (Some i, d\<lparr>dk_free := (dk_free d)[i := False]\<rparr>))"

definition free_desc :: "nat \<Rightarrow> Disk \<Rightarrow> Disk rust" where
  "free_desc i d =
     rbind (rassert (i < NUM) ''free_dec 1'') (\<lambda>_.
     rbind (index (dk_free d) i) (\<lambda>f.
     rbind (rassert (\<not> f) ''free_desc 2'') (\<lambda>_.
     rbind (index_set (dk_desc d) i \<lparr>vd_addr = 0, vd_len = 0, vd_flags = 0, vd_next = 0\<rparr>) (\<lambda>desc.
     Inr (d\<lparr>dk_desc := desc, dk_free := (dk_free d)[i := True]\<rparr>)))))"

function free_chain :: "nat \<Rightarrow> Disk \<Rightarrow> Disk rust" where
  "free_chain i d =
     rbind (unwrap (if i < length (dk_desc d) then Some (dk_desc d ! i) else None)) (\<lambda>desc.
     case free_desc i d of
       Inl e \<Rightarrow> Inl e
     | Inr d1 \<Rightarrow>
         if vd_flags desc AND virtq_desc_NEXT \<noteq> 0 then free_chain (unat (vd_next desc)) d1
         else Inr d1)"
  by pat_completeness auto

lemma free_desc_count:
  assumes "free_desc i d = Inr d1"
  shows "length (filter Not (dk_free d1)) < length (filter Not (dk_free d))"
proof -
  have i: "i < length (dk_free d)" "\<not> dk_free d ! i" "dk_free d1 = (dk_free d)[i := True]"
    using assms by (auto simp: free_desc_def index_def rassert_def split: if_splits)
  have "filter Not ((dk_free d)[i := True]) = filter Not (take i (dk_free d)) @ filter Not (drop (Suc i) (dk_free d))"
    using i(1) by (simp add: upd_conv_take_nth_drop)
  moreover have "filter Not (dk_free d) = filter Not (take i (dk_free d)) @ [dk_free d ! i] @ filter Not (drop (Suc i) (dk_free d))"
    using i(1,2) by (subst id_take_nth_drop[OF i(1)]) simp
  ultimately show ?thesis using i(3) by simp
qed

termination free_chain
  by (relation "measure (\<lambda>(i, d). length (filter Not (dk_free d)))") (simp_all add: free_desc_count)

declare free_chain.simps [simp del]

text \<open>The loop \<^verbatim>\<open>for j in 0..i\<close> that frees on failure, and the loop of \<^verbatim>\<open>alloc3_desc\<close>.\<close>

fun free_below :: "nat \<Rightarrow> nat \<Rightarrow> Disk \<Rightarrow> Disk rust" where
  "free_below j 0 d = Inr d"
| "free_below j (Suc k) d = rbind (free_desc j d) (free_below (Suc j) k)"

fun alloc3_from :: "nat \<Rightarrow> nat list \<Rightarrow> Disk \<Rightarrow> (nat list option \<times> Disk) rust" where
  "alloc3_from 0 idx d = Inr (Some idx, d)"
| "alloc3_from (Suc k) idx d =
     (case alloc_desc d of
        (Some ix, d1) \<Rightarrow> alloc3_from k (idx @ [ix]) d1
      | (None, d1) \<Rightarrow> rbind (free_below 0 (length idx) d1) (\<lambda>d2. Inr (None, d2)))"

definition alloc3_desc :: "Disk \<Rightarrow> (nat list option \<times> Disk) rust" where
  "alloc3_desc d = alloc3_from 3 [] d"

section \<open>Requests\<close>

text \<open>
  The part of \<^verbatim>\<open>rw\<close> up to the wait, with the descriptors \<open>i0\<close>, \<open>i1\<close> and \<open>i2\<close>. The addresses
  of the request headers, of the status bytes and of the data of the buffer are arguments.
\<close>

definition rw_format ::
  "(nat \<Rightarrow> usize) \<Rightarrow> (nat \<Rightarrow> usize) \<Rightarrow> usize \<Rightarrow> bool \<Rightarrow> nat \<Rightarrow> nat \<Rightarrow> nat \<Rightarrow> nat \<Rightarrow> nat \<Rightarrow> Disk \<Rightarrow> Disk rust" where
  "rw_format ops_at status_at data_at wr sector b i0 i1 i2 d =
     rbind (index_set (dk_ops d) i0
       \<lparr>rq_type = (if wr then VIRTIO_BLK_T_OUT else VIRTIO_BLK_T_IN), rq_reserved = 0, rq_sector = sector\<rparr>) (\<lambda>ops.
     rbind (index_set (dk_desc d) i0
       \<lparr>vd_addr = ops_at i0, vd_len = 16, vd_flags = virtq_desc_NEXT, vd_next = of_nat i1\<rparr>) (\<lambda>desc.
     rbind (index_set desc i1
       \<lparr>vd_addr = data_at, vd_len = of_nat BSIZE,
        vd_flags = (if wr then 0 else virtq_desc_WRITE) OR virtq_desc_NEXT, vd_next = of_nat i2\<rparr>) (\<lambda>desc.
     rbind (index_set desc i2
       \<lparr>vd_addr = status_at i0, vd_len = 1, vd_flags = virtq_desc_WRITE, vd_next = 0\<rparr>) (\<lambda>desc.
     rbind (index_set (dk_info d) i0 \<lparr>in_buf = Some b, in_status = 0xff\<rparr>) (\<lambda>info.
     rbind (index_set (av_ring (dk_avail d)) (av_idx (dk_avail d) mod NUM) (of_nat i0)) (\<lambda>ring.
     rbind (if av_idx (dk_avail d) + 1 < 2 ^ 16 then Inr (av_idx (dk_avail d) + 1) else Inl Overflow) (\<lambda>idx.
     Inr (d\<lparr>dk_ops := ops, dk_desc := desc, dk_info := info,
            dk_avail := (dk_avail d)\<lparr>av_ring := ring, av_idx := idx\<rparr>\<rparr>))))))))"

text \<open>\<^term>\<open>None\<close>: the process sleeps until a descriptor is free.\<close>

definition rw_submit ::
  "(nat \<Rightarrow> usize) \<Rightarrow> (nat \<Rightarrow> usize) \<Rightarrow> usize \<Rightarrow> bool \<Rightarrow> nat \<Rightarrow> nat \<Rightarrow> Disk \<Rightarrow> (nat option \<times> Disk) rust" where
  "rw_submit ops_at status_at data_at wr blockno b d =
     rbind (umul blockno (BSIZE div 512)) (\<lambda>sector.
     rbind (alloc3_desc d) (\<lambda>(r, d1).
     case r of
       None \<Rightarrow> Inr (None, d1)
     | Some idx \<Rightarrow>
         rbind (rw_format ops_at status_at data_at wr sector b (idx ! 0) (idx ! 1) (idx ! 2) d1) (\<lambda>d2.
         Inr (Some (idx ! 0), d2))))"

text \<open>The condition of the loop that waits for the interrupt, and what follows the loop.\<close>

definition rw_waiting :: "nat \<Rightarrow> Disk \<Rightarrow> bool" where
  "rw_waiting i0 d = (in_buf (dk_info d ! i0) \<noteq> None)"

definition rw_finish :: "nat \<Rightarrow> Disk \<Rightarrow> (nat option \<times> Disk) rust" where
  "rw_finish i0 d =
     rbind (free_chain i0 d) (\<lambda>d1.
     rbind (index (dk_info d1) i0) (\<lambda>inf.
     Inr (in_buf inf, d1\<lparr>dk_info := (dk_info d1)[i0 := inf\<lparr>in_buf := None\<rparr>]\<rparr>)))"

text \<open>The loop of \<^verbatim>\<open>intr\<close>: the buffers that the disk no longer owns, and the queue.\<close>

function intr :: "Disk \<Rightarrow> (nat list \<times> Disk) rust" where
  "intr d =
     (if dk_used_idx d \<noteq> us_idx (dk_used d) then
        rbind (index (us_ring (dk_used d)) (dk_used_idx d mod NUM)) (\<lambda>i.
        rbind (index (dk_info d) i) (\<lambda>inf.
        rbind (if in_status inf \<noteq> 0 then Inl (Panic ''disk intr status'') else Inr ()) (\<lambda>_.
        rbind (unwrap (in_buf inf)) (\<lambda>b.
        if dk_used_idx d + 1 < 2 ^ 16 then
          rbind (intr (d\<lparr>dk_used_idx := dk_used_idx d + 1\<rparr>)) (\<lambda>(bs, d1). Inr (b # bs, d1))
        else Inl Overflow))))
      else Inr ([], d))"
  by pat_completeness auto

termination intr
  by (relation "measure (\<lambda>d. 2 ^ 16 - dk_used_idx d)") simp_all

declare intr.simps [simp del]

text \<open>
  What the device may do to the memory it shares: finish the request of a chain that starts at
  \<open>i\<close>, with the status it writes.
\<close>

definition device_completes :: "nat \<Rightarrow> u8 \<Rightarrow> Disk \<Rightarrow> Disk" where
  "device_completes i st d =
     d\<lparr>dk_info := (dk_info d)[i := (dk_info d ! i)\<lparr>in_status := st\<rparr>],
       dk_used := (dk_used d)\<lparr>us_ring := (us_ring (dk_used d))[us_idx (dk_used d) mod NUM := i],
                              us_idx := (us_idx (dk_used d) + 1) mod 2 ^ 16\<rparr>\<rparr>"

end
