(* ===== verification/VirtioProofs.thy ===== *)
theory VirtioProofs
  imports VirtioDisk
begin

text \<open>
  The virtio driver: what the allocation of descriptors does exactly, that submissions do not
  leave the bounds of the queue, and that a submitted request is waited for without end.
\<close>

section \<open>Free descriptors\<close>

definition free_list :: "bool list \<Rightarrow> nat list" where
  "free_list vs = filter (\<lambda>j. vs ! j) [0..<length vs]"

lemma free_list_Cons: "free_list (v # vs) = (if v then [0] else []) @ map Suc (free_list vs)"
proof -
  have "[0..<length (v # vs)] = 0 # map Suc [0..<length vs]" by (simp add: upt_conv_Cons map_Suc_upt del: upt_Suc)
  then show ?thesis by (simp add: free_list_def filter_map comp_def del: upt_Suc)
qed

lemma first_free_list: "first_free i vs = (case free_list vs of [] \<Rightarrow> None | j # _ \<Rightarrow> Some (i + j))"
proof (induction vs arbitrary: i)
  case (Cons v vs)
  then show ?case by (auto simp: free_list_Cons split: list.splits)
qed (simp add: free_list_def)

lemma free_list_distinct: "distinct (free_list vs)" "j \<in> set (free_list vs) \<longleftrightarrow> j < length vs \<and> vs ! j"
  by (auto simp: free_list_def)

lemma free_list_take: "free_list vs = j # js \<Longrightarrow> free_list (vs[j := False]) = js"
proof -
  assume fl: "free_list vs = j # js"
  have "vs[j := False] ! i \<longleftrightarrow> i \<noteq> j \<and> vs ! i" if "i < length vs" for i
    using that by (cases "i = j") simp_all
  then have "free_list (vs[j := False]) = filter (\<lambda>i. i \<noteq> j \<and> vs ! i) [0..<length vs]"
    unfolding free_list_def by (intro filter_cong) simp_all
  also have "\<dots> = filter (\<lambda>i. i \<noteq> j) (free_list vs)" by (simp add: free_list_def conj_commute)
  also have "\<dots> = js" using free_list_distinct(1)[of vs] fl by (auto intro!: filter_True)
  finally show ?thesis .
qed

lemma free_list_Nil: "free_list vs = [] \<Longrightarrow> vs = replicate (length vs) False"
  by (rule nth_equalityI) (use free_list_distinct(2)[of _ vs] in auto)

lemma alloc_desc_list:
  "alloc_desc d = (case free_list (dk_free d) of [] \<Rightarrow> (None, d) | j # _ \<Rightarrow> (Some j, d\<lparr>dk_free := (dk_free d)[j := False]\<rparr>))"
  by (simp add: alloc_desc_def first_free_list split: list.splits)

text \<open>Clearing the first \<open>k\<close> descriptors.\<close>

definition cleared :: VirtqDesc where
  "cleared = \<lparr>vd_addr = 0, vd_len = 0, vd_flags = 0, vd_next = 0\<rparr>"

lemma free_below_result:
  "j + k \<le> NUM \<Longrightarrow> length (dk_free d) = NUM \<Longrightarrow> length (dk_desc d) = NUM \<Longrightarrow> (\<forall>i<NUM. j \<le> i \<longrightarrow> \<not> dk_free d ! i) \<Longrightarrow>
   free_below j k d = Inr (d\<lparr>dk_desc := map (\<lambda>i. if j \<le> i \<and> i < j + k then cleared else dk_desc d ! i) [0..<NUM],
     dk_free := map (\<lambda>i. j \<le> i \<and> i < j + k \<or> dk_free d ! i) [0..<NUM]\<rparr>)"
proof (induction k arbitrary: j d)
  case 0
  have "map (\<lambda>i. dk_desc d ! i) [0..<NUM] = dk_desc d" "map (\<lambda>i. dk_free d ! i) [0..<NUM] = dk_free d"
    using 0 by (metis map_nth)+
  moreover have "(j \<le> i \<and> i < j + 0) = False" for i by simp
  ultimately show ?case by (simp only: free_below.simps if_False simp_thms) simp
next
  case (Suc k)
  let ?d1 = "d\<lparr>dk_desc := (dk_desc d)[j := cleared], dk_free := (dk_free d)[j := True]\<rparr>"
  have "free_desc j d = Inr ?d1"
    using Suc.prems by (simp add: free_desc_def rassert_def index_def index_set_def cleared_def)
  moreover have "free_below (Suc j) k ?d1 = Inr (?d1\<lparr>
      dk_desc := map (\<lambda>i. if Suc j \<le> i \<and> i < Suc j + k then cleared else dk_desc ?d1 ! i) [0..<NUM],
      dk_free := map (\<lambda>i. Suc j \<le> i \<and> i < Suc j + k \<or> dk_free ?d1 ! i) [0..<NUM]\<rparr>)"
    using Suc.prems by (intro Suc.IH) auto
  moreover have "map (\<lambda>i. if Suc j \<le> i \<and> i < Suc j + k then cleared else dk_desc ?d1 ! i) [0..<NUM] =
      map (\<lambda>i. if j \<le> i \<and> i < j + Suc k then cleared else dk_desc d ! i) [0..<NUM]"
    using Suc.prems by (intro map_cong refl) (auto simp: nth_list_update)
  moreover have "map (\<lambda>i. Suc j \<le> i \<and> i < Suc j + k \<or> dk_free ?d1 ! i) [0..<NUM] =
      map (\<lambda>i. j \<le> i \<and> i < j + Suc k \<or> dk_free d ! i) [0..<NUM]"
    using Suc.prems by (intro map_cong refl) (auto simp: nth_list_update)
  ultimately show ?case by simp
qed

section \<open>Well-formed queues\<close>

definition Disk_ok :: "Disk \<Rightarrow> bool" where
  "Disk_ok d \<longleftrightarrow> length (dk_desc d) = NUM \<and> length (dk_free d) = NUM \<and> length (dk_info d) = NUM \<and> length (dk_ops d) = NUM \<and>
     length (av_ring (dk_avail d)) = NUM \<and> length (us_ring (dk_used d)) = NUM \<and> av_idx (dk_avail d) < 2 ^ 16"

lemma alloc3_success:
  assumes "free_list (dk_free d) = a # b # c # js"
  shows "alloc3_desc d = Inr (Some [a, b, c], d\<lparr>dk_free := (dk_free d)[a := False, b := False, c := False]\<rparr>)"
  using free_list_take[OF assms] free_list_take[of "(dk_free d)[a := False]" b "c # js"] assms
  by (simp add: alloc3_desc_def numeral_3_eq_3 alloc_desc_list)

lemma alloc3_failure:
  assumes ok: "Disk_ok d" and k: "length (free_list (dk_free d)) < 3"
  shows "alloc3_desc d = Inr (None, d\<lparr>dk_desc := map (\<lambda>i. if i < length (free_list (dk_free d)) then cleared else dk_desc d ! i) [0..<NUM],
     dk_free := map (\<lambda>i. i < length (free_list (dk_free d))) [0..<NUM]\<rparr>)"
proof -
  note l = ok[unfolded Disk_ok_def]
  have below: "free_below 0 m (d\<lparr>dk_free := fs\<rparr>) = Inr (d\<lparr>dk_desc := map (\<lambda>i. if i < m then cleared else dk_desc d ! i) [0..<NUM],
     dk_free := map (\<lambda>i. i < m) [0..<NUM]\<rparr>)" if "m \<le> NUM" "free_list fs = []" "length fs = NUM" for m fs
    using free_below_result[of 0 m "d\<lparr>dk_free := fs\<rparr>"] free_list_Nil[OF that(2)] that l by (simp cong: map_cong)
  have up: "\<And>j. length ((dk_free d)[j := False]) = NUM" "\<And>i j. length ((dk_free d)[i := False, j := False]) = NUM" "2 \<le> NUM"
    using l by (simp_all add: NUM_def)
  consider "free_list (dk_free d) = []" | a where "free_list (dk_free d) = [a]" | a b where "free_list (dk_free d) = [a, b]"
    using k by (cases "free_list (dk_free d)"; cases "tl (free_list (dk_free d))"; cases "tl (tl (free_list (dk_free d)))") auto
  then show ?thesis
  proof cases
    case 1
    then show ?thesis using below[of 0 "dk_free d"] l by (simp add: alloc3_desc_def numeral_3_eq_3 alloc_desc_list)
  next
    case (2 a)
    then show ?thesis using below[of 1, OF _ free_list_take[OF 2] up(1)] up(3)
      by (simp add: alloc3_desc_def numeral_3_eq_3 alloc_desc_list free_list_take[OF 2])
  next
    case (3 a b)
    note t = free_list_take[OF 3] free_list_take[OF free_list_take[OF 3]]
    show ?thesis using below[of 2, OF up(3) t(2) up(2)] by (simp add: 3 alloc3_desc_def numeral_3_eq_3 alloc_desc_list t numeral_2_eq_2)
  qed
qed

section \<open>Requests\<close>

inductive disk_step :: "Disk \<Rightarrow> Disk \<Rightarrow> bool" where
  submit: "rw_submit ops_at status_at data_at wr blockno b d = Inr (r, d') \<Longrightarrow> disk_step d d'"
| complete: "i < NUM \<Longrightarrow> disk_step d (device_completes i st d)"
| interrupt: "intr d = Inr (bs, d') \<Longrightarrow> disk_step d d'"
| finish: "\<not> rw_waiting i d \<Longrightarrow> rw_finish i d = Inr (b, d') \<Longrightarrow> disk_step d d'"

lemma alloc3_lists:
  assumes ok: "Disk_ok d"
  obtains (three) a b c where "alloc3_desc d = Inr (Some [a, b, c], d\<lparr>dk_free := (dk_free d)[a := False, b := False, c := False]\<rparr>)"
      "a < NUM" "b < NUM" "c < NUM" "distinct [a, b, c]"
    | (fewer) desc fs where "alloc3_desc d = Inr (None, d\<lparr>dk_desc := desc, dk_free := fs\<rparr>)" "length desc = NUM" "length fs = NUM"
proof (cases "length (free_list (dk_free d)) < 3")
  case True
  from alloc3_failure[OF ok True] show thesis by (rule fewer) simp_all
next
  case False
  then obtain a b c js where fl: "free_list (dk_free d) = a # b # c # js"
    by (cases "free_list (dk_free d)"; cases "tl (free_list (dk_free d))"; cases "tl (tl (free_list (dk_free d)))") auto
  have "set [a, b, c] \<subseteq> set (free_list (dk_free d))" "distinct [a, b, c]" using free_list_distinct(1)[of "dk_free d"] fl by auto
  then show thesis using free_list_distinct(2)[of _ "dk_free d"] ok by (intro three[OF alloc3_success[OF fl]]) (auto simp: Disk_ok_def)
qed

lemma rw_format_result:
  assumes ok: "Disk_ok d" and i: "i0 < NUM" "i1 < NUM" "i2 < NUM"
  shows "rw_format oa sa da wr sector b i0 i1 i2 d = Inl Overflow \<or>
    (\<exists>d'. rw_format oa sa da wr sector b i0 i1 i2 d = Inr d' \<and> Disk_ok d' \<and>
      dk_info d' = (dk_info d)[i0 := \<lparr>in_buf = Some b, in_status = 0xff\<rparr>])"
proof -
  have n: "av_idx (dk_avail d) mod NUM < NUM" by (simp add: NUM_def)
  show ?thesis using ok i n by (auto simp: rw_format_def index_set_def Disk_ok_def)
qed

lemma rw_submit_result:
  assumes ok: "Disk_ok d"
  shows "rw_submit oa sa da wr blockno b d = Inl Overflow \<or>
    (\<exists>r d'. rw_submit oa sa da wr blockno b d = Inr (r, d') \<and> Disk_ok d' \<and>
      (r = None \<and> dk_info d' = dk_info d \<or>
       (\<exists>i0<NUM. r = Some i0 \<and> dk_info d' = (dk_info d)[i0 := \<lparr>in_buf = Some b, in_status = 0xff\<rparr>])))"
proof (cases "umul blockno (BSIZE div 512)")
  case (Inl e)
  then have "e = Overflow" by (auto simp: umul_def split: if_splits)
  then show ?thesis using Inl by (simp add: rw_submit_def)
next
  case (Inr sector)
  show ?thesis using ok
  proof (cases rule: alloc3_lists)
    case (three i0 i1 i2)
    have "Disk_ok (d\<lparr>dk_free := (dk_free d)[i0 := False, i1 := False, i2 := False]\<rparr>)" using ok by (simp add: Disk_ok_def)
    from rw_format_result[OF this three(2-4), of oa sa da wr sector b] show ?thesis
      using three(1,2) Inr by (auto simp: rw_submit_def)
  next
    case (fewer desc fs)
    then show ?thesis using ok Inr by (simp add: rw_submit_def Disk_ok_def)
  qed
qed

lemma intr_queue: "intr d = Inr (bs, d') \<Longrightarrow> dk_info d' = dk_info d \<and> (Disk_ok d \<longrightarrow> Disk_ok d')"
proof (induction d arbitrary: bs d' rule: intr.induct)
  case (1 d)
  show ?case
  proof (cases "dk_used_idx d = us_idx (dk_used d)")
    case True
    then show ?thesis using 1(2) by (simp add: intr.simps[of d])
  next
    case False
    then obtain i inf b bs' where r: "index (us_ring (dk_used d)) (dk_used_idx d mod NUM) = Inr i" "index (dk_info d) i = Inr inf"
      "in_status inf = 0" "in_buf inf = Some b" "dk_used_idx d + 1 < 2 ^ 16" "intr (d\<lparr>dk_used_idx := dk_used_idx d + 1\<rparr>) = Inr (bs', d')"
      using 1(2) by (subst (asm) intr.simps) (auto split: if_splits)
    from 1(1)[OF _ r(1,2) _ _ r(5,6)] False r(3,4) show ?thesis by (simp add: Disk_ok_def)
  qed
qed

lemma free_chain_queue: "free_chain i d = Inr d' \<Longrightarrow> dk_info d' = dk_info d \<and> (Disk_ok d \<longrightarrow> Disk_ok d')"
proof (induction i d arbitrary: d' rule: free_chain.induct)
  case (1 i d)
  have i: "i < length (dk_desc d)" using 1(2) by (subst (asm) free_chain.simps) (simp split: if_splits)
  obtain d1 where d1: "free_desc i d = Inr d1"
    using 1(2) i by (subst (asm) free_chain.simps) (auto split: sum.splits)
  have s: "dk_info d1 = dk_info d" "Disk_ok d \<Longrightarrow> Disk_ok d1"
    using d1 by (auto simp: free_desc_def index_set_def Disk_ok_def split: if_splits)
  show ?case
  proof (cases "vd_flags (dk_desc d ! i) AND virtq_desc_NEXT \<noteq> 0")
    case True
    then have "free_chain (unat (vd_next (dk_desc d ! i))) d1 = Inr d'"
      using 1(2) i d1 by (subst (asm) free_chain.simps) simp
    from 1(1)[OF _ d1 True this] i s show ?thesis by simp
  next
    case False
    then have "d' = d1" using 1(2) i d1 by (subst (asm) free_chain.simps) simp
    then show ?thesis using s by simp
  qed
qed

lemma disk_step_queue:
  assumes "disk_step d d'" and ok: "Disk_ok d"
  shows "Disk_ok d' \<and> (\<forall>i<NUM. rw_waiting i d \<longrightarrow> rw_waiting i d')"
  using assms(1)
proof cases
  case (submit oa sa da wr blockno b r)
  then show ?thesis using rw_submit_result[OF ok, of oa sa da wr blockno b] ok
    by (auto simp: rw_waiting_def Disk_ok_def nth_list_update)
next
  case (complete i st)
  then show ?thesis using ok by (auto simp: device_completes_def rw_waiting_def Disk_ok_def nth_list_update)
next
  case (interrupt bs)
  then show ?thesis using intr_queue[OF interrupt] ok by (simp add: rw_waiting_def)
next
  case (finish i b)
  then obtain d1 inf where d1: "free_chain i d = Inr d1" "index (dk_info d1) i = Inr inf"
    "d' = d1\<lparr>dk_info := (dk_info d1)[i := inf\<lparr>in_buf := None\<rparr>]\<rparr>" by (auto simp: rw_finish_def)
  have "rw_waiting j d'" if "rw_waiting j d" for j
  proof -
    have "j \<noteq> i" using that finish(1) by auto
    then show ?thesis using that free_chain_queue[OF d1(1)] d1(3) by (simp add: rw_waiting_def)
  qed
  then show ?thesis using free_chain_queue[OF d1(1)] ok d1(3) by (simp add: Disk_ok_def)
qed

lemma disk_steps_queue:
  "disk_step\<^sup>*\<^sup>* d d' \<Longrightarrow> Disk_ok d \<Longrightarrow> Disk_ok d' \<and> (\<forall>i<NUM. rw_waiting i d \<longrightarrow> rw_waiting i d')"
  by (induction rule: rtranclp_induct) (auto dest: disk_step_queue)

lemma Disk_init_ok: "Disk_init rd st a b c Disk_new = Inr (ws, d) \<Longrightarrow> Disk_ok d"
  by (auto simp: Disk_init_def Disk_new_def Disk_ok_def VirtqAvail_new_def VirtqUsed_new_def Let_def split: if_splits)

section \<open>Properties\<close>

text \<open>A device that passes the checks.\<close>

definition demo_regs :: "VirtioMMIO \<Rightarrow> u32" where
  "demo_regs r = (case r of MagicValue \<Rightarrow> 0x74726976 | Version \<Rightarrow> 2 | DeviceId \<Rightarrow> 2 | VenderId \<Rightarrow> 0x554d4551 | QueueNumMax \<Rightarrow> 1024 | _ \<Rightarrow> 0)"

lemma demo_init: "\<exists>ws. Disk_init demo_regs 11 0 0 0 Disk_new = Inr (ws, Disk_new\<lparr>dk_free := replicate NUM True\<rparr>)"
proof -
  have "(11 :: u32) AND virtio_status_FEATURES_OK \<noteq> 0" by (simp add: virtio_status_FEATURES_OK_def)
  then show ?thesis by (simp add: Disk_init_def demo_regs_def Let_def rassert_def Disk_new_def NUM_def)
qed

text \<open>
  (C36) A request is waited for without end: once it is submitted, no completion by the device, no
  interrupt and no other request ever makes the condition of the wait loop of \<^verbatim>\<open>rw\<close> false, since
  the interrupt handler leaves the buffer in place.
\<close>

theorem rw_never_returns:
  assumes "Disk_ok d" and "rw_submit ops_at status_at data_at wr blockno b d = Inr (Some i0, d0)" and "disk_step\<^sup>*\<^sup>* d0 d1"
  shows "rw_waiting i0 d1"
proof -
  from rw_submit_result[OF assms(1), of ops_at status_at data_at wr blockno b] assms(2)
  have s: "Disk_ok d0" "i0 < NUM" "dk_info d0 = (dk_info d)[i0 := \<lparr>in_buf = Some b, in_status = 0xff\<rparr>]" by auto
  have "rw_waiting i0 d0" using s assms(1) by (simp add: rw_waiting_def Disk_ok_def)
  then show ?thesis using disk_steps_queue[OF assms(3) s(1)] s(2) by blast
qed

theorem rw_never_returns_witness:
  "\<exists>d0. rw_submit (\<lambda>_. 0) (\<lambda>_. 0) 0 False 3 9 (Disk_new\<lparr>dk_free := replicate NUM True\<rparr>) = Inr (Some 0, d0) \<and>
     rw_waiting 0 (device_completes 0 0 d0)"
proof -
  let ?d = "Disk_new\<lparr>dk_free := replicate NUM True\<rparr>"
  have ok: "Disk_ok ?d" using demo_init Disk_init_ok by blast
  have "free_list (replicate NUM True) = 0 # 1 # 2 # [3..<NUM]" by (simp add: free_list_def NUM_def upt_conv_Cons)
  then obtain d0 where s: "rw_submit (\<lambda>_. 0) (\<lambda>_. 0) 0 False 3 9 ?d = Inr (Some 0, d0)"
    using alloc3_success[of ?d 0 1 2]
    by (auto simp: rw_submit_def umul_def BSIZE_def rw_format_def index_set_def Disk_new_def NUM_def VirtqAvail_new_def)
  have "disk_step\<^sup>*\<^sup>* d0 (device_completes 0 0 d0)"
    by (rule r_into_rtranclp[of disk_step], rule disk_step.complete) (simp add: NUM_def)
  from rw_never_returns[OF ok s this] s show ?thesis by blast
qed

text \<open>
  (C24) The allocation of three descriptors, exactly: with three free ones it takes the first three;
  with \<open>k\<close> fewer it fails and afterwards the descriptors \<open>0\<close> to \<open>k - 1\<close> are free and all others
  in use, whichever were free before, because the loop that gives back what was taken frees by the
  counter and not by the index that was stored.
\<close>

theorem alloc3_desc_exact:
  assumes "Disk_ok d"
  shows "alloc3_desc d =
    (case free_list (dk_free d) of
       a # b # c # _ \<Rightarrow> Inr (Some [a, b, c], d\<lparr>dk_free := (dk_free d)[a := False, b := False, c := False]\<rparr>)
     | fl \<Rightarrow> Inr (None, d\<lparr>dk_desc := map (\<lambda>i. if i < length fl then cleared else dk_desc d ! i) [0..<NUM],
                          dk_free := map (\<lambda>i. i < length fl) [0..<NUM]\<rparr>))"
  using alloc3_success[of d] alloc3_failure[OF assms] by (auto split: list.splits)

text \<open>Only descriptor 5 is free: the failed allocation frees descriptor 0 and loses 5.\<close>

theorem alloc3_desc_exact_witness:
  "\<exists>d1. alloc3_desc (Disk_new\<lparr>dk_free := (replicate NUM False)[5 := True]\<rparr>) = Inr (None, d1) \<and> dk_free d1 = (replicate NUM False)[0 := True]"
proof -
  let ?d = "Disk_new\<lparr>dk_free := (replicate NUM False)[5 := True]\<rparr>"
  have ok: "Disk_ok ?d" by (simp add: Disk_ok_def Disk_new_def VirtqAvail_new_def VirtqUsed_new_def)
  have "free_list ((replicate NUM False)[5 := True]) = [5]" by code_simp
  moreover have "map (\<lambda>i. i < length [5]) [0..<NUM] = (replicate NUM False)[0 := True]" by code_simp
  ultimately show ?thesis using alloc3_desc_exact[OF ok] by simp
qed

end
