(* ===== verification/Ring.thy ===== *)
theory Ring
  imports OctoxPrelude
begin

text \<open>
  Ring buffers with free-running indices: an array of \<open>N\<close> bytes, indexed modulo \<open>N\<close> by counters of
  64 bits that wrap around. The serial port and the console have one each. The laws hold for every
  size that divides the range of the counters.
\<close>

definition ring_content :: "nat \<Rightarrow> u8 list \<Rightarrow> usize \<Rightarrow> nat \<Rightarrow> u8 list" where
  "ring_content N b r n = map (\<lambda>i. b ! (unat (r + of_nat i) mod N)) [0..<n]"

text \<open>The bytes between the read counter and the write counter.\<close>

definition ring_between :: "nat \<Rightarrow> u8 list \<Rightarrow> usize \<Rightarrow> usize \<Rightarrow> u8 list" where
  "ring_between N b r w = ring_content N b r (unat (w - r))"

lemma unat_inc_diff: "w \<noteq> r \<Longrightarrow> unat (w - (r + 1)) = unat (w - r) - (1 :: nat)" for w r :: usize
proof -
  assume "w \<noteq> r"
  then have "w - r \<noteq> 0" by simp
  then have "unat (w - r - 1) = unat (w - r) - 1" by (rule unat_minus_one)
  then show ?thesis by (simp add: algebra_simps)
qed

lemma unat_diff_zero_iff: "unat (w - r) = 0 \<longleftrightarrow> w = r" for w r :: usize
  by (simp add: unat_eq_0)

lemma unat_diff_Suc: "unat (w - r) < 2 ^ 64 - 1 \<Longrightarrow> unat (w + 1 - r) = Suc (unat (w - r))" for w r :: usize
proof -
  assume a: "unat (w - r) < 2 ^ 64 - 1"
  have "w + 1 - r = 1 + (w - r)" by (simp add: algebra_simps)
  moreover have "unat (1 + (w - r)) = Suc (unat (w - r))"
    using a by (subst unatSuc) (auto simp: word_unat_eq_iff unat_word_ariths)
  ultimately show ?thesis by (simp only:)
qed

locale ring_size =
  fixes N :: nat
  assumes pos: "0 < N" and fits: "N < 2 ^ 63" and divides: "N dvd 2 ^ 64"
begin

lemma unat_add_mod: "unat (r + of_nat i) mod N = (unat r + i) mod N" for r :: usize
proof -
  have "unat (r + of_nat i) = (unat r + i) mod 2 ^ 64"
    by (simp add: unat_word_ariths unat_of_nat mod_simps)
  then show ?thesis using divides by (simp add: mod_mod_cancel)
qed

lemma slot_neq: "i < n \<Longrightarrow> n < N \<Longrightarrow> (k + i) mod N \<noteq> (k + n) mod N"
proof
  assume i: "i < n" "n < N" and e: "(k + i) mod N = (k + n) mod N"
  then have "N dvd (k + n) - (k + i)" by (metis mod_eq_dvd_iff_nat add_le_cancel_left less_imp_le)
  then have "N dvd n - i" by simp
  then show False using i by (auto dest: dvd_imp_le)
qed

lemma ring_push:
  assumes "length b = N" and "n < N"
  shows "ring_content N (b[unat (r + of_nat n) mod N := c]) r (Suc n) = ring_content N b r n @ [c]"
proof (rule nth_equalityI)
  fix i assume "i < length (ring_content N (b[unat (r + of_nat n) mod N := c]) r (Suc n))"
  then have i: "i < Suc n" by (simp add: ring_content_def del: upt_Suc)
  show "ring_content N (b[unat (r + of_nat n) mod N := c]) r (Suc n) ! i = (ring_content N b r n @ [c]) ! i"
    using i assms pos slot_neq[of i n "unat r"]
    by (cases "i = n") (auto simp: ring_content_def nth_append unat_add_mod simp del: upt_Suc)
qed (simp add: ring_content_def)

lemma ring_pop: "ring_content N b r (Suc n) = b ! (unat r mod N) # ring_content N b (r + 1) n"
proof -
  have "ring_content N b r (Suc n) = b ! (unat (r + of_nat 0) mod N) # map (\<lambda>i. b ! (unat (r + of_nat (Suc i)) mod N)) [0..<n]"
    unfolding ring_content_def by (simp add: upt_conv_Cons map_Suc_upt[symmetric] comp_def del: upt_Suc map_Suc_upt)
  then show ?thesis by (simp add: ring_content_def add.assoc)
qed

lemma ring_drop_last: "ring_content N b r n = take n (ring_content N b r (Suc n))"
  by (simp add: ring_content_def)

text \<open>Push and pop by the counters.\<close>

lemma between_push:
  assumes "length b = N" and "unat (w - r) < N"
  shows "ring_between N (b[unat w mod N := c]) r (w + 1) = ring_between N b r w @ [c]"
proof -
  have "unat (w + 1 - r) = Suc (unat (w - r))" using assms(2) fits by (intro unat_diff_Suc) simp
  moreover have "r + of_nat (unat (w - r)) = w" by simp
  ultimately show ?thesis using ring_push[OF assms, of r c] by (simp only: ring_between_def)
qed

lemma between_pop:
  assumes "w \<noteq> r"
  shows "ring_between N b r w = b ! (unat r mod N) # ring_between N b (r + 1) w"
proof -
  have "unat (w - r) \<noteq> 0" using assms by (simp add: unat_diff_zero_iff)
  then obtain n where n: "unat (w - r) = Suc n" using not0_implies_Suc by blast
  then show ?thesis using ring_pop[of b r n] unat_inc_diff[OF assms] by (simp add: ring_between_def)
qed

lemma between_empty: "ring_between N b r r = []"
  by (simp add: ring_between_def ring_content_def)

lemma length_between [simp]: "length (ring_between N b r w) = unat (w - r)"
  by (simp add: ring_between_def ring_content_def)

lemma between_unpush:
  assumes "w \<noteq> r"
  shows "ring_between N b r (w - 1) = butlast (ring_between N b r w)" "ring_between N b r w \<noteq> []"
    "last (ring_between N b r w) = b ! (unat (w - 1) mod N)"
proof -
  have "unat (w - r) \<noteq> 0" using assms by (simp add: unat_diff_zero_iff)
  then obtain n where n: "unat (w - r) = Suc n" using not0_implies_Suc by blast
  have "w - r \<noteq> 0" using assms by simp
  then have "unat (w - r - 1) = unat (w - r) - 1" by (rule unat_minus_one)
  then have m: "unat (w - 1 - r) = n" using n by (simp add: algebra_simps)
  then show "ring_between N b r (w - 1) = butlast (ring_between N b r w)" using n by (simp add: ring_between_def ring_content_def)
  show "ring_between N b r w \<noteq> []" using n by (simp add: ring_between_def ring_content_def)
  have "r + of_nat n = w - 1" unfolding m[symmetric] by simp
  then show "last (ring_between N b r w) = b ! (unat (w - 1) mod N)" using n by (simp add: ring_between_def ring_content_def)
qed

end

end
