(* ===== verification/Tty.thy ===== *)
theory Tty
  imports Ring
begin

text \<open>
  \<^verbatim>\<open>src/kernel/uart.rs\<close> and \<^verbatim>\<open>src/kernel/console.rs\<close>: the serial port and the console. What the
  line status register returns at the \<open>k\<close>-th read is an argument, what is written to the device is
  a list. Functions that may sleep return to their caller at that point.
\<close>

section \<open>Serial port\<close>

definition IER_RX_ENABLE :: u8 where "IER_RX_ENABLE = push_bit 0 1"
definition IER_TX_ENABLE :: u8 where "IER_TX_ENABLE = push_bit 1 1"
definition FCR_FIFO_ENABLE :: u8 where "FCR_FIFO_ENABLE = push_bit 0 1"
definition FCR_FIFO_CLEAR :: u8 where "FCR_FIFO_CLEAR = push_bit 1 3"
definition LCR_EIGHT_BITS :: u8 where "LCR_EIGHT_BITS = push_bit 0 3"
definition LCR_BAUD_LATCH :: u8 where "LCR_BAUD_LATCH = push_bit 7 1"
definition LSR_TX_IDLE :: u8 where "LSR_TX_IDLE = push_bit 5 1"

definition UART_TX_BUF_SIZE :: nat where "UART_TX_BUF_SIZE = 32"

record Uart =
  ua_base :: nat
  ua_buf :: "u8 list"
  ua_w :: usize
  ua_r :: usize

datatype Register = RBR | THR | IER | IIR | FCR | LCR | LSR

fun Register_addr :: "Register \<Rightarrow> nat \<Rightarrow> nat" where
  "Register_addr RBR base = base + 0"
| "Register_addr THR base = base + 0"
| "Register_addr IER base = base + 1"
| "Register_addr IIR base = base + 2"
| "Register_addr FCR base = base + 2"
| "Register_addr LCR base = base + 3"
| "Register_addr LSR base = base + 5"

definition Uart_new :: "nat \<Rightarrow> Uart" where
  "Uart_new base = \<lparr>ua_base = base, ua_buf = replicate UART_TX_BUF_SIZE 0, ua_w = 0, ua_r = 0\<rparr>"

definition Uart_init :: "(Register \<times> u8) list" where
  "Uart_init = [(IER, 0), (LCR, LCR_BAUD_LATCH), (RBR, 3), (IER, 0), (LCR, LCR_EIGHT_BITS),
     (FCR, FCR_FIFO_ENABLE OR FCR_FIFO_CLEAR), (IER, IER_TX_ENABLE OR IER_RX_ENABLE)]"

text \<open>\<^verbatim>\<open>start\<close>: the bytes it sends; \<open>lsr\<close> gives the status at the \<open>k\<close>-th read.\<close>

function Uart_start :: "(nat \<Rightarrow> u8) \<Rightarrow> nat \<Rightarrow> Uart \<Rightarrow> u8 list \<times> Uart" where
  "Uart_start lsr k u =
     (if ua_w u = ua_r u then ([], u)
      else if lsr k AND LSR_TX_IDLE = 0 then ([], u)
      else
        let c = ua_buf u ! (unat (ua_r u) mod UART_TX_BUF_SIZE);
            (cs, u1) = Uart_start lsr (Suc k) (u\<lparr>ua_r := ua_r u + 1\<rparr>)
        in (c # cs, u1))"
  by pat_completeness auto

termination Uart_start
proof (relation "measure (\<lambda>(lsr, k, u). unat (ua_w u - ua_r u))")
  fix lsr :: "nat \<Rightarrow> u8" and k and u :: Uart
  assume "ua_w u \<noteq> ua_r u"
  then show "((lsr, Suc k, u\<lparr>ua_r := ua_r u + 1\<rparr>), lsr, k, u) \<in> measure (\<lambda>(lsr, k, u). unat (ua_w u - ua_r u))"
    using unat_inc_diff[of "ua_w u" "ua_r u"] unat_diff_zero_iff[of "ua_w u" "ua_r u"] by simp
qed simp

declare Uart_start.simps [simp del]

text \<open>One turn of \<^verbatim>\<open>putc\<close>: \<^term>\<open>None\<close> when the buffer is full and the process sleeps.\<close>

definition Uart_putc :: "(nat \<Rightarrow> u8) \<Rightarrow> u8 \<Rightarrow> Uart \<Rightarrow> (u8 list \<times> Uart) option" where
  "Uart_putc lsr c u =
     (if ua_w u = ua_r u + of_nat UART_TX_BUF_SIZE then None
      else Some (Uart_start lsr 0
        (u\<lparr>ua_buf := (ua_buf u)[unat (ua_w u) mod UART_TX_BUF_SIZE := c], ua_w := ua_w u + 1\<rparr>)))"

definition Uart_getc :: "u8 \<Rightarrow> u8 \<Rightarrow> u8 option" where
  "Uart_getc lsr rbr = (if lsr AND 1 \<noteq> 0 then Some rbr else None)"

text \<open>\<^verbatim>\<open>putc_sync\<close> once the line is idle: the byte it writes.\<close>

definition putc_sync :: "u8 \<Rightarrow> u8 list" where
  "putc_sync c = [c]"

section \<open>Console\<close>

definition BS :: u8 where "BS = 0x08"

definition ctrl :: "u8 \<Rightarrow> u8" where
  "ctrl x = x - 0x40"

definition INPUT_BUF_SIZE :: nat where "INPUT_BUF_SIZE = 128"

record Cons =
  co_buf :: "u8 list"
  co_r :: usize
  co_w :: usize
  co_e :: usize

definition Cons_new :: Cons where
  "Cons_new = \<lparr>co_buf = replicate INPUT_BUF_SIZE 0, co_r = 0, co_w = 0, co_e = 0\<rparr>"

text \<open>The characters D, H, P, U, line feed, carriage return and delete.\<close>

definition ch_D :: u8 where "ch_D = 0x44"
definition ch_H :: u8 where "ch_H = 0x48"
definition ch_P :: u8 where "ch_P = 0x50"
definition ch_U :: u8 where "ch_U = 0x55"
definition LF :: u8 where "LF = 0x0a"
definition CR :: u8 where "CR = 0x0d"
definition DEL :: u8 where "DEL = 0x7f"

definition cons_putc :: "u8 \<Rightarrow> u8 list" where
  "cons_putc c =
     (if c = ctrl ch_H then putc_sync BS @ putc_sync 0x20 @ putc_sync BS else putc_sync c)"

text \<open>The loop that erases a line: what it echoes.\<close>

function kill_line :: "Cons \<Rightarrow> u8 list \<times> Cons" where
  "kill_line c =
     (if co_e c \<noteq> co_w c \<and> co_buf c ! (unat (co_e c - 1) mod INPUT_BUF_SIZE) \<noteq> LF then
        let (out, c1) = kill_line (c\<lparr>co_e := co_e c - 1\<rparr>) in (cons_putc (ctrl ch_H) @ out, c1)
      else ([], c))"
  by pat_completeness auto

lemma unat_dec_diff: "e \<noteq> w \<Longrightarrow> unat (e - 1 - w) < unat (e - w)" for e w :: usize
proof -
  assume "e \<noteq> w"
  then have n: "e - w \<noteq> 0" by simp
  then have "unat (e - w - 1) = unat (e - w) - 1" "unat (e - w) \<noteq> 0" using unat_minus_one[OF n] n by (simp_all add: unat_eq_0)
  then show ?thesis by (simp add: algebra_simps)
qed

termination kill_line
  by (relation "measure (\<lambda>c. unat (co_e c - co_w c))") (simp_all add: unat_dec_diff)

declare kill_line.simps [simp del]

text \<open>
  The interrupt handler: what it echoes, the console, and whether it wakes the reader. For the
  request of the process list it only prints.
\<close>

definition Cons_intr :: "u8 \<Rightarrow> Cons \<Rightarrow> u8 list \<times> Cons \<times> bool" where
  "Cons_intr c s =
     (if c = ctrl ch_P then ([], s, False)
      else if c = ctrl ch_U then (let (out, s1) = kill_line s in (out, s1, False))
      else if c = (ctrl ch_H OR DEL) then
        (if co_e s \<noteq> co_w s then (cons_putc (ctrl ch_H), s\<lparr>co_e := co_e s - 1\<rparr>, False) else ([], s, False))
      else if c \<noteq> 0 \<and> unat (co_e s - co_r s) < INPUT_BUF_SIZE then
        let c1 = (if c = CR then LF else c);
            s1 = s\<lparr>co_buf := (co_buf s)[unat (co_e s) mod INPUT_BUF_SIZE := c1], co_e := co_e s + 1\<rparr>
        in if c1 = LF \<or> c1 = ctrl ch_D \<or> unat (co_e s1 - co_r s1) = INPUT_BUF_SIZE
           then (cons_putc c1, s1\<lparr>co_w := co_e s1\<rparr>, True)
           else (cons_putc c1, s1, False)
      else ([], s, False))"

text \<open>
  \<^verbatim>\<open>read\<close> from the point where \<open>n\<close> bytes are wanted: it ends with the number of bytes, with an
  error, or it sleeps with \<open>n\<close> bytes still wanted. \<open>copy\<close> says whether the copy of a byte to the
  user succeeds at an offset; the bytes copied are the list.
\<close>

datatype read_end = Returned nat | Failed | Sleeping nat

fun Cons_read :: "(nat \<Rightarrow> u8 \<Rightarrow> bool) \<Rightarrow> bool \<Rightarrow> nat \<Rightarrow> nat \<Rightarrow> Cons \<Rightarrow> read_end \<times> u8 list \<times> Cons" where
  "Cons_read copy killed target 0 s = (Returned target, [], s)"
| "Cons_read copy killed target (Suc n) s =
     (if co_r s = co_w s then (if killed then Failed else Sleeping (Suc n), [], s)
      else
        let c = co_buf s ! (unat (co_r s) mod INPUT_BUF_SIZE);
            s1 = s\<lparr>co_r := co_r s + 1\<rparr>
        in if c = ctrl ch_D then
             (Returned (target - Suc n), [], if Suc n < target then s1\<lparr>co_r := co_r s1 - 1\<rparr> else s1)
           else if \<not> copy (target - Suc n) c then (Returned (target - Suc n), [], s1)
           else if c = LF then (Returned (target - n), [c], s1)
           else let (r, cs, s2) = Cons_read copy killed target n s1 in (r, c # cs, s2))"

text \<open>\<^verbatim>\<open>write\<close>: the loop over \<^verbatim>\<open>0..n\<close>; \<open>byte\<close> is the byte at \<^verbatim>\<open>src\<close>, or \<^term>\<open>None\<close>.\<close>

fun Cons_write :: "u8 option \<Rightarrow> nat \<Rightarrow> nat \<Rightarrow> nat \<times> u8 list" where
  "Cons_write byte i 0 = (i, [])"
| "Cons_write byte i (Suc k) =
     (case byte of
        None \<Rightarrow> (i, [])
      | Some c \<Rightarrow> let (r, out) = Cons_write byte (Suc i) k in (r, cons_putc c @ out))"

text \<open>The interrupt handler of the serial port: one input byte, then the bytes that wait.\<close>

definition Uart_intr :: "u8 \<Rightarrow> u8 \<Rightarrow> (nat \<Rightarrow> u8) \<Rightarrow> Uart \<Rightarrow> Cons \<Rightarrow> u8 list \<times> Uart \<times> Cons" where
  "Uart_intr lsr0 rbr lsr u s =
     (let (echo, s1) = (case Uart_getc lsr0 rbr of
            Some c \<Rightarrow> (let (out, s1, wake) = Cons_intr c s in (out, s1))
          | None \<Rightarrow> ([], s));
          (sent, u1) = Uart_start lsr 0 u
      in (echo @ sent, u1, s1))"

end
