(* ===== verification/TtyProofs.thy ===== *)
theory TtyProofs
  imports Tty
begin

text \<open>
  The serial port as a queue of bytes, and the console as two strings, the input that readers may
  have and the line that is still edited.
\<close>

interpretation uart_ring: ring_size UART_TX_BUF_SIZE
  by unfold_locales (simp_all add: UART_TX_BUF_SIZE_def)

interpretation cons_ring: ring_size INPUT_BUF_SIZE
  by unfold_locales (simp_all add: INPUT_BUF_SIZE_def)

section \<open>Serial port\<close>

definition uart_queue :: "Uart \<Rightarrow> u8 list" where
  "uart_queue u = ring_between UART_TX_BUF_SIZE (ua_buf u) (ua_r u) (ua_w u)"

definition Uart_ok :: "Uart \<Rightarrow> bool" where
  "Uart_ok u \<longleftrightarrow> length (ua_buf u) = UART_TX_BUF_SIZE \<and> unat (ua_w u - ua_r u) \<le> UART_TX_BUF_SIZE"

lemma Uart_start_queue:
  "Uart_ok u \<Longrightarrow> Uart_start lsr k u = (cs, u1) \<Longrightarrow> Uart_ok u1 \<and> cs @ uart_queue u1 = uart_queue u \<and> ua_base u1 = ua_base u"
proof (induction lsr k u arbitrary: cs u1 rule: Uart_start.induct)
  case (1 lsr k u)
  show ?case
  proof (cases "ua_w u = ua_r u \<or> lsr k AND LSR_TX_IDLE = 0")
    case True
    then have "cs = [] \<and> u1 = u" using 1(3) by (subst (asm) Uart_start.simps) (auto split: if_splits)
    then show ?thesis using 1(2) by simp
  next
    case False
    then have ne: "ua_w u \<noteq> ua_r u" "lsr k AND LSR_TX_IDLE \<noteq> 0" by auto
    let ?u = "u\<lparr>ua_r := ua_r u + 1\<rparr>"
    obtain ds u2 where s: "Uart_start lsr (Suc k) ?u = (ds, u2)" by (cases "Uart_start lsr (Suc k) ?u")
    then have r: "cs = ua_buf u ! (unat (ua_r u) mod UART_TX_BUF_SIZE) # ds" "u1 = u2"
      using 1(3) ne by (auto simp: Uart_start.simps[of lsr k u] Let_def)
    have "Uart_ok ?u" using 1(2) unat_inc_diff[OF ne(1)] by (auto simp: Uart_ok_def)
    from 1(1)[OF ne refl this s] uart_ring.between_pop[OF ne(1), of "ua_buf u"] r
    show ?thesis by (simp add: uart_queue_def)
  qed
qed

lemma Uart_full: "Uart_ok u \<Longrightarrow> ua_w u = ua_r u + of_nat UART_TX_BUF_SIZE \<longleftrightarrow> length (uart_queue u) = UART_TX_BUF_SIZE"
proof -
  have "ua_w u = ua_r u + of_nat UART_TX_BUF_SIZE \<longleftrightarrow> ua_w u - ua_r u = of_nat UART_TX_BUF_SIZE"
    by (metis add_diff_cancel_left' diff_add_cancel add.commute)
  also have "\<dots> \<longleftrightarrow> unat (ua_w u - ua_r u) = UART_TX_BUF_SIZE"
    by (simp add: word_unat_eq_iff unat_of_nat UART_TX_BUF_SIZE_def)
  finally show ?thesis by (simp add: uart_queue_def)
qed

lemma Uart_putc_queue:
  assumes ok: "Uart_ok u" and p: "Uart_putc lsr c u = Some (cs, u1)"
  shows "Uart_ok u1 \<and> cs @ uart_queue u1 = uart_queue u @ [c]"
proof -
  let ?u = "u\<lparr>ua_buf := (ua_buf u)[unat (ua_w u) mod UART_TX_BUF_SIZE := c], ua_w := ua_w u + 1\<rparr>"
  have s: "Uart_start lsr 0 ?u = (cs, u1)" and nf: "ua_w u \<noteq> ua_r u + of_nat UART_TX_BUF_SIZE"
    using p by (auto simp: Uart_putc_def split: if_splits)
  have lt: "unat (ua_w u - ua_r u) < UART_TX_BUF_SIZE"
    using nf ok Uart_full[OF ok] by (simp add: Uart_ok_def uart_queue_def)
  then have "unat (ua_w u + 1 - ua_r u) = Suc (unat (ua_w u - ua_r u))"
    by (intro unat_diff_Suc) (simp add: UART_TX_BUF_SIZE_def)
  then have ok': "Uart_ok ?u" using ok lt by (simp add: Uart_ok_def)
  have "uart_queue ?u = uart_queue u @ [c]"
    using uart_ring.between_push[OF _ lt, of "ua_buf u" c] ok by (simp add: uart_queue_def Uart_ok_def)
  then show ?thesis using Uart_start_queue[OF ok' s] by simp
qed

section \<open>Console\<close>

definition Cons_ok :: "Cons \<Rightarrow> bool" where
  "Cons_ok s \<longleftrightarrow> length (co_buf s) = INPUT_BUF_SIZE \<and> unat (co_w s - co_r s) + unat (co_e s - co_w s) \<le> INPUT_BUF_SIZE \<and>
     (\<forall>c\<in>set (ring_between INPUT_BUF_SIZE (co_buf s) (co_w s) (co_e s)). c \<noteq> LF)"

text \<open>The input that readers may have, and the line that is edited.\<close>

definition cons_lines :: "Cons \<Rightarrow> u8 list \<times> u8 list" where
  "cons_lines s = (ring_between INPUT_BUF_SIZE (co_buf s) (co_r s) (co_w s),
                   ring_between INPUT_BUF_SIZE (co_buf s) (co_w s) (co_e s))"

text \<open>What a character does to them.\<close>

definition type_char :: "u8 \<Rightarrow> u8 list \<times> u8 list \<Rightarrow> u8 list \<times> u8 list" where
  "type_char c = (\<lambda>(ready, edit).
     if c = ctrl ch_P then (ready, edit)
     else if c = ctrl ch_U then (ready, [])
     else if c = DEL then (ready, butlast edit)
     else if c = 0 \<or> length ready + length edit = INPUT_BUF_SIZE then (ready, edit)
     else let c1 = (if c = CR then LF else c)
          in if c1 = LF \<or> c1 = ctrl ch_D \<or> length ready + length edit + 1 = INPUT_BUF_SIZE
             then (ready @ edit @ [c1], [])
             else (ready, edit @ [c1]))"

text \<open>What the handler echoes: an erasure for each character taken away, or the character stored.\<close>

definition type_echo :: "u8 \<Rightarrow> u8 list \<times> u8 list \<Rightarrow> u8 list" where
  "type_echo c = (\<lambda>(ready, edit).
     if c = ctrl ch_P then []
     else if c = ctrl ch_U then concat (replicate (length edit) (cons_putc (ctrl ch_H)))
     else if c = DEL then (if edit = [] then [] else cons_putc (ctrl ch_H))
     else if c = 0 \<or> length ready + length edit = INPUT_BUF_SIZE then []
     else cons_putc (if c = CR then LF else c))"

text \<open>What a turn of a reader does to the input that readers may have.\<close>

fun line_read :: "(nat \<Rightarrow> u8 \<Rightarrow> bool) \<Rightarrow> bool \<Rightarrow> nat \<Rightarrow> nat \<Rightarrow> u8 list \<Rightarrow> read_end \<times> u8 list \<times> u8 list" where
  "line_read copy killed target 0 q = (Returned target, [], q)"
| "line_read copy killed target (Suc n) [] = (if killed then Failed else Sleeping (Suc n), [], [])"
| "line_read copy killed target (Suc n) (c # q) =
     (if c = ctrl ch_D then (Returned (target - Suc n), [], if Suc n < target then c # q else q)
      else if \<not> copy (target - Suc n) c then (Returned (target - Suc n), [], q)
      else if c = LF then (Returned (target - n), [c], q)
      else let (r, cs, q1) = line_read copy killed target n q in (r, c # cs, q1))"

text \<open>
  The users of the console: a character that arrives, and a turn of a reader that waits for \<open>n\<close> of
  \<open>target\<close> bytes. Each has a result: the echo and whether readers are woken, or how the turn ends
  and the bytes the user got. A run on the ring and a run on the two strings.
\<close>

datatype cons_event = Typed u8 | Reads "nat \<Rightarrow> u8 \<Rightarrow> bool" bool nat nat
datatype cons_result = Echoed "u8 list" bool | Got read_end "u8 list"

fun cons_event_step :: "cons_event \<Rightarrow> Cons \<Rightarrow> cons_result \<times> Cons" where
  "cons_event_step (Typed c) s = (let (out, s1, wake) = Cons_intr c s in (Echoed out wake, s1))"
| "cons_event_step (Reads copy killed target n) s = (let (r, cs, s1) = Cons_read copy killed target n s in (Got r cs, s1))"

fun line_event_step :: "cons_event \<Rightarrow> u8 list \<times> u8 list \<Rightarrow> cons_result \<times> u8 list \<times> u8 list" where
  "line_event_step (Typed c) l = (Echoed (type_echo c l) (fst (type_char c l) \<noteq> fst l), type_char c l)"
| "line_event_step (Reads copy killed target n) (ready, edit) =
     (let (r, cs, ready1) = line_read copy killed target n ready in (Got r cs, ready1, edit))"

fun cons_run :: "cons_event list \<Rightarrow> Cons \<Rightarrow> cons_result list \<times> Cons" where
  "cons_run [] s = ([], s)"
| "cons_run (e # es) s = (let (o1, s1) = cons_event_step e s; (os, s2) = cons_run es s1 in (o1 # os, s2))"

fun line_run :: "cons_event list \<Rightarrow> u8 list \<times> u8 list \<Rightarrow> cons_result list \<times> u8 list \<times> u8 list" where
  "line_run [] l = ([], l)"
| "line_run (e # es) l = (let (o1, l1) = line_event_step e l; (os, l2) = line_run es l1 in (o1 # os, l2))"

lemma unat_add_eq: "unat a + unat b < 2 ^ 64 \<Longrightarrow> unat (a + b) = unat a + unat b" for a b :: usize
  by (simp add: unat_word_ariths)

lemma unat_sum_diff:
  fixes w r e :: usize
  assumes "unat (w - r) + unat (e - w) \<le> INPUT_BUF_SIZE"
  shows "unat (e - r) = unat (w - r) + unat (e - w)"
proof -
  have "e - r = (w - r) + (e - w)" by simp
  moreover have "unat (w - r) + unat (e - w) < 2 ^ 64" using assms by (simp add: INPUT_BUF_SIZE_def)
  ultimately show ?thesis using unat_add_eq by metis
qed

lemma ring_between_append:
  fixes w r e :: usize
  assumes "unat (w - r) + unat (e - w) \<le> INPUT_BUF_SIZE"
  shows "ring_between N b r e = ring_between N b r w @ ring_between N b w e"
proof (rule nth_equalityI)
  show "length (ring_between N b r e) = length (ring_between N b r w @ ring_between N b w e)"
    using unat_sum_diff[OF assms] by (simp add: ring_between_def ring_content_def)
  fix i assume "i < length (ring_between N b r e)"
  then have i: "i < unat (w - r) + unat (e - w)" using unat_sum_diff[OF assms] by (simp add: ring_between_def ring_content_def)
  show "ring_between N b r e ! i = (ring_between N b r w @ ring_between N b w e) ! i"
  proof (cases "i < unat (w - r)")
    case True
    then show ?thesis using i unat_sum_diff[OF assms] by (simp add: ring_between_def ring_content_def nth_append)
  next
    case False
    then obtain j where j: "i = unat (w - r) + j" using le_Suc_ex not_less by blast
    have "r + of_nat i = w + of_nat j" unfolding j by simp
    then show ?thesis using False i j unat_sum_diff[OF assms] by (simp add: ring_between_def ring_content_def nth_append)
  qed
qed

text \<open>Killing the line: no line feed is in it, so all of it goes.\<close>

lemma kill_line_result:
  "length (co_buf s) = INPUT_BUF_SIZE \<Longrightarrow> (\<forall>c\<in>set (ring_between INPUT_BUF_SIZE (co_buf s) (co_w s) (co_e s)). c \<noteq> LF) \<Longrightarrow>
   kill_line s = (out, s1) \<Longrightarrow>
   s1 = s\<lparr>co_e := co_w s\<rparr> \<and> out = concat (replicate (unat (co_e s - co_w s)) (cons_putc (ctrl ch_H)))"
proof (induction s arbitrary: out s1 rule: kill_line.induct)
  case (1 s)
  show ?case
  proof (cases "co_e s = co_w s")
    case True
    then show ?thesis using 1(4) by (simp add: kill_line.simps[of s])
  next
    case False
    note u = cons_ring.between_unpush[OF False, of "co_buf s"]
    have g: "co_e s \<noteq> co_w s \<and> co_buf s ! (unat (co_e s - 1) mod INPUT_BUF_SIZE) \<noteq> LF"
      using False u(2,3) 1(3) last_in_set[OF u(2)] by auto
    obtain o2 s2 where k: "kill_line (s\<lparr>co_e := co_e s - 1\<rparr>) = (o2, s2)" by (cases "kill_line (s\<lparr>co_e := co_e s - 1\<rparr>)")
    then have s1: "s1 = s2" "out = cons_putc (ctrl ch_H) @ o2" using 1(4) g by (simp_all add: kill_line.simps[of s])
    have "\<forall>c\<in>set (butlast (ring_between INPUT_BUF_SIZE (co_buf s) (co_w s) (co_e s))). c \<noteq> LF"
      using 1(3) by (blast dest: in_set_butlastD)
    moreover have "unat (co_e s - co_w s) = Suc (unat (co_e s - 1 - co_w s))"
      using unat_minus_one[of "co_e s - co_w s"] False unat_diff_zero_iff[of "co_e s" "co_w s"] by (simp add: algebra_simps)
    ultimately show ?thesis using 1(1)[OF g, of o2 s2] k s1 1(2) u(1) by simp
  qed
qed

lemma backspace_char: "ctrl ch_H OR DEL = DEL" "ctrl ch_H \<noteq> DEL" "ctrl ch_P \<noteq> ctrl ch_U" "ctrl ch_H \<noteq> ctrl ch_U" "ctrl ch_H \<noteq> ctrl ch_P"
  by (simp_all add: ctrl_def ch_H_def DEL_def ch_P_def ch_U_def)

text \<open>Storing a character behind the edited line.\<close>

lemma Cons_store:
  fixes c :: u8
  assumes ok: "Cons_ok s" and room: "unat (co_e s - co_r s) < INPUT_BUF_SIZE"
  defines "b \<equiv> (co_buf s)[unat (co_e s) mod INPUT_BUF_SIZE := c]"
  shows "ring_between INPUT_BUF_SIZE b (co_r s) (co_w s) = fst (cons_lines s)"
    "ring_between INPUT_BUF_SIZE b (co_w s) (co_e s + 1) = snd (cons_lines s) @ [c]"
    "ring_between INPUT_BUF_SIZE b (co_r s) (co_e s + 1) = fst (cons_lines s) @ snd (cons_lines s) @ [c]"
    "unat (co_e s + 1 - co_r s) = length (fst (cons_lines s)) + length (snd (cons_lines s)) + 1"
    "unat (co_e s + 1 - co_w s) = length (snd (cons_lines s)) + 1"
proof -
  note o = ok[unfolded Cons_ok_def]
  have sum: "unat (co_e s - co_r s) = unat (co_w s - co_r s) + unat (co_e s - co_w s)" using o by (intro unat_sum_diff) simp
  have inc: "unat (co_e s + 1 - co_w s) = Suc (unat (co_e s - co_w s))" "unat (co_e s + 1 - co_r s) = Suc (unat (co_e s - co_r s))"
    by (rule unat_diff_Suc; use sum room in \<open>simp add: INPUT_BUF_SIZE_def\<close>)+
  have p1: "ring_between INPUT_BUF_SIZE b (co_w s) (co_e s + 1) = ring_between INPUT_BUF_SIZE (co_buf s) (co_w s) (co_e s) @ [c]"
    unfolding b_def by (rule cons_ring.between_push) (use o sum room in simp_all)
  have p2: "ring_between INPUT_BUF_SIZE b (co_r s) (co_e s + 1) = ring_between INPUT_BUF_SIZE (co_buf s) (co_r s) (co_e s) @ [c]"
    unfolding b_def by (rule cons_ring.between_push) (use o room in simp_all)
  have a1: "ring_between INPUT_BUF_SIZE (co_buf s) (co_r s) (co_e s) = fst (cons_lines s) @ snd (cons_lines s)"
    using o by (simp add: cons_lines_def ring_between_append)
  have a2: "ring_between INPUT_BUF_SIZE b (co_r s) (co_e s + 1) =
      ring_between INPUT_BUF_SIZE b (co_r s) (co_w s) @ ring_between INPUT_BUF_SIZE b (co_w s) (co_e s + 1)"
    by (rule ring_between_append) (use sum room inc(1) in simp)
  have s2: "snd (cons_lines s) = ring_between INPUT_BUF_SIZE (co_buf s) (co_w s) (co_e s)" by (simp add: cons_lines_def)
  show "ring_between INPUT_BUF_SIZE b (co_w s) (co_e s + 1) = snd (cons_lines s) @ [c]" using p1 s2 by simp
  show "ring_between INPUT_BUF_SIZE b (co_r s) (co_e s + 1) = fst (cons_lines s) @ snd (cons_lines s) @ [c]" using p2 a1 by simp
  show "ring_between INPUT_BUF_SIZE b (co_r s) (co_w s) = fst (cons_lines s)" using a2 p1 p2 a1 s2 by simp
  show "unat (co_e s + 1 - co_r s) = length (fst (cons_lines s)) + length (snd (cons_lines s)) + 1" "unat (co_e s + 1 - co_w s) = length (snd (cons_lines s)) + 1"
    using inc sum by (simp_all add: cons_lines_def)
qed

lemma Cons_intr_char:
  assumes ok: "Cons_ok s" and c: "c \<noteq> ctrl ch_P" "c \<noteq> ctrl ch_U" "c \<noteq> DEL" and i: "Cons_intr c s = (out, s1, wake)"
  shows "Cons_ok s1 \<and> cons_lines s1 = type_char c (cons_lines s) \<and> out = type_echo c (cons_lines s) \<and>
    (wake \<longleftrightarrow> fst (cons_lines s1) \<noteq> fst (cons_lines s))"
proof (cases "c \<noteq> 0 \<and> unat (co_e s - co_r s) < INPUT_BUF_SIZE")
  case False
  have "unat (co_e s - co_r s) = length (fst (cons_lines s)) + length (snd (cons_lines s))" "unat (co_e s - co_r s) \<le> INPUT_BUF_SIZE"
    using ok unat_sum_diff[of "co_w s" "co_r s" "co_e s"] by (simp_all add: cons_lines_def Cons_ok_def)
  moreover have "s1 = s" "out = []" "\<not> wake" using i c False by (auto simp: Cons_intr_def backspace_char split: if_splits)
  ultimately show ?thesis using False c ok by (cases "cons_lines s") (auto simp: type_char_def type_echo_def)
next
  case True
  note o = ok[unfolded Cons_ok_def]
  define d where "d = (if c = CR then LF else c)"
  define b where "b = (co_buf s)[unat (co_e s) mod INPUT_BUF_SIZE := d]"
  note st = Cons_store(1-3)[OF ok conjunct2[OF True], of d, folded b_def] Cons_store(4,5)[OF ok conjunct2[OF True]]
  have out: "out = cons_putc d" using i c True by (auto simp: Cons_intr_def backspace_char Let_def d_def[symmetric] split: if_splits)
  have len: "length (fst (cons_lines s)) + length (snd (cons_lines s)) = unat (co_e s - co_r s)"
    using o unat_sum_diff[of "co_w s" "co_r s" "co_e s"] by (simp add: cons_lines_def)
  have echo: "out = type_echo c (cons_lines s)"
    using out True c len by (cases "cons_lines s") (auto simp: type_echo_def d_def[symmetric])
  show ?thesis
  proof (cases "d = LF \<or> d = ctrl ch_D \<or> unat (co_e s + 1 - co_r s) = INPUT_BUF_SIZE")
    case True': True
    then have s1: "s1 = s\<lparr>co_buf := b, co_e := co_e s + 1, co_w := co_e s + 1\<rparr>" "wake"
      using i c True by (auto simp: Cons_intr_def backspace_char Let_def d_def[symmetric] b_def[symmetric])
    have "type_char c (cons_lines s) = (fst (cons_lines s) @ snd (cons_lines s) @ [d], [])"
      using True True' c len st(4) by (cases "cons_lines s") (auto simp: type_char_def Let_def d_def[symmetric])
    moreover have "fst (cons_lines s1) = ring_between INPUT_BUF_SIZE b (co_r s) (co_e s + 1)" "snd (cons_lines s1) = []"
      by (simp_all add: s1 cons_lines_def cons_ring.between_empty)
    moreover have "Cons_ok s1" using o st(4) True len by (simp add: s1 Cons_ok_def cons_ring.between_empty b_def)
    ultimately show ?thesis using st(3) echo s1(2) by (simp add: prod_eq_iff)
  next
    case False
    then have s1: "s1 = s\<lparr>co_buf := b, co_e := co_e s + 1\<rparr>" "\<not> wake"
      using i c True by (auto simp: Cons_intr_def backspace_char Let_def d_def[symmetric] b_def[symmetric])
    have "type_char c (cons_lines s) = (fst (cons_lines s), snd (cons_lines s) @ [d])"
      using True False c len st(4) by (cases "cons_lines s") (auto simp: type_char_def Let_def d_def[symmetric])
    moreover have "fst (cons_lines s1) = ring_between INPUT_BUF_SIZE b (co_r s) (co_w s)"
      "snd (cons_lines s1) = ring_between INPUT_BUF_SIZE b (co_w s) (co_e s + 1)" by (simp_all add: s1 cons_lines_def)
    moreover have "Cons_ok s1"
    proof -
      have "\<forall>x\<in>set (snd (cons_lines s) @ [d]). x \<noteq> LF" using o False by (auto simp: cons_lines_def)
      moreover have "unat (co_w s - co_r s) + unat (co_e s + 1 - co_w s) \<le> INPUT_BUF_SIZE"
        using st(5) True len by (simp add: cons_lines_def)
      ultimately show ?thesis using o st(2) by (simp add: s1 Cons_ok_def b_def)
    qed
    ultimately show ?thesis using st(1,2) echo s1(2) by (simp add: prod_eq_iff)
  qed
qed

text \<open>
  Callers of the serial port: a byte to put, which is dropped from the run while the buffer is full,
  or an interrupt. The result is the port, the bytes accepted and the bytes sent.
\<close>

fun uart_run :: "((nat \<Rightarrow> u8) \<times> u8 option) list \<Rightarrow> Uart \<Rightarrow> Uart \<times> u8 list \<times> u8 list" where
  "uart_run [] u = (u, [], [])"
| "uart_run ((lsr, Some c) # es) u =
     (case Uart_putc lsr c u of
        None \<Rightarrow> uart_run es u
      | Some (cs, u1) \<Rightarrow> let (u2, acc, sent) = uart_run es u1 in (u2, c # acc, cs @ sent))"
| "uart_run ((lsr, None) # es) u =
     (let (cs, u1) = Uart_start lsr 0 u; (u2, acc, sent) = uart_run es u1 in (u2, acc, cs @ sent))"

lemma uart_run_order:
  "Uart_ok u \<Longrightarrow> uart_run es u = (u', acc, sent) \<Longrightarrow> Uart_ok u' \<and> sent @ uart_queue u' = uart_queue u @ acc"
proof (induction es u arbitrary: u' acc sent rule: uart_run.induct)
  case (2 lsr c es u)
  show ?case
  proof (cases "Uart_putc lsr c u")
    case None
    then show ?thesis using 2 by simp
  next
    case (Some p)
    obtain cs u1 where p: "p = (cs, u1)" by (cases p)
    obtain acc' sent' where r: "uart_run es u1 = (u', acc', sent')" "acc = c # acc'" "sent = cs @ sent'"
      using 2(4) Some p by (cases "uart_run es u1") auto
    have q: "Uart_ok u1" "cs @ uart_queue u1 = uart_queue u @ [c]" using Uart_putc_queue[OF 2(3)] Some p by auto
    have "Uart_ok u' \<and> sent' @ uart_queue u' = uart_queue u1 @ acc'" using 2(2)[OF Some p[symmetric] q(1) r(1)] .
    then show ?thesis using q(2) r(2,3) by (metis append.assoc append_Cons append_Nil)
  qed
next
  case (3 lsr es u)
  obtain cs u1 where s: "Uart_start lsr 0 u = (cs, u1)" by (cases "Uart_start lsr 0 u")
  obtain acc' sent' where r: "uart_run es u1 = (u', acc', sent')" "acc = acc'" "sent = cs @ sent'"
    using 3(3) s by (cases "uart_run es u1") auto
  have q: "Uart_ok u1" "cs @ uart_queue u1 = uart_queue u" using Uart_start_queue[OF 3(2) s] by auto
  have "Uart_ok u' \<and> sent' @ uart_queue u' = uart_queue u1 @ acc'" using 3(1)[OF s[symmetric] refl q(1) r(1)] .
  then show ?case using q(2) r(2,3) by (metis append.assoc)
qed simp

lemma Uart_new_ok: "Uart_ok (Uart_new base)" "uart_queue (Uart_new base) = []"
  by (simp_all add: Uart_ok_def Uart_new_def uart_queue_def uart_ring.between_empty)

lemma Cons_intr_lines:
  assumes ok: "Cons_ok s" and i: "Cons_intr c s = (out, s1, wake)"
  shows "Cons_ok s1 \<and> cons_lines s1 = type_char c (cons_lines s) \<and> out = type_echo c (cons_lines s) \<and>
    (wake \<longleftrightarrow> fst (cons_lines s1) \<noteq> fst (cons_lines s))"
proof -
  note o = ok[unfolded Cons_ok_def]
  consider "c = ctrl ch_P" | "c = ctrl ch_U" | "c = DEL" "c \<noteq> ctrl ch_P" "c \<noteq> ctrl ch_U" | "c \<noteq> ctrl ch_P" "c \<noteq> ctrl ch_U" "c \<noteq> DEL" by blast
  then show ?thesis
  proof cases
    case 1
    then show ?thesis using i ok by (auto simp: Cons_intr_def type_char_def type_echo_def split: prod.splits)
  next
    case 2
    then have k: "kill_line s = (out, s1)" "\<not> wake" using i backspace_char(3) by (auto simp: Cons_intr_def split: prod.splits)
    from kill_line_result[OF _ _ k(1)] o have s1: "s1 = s\<lparr>co_e := co_w s\<rparr>"
      and e: "out = concat (replicate (unat (co_e s - co_w s)) (cons_putc (ctrl ch_H)))" by simp_all
    show ?thesis using 2 backspace_char(3) o k(2) e
      by (simp add: s1 Cons_ok_def cons_lines_def type_char_def type_echo_def cons_ring.between_empty)
  next
    case 3
    show ?thesis
    proof (cases "co_e s = co_w s")
      case True
      then show ?thesis using 3 i ok by (auto simp: Cons_intr_def backspace_char type_char_def type_echo_def cons_lines_def cons_ring.between_empty)
    next
      case False
      note u = cons_ring.between_unpush[OF False, of "co_buf s"]
      have s1: "s1 = s\<lparr>co_e := co_e s - 1\<rparr>" "out = cons_putc (ctrl ch_H)" "\<not> wake" using 3 i False by (auto simp: Cons_intr_def backspace_char)
      have "unat (co_e s - 1 - co_w s) < unat (co_e s - co_w s)" by (rule unat_dec_diff[OF False])
      then have "Cons_ok s1" using o u(1) by (auto simp: s1 Cons_ok_def dest: in_set_butlastD)
      then show ?thesis using 3 u(1,2) s1 by (simp add: s1(1) cons_lines_def type_char_def type_echo_def)
    qed
  next
    case 4
    then show ?thesis by (rule Cons_intr_char[OF ok _ _ _ i])
  qed
qed

lemma Cons_new_ok: "Cons_ok Cons_new" "cons_lines Cons_new = ([], [])"
  by (simp_all add: Cons_ok_def Cons_new_def cons_lines_def cons_ring.between_empty)

lemma Cons_read_lines:
  "Cons_ok s \<Longrightarrow> Cons_read copy killed target n s = (r, cs, s1) \<Longrightarrow>
   Cons_ok s1 \<and> line_read copy killed target n (fst (cons_lines s)) = (r, cs, fst (cons_lines s1)) \<and> snd (cons_lines s1) = snd (cons_lines s)"
proof (induction n arbitrary: s r cs s1)
  case (Suc n)
  show ?case
  proof (cases "co_r s = co_w s")
    case True
    then show ?thesis using Suc.prems by (auto simp: cons_lines_def cons_ring.between_empty)
  next
    case False
    define c where "c = co_buf s ! (unat (co_r s) mod INPUT_BUF_SIZE)"
    define t where "t = s\<lparr>co_r := co_r s + 1\<rparr>"
    have l: "fst (cons_lines s) = c # fst (cons_lines t)" "snd (cons_lines t) = snd (cons_lines s)"
      using cons_ring.between_pop[of "co_w s" "co_r s" "co_buf s"] False by (simp_all add: cons_lines_def t_def c_def)
    have ok: "Cons_ok t" using Suc.prems(1) unat_inc_diff[of "co_w s" "co_r s"] False by (auto simp: Cons_ok_def t_def)
    have unread: "t\<lparr>co_r := co_r t - 1\<rparr> = s" by (simp add: t_def)
    note run = Suc.prems(2)[unfolded Cons_read.simps Let_def, folded c_def, folded t_def]
    show ?thesis
    proof (cases "c = ctrl ch_D \<or> \<not> copy (target - Suc n) c \<or> c = LF")
      case True
      then show ?thesis using run l ok unread Suc.prems(1) False by (auto split: if_splits)
    next
      case more: False
      obtain ds where d: "Cons_read copy killed target n t = (r, ds, s1)" "cs = c # ds"
        using run False more by (cases "Cons_read copy killed target n t") auto
      from Suc.IH[OF ok d(1)] l d(2) more show ?thesis by simp
    qed
  qed
qed auto

lemma cons_event_lines:
  assumes "Cons_ok s"
  shows "Cons_ok (snd (cons_event_step e s)) \<and>
    line_event_step e (cons_lines s) = (fst (cons_event_step e s), cons_lines (snd (cons_event_step e s)))"
proof (cases e)
  case (Typed c)
  obtain out s1 wake where i: "Cons_intr c s = (out, s1, wake)" by (cases "Cons_intr c s")
  from Cons_intr_lines[OF assms i] show ?thesis by (auto simp: Typed i)
next
  case (Reads copy killed target n)
  obtain r cs s1 where i: "Cons_read copy killed target n s = (r, cs, s1)" by (cases "Cons_read copy killed target n s")
  from Cons_read_lines[OF assms i] show ?thesis
    by (cases "cons_lines s"; cases "cons_lines s1") (simp add: Reads i)
qed

lemma cons_run_lines:
  "Cons_ok s \<Longrightarrow> cons_run es s = (os, s1) \<Longrightarrow> Cons_ok s1 \<and> line_run es (cons_lines s) = (os, cons_lines s1)"
proof (induction es arbitrary: s os)
  case (Cons e es)
  obtain o1 t where e: "cons_event_step e s = (o1, t)" by (cases "cons_event_step e s")
  obtain os' where r: "cons_run es t = (os', s1)" "os = o1 # os'" using Cons.prems(2) e by (cases "cons_run es t") auto
  have "Cons_ok t" "line_event_step e (cons_lines s) = (o1, cons_lines t)" using cons_event_lines[OF Cons.prems(1), of e] e by simp_all
  with Cons.IH[OF _ r(1)] r(2) show ?case by simp
qed simp

section \<open>Properties\<close>

text \<open>
  (C22) The serial port sends bytes in the order in which they were put and loses none: after any
  sequence of bytes and interrupts, with any readiness of the device, the bytes sent followed by
  those in the buffer are the bytes that were accepted. The counters may wrap around.
\<close>

theorem uart_output_order:
  "case uart_run es (Uart_new base) of (u, accepted, sent) \<Rightarrow> sent @ uart_queue u = accepted \<and> length (uart_queue u) \<le> UART_TX_BUF_SIZE"
proof -
  obtain u acc sent where r: "uart_run es (Uart_new base) = (u, acc, sent)" by (cases "uart_run es (Uart_new base)")
  from uart_run_order[OF Uart_new_ok(1) r] show ?thesis by (simp add: r Uart_new_ok(2)) (simp add: uart_queue_def Uart_ok_def)
qed

text \<open>
  (C12) The console is two strings, the input that readers may have and the line that is edited.
  Whatever characters arrive after boot and whatever turns of readers come between them, the ring of
  128 bytes, with counters that wrap around, behaves as the two strings do, with the same echo, the same wakeups
  and the same bytes for the readers: control-u empties the line, the byte 0x7f takes away its last
  character, a line feed, control-d or a full buffer hands the line to the readers, which are woken
  exactly then, and any other character is appended while there is room. Control-h is such a
  character, although the list of special characters documents it as backspace. A reader takes bytes
  from the front up to a line feed or control-d, and control-d is left for the next read
  when bytes were read before it.
\<close>

theorem console_refines:
  "case cons_run es Cons_new of (results, s) \<Rightarrow>
     line_run es ([], []) = (results, cons_lines s) \<and> length (fst (cons_lines s)) + length (snd (cons_lines s)) \<le> INPUT_BUF_SIZE"
proof -
  obtain os s where r: "cons_run es Cons_new = (os, s)" by (cases "cons_run es Cons_new")
  from cons_run_lines[OF Cons_new_ok(1) r] show ?thesis
    by (simp add: r Cons_new_ok(2)) (simp add: Cons_ok_def cons_lines_def)
qed

text \<open>Control-h is stored like any other character.\<close>

lemma ctrl_h_appended:
  "length ready + length edit + 1 < INPUT_BUF_SIZE \<Longrightarrow> type_char (ctrl ch_H) (ready, edit) = (ready, edit @ [ctrl ch_H])"
  by (simp add: type_char_def ctrl_def ch_H_def ch_P_def ch_U_def ch_D_def DEL_def CR_def LF_def)

text \<open>
  A write to the console puts out the first byte of the user's buffer as often as it has bytes:
  the source address is never advanced.
\<close>

theorem console_write_repeats:
  "Cons_write (Some c) 0 n = (n, concat (replicate n (cons_putc c)))"
proof -
  have "Cons_write (Some c) i n = (i + n, concat (replicate n (cons_putc c)))" for i
    by (induction n arbitrary: i) simp_all
  then show ?thesis by simp
qed

end
