(* ===== verification/Fs.thy ===== *)
theory Fs
  imports Log
begin

text \<open>
  \<^verbatim>\<open>src/kernel/fs.rs\<close> and \<^verbatim>\<open>stat.rs\<close>: the block allocator, inodes and the inode table. The state has
  the super block, the log, the store of blocks of the log and the inodes in memory. A buffer is
  read from the store and its changes go to the store; \<^verbatim>\<open>LOG.write\<close> enters it into the log. There
  is one device. The inodes in memory are numbered in the order of their creation, the table has
  their numbers, and every inode has the strong count of its \<^verbatim>\<open>Arc\<close>. Their sleep locks are not part
  of the state.
\<close>

section \<open>Layout of the disk\<close>

definition ROOTINO :: nat where "ROOTINO = 1"
definition ROOTDEV :: nat where "ROOTDEV = 1"
definition NINODE :: nat where "NINODE = 50"

record SuperBlock =
  sb_magic :: nat
  sb_size :: nat
  sb_nblocks :: nat
  sb_ninodes :: nat
  sb_nlog :: nat
  sb_logstart :: nat
  sb_inodestart :: nat
  sb_bmapstart :: nat

definition FSMAGIC :: nat where "FSMAGIC = 0x10203040"
definition NDIRECT :: nat where "NDIRECT = 12"
definition NINDIRECT :: nat where "NINDIRECT = BSIZE div 4"
definition MAXFILE :: nat where "MAXFILE = NDIRECT + NINDIRECT"

datatype IType = TNone | TDir | TFile | TDevice

datatype Major = MNull | MConsole | MInvalid

fun Major_from_u16 :: "nat \<Rightarrow> Major" where
  "Major_from_u16 bits = (if bits = 0 then MNull else if bits = 1 then MConsole else MInvalid)"

record DInode =
  di_itype :: IType
  di_major :: Major
  di_minor :: nat
  di_nlink :: nat
  di_size :: nat
  di_addrs :: "nat list"

definition DInode_default :: DInode where
  "DInode_default = \<lparr>di_itype = TNone, di_major = MNull, di_minor = 0, di_nlink = 0, di_size = 0,
     di_addrs = replicate (NDIRECT + 1) 0\<rparr>"

text \<open>The size of a \<^verbatim>\<open>DInode\<close>: four fields of two bytes, the size and the block numbers.\<close>

definition DINODE_SIZE :: nat where "DINODE_SIZE = 12 + 4 * (NDIRECT + 1)"
definition IPB :: nat where "IPB = BSIZE div DINODE_SIZE"
definition BPB :: nat where "BPB = BSIZE * 8"

definition le16 :: "nat \<Rightarrow> u8 list" where
  "le16 x = map (\<lambda>i. of_nat (x div 256 ^ i)) [0..<2]"

definition of_le16 :: "u8 list \<Rightarrow> nat" where
  "of_le16 bs = (\<Sum>i<2. unat (bs ! i) * 256 ^ i)"

fun IType_num :: "IType \<Rightarrow> nat" where
  "IType_num TNone = 0" | "IType_num TDir = 1" | "IType_num TFile = 2" | "IType_num TDevice = 3"

fun Major_num :: "Major \<Rightarrow> nat" where
  "Major_num MNull = 0" | "Major_num MConsole = 1" | "Major_num MInvalid = 2"

text \<open>To read a number that no variant of an enumeration has is undefined behaviour.\<close>

definition IType_read :: "nat \<Rightarrow> IType rust" where
  "IType_read x = (if x = 0 then Inr TNone else if x = 1 then Inr TDir else if x = 2 then Inr TFile
     else if x = 3 then Inr TDevice else Inl Undefined)"

definition Major_read :: "nat \<Rightarrow> Major rust" where
  "Major_read x = (if x = 0 then Inr MNull else if x = 1 then Inr MConsole else if x = 2 then Inr MInvalid
     else Inl Undefined)"

definition u32s :: "u8 list \<Rightarrow> nat list" where
  "u32s bs = map (\<lambda>i. of_le32 (drop (4 * i) bs)) [0..<length bs div 4]"

definition DInode_bytes :: "DInode \<Rightarrow> u8 list" where
  "DInode_bytes d = le16 (IType_num (di_itype d)) @ le16 (Major_num (di_major d)) @ le16 (di_minor d) @
     le16 (di_nlink d) @ le32 (di_size d) @ concat (map le32 (di_addrs d))"

definition DInode_read :: "u8 list \<Rightarrow> DInode rust" where
  "DInode_read bs =
     rbind (IType_read (of_le16 bs)) (\<lambda>ty.
     rbind (Major_read (of_le16 (drop 2 bs))) (\<lambda>mj.
     Inr \<lparr>di_itype = ty, di_major = mj, di_minor = of_le16 (drop 4 bs), di_nlink = of_le16 (drop 6 bs),
       di_size = of_le32 (drop 8 bs), di_addrs = u32s (take (4 * (NDIRECT + 1)) (drop 12 bs))\<rparr>))"

text \<open>The \<open>k\<close>-th inode of a block.\<close>

definition dinode_at :: "nat \<Rightarrow> u8 list \<Rightarrow> DInode rust" where
  "dinode_at k bp = DInode_read (drop (DINODE_SIZE * k) bp)"

definition dinode_put :: "nat \<Rightarrow> DInode \<Rightarrow> u8 list \<Rightarrow> u8 list" where
  "dinode_put k d bp = overwrite bp (DINODE_SIZE * k) (DInode_bytes d)"

section \<open>State\<close>

record IData =
  i_dev :: nat
  i_inum :: nat
  i_valid :: bool
  i_itype :: IType
  i_major :: Major
  i_minor :: nat
  i_nlink :: nat
  i_size :: nat
  i_addrs :: "nat list"

definition IData_new :: "nat \<Rightarrow> nat \<Rightarrow> IData" where
  "IData_new dev inum = \<lparr>i_dev = dev, i_inum = inum, i_valid = False, i_itype = TNone, i_major = MNull,
     i_minor = 0, i_nlink = 0, i_size = 0, i_addrs = replicate (NDIRECT + 1) 0\<rparr>"

record MInode =
  mi_dev :: nat
  mi_inum :: nat
  mi_data :: IData
  mi_refs :: nat

definition MInode_new :: "nat \<Rightarrow> nat \<Rightarrow> MInode" where
  "MInode_new dev inum = \<lparr>mi_dev = dev, mi_inum = inum, mi_data = IData_new dev inum, mi_refs = 1\<rparr>"

record fsys =
  fs_sb :: "SuperBlock option"
  fs_log :: Log
  fs_st :: bstore
  fs_itable :: "nat option list"
  fs_inodes :: "MInode list"

abbreviation inode :: "nat \<Rightarrow> fsys \<Rightarrow> MInode" where
  "inode a s \<equiv> fs_inodes s ! a"

abbreviation idat :: "nat \<Rightarrow> fsys \<Rightarrow> IData" where
  "idat a s \<equiv> mi_data (inode a s)"

definition upd_inode :: "nat \<Rightarrow> (MInode \<Rightarrow> MInode) \<Rightarrow> fsys \<Rightarrow> fsys" where
  "upd_inode a f s = s\<lparr>fs_inodes := (fs_inodes s)[a := f (inode a s)]\<rparr>"

definition upd_idat :: "nat \<Rightarrow> (IData \<Rightarrow> IData) \<Rightarrow> fsys \<Rightarrow> fsys" where
  "upd_idat a f s = upd_inode a (\<lambda>i. i\<lparr>mi_data := f (mi_data i)\<rparr>) s"

definition bget :: "nat \<Rightarrow> fsys \<Rightarrow> u8 list" where
  "bget b s = bread b (fs_st s)"

definition bput :: "nat \<Rightarrow> u8 list \<Rightarrow> fsys \<Rightarrow> fsys" where
  "bput b x s = s\<lparr>fs_st := bmodify b x (fs_st s)\<rparr>"

definition LOG_write :: "nat \<Rightarrow> fsys \<Rightarrow> fsys rust" where
  "LOG_write b s = rbind (Log_write b (fs_log s)) (\<lambda>(pinned, log). Inr (s\<lparr>fs_log := log\<rparr>))"

text \<open>\<^verbatim>\<open>xs.get(i).unwrap()\<close>.\<close>

definition get_unwrap :: "'a list \<Rightarrow> nat \<Rightarrow> 'a rust" where
  "get_unwrap xs i = (if i < length xs then Inr (xs ! i) else Inl UnwrapNone)"

section \<open>Super block\<close>

definition SuperBlock_read :: "u8 list \<Rightarrow> SuperBlock" where
  "SuperBlock_read bs = (let f = (\<lambda>i. of_le32 (drop (4 * i) bs)) in
     \<lparr>sb_magic = f 0, sb_size = f 1, sb_nblocks = f 2, sb_ninodes = f 3, sb_nlog = f 4, sb_logstart = f 5,
      sb_inodestart = f 6, sb_bmapstart = f 7\<rparr>)"

definition iblock :: "SuperBlock \<Rightarrow> nat \<Rightarrow> nat rust" where
  "iblock sb i = u32_add (i div IPB) (sb_inodestart sb)"

definition bblock :: "SuperBlock \<Rightarrow> nat \<Rightarrow> nat rust" where
  "bblock sb b = rbind (u32_add b BPB) (\<lambda>x. u32_add x (sb_bmapstart sb))"

text \<open>The first use of \<^verbatim>\<open>LOG\<close>, in \<^verbatim>\<open>LOG.init()\<close>, creates the log, which recovers.\<close>

definition fs_init :: "fsys \<Rightarrow> fsys rust" where
  "fs_init s =
     (case fs_sb s of
        Some old \<Rightarrow> Inl UnwrapNone
      | None \<Rightarrow>
          let sb = SuperBlock_read (bget 1 s)
          in rbind (rassert (sb_magic sb \<noteq> FSMAGIC) ''invalid file system'') (\<lambda>_.
             rbind (Log_new (sb_logstart sb) (sb_nlog sb) ROOTDEV (fs_st s)) (\<lambda>(log, st).
             rbind (Log_init (4 + 4 * LOGSIZE)) (\<lambda>_.
             Inr (s\<lparr>fs_sb := Some sb, fs_log := log, fs_st := st\<rparr>)))))"

section \<open>Blocks\<close>

definition bzero :: "nat \<Rightarrow> fsys \<Rightarrow> fsys rust" where
  "bzero bno s = LOG_write bno (bput bno (replicate BSIZE 0) s)"

text \<open>The inner loop of \<^verbatim>\<open>balloc\<close> on the bitmap \<open>bp\<close>: the bit it takes.\<close>

function balloc_bits :: "nat \<Rightarrow> nat \<Rightarrow> nat \<Rightarrow> u8 list \<Rightarrow> nat option rust" where
  "balloc_bits sz b bi bp =
     (if bi < BPB then
        rbind (u32_add b bi) (\<lambda>x.
        if x < sz then
          let bi1 = bi + 1
          in rbind (get_unwrap bp (bi1 div 8)) (\<lambda>byte.
             if byte AND push_bit (bi1 mod 8) 1 = 0 then Inr (Some bi1) else balloc_bits sz b bi1 bp)
        else Inr None)
      else Inr None)"
  by pat_completeness auto

termination balloc_bits
  by (relation "measure (\<lambda>(sz, b, bi, bp). BPB - bi)") auto

declare balloc_bits.simps [simp del]

text \<open>The outer loop, over \<^verbatim>\<open>(0..size).step_by(BPB)\<close>.\<close>

function balloc_from :: "nat \<Rightarrow> SuperBlock \<Rightarrow> fsys \<Rightarrow> (nat \<times> fsys) rust" where
  "balloc_from b sb s =
     (if b < sb_size sb then
        rbind (bblock sb b) (\<lambda>mb.
        rbind (balloc_bits (sb_size sb) b 0 (bget mb s)) (\<lambda>r.
        case r of
          Some bi \<Rightarrow>
            let bp = bget mb s;
                byte = bp ! (bi div 8) OR push_bit (bi mod 8) 1
            in rbind (LOG_write mb (bput mb (bp[bi div 8 := byte]) s)) (\<lambda>s1.
               rbind (u32_add b bi) (\<lambda>x.
               rbind (bzero x s1) (\<lambda>s2. Inr (x, s2))))
        | None \<Rightarrow> balloc_from (b + BPB) sb s))
      else Inl Unreachable)"
  by pat_completeness auto

termination balloc_from
  by (relation "measure (\<lambda>(b, sb, s). sb_size sb - b)") (auto simp: BPB_def BSIZE_def)

declare balloc_from.simps [simp del]

definition balloc :: "fsys \<Rightarrow> (nat \<times> fsys) rust" where
  "balloc s = rbind (unwrap (fs_sb s)) (\<lambda>sb. balloc_from 0 sb s)"

definition bfree :: "nat \<Rightarrow> fsys \<Rightarrow> fsys rust" where
  "bfree b s =
     rbind (unwrap (fs_sb s)) (\<lambda>sb.
     rbind (bblock sb b) (\<lambda>mb.
     let bp = bget mb s; bi = b mod BPB; m = push_bit (bi mod 8) 1
     in rbind (get_unwrap bp (bi div 8)) (\<lambda>byte.
        if byte AND m = 0 then Inl (Panic ''freeing free block'')
        else LOG_write mb (bput mb (bp[bi div 8 := byte AND NOT m]) s))))"

end
