(* ===== verification/Inode.thy ===== *)
theory Inode
  imports Fs
begin

text \<open>
  \<^verbatim>\<open>src/kernel/fs.rs\<close>: inodes and the inode table. An inode in memory is named by its number \<open>a\<close> in
  the state; the methods of \<^verbatim>\<open>IData\<close> work on the data of that inode. The memory that \<^verbatim>\<open>read\<close> and
  \<^verbatim>\<open>write\<close> copy to and from is an argument: \<open>put\<close> stores bytes at an offset from \<^verbatim>\<open>dst\<close>, \<open>get\<close> loads
  them at an offset from \<^verbatim>\<open>src\<close>, and each says whether all bytes were copied.
\<close>

section \<open>Inodes on disk\<close>

definition dinode_of :: "IData \<Rightarrow> DInode" where
  "dinode_of d = \<lparr>di_itype = i_itype d, di_major = i_major d, di_minor = i_minor d, di_nlink = i_nlink d,
     di_size = i_size d, di_addrs = i_addrs d\<rparr>"

definition IData_update :: "nat \<Rightarrow> fsys \<Rightarrow> fsys rust" where
  "IData_update a s =
     rbind (unwrap (fs_sb s)) (\<lambda>sb.
     rbind (iblock sb (i_inum (idat a s))) (\<lambda>b.
     LOG_write b (bput b (dinode_put (i_inum (idat a s) mod IPB) (dinode_of (idat a s)) (bget b s)) s)))"

text \<open>The loop of \<^verbatim>\<open>trunc\<close> over the direct blocks, with \<open>k\<close> blocks to go.\<close>

fun trunc_direct :: "nat \<Rightarrow> nat \<Rightarrow> fsys \<Rightarrow> fsys rust" where
  "trunc_direct a 0 s = Inr s"
| "trunc_direct a (Suc k) s =
     (let i = NDIRECT - Suc k; ad = i_addrs (idat a s) ! i
      in if ad > 0 then
           rbind (bfree ad s) (\<lambda>s1.
           trunc_direct a k (upd_idat a (\<lambda>d. d\<lparr>i_addrs := (i_addrs d)[i := 0]\<rparr>) s1))
         else trunc_direct a k s)"

fun bfree_all :: "nat list \<Rightarrow> fsys \<Rightarrow> fsys rust" where
  "bfree_all [] s = Inr s"
| "bfree_all (x # xs) s = (if x > 0 then rbind (bfree x s) (bfree_all xs) else bfree_all xs s)"

definition IData_trunc :: "nat \<Rightarrow> fsys \<Rightarrow> fsys rust" where
  "IData_trunc a s =
     rbind (trunc_direct a NDIRECT s) (\<lambda>s1.
     let naddr = i_addrs (idat a s1) ! NDIRECT
     in rbind (if naddr > 0 then
                 rbind (bfree_all (u32s (bget naddr s1)) s1) (\<lambda>s2.
                 rbind (bfree naddr s2) (\<lambda>s3.
                 Inr (upd_idat a (\<lambda>d. d\<lparr>i_addrs := (i_addrs d)[NDIRECT := 0]\<rparr>) s3)))
               else Inr s1) (\<lambda>s4.
        IData_update a (upd_idat a (\<lambda>d. d\<lparr>i_size := 0\<rparr>) s4)))"

section \<open>Content\<close>

text \<open>The \<open>i\<close>-th block number in the inode, allocated when there is none.\<close>

definition bmap_addr :: "nat \<Rightarrow> nat \<Rightarrow> fsys \<Rightarrow> (nat \<times> fsys) rust" where
  "bmap_addr a i s =
     (let ad = i_addrs (idat a s) ! i
      in if ad = 0 then
           rbind (balloc s) (\<lambda>(ad, s1). Inr (ad, upd_idat a (\<lambda>d. d\<lparr>i_addrs := (i_addrs d)[i := ad]\<rparr>) s1))
         else Inr (ad, s))"

definition bmap :: "nat \<Rightarrow> nat \<Rightarrow> fsys \<Rightarrow> ((string + nat) \<times> fsys) rust" where
  "bmap a bn s =
     (if bn < NDIRECT then rbind (bmap_addr a bn s) (\<lambda>(ad, s1). Inr (Inr ad, s1))
      else
        let bn1 = bn - NDIRECT
        in if bn1 < NINDIRECT then
             rbind (bmap_addr a NDIRECT s) (\<lambda>(ind, s1).
             let bp = bget ind s1; ad = u32s bp ! bn1
             in if ad = 0 then
                  rbind (balloc s1) (\<lambda>(ad, s2).
                  rbind (LOG_write ind (bput ind (overwrite bp (4 * bn1) (le32 ad)) s2)) (\<lambda>s3.
                  Inr (Inr ad, s3)))
                else Inr (Inr ad, s1))
           else Inr (Inl ''bmap: out of range'', s))"

record Stat =
  st_dev :: nat
  st_ino :: nat
  st_itype :: IType
  st_nlink :: nat
  st_size :: nat

definition IData_stat :: "nat \<Rightarrow> fsys \<Rightarrow> Stat" where
  "IData_stat a s = (let d = idat a s in
     \<lparr>st_dev = i_dev d, st_ino = i_inum d, st_itype = i_itype d, st_nlink = i_nlink d, st_size = i_size d\<rparr>)"

type_synonym 'm put = "nat \<Rightarrow> u8 list \<Rightarrow> 'm \<Rightarrow> 'm \<times> bool"
type_synonym get = "nat \<Rightarrow> nat \<Rightarrow> u8 list \<times> bool"

lemma read_step_less: "tot < n \<Longrightarrow> n - (tot + min (n - tot) (BSIZE - off mod BSIZE)) < n - tot"
proof -
  assume "tot < n"
  moreover have "0 < BSIZE - off mod BSIZE" by (simp add: BSIZE_def)
  ultimately show ?thesis by linarith
qed

function read_loop :: "nat \<Rightarrow> 'm put \<Rightarrow> nat \<Rightarrow> nat \<Rightarrow> nat \<Rightarrow> 'm \<Rightarrow> fsys \<Rightarrow> ((string + nat) \<times> 'm \<times> fsys) rust" where
  "read_loop a put tot off n m s =
     (if tot < n then
        rbind (bmap a (off div BSIZE) s) (\<lambda>(r, s1).
        case r of
          Inl e \<Rightarrow> Inr (Inl e, m, s1)
        | Inr b \<Rightarrow>
            let k = min (n - tot) (BSIZE - off mod BSIZE)
            in rbind (slice (bget b s1) (off mod BSIZE) k) (\<lambda>bs.
               let (m1, ok) = put tot bs m
               in if \<not> ok then Inr (Inl ''inode read: Failed to copyout'', m1, s1)
                  else read_loop a put (tot + k) (off + k) n m1 s1))
      else Inr (Inr tot, m, s))"
  by pat_completeness auto

termination read_loop
  by (relation "measure (\<lambda>(a, put, tot, off, n, m, s). n - tot)")
    (simp_all only: in_measure case_prod_conv wf_measure read_step_less)

declare read_loop.simps [simp del]

definition IData_read :: "nat \<Rightarrow> 'm put \<Rightarrow> nat \<Rightarrow> nat \<Rightarrow> 'm \<Rightarrow> fsys \<Rightarrow> ((string + nat) \<times> 'm \<times> fsys) rust" where
  "IData_read a put off n m s =
     (let sz = i_size (idat a s)
      in if off > sz then Inr (Inl ''start point beyond the end of the file'', m, s)
         else rbind (uadd off n) (\<lambda>end.
              read_loop a put 0 off (if end > sz then sz - off else n) m s))"

function write_loop :: "nat \<Rightarrow> get \<Rightarrow> nat \<Rightarrow> nat \<Rightarrow> nat \<Rightarrow> fsys \<Rightarrow> ((string + nat \<times> nat) \<times> fsys) rust" where
  "write_loop a get tot off n s =
     (if tot < n then
        rbind (bmap a (off div BSIZE) s) (\<lambda>(r, s1).
        case r of
          Inl e \<Rightarrow> Inr (Inl e, s1)
        | Inr b \<Rightarrow>
            let k = min (n - tot) (BSIZE - off mod BSIZE); o1 = off mod BSIZE; bp = bget b s1
            in rbind (slice bp o1 k) (\<lambda>room.
               let (bs, ok) = get tot (length room); s2 = bput b (overwrite bp o1 (take (length room) bs)) s1
               in if \<not> ok then Inr (Inl ''inode write: Failed to copyin'', s2)
                  else rbind (LOG_write b s2) (\<lambda>s3. write_loop a get (tot + k) (off + k) n s3)))
      else Inr (Inr (tot, off), s))"
  by pat_completeness auto

termination write_loop
  by (relation "measure (\<lambda>(a, get, tot, off, n, s). n - tot)")
    (simp_all only: in_measure case_prod_conv wf_measure read_step_less)

declare write_loop.simps [simp del]

definition IData_write :: "nat \<Rightarrow> get \<Rightarrow> nat \<Rightarrow> nat \<Rightarrow> fsys \<Rightarrow> ((string + nat) \<times> fsys) rust" where
  "IData_write a get off n s =
     (if off > i_size (idat a s) then Inr (Inl ''inode write: off is more than inode size'', s)
      else rbind (uadd off n) (\<lambda>end.
        if end > MAXFILE * BSIZE then Inr (Inl ''inode write'', s)
        else rbind (write_loop a get 0 off n s) (\<lambda>(r, s1).
             case r of
               Inl e \<Rightarrow> Inr (Inl e, s1)
             | Inr (tot, off1) \<Rightarrow>
                 let s2 = (if off1 > i_size (idat a s1) then upd_idat a (\<lambda>d. d\<lparr>i_size := off1\<rparr>) s1 else s1)
                 in rbind (IData_update a s2) (\<lambda>s3. Inr (Inr tot, s3)))))"

section \<open>Inodes in memory\<close>

text \<open>The lock of an inode, which reads it from disk when the copy in memory is not valid.\<close>

definition MInode_lock :: "nat \<Rightarrow> fsys \<Rightarrow> fsys rust" where
  "MInode_lock a s =
     rbind (unwrap (fs_sb s)) (\<lambda>sb.
     if \<not> i_valid (idat a s) then
       rbind (iblock sb (mi_inum (inode a s))) (\<lambda>b.
       rbind (dinode_at (mi_inum (inode a s) mod IPB) (bget b s)) (\<lambda>dip.
       if di_itype dip = TNone then Inl (Panic ''ilock: no type'')
       else Inr (upd_idat a (\<lambda>d. \<lparr>i_dev = mi_dev (inode a s), i_inum = mi_inum (inode a s), i_valid = True,
              i_itype = di_itype dip, i_major = di_major dip, i_minor = di_minor dip, i_nlink = di_nlink dip,
              i_size = di_size dip, i_addrs = di_addrs dip\<rparr>) s)))
     else Inr s)"

definition add_ref :: "nat \<Rightarrow> fsys \<Rightarrow> fsys" where
  "add_ref a s = upd_inode a (\<lambda>i. i\<lparr>mi_refs := mi_refs i + 1\<rparr>) s"

definition drop_ref :: "nat \<Rightarrow> fsys \<Rightarrow> fsys" where
  "drop_ref a s = upd_inode a (\<lambda>i. i\<lparr>mi_refs := mi_refs i - 1\<rparr>) s"

definition Inode_dup :: "nat \<Rightarrow> fsys \<Rightarrow> nat \<times> fsys" where
  "Inode_dup a s = (a, add_ref a s)"

text \<open>The search of \<^verbatim>\<open>get\<close>: the entry for the inode, or the first free slot.\<close>

fun itable_find :: "nat \<Rightarrow> nat \<Rightarrow> MInode list \<Rightarrow> nat option list \<Rightarrow> nat option" where
  "itable_find dev inum is [] = None"
| "itable_find dev inum is (Some a # es) =
     (if mi_dev (is ! a) = dev \<and> mi_inum (is ! a) = inum then Some a else itable_find dev inum is es)"
| "itable_find dev inum is (None # es) = itable_find dev inum is es"

fun free_slot :: "'a option list \<Rightarrow> nat option" where
  "free_slot [] = None"
| "free_slot (None # es) = Some 0"
| "free_slot (Some a # es) = map_option Suc (free_slot es)"

definition ITable_get :: "nat \<Rightarrow> nat \<Rightarrow> fsys \<Rightarrow> (nat \<times> fsys) rust" where
  "ITable_get dev inum s =
     (case itable_find dev inum (fs_inodes s) (fs_itable s) of
        Some a \<Rightarrow> Inr (a, add_ref a s)
      | None \<Rightarrow>
          (case free_slot (fs_itable s) of
             None \<Rightarrow> Inl (Panic ''iget: no inodes'')
           | Some j \<Rightarrow>
               let a = length (fs_inodes s)
               in Inr (a, add_ref a (s\<lparr>fs_inodes := fs_inodes s @ [MInode_new dev inum],
                    fs_itable := (fs_itable s)[j := Some a]\<rparr>))))"

text \<open>
  \<^verbatim>\<open>put\<close> in two parts: up to the release of the table's lock, and after the lock is taken again. The
  drop of the argument ends the second part.
\<close>

definition put_free :: "nat \<Rightarrow> fsys \<Rightarrow> fsys rust" where
  "put_free a s =
     (if i_valid (idat a s) \<and> i_nlink (idat a s) = 0 then
        rbind (IData_trunc a s) (\<lambda>s1.
        rbind (IData_update a (upd_idat a (\<lambda>d. d\<lparr>i_itype := TNone\<rparr>) s1)) (\<lambda>s2.
        Inr (upd_idat a (\<lambda>d. d\<lparr>i_valid := False\<rparr>) s2)))
      else Inr s)"

definition put_remove :: "nat \<Rightarrow> fsys \<Rightarrow> fsys" where
  "put_remove a s =
     (let n = length (filter (\<lambda>e. e = Some a) (fs_itable s))
      in upd_inode a (\<lambda>i. i\<lparr>mi_refs := mi_refs i - n\<rparr>)
           (s\<lparr>fs_itable := map (\<lambda>e. if e = Some a then None else e) (fs_itable s)\<rparr>))"

definition ITable_put :: "nat \<Rightarrow> fsys \<Rightarrow> fsys rust" where
  "ITable_put a s =
     (if mi_refs (inode a s) = 2 then rbind (put_free a s) (\<lambda>s1. Inr (drop_ref a (put_remove a s1)))
      else Inr (drop_ref a s))"

text \<open>The loop of \<^verbatim>\<open>alloc\<close> over \<^verbatim>\<open>1..ninodes\<close>, with \<open>k\<close> inodes to go.\<close>

fun ialloc_from :: "nat \<Rightarrow> IType \<Rightarrow> nat \<Rightarrow> SuperBlock \<Rightarrow> nat \<Rightarrow> fsys \<Rightarrow> (nat option \<times> fsys) rust" where
  "ialloc_from dev ty inum sb 0 s = Inr (None, s)"
| "ialloc_from dev ty inum sb (Suc k) s =
     rbind (iblock sb inum) (\<lambda>b.
     rbind (dinode_at (inum mod IPB) (bget b s)) (\<lambda>dip.
     if di_itype dip = TNone then
       rbind (LOG_write b (bput b (dinode_put (inum mod IPB) (DInode_default\<lparr>di_itype := ty\<rparr>) (bget b s)) s)) (\<lambda>s1.
       rbind (ITable_get dev inum s1) (\<lambda>(a, s2). Inr (Some a, s2)))
     else ialloc_from dev ty (inum + 1) sb k s))"

definition ITable_alloc :: "nat \<Rightarrow> IType \<Rightarrow> fsys \<Rightarrow> (nat option \<times> fsys) rust" where
  "ITable_alloc dev ty s = rbind (unwrap (fs_sb s)) (\<lambda>sb. ialloc_from dev ty 1 sb (sb_ninodes sb - 1) s)"

end
