(* ===== verification/FsPath.thy ===== *)
theory FsPath
  imports Inode
begin

text \<open>
  \<^verbatim>\<open>src/kernel/fs.rs\<close>: directories, path names, and the operations on names. A \<^verbatim>\<open>str\<close> is the list of
  its bytes. Where the source drops an \<^verbatim>\<open>Inode\<close>, the model calls \<^term>\<open>ITable_put\<close>, in the order of
  the drops.
\<close>

section \<open>Strings\<close>

text \<open>The length of the character a byte string starts with, 0 when it is no UTF-8.\<close>

definition cont :: "u8 \<Rightarrow> bool" where
  "cont c = (0x80 \<le> c \<and> c \<le> 0xbf)"

definition utf8_second :: "u8 \<Rightarrow> u8 \<Rightarrow> bool" where
  "utf8_second b c =
     (if b = 0xe0 then 0xa0 \<le> c \<and> c \<le> 0xbf else if b = 0xed then 0x80 \<le> c \<and> c \<le> 0x9f
      else if b = 0xf0 then 0x90 \<le> c \<and> c \<le> 0xbf else if b = 0xf4 then 0x80 \<le> c \<and> c \<le> 0x8f else cont c)"

definition utf8_first :: "u8 list \<Rightarrow> nat" where
  "utf8_first bs =
     (let b = hd bs;
          k = (if b < 0x80 then 1 else if 0xc2 \<le> b \<and> b \<le> 0xdf then 2 else if 0xe0 \<le> b \<and> b \<le> 0xef then 3
               else if 0xf0 \<le> b \<and> b \<le> 0xf4 then 4 else 0)
      in if k \<le> length bs \<and> (k \<ge> 2 \<longrightarrow> utf8_second b (bs ! 1)) \<and> (\<forall>c \<in> set (drop 2 (take k bs)). cont c) then k else 0)"

function utf8_valid :: "u8 list \<Rightarrow> bool" where
  "utf8_valid bs =
     (if bs = [] then True else if utf8_first bs = 0 then False else utf8_valid (drop (utf8_first bs) bs))"
  by pat_completeness auto

termination utf8_valid
  by (relation "measure length") auto

declare utf8_valid.simps [simp del]

definition trim_matches :: "'a \<Rightarrow> 'a list \<Rightarrow> 'a list" where
  "trim_matches c xs = rev (dropWhile (\<lambda>x. x = c) (rev (dropWhile (\<lambda>x. x = c) xs)))"

fun split_once :: "'a \<Rightarrow> 'a list \<Rightarrow> ('a list \<times> 'a list) option" where
  "split_once c [] = None"
| "split_once c (x # xs) = (if x = c then Some ([], xs) else map_option (\<lambda>(l, r). (x # l, r)) (split_once c xs))"

definition SLASH :: u8 where "SLASH = 0x2f"
definition DOT :: "u8 list" where "DOT = [0x2e]"
definition DOTDOT :: "u8 list" where "DOTDOT = [0x2e, 0x2e]"

section \<open>Directories\<close>

definition DIRSIZ :: nat where "DIRSIZ = 14"

text \<open>A \<^verbatim>\<open>DirEnt\<close> is its bytes: the inode number and the name.\<close>

definition DIRENT_SIZE :: nat where "DIRENT_SIZE = 2 + DIRSIZ"

definition DirEnt_default :: "u8 list" where "DirEnt_default = replicate DIRENT_SIZE 0"

definition de_inum :: "u8 list \<Rightarrow> nat" where "de_inum de = of_le16 de"

definition de_name :: "u8 list \<Rightarrow> u8 list" where "de_name de = drop 2 de"

text \<open>Copies to and from a variable of the kernel.\<close>

definition kput :: "u8 list put" where
  "kput off bs m = (overwrite m off bs, True)"

definition kget :: "u8 list \<Rightarrow> get" where
  "kget m off n = (take n (drop off m), True)"

text \<open>The loops over \<^verbatim>\<open>(off..size).step_by(size_of::<DirEnt>())\<close>.\<close>

function dirlookup_from :: "nat \<Rightarrow> u8 list \<Rightarrow> nat \<Rightarrow> nat \<Rightarrow> u8 list \<Rightarrow> fsys \<Rightarrow> ((nat \<times> nat) option \<times> fsys) rust" where
  "dirlookup_from a name sz off de s =
     (if off < sz then
        rbind (IData_read a kput off DIRENT_SIZE de s) (\<lambda>(r, de1, s1).
        case r of
          Inl e \<Rightarrow> Inl (Panic ''dirlookup read'')
        | Inr n \<Rightarrow>
            if de_inum de1 = 0 then dirlookup_from a name sz (off + DIRENT_SIZE) de1 s1
            else if \<not> utf8_valid (de_name de1) then Inl UnwrapNone
            else if name = trim_matches 0 (de_name de1) then
              rbind (ITable_get (i_dev (idat a s1)) (de_inum de1) s1) (\<lambda>(x, s2). Inr (Some (x, off), s2))
            else dirlookup_from a name sz (off + DIRENT_SIZE) de1 s1)
      else Inr (None, s))"
  by pat_completeness auto

termination dirlookup_from
  by (relation "measure (\<lambda>(a, name, sz, off, de, s). sz - off)") (auto simp: DIRENT_SIZE_def)

declare dirlookup_from.simps [simp del]

definition dirlookup :: "nat \<Rightarrow> u8 list \<Rightarrow> fsys \<Rightarrow> ((nat \<times> nat) option \<times> fsys) rust" where
  "dirlookup a name s =
     (if i_itype (idat a s) \<noteq> TDir then Inl (Panic ''dirlookup not DIR'')
      else dirlookup_from a name (i_size (idat a s)) 0 DirEnt_default s)"

text \<open>The search of \<^verbatim>\<open>dirlink\<close> for an empty entry: the offset, and the entry as last read.\<close>

function dirlink_slot :: "nat \<Rightarrow> nat \<Rightarrow> nat \<Rightarrow> u8 list \<Rightarrow> fsys \<Rightarrow> (nat \<times> fsys) rust" where
  "dirlink_slot a sz off de s =
     (if off < sz then
        rbind (IData_read a kput off DIRENT_SIZE de s) (\<lambda>(r, de1, s1).
        case r of
          Inl e \<Rightarrow> Inl UnwrapNone
        | Inr n \<Rightarrow>
            if de_inum de1 = 0 then Inr (off + DIRENT_SIZE, s1)
            else dirlink_slot a sz (off + DIRENT_SIZE) de1 s1)
      else Inr (off, s))"
  by pat_completeness auto

termination dirlink_slot
  by (relation "measure (\<lambda>(a, sz, off, de, s). sz - off)") (auto simp: DIRENT_SIZE_def)

declare dirlink_slot.simps [simp del]

definition dirlink :: "nat \<Rightarrow> u8 list \<Rightarrow> nat \<Rightarrow> fsys \<Rightarrow> ((string + unit) \<times> fsys) rust" where
  "dirlink a name inum s =
     rbind (dirlookup a name s) (\<lambda>(found, s1).
     case found of
       Some (x, off) \<Rightarrow> rbind (ITable_put x s1) (\<lambda>s2. Inr (Inl ''dirlink: the name already exists'', s2))
     | None \<Rightarrow>
         rbind (dirlink_slot a (i_size (idat a s1)) 0 DirEnt_default s1) (\<lambda>(offset, s2).
         rbind (slice name 0 DIRSIZ) (\<lambda>nm.
         rbind (IData_write a (kget (le16 inum @ nm)) offset DIRENT_SIZE s2) (\<lambda>(r, s3).
         case r of
           Inl e \<Rightarrow> Inl UnwrapNone
         | Inr n \<Rightarrow> Inr (Inr (), s3)))))"

function dir_empty_from :: "nat \<Rightarrow> nat \<Rightarrow> nat \<Rightarrow> u8 list \<Rightarrow> fsys \<Rightarrow> (bool \<times> fsys) rust" where
  "dir_empty_from a sz off de s =
     (if off < sz then
        rbind (IData_read a kput off DIRENT_SIZE de s) (\<lambda>(r, de1, s1).
        case r of
          Inl e \<Rightarrow> Inl (Panic ''isdirempty: inode read'')
        | Inr n \<Rightarrow>
            if de_inum de1 \<noteq> 0 then Inr (False, s1)
            else dir_empty_from a sz (off + DIRENT_SIZE) de1 s1)
      else Inr (True, s))"
  by pat_completeness auto

termination dir_empty_from
  by (relation "measure (\<lambda>(a, sz, off, de, s). sz - off)") (auto simp: DIRENT_SIZE_def)

declare dir_empty_from.simps [simp del]

definition is_dir_empty :: "nat \<Rightarrow> fsys \<Rightarrow> (bool \<times> fsys) rust" where
  "is_dir_empty a s = dir_empty_from a (i_size (idat a s)) (2 * DIRENT_SIZE) DirEnt_default s"

section \<open>Paths\<close>

definition file_name :: "u8 list \<Rightarrow> u8 list option" where
  "file_name p =
     (if DOTDOT = drop (length p - 2) p then None
      else Some (rev (takeWhile (\<lambda>c. c \<noteq> SLASH) (rev p))))"

definition skip_elem :: "u8 list \<Rightarrow> u8 list option \<times> u8 list option" where
  "skip_elem p =
     (case split_once SLASH (trim_matches SLASH p) of
        Some (name, path) \<Rightarrow> if length name \<le> DIRSIZ then (Some name, Some path) else (None, None)
      | None \<Rightarrow> if 0 < length p \<and> length p < DIRSIZ then (Some p, None) else (None, None))"

lemma length_trim_matches: "length (trim_matches c xs) \<le> length xs"
  unfolding trim_matches_def length_rev
  by (rule order_trans[OF length_dropWhile_le]) (simp add: length_dropWhile_le)

lemma split_once_append: "split_once c xs = Some (l, r) \<Longrightarrow> xs = l @ c # r \<and> c \<notin> set l"
  by (induction xs arbitrary: l) (auto split: if_splits)

lemma skip_elem_shorter: "skip_elem p = (Some n, Some q) \<Longrightarrow> length q < length p"
proof -
  assume "skip_elem p = (Some n, Some q)"
  then have "split_once SLASH (trim_matches SLASH p) = Some (n, q)"
    by (auto simp: skip_elem_def split: option.splits if_splits)
  from split_once_append[OF this] show ?thesis using length_trim_matches[of SLASH p] by simp
qed

function namex_from :: "bool \<Rightarrow> u8 list \<Rightarrow> nat \<Rightarrow> fsys \<Rightarrow> ((u8 list \<times> nat) option \<times> fsys) rust" where
  "namex_from parent path ip s =
     rbind (MInode_lock ip s) (\<lambda>s1.
     if i_itype (idat ip s1) \<noteq> TDir then rbind (ITable_put ip s1) (\<lambda>s2. Inr (None, s2))
     else
       case skip_elem path of
         (Some name, Some npath) \<Rightarrow>
           rbind (dirlookup ip name s1) (\<lambda>(found, s2).
           rbind (ITable_put ip s2) (\<lambda>s3.
           case found of
             Some (nip, off) \<Rightarrow> namex_from parent npath nip s3
           | None \<Rightarrow> Inr (None, s3)))
       | (Some name, None) \<Rightarrow>
           if \<not> parent then
             rbind (dirlookup ip name s1) (\<lambda>(found, s2).
             rbind (ITable_put ip s2) (\<lambda>s3.
             Inr (map_option (\<lambda>(nip, off). (name, nip)) found, s3)))
           else Inr (Some (name, ip), s1)
       | (None, rest) \<Rightarrow> rbind (ITable_put ip s1) (\<lambda>s2. Inr (None, s2)))"
  by pat_completeness auto

termination namex_from
  by (relation "measure (\<lambda>(parent, path, ip, s). length path)") (auto dest: skip_elem_shorter[OF sym])

declare namex_from.simps [simp del]

text \<open>\<open>cwd\<close> is the current directory of the process.\<close>

definition namex :: "nat option \<Rightarrow> bool \<Rightarrow> u8 list \<Rightarrow> fsys \<Rightarrow> ((u8 list \<times> nat) option \<times> fsys) rust" where
  "namex cwd parent path s =
     rbind (if path \<noteq> [] \<and> hd path = SLASH then ITable_get ROOTDEV ROOTINO s
            else rbind (unwrap cwd) (\<lambda>d. Inr (Inode_dup d s))) (\<lambda>(ip, s1).
     namex_from parent path ip s1)"

definition namei :: "nat option \<Rightarrow> u8 list \<Rightarrow> fsys \<Rightarrow> ((u8 list \<times> nat) option \<times> fsys) rust" where
  "namei cwd path s = namex cwd False path s"

definition nameiparent :: "nat option \<Rightarrow> u8 list \<Rightarrow> fsys \<Rightarrow> ((u8 list \<times> nat) option \<times> fsys) rust" where
  "nameiparent cwd path s = namex cwd True path s"

section \<open>Operations on names\<close>

text \<open>Drops of two inodes, and a result after them; a \<^verbatim>\<open>Result<(), ()>\<close> is \<^term>\<open>Inl ()\<close> or \<^term>\<open>Inr ()\<close>.\<close>

definition put2 :: "nat \<Rightarrow> nat \<Rightarrow> 'r \<Rightarrow> fsys \<Rightarrow> ('r \<times> fsys) rust" where
  "put2 x y r s = rbind (ITable_put x s) (\<lambda>s1. rbind (ITable_put y s1) (\<lambda>s2. Inr (r, s2)))"

definition put1 :: "nat \<Rightarrow> 'r \<Rightarrow> fsys \<Rightarrow> ('r \<times> fsys) rust" where
  "put1 x r s = rbind (ITable_put x s) (\<lambda>s1. Inr (r, s1))"

definition nlink_inc :: "nat \<Rightarrow> fsys \<Rightarrow> fsys rust" where
  "nlink_inc a s =
     (if i_nlink (idat a s) + 1 < 2 ^ 16 then
        IData_update a (upd_idat a (\<lambda>d. d\<lparr>i_nlink := i_nlink d + 1\<rparr>) s)
      else Inl Overflow)"

definition nlink_dec :: "nat \<Rightarrow> fsys \<Rightarrow> fsys rust" where
  "nlink_dec a s =
     rbind (usub (i_nlink (idat a s)) 1) (\<lambda>n. IData_update a (upd_idat a (\<lambda>d. d\<lparr>i_nlink := n\<rparr>) s))"

definition fs_link :: "nat option \<Rightarrow> u8 list \<Rightarrow> u8 list \<Rightarrow> fsys \<Rightarrow> ((unit + unit) \<times> fsys) rust" where
  "fs_link cwd old new s =
     rbind (namei cwd old s) (\<lambda>(r, s1).
     case r of None \<Rightarrow> Inr (Inl (), s1) | Some (x, ip) \<Rightarrow>
     rbind (MInode_lock ip s1) (\<lambda>s2.
     if i_itype (idat ip s2) = TDir then put1 ip (Inl ()) s2
     else
       rbind (nameiparent cwd new s2) (\<lambda>(r, s3).
       case r of None \<Rightarrow> put1 ip (Inl ()) s3 | Some (name, dp) \<Rightarrow>
       rbind (MInode_lock dp s3) (\<lambda>s4.
       if mi_dev (inode dp s4) \<noteq> mi_dev (inode ip s4) then put2 dp ip (Inl ()) s4
       else
         rbind (dirlink dp name (mi_inum (inode ip s4)) s4) (\<lambda>(r, s5).
         case r of
           Inl e \<Rightarrow> put2 dp ip (Inl ()) s5
         | Inr u \<Rightarrow>
             rbind (MInode_lock ip s5) (\<lambda>s6.
             rbind (nlink_inc ip s6) (\<lambda>s7. put2 dp ip (Inr ()) s7)))))))"

definition fs_unlink :: "nat option \<Rightarrow> u8 list \<Rightarrow> fsys \<Rightarrow> ((unit + unit) \<times> fsys) rust" where
  "fs_unlink cwd path s =
     rbind (nameiparent cwd path s) (\<lambda>(r, s1).
     case r of None \<Rightarrow> Inr (Inl (), s1) | Some (name, dp) \<Rightarrow>
     rbind (MInode_lock dp s1) (\<lambda>s2.
     if name = DOT \<or> name = DOTDOT then put1 dp (Inl ()) s2
     else
       rbind (dirlookup dp name s2) (\<lambda>(r, s3).
       case r of None \<Rightarrow> put1 dp (Inl ()) s3 | Some (ip, off) \<Rightarrow>
       rbind (MInode_lock ip s3) (\<lambda>s4.
       if i_nlink (idat ip s4) < 1 then Inl (Panic ''unlink: nlink < 1'')
       else
         rbind (if i_itype (idat ip s4) = TDir then is_dir_empty ip s4 else Inr (True, s4)) (\<lambda>(empty, s5).
         if \<not> empty then put2 ip dp (Inl ()) s5
         else
           rbind (IData_write dp (kget DirEnt_default) off DIRENT_SIZE s5) (\<lambda>(r, s6).
           case r of
             Inl e \<Rightarrow> Inl UnwrapNone
           | Inr n \<Rightarrow>
               rbind (if i_itype (idat ip s6) = TDir then nlink_dec dp s6 else Inr s6) (\<lambda>s7.
               rbind (nlink_dec ip s7) (\<lambda>s8. put2 ip dp (Inr ()) s8))))))))"

text \<open>The part of \<^verbatim>\<open>create\<close> that makes a new inode \<open>ip\<close> in the directory \<open>dp\<close>.\<close>

definition create_new :: "u8 list \<Rightarrow> nat \<Rightarrow> IType \<Rightarrow> nat \<Rightarrow> nat \<Rightarrow> nat \<Rightarrow> fsys \<Rightarrow> (nat option \<times> fsys) rust" where
  "create_new name dp ty major minor ip s =
     rbind (MInode_lock ip s) (\<lambda>s1.
     rbind (IData_update ip (upd_idat ip (\<lambda>d. d\<lparr>i_major := Major_from_u16 major, i_minor := minor\<rparr>) s1)) (\<lambda>s2.
     rbind (if ty = TDir then
              rbind (dirlink ip DOT (mi_inum (inode ip s2)) s2) (\<lambda>(r, s3).
              case r of Inl e \<Rightarrow> Inr (Inl e, s3) | Inr u \<Rightarrow> dirlink ip DOTDOT (mi_inum (inode dp s3)) s3)
            else Inr (Inr (), s2)) (\<lambda>(r, s4).
     case r of Inl e \<Rightarrow> put2 ip dp None s4 | Inr u \<Rightarrow>
     rbind (dirlink dp name (mi_inum (inode ip s4)) s4) (\<lambda>(r, s5).
     case r of Inl e \<Rightarrow> put2 ip dp None s5 | Inr u \<Rightarrow>
     rbind (if ty = TDir then nlink_inc dp s5 else Inr s5) (\<lambda>s6.
     rbind (IData_update ip (upd_idat ip (\<lambda>d. d\<lparr>i_nlink := 1\<rparr>) s6)) (\<lambda>s7.
     put1 dp (Some ip) s7))))))"

definition create :: "nat option \<Rightarrow> u8 list \<Rightarrow> IType \<Rightarrow> nat \<Rightarrow> nat \<Rightarrow> fsys \<Rightarrow> (nat option \<times> fsys) rust" where
  "create cwd path ty major minor s =
     rbind (nameiparent cwd path s) (\<lambda>(r, s1).
     case r of None \<Rightarrow> Inr (None, s1) | Some (name, dp) \<Rightarrow>
     rbind (MInode_lock dp s1) (\<lambda>s2.
     rbind (dirlookup dp name s2) (\<lambda>(r, s3).
     case r of
       Some (ip, off) \<Rightarrow>
         rbind (MInode_lock ip s3) (\<lambda>s4.
         if ty = TFile \<and> (i_itype (idat ip s4) = TFile \<or> i_itype (idat ip s4) = TDevice)
         then put1 dp (Some ip) s4
         else put2 ip dp None s4)
     | None \<Rightarrow>
         rbind (ITable_alloc (mi_dev (inode dp s3)) ty s3) (\<lambda>(r, s4).
         case r of
           None \<Rightarrow> put1 dp None s4
         | Some ip \<Rightarrow> create_new name dp ty major minor ip s4))))"

end
