(* ===== verification/Outcome.thy ===== *)
theory Outcome
  imports OctoxPrelude
begin

text \<open>
  Rules for what holds of the result of a computation whenever it does not panic, so that an
  invariant is carried through a function of the source in the order of its calls.
\<close>

definition rok :: "('a \<Rightarrow> bool) \<Rightarrow> 'a rust \<Rightarrow> bool" where
  "rok P m = (case m of Inl e \<Rightarrow> True | Inr x \<Rightarrow> P x)"

lemma rok_Inl [simp, intro]: "rok P (Inl e)"
  by (simp add: rok_def)

lemma rok_Inr [simp]: "rok P (Inr x) \<longleftrightarrow> P x"
  by (simp add: rok_def)

lemma rokI: "(\<And>x. m = Inr x \<Longrightarrow> P x) \<Longrightarrow> rok P m"
  by (cases m) auto

lemma rokD: "rok P m \<Longrightarrow> m = Inr x \<Longrightarrow> P x"
  by simp

lemma rok_mono: "rok P m \<Longrightarrow> (\<And>x. P x \<Longrightarrow> Q x) \<Longrightarrow> rok Q m"
  by (cases m) auto

lemma rok_bind: "rok P m \<Longrightarrow> (\<And>x. P x \<Longrightarrow> rok Q (f x)) \<Longrightarrow> rok Q (rbind m f)"
  by (cases m) auto

text \<open>A step about whose result nothing is needed.\<close>

lemma rok_skip: "(\<And>x. m = Inr x \<Longrightarrow> rok Q (f x)) \<Longrightarrow> rok Q (rbind m f)"
  by (cases m) auto

lemma rok_if: "(c \<Longrightarrow> rok Q x) \<Longrightarrow> (\<not> c \<Longrightarrow> rok Q y) \<Longrightarrow> rok Q (if c then x else y)"
  by simp

lemma rok_option: "(r = None \<Longrightarrow> rok Q x) \<Longrightarrow> (\<And>v. r = Some v \<Longrightarrow> rok Q (f v)) \<Longrightarrow>
  rok Q (case r of None \<Rightarrow> x | Some v \<Rightarrow> f v)"
  by (cases r) auto

lemma rok_sum: "(\<And>e. r = Inl e \<Longrightarrow> rok Q (g e)) \<Longrightarrow> (\<And>v. r = Inr v \<Longrightarrow> rok Q (f v)) \<Longrightarrow>
  rok Q (case r of Inl e \<Rightarrow> g e | Inr v \<Rightarrow> f v)"
  by (cases r) auto

lemma rok_prod: "(\<And>x y. p = (x, y) \<Longrightarrow> rok Q (f x y)) \<Longrightarrow> rok Q (case p of (x, y) \<Rightarrow> f x y)"
  by (cases p) auto

lemma rok_Let: "rok Q (f x) \<Longrightarrow> rok Q (Let x f)"
  by simp

lemmas rok_cases = rok_if rok_option rok_sum rok_prod rok_Let

text \<open>
  A step that may sleep, or need more fuel than it has, is \<^term>\<open>None\<close>: the sequence of two.
\<close>

definition wbind :: "'a rust option \<Rightarrow> ('a \<Rightarrow> 'b rust option) \<Rightarrow> 'b rust option" where
  "wbind m f = (case m of None \<Rightarrow> None | Some (Inl e) \<Rightarrow> Some (Inl e) | Some (Inr x) \<Rightarrow> f x)"

lemma wbind_Some: "wbind m f = Some (Inr y) \<longleftrightarrow> (\<exists>x. m = Some (Inr x) \<and> f x = Some (Inr y))"
  by (auto simp: wbind_def split: option.splits sum.splits)

lemma wbind_simps [simp]: "wbind None f = None" "wbind (Some (Inl e)) f = Some (Inl e)" "wbind (Some (Inr x)) f = f x"
  by (simp_all add: wbind_def)

end
