(* ===== verification/RefTable.thy ===== *)
theory RefTable
  imports Inode
begin

text \<open>
  Tables of counted references, as the inode table and the file table are: an object is in a slot
  of the table exactly when somebody has a reference to it, and in one slot only. The function \<open>g\<close>
  counts the references outside the table.
\<close>

definition slots_ok :: "nat option list \<Rightarrow> (nat \<Rightarrow> nat) \<Rightarrow> bool" where
  "slots_ok t g \<longleftrightarrow> (\<forall>a. Some a \<in> set t \<longleftrightarrow> g a > 0) \<and> distinct (filter (\<lambda>e. e \<noteq> None) t)"

abbreviation inc :: "nat \<Rightarrow> (nat \<Rightarrow> nat) \<Rightarrow> nat \<Rightarrow> nat" where
  "inc a h \<equiv> h(a := h a + 1)"

abbreviation dec :: "nat \<Rightarrow> (nat \<Rightarrow> nat) \<Rightarrow> nat \<Rightarrow> nat" where
  "dec a h \<equiv> h(a := h a - 1)"

lemma slots_ok_mem: "slots_ok t g \<Longrightarrow> Some a \<in> set t \<longleftrightarrow> g a > 0"
  by (simp add: slots_ok_def)

lemma slots_ok_empty: "slots_ok (replicate n None) (\<lambda>_. 0)"
  by (simp add: slots_ok_def)

lemma slots_ok_cong: "slots_ok t g \<Longrightarrow> (\<And>a. g' a > 0 \<longleftrightarrow> g a > 0) \<Longrightarrow> slots_ok t g'"
  by (simp add: slots_ok_def)

lemma free_slot_Some: "free_slot es = Some j \<Longrightarrow> j < length es \<and> es ! j = None"
  by (induction es arbitrary: j rule: free_slot.induct) auto

lemma slots_ok_insert:
  assumes s: "slots_ok t g" and j: "free_slot t = Some j" and a: "g a = 0" and k: "k > 0"
  shows "slots_ok (t[j := Some a]) (g(a := k))"
proof -
  have js: "j < length t" "t ! j = None" using free_slot_Some[OF j] by simp_all
  have split: "t = take j t @ None # drop (Suc j) t" using id_take_nth_drop[OF js(1)] js(2) by simp
  have upd: "t[j := Some a] = take j t @ Some a # drop (Suc j) t" using js(1) by (simp add: upd_conv_take_nth_drop)
  have mem: "e \<in> set t \<longleftrightarrow> e \<in> set (take j t) \<or> e = None \<or> e \<in> set (drop (Suc j) t)" for e
    by (subst split) auto
  have "filter (\<lambda>e. e \<noteq> None) t = filter (\<lambda>e. e \<noteq> None) (take j t) @ filter (\<lambda>e. e \<noteq> None) (drop (Suc j) t)"
    by (subst split) simp
  then have dis: "distinct (filter (\<lambda>e. e \<noteq> None) (take j t) @ filter (\<lambda>e. e \<noteq> None) (drop (Suc j) t))"
    using s unfolding slots_ok_def by simp
  have notin: "Some a \<notin> set t" using s a unfolding slots_ok_def by simp
  have "distinct (filter (\<lambda>e. e \<noteq> None) (t[j := Some a]))" unfolding upd using dis notin unfolding mem by auto
  moreover have "Some b \<in> set (t[j := Some a]) \<longleftrightarrow> (g(a := k)) b > 0" for b
    using s k unfolding slots_ok_def upd by (auto simp: mem)
  ultimately show ?thesis by (simp add: slots_ok_def)
qed

lemma filter_clear:
  "filter (\<lambda>e. e \<noteq> None) (map (\<lambda>e. if e = Some a then None else e) es) = filter (\<lambda>e. e \<noteq> Some a) (filter (\<lambda>e. e \<noteq> None) es)"
  by (induction es) auto

lemma slots_ok_remove:
  assumes "slots_ok t g"
  shows "slots_ok (map (\<lambda>e. if e = Some a then None else e) t) (g(a := 0))"
proof -
  have "distinct (filter (\<lambda>e. e \<noteq> None) t)" using assms by (simp add: slots_ok_def)
  then have "distinct (filter (\<lambda>e. e \<noteq> None) (map (\<lambda>e. if e = Some a then None else e) t))"
    unfolding filter_clear by (rule distinct_filter)
  moreover have "Some b \<in> set (map (\<lambda>e. if e = Some a then None else e) t) \<longleftrightarrow> b \<noteq> a \<and> Some b \<in> set t" for b
    by (auto split: if_splits intro: rev_image_eqI)
  ultimately show ?thesis using assms by (simp add: slots_ok_def)
qed

end
