(* ===== verification/FsInv.thy ===== *)
theory FsInv
  imports FsPath Outcome RefTable
begin

text \<open>
  The invariant of the file system in memory. A function \<open>h\<close> counts the references to every inode that
  the threads have (open files, current directories, variables): an inode is in the table exactly when
  there is one, its strong count is one more than their number, and no two inodes of the table have
  the same number. Every operation keeps this with the references it returns.
\<close>

section \<open>What the operations on blocks leave alone\<close>

definition core :: "fsys \<Rightarrow> nat option list \<times> (nat \<times> nat \<times> nat) list" where
  "core s = (fs_itable s, map (\<lambda>i. (mi_dev i, mi_inum i, mi_refs i)) (fs_inodes s))"

definition typed :: "fsys \<Rightarrow> bool" where
  "typed s \<longleftrightarrow> (\<forall>b. length (bget b s) = BSIZE) \<and>
     (\<forall>i \<in> set (fs_inodes s). length (i_addrs (mi_data i)) = NDIRECT + 1) \<and>
     length (lh_block (log_lh (fs_log s))) = LOGSIZE"

abbreviation keeps :: "fsys \<Rightarrow> fsys \<Rightarrow> bool" where
  "keeps s s' \<equiv> typed s' \<and> core s' = core s"

lemma bget_bput: "bget b (bput c x s) = (if b = c then x else bget b s)"
  by (simp add: bget_def bput_def bread_def bmodify_def bs_disk_def split: option.splits)

lemma bput_fields [simp]:
  "fs_sb (bput b x s) = fs_sb s" "fs_log (bput b x s) = fs_log s"
  "fs_itable (bput b x s) = fs_itable s" "fs_inodes (bput b x s) = fs_inodes s"
  by (simp_all add: bput_def)

lemma upd_fields [simp]:
  "fs_sb (upd_inode a f s) = fs_sb s" "fs_log (upd_inode a f s) = fs_log s"
  "fs_itable (upd_inode a f s) = fs_itable s" "fs_st (upd_inode a f s) = fs_st s"
  "fs_sb (upd_idat a g s) = fs_sb s" "fs_log (upd_idat a g s) = fs_log s"
  "fs_itable (upd_idat a g s) = fs_itable s" "fs_st (upd_idat a g s) = fs_st s"
  by (simp_all add: upd_inode_def upd_idat_def)

lemma bget_upd [simp]: "bget b (upd_inode a f s) = bget b s" "bget b (upd_idat a g s) = bget b s"
  by (simp_all add: bget_def)

lemma core_bput [simp]: "core (bput b x s) = core s"
  by (simp add: core_def)

lemma typed_bput: "typed s \<Longrightarrow> length x = BSIZE \<Longrightarrow> typed (bput b x s)"
  by (simp add: typed_def bget_bput)

lemma core_upd_idat [simp]: "core (upd_idat a f s) = core s"
  by (cases "a < length (fs_inodes s)")
    (auto simp: core_def upd_idat_def upd_inode_def map_update list_update_beyond intro!: nth_equalityI simp: nth_list_update)

lemma typed_upd_idat:
  assumes "typed s" and "\<And>d. length (i_addrs d) = NDIRECT + 1 \<Longrightarrow> length (i_addrs (f d)) = NDIRECT + 1"
  shows "typed (upd_idat a f s)"
proof (cases "a < length (fs_inodes s)")
  case True
  then have "length (i_addrs (idat a s)) = NDIRECT + 1" using assms(1) by (simp add: typed_def)
  from assms(2)[OF this] have "\<forall>i \<in> set ((fs_inodes s)[a := (inode a s)\<lparr>mi_data := f (idat a s)\<rparr>]). length (i_addrs (mi_data i)) = NDIRECT + 1"
    using assms(1) set_update_subset_insert[of "fs_inodes s" a] by (fastforce simp: typed_def)
  then show ?thesis using assms(1) by (simp add: typed_def) (simp add: upd_idat_def upd_inode_def)
next
  case False
  then show ?thesis using assms(1) by (simp add: upd_idat_def upd_inode_def list_update_beyond typed_def bget_def)
qed

lemma LOG_write_fields:
  assumes "LOG_write b s = Inr s'"
  obtains log where "s' = s\<lparr>fs_log := log\<rparr>" "length (lh_block (log_lh log)) = length (lh_block (log_lh (fs_log s)))"
  using assms by (auto simp: LOG_write_def Log_write_def Let_def index_set_def split: if_splits)

lemma keeps_LOG_write: "typed s \<Longrightarrow> rok (keeps s) (LOG_write b s)"
  by (rule rokI) (auto elim!: LOG_write_fields simp: typed_def core_def bget_def)

lemma length_dinode_put: "length bp = BSIZE \<Longrightarrow> length (di_addrs d) = NDIRECT + 1 \<Longrightarrow> length (dinode_put (k mod IPB) d bp) = BSIZE"
proof -
  assume a: "length bp = BSIZE" "length (di_addrs d) = NDIRECT + 1"
  have "length (concat (map le32 (di_addrs d))) = 4 * length (di_addrs d)"
    by (simp add: length_concat le32_def comp_def sum_list_triv)
  then have l: "length (DInode_bytes d) = DINODE_SIZE"
    by (simp add: DInode_bytes_def le16_def le32_def DINODE_SIZE_def a(2))
  have "k mod IPB < 16" by (simp add: IPB_def BSIZE_def DINODE_SIZE_def NDIRECT_def)
  then have "DINODE_SIZE * (k mod IPB) + DINODE_SIZE \<le> BSIZE"
    by (simp add: DINODE_SIZE_def NDIRECT_def BSIZE_def)
  then show ?thesis using a(1) l by (simp add: dinode_put_def)
qed

text \<open>A change of a block followed by its entry into the log.\<close>

lemma keeps_log_put: "typed s \<Longrightarrow> length x = BSIZE \<Longrightarrow> rok (keeps s) (LOG_write b (bput c x s))"
  using keeps_LOG_write[OF typed_bput] by simp

lemma keeps_bzero: "typed s \<Longrightarrow> rok (keeps s) (bzero b s)"
  unfolding bzero_def by (rule keeps_log_put) simp_all

lemma keeps_balloc_from: "typed s \<Longrightarrow> rok (\<lambda>(x, s'). keeps s s') (balloc_from b sb s)"
proof (induction b sb s rule: balloc_from.induct)
  case (1 b sb s)
  note IH = "1.IH" and T = "1.prems"
  have step: "rok (\<lambda>(x, s'). keeps s s') (rbind (LOG_write mb (bput mb (y[i := v]) s)) (\<lambda>s1.
      rbind (u32_add b bi) (\<lambda>x. rbind (bzero x s1) (\<lambda>s2. Inr (x, s2)))))" if "y = bget mb s" for mb y i v bi
  proof (rule rok_bind[OF keeps_log_put[OF T]], goal_cases)
    case 1
    show ?case using T that by (simp add: typed_def)
  next
    case (2 s1)
    then show ?case by (intro rok_skip rok_bind[OF keeps_bzero]) simp_all
  qed
  show ?case
    unfolding balloc_from.simps[of b sb s]
    by (rule rok_if[OF rok_skip[OF rok_skip[OF rok_option]]]) (simp_all add: IH T step Let_def)
qed

lemma keeps_balloc: "typed s \<Longrightarrow> rok (\<lambda>(x, s'). keeps s s') (balloc s)"
  unfolding balloc_def by (intro rok_skip keeps_balloc_from)

lemma keeps_bfree: "typed s \<Longrightarrow> rok (keeps s) (bfree b s)"
  unfolding bfree_def
  by (intro rok_skip rok_Let rok_if keeps_log_put rok_Inl) (simp_all add: typed_def)

lemma keeps_bfree_all: "typed s \<Longrightarrow> rok (keeps s) (bfree_all xs s)"
proof (induction xs arbitrary: s)
  case (Cons x xs)
  have "rok (keeps s) (rbind (bfree x s) (bfree_all xs))"
    by (rule rok_bind[OF keeps_bfree[OF Cons.prems]]) (metis (no_types, lifting) Cons.IH rok_mono)
  then show ?case using Cons by simp
qed simp

lemma keeps_IData_update: "typed s \<Longrightarrow> a < length (fs_inodes s) \<Longrightarrow> rok (keeps s) (IData_update a s)"
  unfolding IData_update_def
  by (intro rok_skip keeps_log_put length_dinode_put) (simp_all add: typed_def dinode_of_def)

lemma core_length: "core s' = core s \<Longrightarrow> length (fs_inodes s') = length (fs_inodes s)"
  by (auto simp: core_def dest: map_eq_imp_length_eq)

lemma keeps_trunc_direct:
  "typed s \<Longrightarrow> k \<le> NDIRECT \<Longrightarrow> rok (keeps s) (trunc_direct a k s)"
proof (induction k arbitrary: s)
  case (Suc k)
  have u: "keeps s (upd_idat a (\<lambda>d. d\<lparr>i_addrs := (i_addrs d)[i := 0]\<rparr>) s1)" if "keeps s s1" for s1 i
    using that by (simp add: typed_upd_idat)
  have "rok (keeps s) (rbind (bfree ad s) (\<lambda>s1. trunc_direct a k (upd_idat a (\<lambda>d. d\<lparr>i_addrs := (i_addrs d)[i := 0]\<rparr>) s1)))" for ad i
  proof (rule rok_bind[OF keeps_bfree[OF Suc.prems(1)]])
    fix s1
    assume "keeps s s1"
    from u[OF this, of i] Suc.IH[of "upd_idat a (\<lambda>d. d\<lparr>i_addrs := (i_addrs d)[i := 0]\<rparr>) s1"] Suc.prems(2)
    show "rok (keeps s) (trunc_direct a k (upd_idat a (\<lambda>d. d\<lparr>i_addrs := (i_addrs d)[i := 0]\<rparr>) s1))" by simp
  qed
  then show ?case using Suc by (simp add: Let_def)
qed simp

lemma keeps_IData_trunc: "typed s \<Longrightarrow> a < length (fs_inodes s) \<Longrightarrow> rok (keeps s) (IData_trunc a s)"
  unfolding IData_trunc_def
proof (rule rok_bind[OF keeps_trunc_direct[OF _ order_refl]], assumption, rule rok_Let)
  fix s1
  assume a: "a < length (fs_inodes s)" and s1: "keeps s s1"
  let ?n = "i_addrs (idat a s1) ! NDIRECT"
  have "rok (keeps s) (if ?n > 0 then
                 rbind (bfree_all (u32s (bget ?n s1)) s1) (\<lambda>s2.
                 rbind (bfree ?n s2) (\<lambda>s3.
                 Inr (upd_idat a (\<lambda>d. d\<lparr>i_addrs := (i_addrs d)[NDIRECT := 0]\<rparr>) s3)))
               else Inr s1)"
    by (intro rok_if rok_bind[OF keeps_bfree_all] rok_bind[OF keeps_bfree]) (use s1 in \<open>auto intro: typed_upd_idat\<close>)
  then show "rok (keeps s) (rbind (if ?n > 0 then
                 rbind (bfree_all (u32s (bget ?n s1)) s1) (\<lambda>s2.
                 rbind (bfree ?n s2) (\<lambda>s3.
                 Inr (upd_idat a (\<lambda>d. d\<lparr>i_addrs := (i_addrs d)[NDIRECT := 0]\<rparr>) s3)))
               else Inr s1) (\<lambda>s4. IData_update a (upd_idat a (\<lambda>d. d\<lparr>i_size := 0\<rparr>) s4)))"
  proof (rule rok_bind)
    fix s4
    assume "keeps s s4"
    then have k: "keeps s (upd_idat a (\<lambda>d. d\<lparr>i_size := 0\<rparr>) s4)" by (simp add: typed_upd_idat)
    then have "a < length (fs_inodes (upd_idat a (\<lambda>d. d\<lparr>i_size := 0\<rparr>) s4))" using core_length[of "upd_idat a (\<lambda>d. d\<lparr>i_size := 0\<rparr>) s4" s] a by simp
    from keeps_IData_update[OF _ this] k show "rok (keeps s) (IData_update a (upd_idat a (\<lambda>d. d\<lparr>i_size := 0\<rparr>) s4))" by simp
  qed
qed

lemma keeps_bmap_addr: "typed s \<Longrightarrow> rok (\<lambda>(x, s'). keeps s s') (bmap_addr a i s)"
  unfolding bmap_addr_def
  by (intro rok_Let rok_if rok_bind[OF keeps_balloc]) (auto intro!: typed_upd_idat)

lemma keeps_bmap: "typed s \<Longrightarrow> rok (\<lambda>(x, s'). keeps s s') (bmap a bn s)"
  unfolding bmap_def Let_def
proof (intro rok_if rok_bind[OF keeps_bmap_addr], goal_cases)
  case (4 x)
  have "rok (\<lambda>(x, s'). keeps s s') (rbind (balloc s1) (\<lambda>(ad, s2).
      rbind (LOG_write ind (bput ind (overwrite (bget ind s1) (4 * (bn - NDIRECT)) (le32 ad)) s2)) (\<lambda>s3.
      Inr (Inr ad, s3))))" if s1: "keeps s s1" for ind s1
  proof (rule rok_bind[OF keeps_balloc])
    fix y :: "nat \<times> fsys"
    assume y: "case y of (x, s') \<Rightarrow> keeps s1 s'"
    have "4 * (bn - NDIRECT) + 4 \<le> BSIZE" using 4 by (simp add: NINDIRECT_def BSIZE_def)
    then have "length (overwrite (bget ind s1) (4 * (bn - NDIRECT)) (le32 (fst y))) = BSIZE"
      using s1 by (simp add: le32_def typed_def)
    then show "rok (\<lambda>(x, s'). keeps s s') (case y of (ad, s2) \<Rightarrow>
        rbind (LOG_write ind (bput ind (overwrite (bget ind s1) (4 * (bn - NDIRECT)) (le32 ad)) s2)) (\<lambda>s3. Inr (Inr ad, s3)))"
      using y s1 by (cases y) (auto intro!: rok_bind[OF keeps_log_put])
  qed (use s1 in simp)
  then show ?case using 4 by (cases x) auto
qed auto

lemma keeps_bmapD: "bmap a bn s = Inr (r, s1) \<Longrightarrow> typed s \<Longrightarrow> keeps s s1"
  using rokD[OF keeps_bmap] by fastforce

lemma keeps_read_loop: "typed s \<Longrightarrow> rok (\<lambda>(r, m', s'). keeps s s') (read_loop a put tot off n m s)"
proof (induction a put tot off n m s rule: read_loop.induct)
  case (1 a put tot off n m s)
  note IH = "1.IH" and T = "1.prems"
  show ?case
    unfolding read_loop.simps[of a put tot off n m s]
  proof (intro rok_if rok_skip rok_prod rok_sum rok_Let, goal_cases)
    case (1 x r s1 e)
    then show ?case using keeps_bmapD T by simp
  next
    case (2 x r s1 b bs m1 ok)
    then show ?case using keeps_bmapD T by simp
  next
    case (3 x r s1 b bs m1 ok)
    have k: "keeps s s1" using keeps_bmapD[OF _ T] 3 by simp
    from IH[OF 3(1,2) 3(3)[symmetric] 3(4) refl 3(5) refl 3(6)[symmetric] 3(7)] k show ?case by simp
  qed (simp add: T)
qed

lemma keeps_IData_read: "typed s \<Longrightarrow> rok (\<lambda>(r, m', s'). keeps s s') (IData_read a put off n m s)"
  unfolding IData_read_def by (intro rok_Let rok_if rok_skip keeps_read_loop) simp_all

lemma keeps_write_loop: "typed s \<Longrightarrow> rok (\<lambda>(r, s'). keeps s s') (write_loop a get tot off n s)"
proof (induction a get tot off n s rule: write_loop.induct)
  case (1 a get tot off n s)
  note IH = "1.IH" and T = "1.prems"
  have len: "length (overwrite bp k (take (length room) bs)) = BSIZE"
    if "slice bp k j = Inr room" "length bp = BSIZE" for bp room :: "u8 list" and k j bs
    using that by (auto simp: slice_def split: if_splits)
  show ?case
    unfolding write_loop.simps[of a get tot off n s]
  proof (intro rok_if rok_skip rok_prod rok_sum rok_Let, goal_cases)
    case (1 x r s1 e)
    then show ?case using keeps_bmapD T by simp
  next
    case (2 x r s1 b room bs ok)
    then have k: "keeps s s1" using keeps_bmapD T by simp
    then show ?case using len[OF 2(5)] by (simp add: typed_bput typed_def[of s1])
  next
    case (3 x r s1 b room bs ok s3)
    have k: "keeps s s1" using keeps_bmapD[OF _ T] 3 by simp
    then have "keeps s1 s3" using len[OF 3(5)] rokD[OF keeps_log_put 3(8)] by (simp add: typed_def[of s1])
    with IH[OF 3(1,2) 3(3)[symmetric] 3(4) refl refl refl 3(5) refl 3(6)[symmetric] refl 3(7,8)] k show ?case by simp
  qed (simp add: T)
qed

lemma keeps_IData_write:
  assumes T: "typed s" and a: "a < length (fs_inodes s)"
  shows "rok (\<lambda>(r, s'). keeps s s') (IData_write a get off n s)"
  unfolding IData_write_def Let_def
proof (intro rok_if rok_bind[OF keeps_write_loop[OF T]] rok_skip rok_prod rok_sum, goal_cases)
  case (4 xa x r s1 y tot off1 s3)
  let ?s2 = "if off1 > i_size (idat a s1) then upd_idat a (\<lambda>d. d\<lparr>i_size := off1\<rparr>) s1 else s1"
  have k: "keeps s ?s2" using 4 by (simp add: typed_upd_idat)
  then have "a < length (fs_inodes ?s2)" using core_length[of ?s2 s] a by simp
  from rokD[OF keeps_IData_update[OF _ this] 4(8)] k show ?case by simp
qed (use T in auto)

section \<open>References\<close>

definition key :: "nat \<Rightarrow> fsys \<Rightarrow> nat \<times> nat" where
  "key a s = (mi_dev (inode a s), mi_inum (inode a s))"

definition fs_inv :: "(nat \<Rightarrow> nat) \<Rightarrow> fsys \<Rightarrow> bool" where
  "fs_inv h s \<longleftrightarrow> typed s \<and> length (fs_itable s) = NINODE \<and>
     slots_ok (fs_itable s) h \<and>
     (\<forall>a. h a > 0 \<longrightarrow> a < length (fs_inodes s) \<and> mi_refs (inode a s) = h a + 1) \<and>
     (\<forall>a b. h a > 0 \<longrightarrow> h b > 0 \<longrightarrow> key a s = key b s \<longrightarrow> a = b)"

lemma core_nth:
  assumes "core s' = core s" and "a < length (fs_inodes s)"
  shows "mi_refs (inode a s') = mi_refs (inode a s)" "mi_dev (inode a s') = mi_dev (inode a s)" "mi_inum (inode a s') = mi_inum (inode a s)"
proof -
  let ?f = "\<lambda>i. (mi_dev i, mi_inum i, mi_refs i)"
  have "snd (core s') ! a = snd (core s) ! a" by (simp only: assms(1))
  moreover have "a < length (fs_inodes s')" using assms core_length[OF assms(1)] by simp
  ultimately have "?f (inode a s') = ?f (inode a s)" using assms(2) by (simp only: core_def snd_conv nth_map)
  then show "mi_refs (inode a s') = mi_refs (inode a s)" "mi_dev (inode a s') = mi_dev (inode a s)" "mi_inum (inode a s') = mi_inum (inode a s)"
    by (simp_all only: prod.inject)
qed

lemma fs_inv_keeps:
  assumes f: "fs_inv h s" and k: "keeps s s'"
  shows "fs_inv h s'"
proof -
  have c: "core s' = core s" using k by (rule conjunct2)
  have t: "fs_itable s' = fs_itable s" using arg_cong[OF c, of fst] by (simp only: core_def fst_conv)
  have l: "length (fs_inodes s') = length (fs_inodes s)" by (rule core_length[OF c])
  have a: "a < length (fs_inodes s) \<and> mi_refs (inode a s) = h a + 1" if "h a > 0" for a using f that unfolding fs_inv_def by blast
  have r: "mi_refs (inode a s') = h a + 1" "key a s' = key a s" if "h a > 0" for a
    using core_nth[OF c conjunct1[OF a[OF that]]] a[OF that] by (simp_all only: key_def)
  show ?thesis
    unfolding fs_inv_def t l using f k a r(1) unfolding fs_inv_def by (metis r(2))
qed

lemma fs_invD:
  assumes "fs_inv h s"
  shows "typed s" "h a > 0 \<Longrightarrow> a < length (fs_inodes s)" "h a > 0 \<Longrightarrow> mi_refs (inode a s) = h a + 1"
  using assms by (simp_all add: fs_inv_def)

lemma itable_find_Some:
  "itable_find dev inum is es = Some a \<Longrightarrow> Some a \<in> set es \<and> mi_dev (is ! a) = dev \<and> mi_inum (is ! a) = inum"
  by (induction dev inum "is" es rule: itable_find.induct) (auto split: if_splits)

lemma itable_find_None:
  "itable_find dev inum is es = None \<Longrightarrow> Some a \<in> set es \<Longrightarrow> \<not> (mi_dev (is ! a) = dev \<and> mi_inum (is ! a) = inum)"
  by (induction dev inum "is" es rule: itable_find.induct) (auto split: if_splits)

lemma bget_fields [simp]:
  "bget b (s\<lparr>fs_itable := t\<rparr>) = bget b s" "bget b (s\<lparr>fs_inodes := is\<rparr>) = bget b s"
  by (simp_all add: bget_def)

text \<open>A change of the strong count of one inode.\<close>

lemma upd_inode_nth:
  "fs_inodes (upd_inode a f s) ! b = (if b = a \<and> a < length (fs_inodes s) then f (inode a s) else inode b s)"
  by (cases "a < length (fs_inodes s)") (auto simp: upd_inode_def nth_list_update list_update_beyond)

lemma length_upd_inode [simp]: "length (fs_inodes (upd_inode a f s)) = length (fs_inodes s)"
  by (simp add: upd_inode_def)

lemma typed_upd_inode: "typed s \<Longrightarrow> (\<And>i. mi_data (f i) = mi_data i) \<Longrightarrow> typed (upd_inode a f s)"
  unfolding typed_def bget_upd
  by (simp add: all_set_conv_all_nth upd_inode_nth)

lemma fs_inv_add_ref:
  assumes f: "fs_inv h s" and a: "h a > 0"
  shows "fs_inv (inc a h) (add_ref a s)"
proof -
  have k: "key b (add_ref a s) = key b s" for b
    by (simp add: key_def add_ref_def upd_inode_nth)
  have r: "mi_refs (inode b (add_ref a s)) = mi_refs (inode b s) + (if b = a then 1 else 0)" for b
    using fs_invD(2)[OF f a] by (simp add: add_ref_def upd_inode_nth)
  have t: "typed (add_ref a s)" unfolding add_ref_def by (rule typed_upd_inode[OF fs_invD(1)[OF f]]) simp
  have i: "fs_itable (add_ref a s) = fs_itable s" "length (fs_inodes (add_ref a s)) = length (fs_inodes s)"
    by (simp_all add: add_ref_def)
  have p: "inc a h b > 0 \<longleftrightarrow> h b > 0" for b using a by simp
  have sl: "slots_ok (fs_itable s) (inc a h)" by (rule slots_ok_cong[of _ h]) (use f p in \<open>simp_all add: fs_inv_def\<close>)
  show ?thesis
    unfolding fs_inv_def k i p r using f t sl unfolding fs_inv_def by simp
qed

lemma fs_inv_new:
  assumes f: "fs_inv h s" and j: "free_slot (fs_itable s) = Some j"
    and new: "\<And>b. h b > 0 \<Longrightarrow> key b s \<noteq> (dev, inum)" and a: "a = length (fs_inodes s)"
  shows "fs_inv (h(a := 1)) (add_ref a (s\<lparr>fs_inodes := fs_inodes s @ [MInode_new dev inum], fs_itable := (fs_itable s)[j := Some a]\<rparr>))"
    and "h a = 0"
proof -
  show h0: "h a = 0" using fs_invD(2)[OF f, of a] a by auto
  let ?new = "s\<lparr>fs_inodes := fs_inodes s @ [MInode_new dev inum], fs_itable := (fs_itable s)[j := Some a]\<rparr>"
  let ?s = "add_ref a ?new"
  have tab: "fs_itable ?s = (fs_itable s)[j := Some a]" by (simp add: add_ref_def)
  have slots: "slots_ok (fs_itable ?s) (h(a := 1))"
    unfolding tab by (rule slots_ok_insert[where g = h, OF _ j h0]) (use f in \<open>simp_all add: fs_inv_def\<close>)
  have len: "length (fs_inodes ?s) = Suc (length (fs_inodes s))" by (simp add: add_ref_def)
  have na: "inode a ?s = (MInode_new dev inum)\<lparr>mi_refs := 2\<rparr>"
    by (simp add: add_ref_def upd_inode_nth a nth_append MInode_new_def)
  have nb: "inode b ?s = inode b s" if "h b > 0" for b
    using fs_invD(2)[OF f that] by (simp add: add_ref_def upd_inode_nth a nth_append)
  have "typed ?new" using fs_invD(1)[OF f] unfolding typed_def by (simp add: MInode_new_def IData_new_def)
  then have t: "typed ?s" unfolding add_ref_def by (rule typed_upd_inode) simp
  have p: "(h(a := 1)) b > 0 \<longleftrightarrow> b = a \<or> h b > 0" for b by simp
  have ka: "key a ?s = (dev, inum)" unfolding key_def na by (simp add: MInode_new_def)
  have kb: "key b ?s = key b s" if "h b > 0" for b unfolding key_def nb[OF that] ..
  show "fs_inv (h(a := 1)) ?s"
    unfolding fs_inv_def p
  proof (intro conjI allI impI)
    show "length (fs_itable ?s) = NINODE" using f by (simp add: tab fs_inv_def)
  next
    fix b assume "b = a \<or> h b > 0"
    then show "b < length (fs_inodes ?s)" using len a fs_invD(2)[OF f] by (metis less_Suc_eq)
  next
    fix b assume "b = a \<or> h b > 0"
    then show "mi_refs (inode b ?s) = (h(a := 1)) b + 1" using nb[of b] fs_invD(3)[OF f, of b] h0 by (cases "b = a") (simp_all only: na fun_upd_apply if_True if_False, simp_all add: MInode_new_def)
  next
    fix b c assume "b = a \<or> h b > 0" "c = a \<or> h c > 0" "key b ?s = key c ?s"
    then show "b = c" using ka kb new f unfolding fs_inv_def by metis
  qed (use t slots in auto)
qed

lemma ITable_get_inv:
  assumes f: "fs_inv h s"
  shows "rok (\<lambda>(a, s'). fs_inv (inc a h) s' \<and> key a s' = (dev, inum)) (ITable_get dev inum s)"
proof (cases "itable_find dev inum (fs_inodes s) (fs_itable s)")
  case (Some a)
  then have "h a > 0" "key a s = (dev, inum)" using itable_find_Some[OF Some] f unfolding fs_inv_def key_def slots_ok_def by auto
  then show ?thesis using fs_inv_add_ref[OF f] Some by (simp add: ITable_get_def key_def add_ref_def upd_inode_nth)
next
  case None
  show ?thesis
  proof (cases "free_slot (fs_itable s)")
    case (Some j)
    have new: "key b s \<noteq> (dev, inum)" if "h b > 0" for b
      using itable_find_None[OF None, of b] f that unfolding fs_inv_def key_def slots_ok_def by auto
    show ?thesis
      using fs_inv_new[OF f Some new refl] None Some
      by (simp add: ITable_get_def Let_def key_def add_ref_def upd_inode_nth nth_append MInode_new_def)
  qed (simp add: ITable_get_def None)
qed

lemma keeps_put_free: "typed s \<Longrightarrow> a < length (fs_inodes s) \<Longrightarrow> rok (keeps s) (put_free a s)"
  unfolding put_free_def
proof (intro rok_if rok_skip, goal_cases)
  case (1 s1 s2)
  from rokD[OF keeps_IData_trunc[OF 1(1,2)] 1(4)]
  have k: "keeps s (upd_idat a (\<lambda>d. d\<lparr>i_itype := TNone\<rparr>) s1)" by (simp add: typed_upd_idat)
  then have "a < length (fs_inodes (upd_idat a (\<lambda>d. d\<lparr>i_itype := TNone\<rparr>) s1))"
    using core_length[of "upd_idat a (\<lambda>d. d\<lparr>i_itype := TNone\<rparr>) s1" s] 1(2) by simp
  from rokD[OF keeps_IData_update[OF _ this] 1(5)] k show ?case by (simp add: typed_upd_idat)
qed simp

lemma fs_inv_drop_last:
  assumes f: "fs_inv h s" and a: "h a = 1"
  shows "fs_inv (dec a h) (drop_ref a (put_remove a s))"
proof -
  define s' where "s' = drop_ref a (put_remove a s)"
  have la: "a < length (fs_inodes s)" using fs_invD(2)[OF f] a by simp
  have tab: "fs_itable s' = map (\<lambda>e. if e = Some a then None else e) (fs_itable s)"
    by (simp add: s'_def drop_ref_def put_remove_def Let_def)
  have nb: "inode b s' = inode b s" if "b \<noteq> a" for b
    using that by (simp add: s'_def drop_ref_def put_remove_def Let_def upd_inode_nth)
  have len: "length (fs_inodes s') = length (fs_inodes s)" by (simp add: s'_def drop_ref_def put_remove_def Let_def)
  have "typed (s\<lparr>fs_itable := map (\<lambda>e. if e = Some a then None else e) (fs_itable s)\<rparr>)"
    using fs_invD(1)[OF f] by (simp add: typed_def)
  then have t: "typed s'" unfolding s'_def drop_ref_def put_remove_def Let_def by (intro typed_upd_inode) simp_all
  have p: "dec a h b > 0 \<longleftrightarrow> b \<noteq> a \<and> h b > 0" for b using a by simp
  have slots: "slots_ok (fs_itable s') (dec a h)"
    unfolding tab using slots_ok_remove[of "fs_itable s" h a] f a by (simp add: fs_inv_def)
  have kb: "key b s' = key b s" if "b \<noteq> a" for b unfolding key_def nb[OF that] ..
  have "fs_inv (dec a h) s'"
    unfolding fs_inv_def p
  proof (intro conjI allI impI)
    fix b assume "b \<noteq> a \<and> 0 < h b"
    then show "mi_refs (inode b s') = dec a h b + 1" using nb[of b] fs_invD(3)[OF f, of b] by simp
  next
    fix b c assume "b \<noteq> a \<and> 0 < h b" "c \<noteq> a \<and> 0 < h c" "key b s' = key c s'"
    then show "b = c" using kb f unfolding fs_inv_def by metis
  qed (use t slots f len tab in \<open>auto simp: fs_inv_def\<close>)
  then show ?thesis by (simp add: s'_def)
qed

lemma fs_inv_drop_ref:
  assumes f: "fs_inv h s" and a: "h a > 1"
  shows "fs_inv (dec a h) (drop_ref a s)"
proof -
  have la: "a < length (fs_inodes s)" using fs_invD(2)[OF f, of a] a by simp
  have k: "key b (drop_ref a s) = key b s" for b
    by (simp add: key_def drop_ref_def upd_inode_nth)
  have r: "mi_refs (inode b (drop_ref a s)) = mi_refs (inode b s) - (if b = a then 1 else 0)" for b
    using la by (simp add: drop_ref_def upd_inode_nth)
  have t: "typed (drop_ref a s)" unfolding drop_ref_def by (rule typed_upd_inode[OF fs_invD(1)[OF f]]) simp
  have i: "fs_itable (drop_ref a s) = fs_itable s" "length (fs_inodes (drop_ref a s)) = length (fs_inodes s)"
    by (simp_all add: drop_ref_def)
  have p: "dec a h b > 0 \<longleftrightarrow> h b > 0" for b using a by simp
  have sl: "slots_ok (fs_itable s) (dec a h)" by (rule slots_ok_cong[of _ h]) (use f p in \<open>simp_all add: fs_inv_def\<close>)
  show ?thesis
    unfolding fs_inv_def k i p r using f t a sl unfolding fs_inv_def by simp
qed

lemma ITable_put_inv:
  assumes f: "fs_inv h s" and a: "h a > 0"
  shows "rok (fs_inv (dec a h)) (ITable_put a s)"
proof (cases "h a = 1")
  case True
  then have "mi_refs (inode a s) = 2" using fs_invD(3)[OF f a] by simp
  then have "ITable_put a s = rbind (put_free a s) (\<lambda>s1. Inr (drop_ref a (put_remove a s1)))" by (simp add: ITable_put_def)
  moreover have "rok (fs_inv (dec a h)) (rbind (put_free a s) (\<lambda>s1. Inr (drop_ref a (put_remove a s1))))"
    by (rule rok_bind[OF keeps_put_free[OF fs_invD(1)[OF f] fs_invD(2)[OF f a]]])
      (simp only: rok_Inr fs_inv_drop_last[OF fs_inv_keeps[OF f] True])
  ultimately show ?thesis by simp
next
  case False
  then show ?thesis using fs_invD(3)[OF f a] fs_inv_drop_ref[OF f] a by (simp add: ITable_put_def)
qed

lemma dinode_at_addrs:
  assumes "dinode_at (k mod IPB) bp = Inr d" and "length bp = BSIZE"
  shows "length (di_addrs d) = NDIRECT + 1"
proof -
  have "k mod IPB < 16" by (simp add: IPB_def BSIZE_def DINODE_SIZE_def NDIRECT_def)
  then have "DINODE_SIZE * (k mod IPB) + DINODE_SIZE \<le> BSIZE" by (simp add: DINODE_SIZE_def NDIRECT_def BSIZE_def)
  moreover have "di_addrs d = u32s (take (4 * (NDIRECT + 1)) (drop 12 (drop (DINODE_SIZE * (k mod IPB)) bp)))"
    using assms(1) by (auto simp: dinode_at_def DInode_read_def)
  ultimately show ?thesis using assms(2) by (simp add: u32s_def DINODE_SIZE_def NDIRECT_def)
qed

lemma keeps_MInode_lock: "typed s \<Longrightarrow> rok (keeps s) (MInode_lock a s)"
  unfolding MInode_lock_def
proof (intro rok_if rok_skip, goal_cases)
  case (2 sb b dip)
  then have "length (di_addrs dip) = NDIRECT + 1" using dinode_at_addrs[OF 2(5)] by (simp add: typed_def)
  then show ?case using 2(1) by (simp add: typed_upd_idat)
qed simp_all

end
