(* ===== verification/FsRefs.thy ===== *)
theory FsRefs
  imports FsInv
begin

text \<open>
  The references that the operations on directories and names acquire and give back.
\<close>

definition gain :: "nat option \<Rightarrow> (nat \<Rightarrow> nat) \<Rightarrow> nat \<Rightarrow> nat" where
  "gain r h = (case r of None \<Rightarrow> h | Some a \<Rightarrow> inc a h)"

lemma gain_simps [simp]: "gain None h = h" "gain (Some a) h = inc a h"
  by (simp_all add: gain_def)

lemma dec_inc [simp]: "dec a (inc a h) = h"
  by simp

lemma dec_inc_inc: "dec a (inc b (inc a h)) = inc b h"
  by auto

lemma dec_gain_inc: "dec a (gain r (inc a h)) = gain r h"
  by (cases r) (auto simp: fun_eq_iff)

section \<open>Directories\<close>

lemma IData_read_invD:
  "IData_read a put off n m s = Inr (r, m', s') \<Longrightarrow> fs_inv h s \<Longrightarrow> fs_inv h s'"
  using rokD[OF keeps_IData_read[of s a put off n m]] fs_inv_keeps[of h s s'] fs_invD(1)[of h s] by fastforce

lemma dirlookup_from_inv:
  "fs_inv h s \<Longrightarrow> rok (\<lambda>(r, s'). fs_inv (gain (map_option fst r) h) s') (dirlookup_from a name sz off de s)"
proof (induction a name sz off de s rule: dirlookup_from.induct)
  case (1 a name sz off de s)
  note IH = "1.IH" and f = "1.prems"
  show ?case
    unfolding dirlookup_from.simps[of a name sz off de s]
  proof (intro rok_if rok_skip rok_prod rok_sum rok_Inl, goal_cases)
    case (1 x r y de1 s1 n)
    have f1: "fs_inv h s1" using 1 by (auto intro: IData_read_invD[OF _ f])
    from IH(1)[OF 1(1,2) 1(3)[symmetric] 1(4)[symmetric] 1(5,6) f1] show ?case by simp
  next
    case (2 x r y de1 s1 n z b s2)
    have "fs_inv h s1" using 2 by (auto intro: IData_read_invD[OF _ f])
    from rokD[OF ITable_get_inv[OF this] 2(9)] 2(10) show ?case by simp
  next
    case (3 x r y de1 s1 n)
    have f1: "fs_inv h s1" using 3 by (auto intro: IData_read_invD[OF _ f])
    from IH(2)[OF 3(1,2) 3(3)[symmetric] 3(4)[symmetric] 3(5,6,7,8) f1] show ?case by simp
  qed (use f in simp)
qed

lemma dirlookup_inv:
  "fs_inv h s \<Longrightarrow> rok (\<lambda>(r, s'). fs_inv (gain (map_option fst r) h) s') (dirlookup a name s)"
  unfolding dirlookup_def by (intro rok_if dirlookup_from_inv rok_Inl)

lemma dirlink_slot_inv: "fs_inv h s \<Longrightarrow> rok (\<lambda>(r, s'). fs_inv h s') (dirlink_slot a sz off de s)"
proof (induction a sz off de s rule: dirlink_slot.induct)
  case (1 a sz off de s)
  note IH = "1.IH" and f = "1.prems"
  show ?case
    unfolding dirlink_slot.simps[of a sz off de s]
  proof (intro rok_if rok_skip rok_prod rok_sum rok_Inl, goal_cases)
    case (1 x r y de1 s1 n)
    then show ?case by (auto intro: IData_read_invD[OF _ f])
  next
    case (2 x r y de1 s1 n)
    have f1: "fs_inv h s1" using 2 by (auto intro: IData_read_invD[OF _ f])
    from IH[OF 2(1,2) 2(3)[symmetric] 2(4)[symmetric] 2(5,6) f1] show ?case by simp
  qed (use f in simp)
qed

lemma dir_empty_from_inv: "fs_inv h s \<Longrightarrow> rok (\<lambda>(r, s'). fs_inv h s') (dir_empty_from a sz off de s)"
proof (induction a sz off de s rule: dir_empty_from.induct)
  case (1 a sz off de s)
  note IH = "1.IH" and f = "1.prems"
  show ?case
    unfolding dir_empty_from.simps[of a sz off de s]
  proof (intro rok_if rok_skip rok_prod rok_sum rok_Inl, goal_cases)
    case (1 x r y de1 s1 n)
    then show ?case by (auto intro: IData_read_invD[OF _ f])
  next
    case (2 x r y de1 s1 n)
    have f1: "fs_inv h s1" using 2 by (auto intro: IData_read_invD[OF _ f])
    from IH[OF 2(1,2) 2(3)[symmetric] 2(4)[symmetric] 2(5,6) f1] show ?case by simp
  qed (use f in simp)
qed

lemma is_dir_empty_inv: "fs_inv h s \<Longrightarrow> rok (\<lambda>(r, s'). fs_inv h s') (is_dir_empty a s)"
  unfolding is_dir_empty_def by (rule dir_empty_from_inv)

lemma IData_write_inv: "fs_inv h s \<Longrightarrow> h a > 0 \<Longrightarrow> rok (\<lambda>(r, s'). fs_inv h s') (IData_write a get off n s)"
  by (rule rok_mono[OF keeps_IData_write[of s a get off n]]) (auto dest: fs_invD fs_inv_keeps)

lemma IData_write_invD: "IData_write a get off n s = Inr (r, s') \<Longrightarrow> fs_inv h s \<Longrightarrow> h a > 0 \<Longrightarrow> fs_inv h s'"
  using rokD[OF IData_write_inv[of h s a get off n]] by fastforce

lemma MInode_lock_inv: "fs_inv h s \<Longrightarrow> rok (fs_inv h) (MInode_lock a s)"
  by (rule rok_mono[OF keeps_MInode_lock[of s a]]) (auto dest: fs_invD fs_inv_keeps)

lemma fs_inv_upd_idat:
  "fs_inv h s \<Longrightarrow> (\<And>d. i_addrs (f d) = i_addrs d) \<Longrightarrow> fs_inv h (upd_idat a f s)"
  by (rule fs_inv_keeps) (auto intro!: typed_upd_idat dest: fs_invD)

lemma IData_update_inv: "fs_inv h s \<Longrightarrow> h a > 0 \<Longrightarrow> rok (fs_inv h) (IData_update a s)"
  by (rule rok_mono[OF keeps_IData_update[of s a]]) (auto dest: fs_invD fs_inv_keeps)

lemma dirlink_inv:
  assumes f: "fs_inv h s" and a: "h a > 0"
  shows "rok (\<lambda>(r, s'). fs_inv h s') (dirlink a name inum s)"
  unfolding dirlink_def
proof (rule rok_bind[OF dirlookup_inv[OF f]], intro rok_prod rok_option, goal_cases)
  case (1 x found s1)
  then have f1: "fs_inv h s1" by simp
  show ?case
    by (rule rok_bind[OF dirlink_slot_inv[OF f1]])
      (auto intro!: rok_skip rok_sum intro: IData_write_invD[where h = h, OF _ _ a])
next
  case (2 x found s1 v y off)
  then have "fs_inv (inc y h) s1" by simp
  from ITable_put_inv[OF this, of y] show ?case by (intro rok_bind[where P = "fs_inv h"]) simp_all
qed

section \<open>Paths\<close>

lemma namex_from_inv:
  "fs_inv (inc ip h) s \<Longrightarrow> rok (\<lambda>(r, s'). fs_inv (gain (map_option snd r) h) s') (namex_from parent path ip s)"
proof (induction parent path ip s rule: namex_from.induct)
  case (1 parent path ip s)
  note IH = "1.IH" and f = "1.prems"
  have put: "rok (fs_inv (gain r h)) (ITable_put ip s2)" if "fs_inv (gain r (inc ip h)) s2" for r s2
    using ITable_put_inv[OF that, of ip] unfolding dec_gain_inc by (cases r) auto
  have lookup: "fs_inv (gain (map_option fst found) h) s3"
    if "fs_inv (inc ip h) s1" "dirlookup ip name s1 = Inr (found, s2)" "ITable_put ip s2 = Inr s3" for name found s1 s2 s3
  proof -
    have "fs_inv (gain (map_option fst found) (inc ip h)) s2" using rokD[OF dirlookup_inv[OF that(1)] that(2)] by simp
    from rokD[OF put[OF this] that(3)] show ?thesis .
  qed
  have c: "map_option snd (map_option (\<lambda>(nip, off). (name, nip)) found) = map_option fst found"
    for name :: "u8 list" and found :: "(nat \<times> nat) option"
    by (cases found) auto
  show ?case
    unfolding namex_from.simps[of parent path ip s]
  proof (rule rok_skip, goal_cases)
    case (1 s1)
    then have f1: "fs_inv (inc ip h) s1" using rokD[OF MInode_lock_inv[OF f]] by blast
    have none: "rok (\<lambda>(r, s'). fs_inv (gain (map_option snd r) h) s') (rbind (ITable_put ip s1) (\<lambda>s2. Inr (None, s2)))"
      by (rule rok_bind[OF put[of None]]) (use f1 in simp_all)
    show ?case
    proof (rule rok_if[OF none], goal_cases)
      case dir: 1
      consider (no) rest where "skip_elem path = (None, rest)" | (last) name where "skip_elem path = (Some name, None)"
        | (step) name npath where "skip_elem path = (Some name, Some npath)"
        by (metis option.exhaust surj_pair)
      then show ?case
      proof cases
        case no
        then show ?thesis using none by simp
      next
        case last
        then show ?thesis using f1 by (auto intro!: rok_skip simp: c intro: lookup[OF f1])
      next
        case step
        have "rok (\<lambda>(r, s'). fs_inv (gain (map_option snd r) h) s')
            (case found of Some (nip, off) \<Rightarrow> namex_from parent npath nip s3 | None \<Rightarrow> Inr (None, s3))"
          if q: "dirlookup ip name s1 = Inr (found, s2)" "ITable_put ip s2 = Inr s3" for found s2 s3
        proof (cases found)
          case (Some v)
          obtain nip off where v: "v = (nip, off)" by (cases v) auto
          have "fs_inv (inc nip h) s3" using lookup[OF f1 q] Some v by simp
          from IH[OF 1 dir step[symmetric] refl refl q(1) refl q(2) Some v[symmetric] this] show ?thesis
            by (simp add: Some v)
        qed (use lookup[OF f1 q] in simp)
        then show ?thesis unfolding step by (auto intro!: rok_skip)
      qed
    qed
  qed
qed

definition cwd_ok :: "(nat \<Rightarrow> nat) \<Rightarrow> nat option \<Rightarrow> bool" where
  "cwd_ok h cwd \<longleftrightarrow> (\<forall>d. cwd = Some d \<longrightarrow> h d > 0)"

lemma cwd_ok_gain: "cwd_ok h cwd \<Longrightarrow> cwd_ok (gain r h) cwd"
  by (cases r) (auto simp: cwd_ok_def)

lemma namex_inv:
  assumes f: "fs_inv h s" and c: "cwd_ok h cwd"
  shows "rok (\<lambda>(r, s'). fs_inv (gain (map_option snd r) h) s') (namex cwd parent path s)"
proof -
  have "rok (\<lambda>(ip, s1). fs_inv (inc ip h) s1) (if path \<noteq> [] \<and> hd path = SLASH then ITable_get ROOTDEV ROOTINO s
            else rbind (unwrap cwd) (\<lambda>d. Inr (Inode_dup d s)))"
  proof (rule rok_if)
    show "rok (\<lambda>(ip, s1). fs_inv (inc ip h) s1) (ITable_get ROOTDEV ROOTINO s)"
      by (rule rok_mono[OF ITable_get_inv[OF f]]) auto
    show "rok (\<lambda>(ip, s1). fs_inv (inc ip h) s1) (rbind (unwrap cwd) (\<lambda>d. Inr (Inode_dup d s)))"
      using c fs_inv_add_ref[OF f] by (intro rok_skip) (simp add: Inode_dup_def cwd_ok_def)
  qed
  then show ?thesis
    unfolding namex_def by (rule rok_bind) (intro rok_prod namex_from_inv, simp)
qed

lemma namei_invD: "namei cwd path s = Inr (r, s') \<Longrightarrow> fs_inv h s \<Longrightarrow> cwd_ok h cwd \<Longrightarrow> fs_inv (gain (map_option snd r) h) s'"
  unfolding namei_def using rokD[OF namex_inv] by fastforce

lemma nameiparent_invD: "nameiparent cwd path s = Inr (r, s') \<Longrightarrow> fs_inv h s \<Longrightarrow> cwd_ok h cwd \<Longrightarrow> fs_inv (gain (map_option snd r) h) s'"
  unfolding nameiparent_def using rokD[OF namex_inv] by fastforce

section \<open>Operations on names\<close>

lemma put_inv: "fs_inv (inc x h) s \<Longrightarrow> rok (fs_inv h) (ITable_put x s)"
  using ITable_put_inv[of "inc x h" s x] by simp

lemma put1_inv: "fs_inv (inc x h) s \<Longrightarrow> rok (\<lambda>(r', s'). r' = r \<and> fs_inv h s') (put1 x r s)"
  unfolding put1_def by (rule rok_bind[OF put_inv]) simp_all

lemma put2_inv: "fs_inv (inc x (inc y h)) s \<Longrightarrow> rok (\<lambda>(r', s'). r' = r \<and> fs_inv h s') (put2 x y r s)"
  unfolding put2_def by (rule rok_bind[OF put_inv[where h = "inc y h"]], assumption, rule rok_bind[OF put_inv]) simp_all

lemma inc_commute: "inc x (inc y h) = inc y (inc x h)"
  by auto

lemma put2_inv': "fs_inv (inc y (inc x h)) s \<Longrightarrow> rok (\<lambda>(r', s'). r' = r \<and> fs_inv h s') (put2 x y r s)"
  using put2_inv[where x = x and y = y and h = h] unfolding inc_commute[where x = x and y = y and h = h] .

lemma nlink_inc_inv: "fs_inv h s \<Longrightarrow> h a > 0 \<Longrightarrow> rok (fs_inv h) (nlink_inc a s)"
  unfolding nlink_inc_def by (auto intro!: rok_if IData_update_inv fs_inv_upd_idat)

lemma nlink_dec_inv: "fs_inv h s \<Longrightarrow> h a > 0 \<Longrightarrow> rok (fs_inv h) (nlink_dec a s)"
  unfolding nlink_dec_def by (auto intro!: rok_skip IData_update_inv fs_inv_upd_idat)

lemma ialloc_from_inv:
  "fs_inv h s \<Longrightarrow> rok (\<lambda>(r, s'). fs_inv (gain r h) s') (ialloc_from dev ty inum sb k s)"
proof (induction dev ty inum sb k s rule: ialloc_from.induct)
  case (2 dev ty inum sb k s)
  note IH = "2.IH" and f = "2.prems"
  show ?case
    unfolding ialloc_from.simps
  proof (intro rok_if rok_skip rok_prod, goal_cases)
    case (1 b dip s1 x a s2)
    have "length (dinode_put (inum mod IPB) (DInode_default\<lparr>di_itype := ty\<rparr>) (bget b s)) = BSIZE"
      using fs_invD(1)[OF f] by (intro length_dinode_put) (simp_all add: typed_def DInode_default_def)
    from rokD[OF keeps_log_put[OF fs_invD(1)[OF f] this] 1(4)] have "fs_inv h s1" by (rule fs_inv_keeps[OF f])
    from rokD[OF ITable_get_inv[OF this] 1(5)] show ?case by (simp add: 1)
  qed (use IH f in simp)
qed simp

lemma ITable_alloc_inv: "fs_inv h s \<Longrightarrow> rok (\<lambda>(r, s'). fs_inv (gain r h) s') (ITable_alloc dev ty s)"
  unfolding ITable_alloc_def by (intro rok_skip ialloc_from_inv)

lemma dirlink_invD: "dirlink a name inum s = Inr (r, s') \<Longrightarrow> fs_inv h s \<Longrightarrow> h a > 0 \<Longrightarrow> fs_inv h s'"
  using rokD[OF dirlink_inv] by fastforce

lemma dirlookup_invD: "dirlookup a name s = Inr (r, s') \<Longrightarrow> fs_inv h s \<Longrightarrow> fs_inv (gain (map_option fst r) h) s'"
  using rokD[OF dirlookup_inv] by fastforce

lemma put_result:
  "fs_inv (inc x (inc y h)) s \<Longrightarrow> rok (\<lambda>(r', s'). fs_inv (gain None h) s') (put2 x y None s)"
  "fs_inv (inc x (inc y h)) s \<Longrightarrow> rok (\<lambda>(r', s'). fs_inv (gain r' h) s') (put1 y (Some x) s)"
proof -
  assume f: "fs_inv (inc x (inc y h)) s"
  show "rok (\<lambda>(r', s'). fs_inv (gain None h) s') (put2 x y None s)"
    by (rule rok_mono[OF put2_inv[OF f]]) auto
  have "fs_inv (inc y (inc x h)) s" using f inc_commute[where x = x and y = y and h = h] by simp
  then show "rok (\<lambda>(r', s'). fs_inv (gain r' h) s') (put1 y (Some x) s)"
    by (rule rok_mono[OF put1_inv]) auto
qed

lemma create_new_inv:
  assumes f: "fs_inv (inc ip (inc dp h)) s"
  shows "rok (\<lambda>(r, s'). fs_inv (gain r h) s') (create_new name dp ty major minor ip s)"
proof -
  define g where "g = inc ip (inc dp h)"
  have g: "g ip > 0" "g dp > 0" by (simp_all add: g_def)
  have none: "rok (\<lambda>(r, s'). fs_inv (gain r h) s') (put2 ip dp None s')" if "fs_inv g s'" for s'
    by (rule rok_mono[OF put2_inv[OF that[unfolded g_def]]]) auto
  have some: "rok (\<lambda>(r, s'). fs_inv (gain r h) s') (put1 dp (Some ip) s')" if "fs_inv g s'" for s'
    by (rule put_result(2)[OF that[unfolded g_def]])
  have dots: "rok (\<lambda>(r, s'). fs_inv g s') (if ty = TDir then
              rbind (dirlink ip DOT (mi_inum (inode ip s2)) s2) (\<lambda>(r, s3).
              case r of Inl e \<Rightarrow> Inr (Inl e, s3) | Inr u \<Rightarrow> dirlink ip DOTDOT (mi_inum (inode dp s3)) s3)
            else Inr (Inr (), s2))" if "fs_inv g s2" for s2
    using that by (auto intro!: rok_skip rok_sum dirlink_inv g intro: dirlink_invD[where h = g, OF _ _ g(1)])
  have fin: "rok (\<lambda>(r, s'). fs_inv (gain r h) s') (rbind (if ty = TDir then nlink_inc dp s5 else Inr s5) (\<lambda>s6.
      rbind (IData_update ip (upd_idat ip (\<lambda>d. d\<lparr>i_nlink := 1\<rparr>) s6)) (\<lambda>s7. put1 dp (Some ip) s7)))" if "fs_inv g s5" for s5
  proof (rule rok_bind[where P = "fs_inv g"])
    show "rok (fs_inv g) (if ty = TDir then nlink_inc dp s5 else Inr s5)" using that g(2) by (auto intro: nlink_inc_inv)
  qed (intro rok_bind[OF IData_update_inv[where h = g, OF _ g(1)]] some, simp_all add: fs_inv_upd_idat)
  show ?thesis
    unfolding create_new_def
  proof (rule rok_bind[OF MInode_lock_inv[OF f[folded g_def]]], rule rok_bind[OF IData_update_inv[where h = g, OF _ g(1)]], goal_cases)
    case (1 s1)
    then show ?case by (simp add: fs_inv_upd_idat)
  next
    case (2 s1 s2)
    from dots[OF 2(2)] show ?case
      by (rule rok_bind) (auto intro!: rok_skip rok_sum none fin intro: dirlink_invD[where h = g, OF _ _ g(2)])
  qed
qed

lemma MInode_lock_invD: "MInode_lock a s = Inr s' \<Longrightarrow> fs_inv h s \<Longrightarrow> fs_inv h s'"
  by (rule rokD[OF MInode_lock_inv])

lemma parent_invD:
  assumes "nameiparent cwd path s = Inr (Some (name, dp), s1)" and "MInode_lock dp s1 = Inr s2"
    and f: "fs_inv h s" and c: "cwd_ok h cwd"
  shows "fs_inv (inc dp h) s2"
  using MInode_lock_invD[OF assms(2)] nameiparent_invD[OF assms(1) f c] by simp

lemma create_inv:
  assumes f: "fs_inv h s" and c: "cwd_ok h cwd"
  shows "rok (\<lambda>(r, s'). fs_inv (gain r h) s') (create cwd path ty major minor s)"
proof -
  have found: "fs_inv (gain (map_option fst r) (inc dp h)) s3"
    if "nameiparent cwd path s = Inr (Some (name, dp), s1)" "MInode_lock dp s1 = Inr s2" "dirlookup dp name s2 = Inr (r, s3)"
    for name dp s1 s2 r s3
    by (rule dirlookup_invD[OF that(3) parent_invD[OF that(1,2) f c]])
  show ?thesis
    unfolding create_def
  proof (intro rok_skip rok_prod rok_option rok_if, goal_cases)
    case (1 x r s1)
    then show ?case using nameiparent_invD[OF _ f c] by force
  next
    case (2 x r s1 y name dp s2 z none s3 w r' s4)
    then have "fs_inv (inc dp h) s3" using found[of name dp s1 s2 None s3] by simp
    from rokD[OF ITable_alloc_inv[OF this] 2(9)] 2 have "fs_inv (inc dp h) s4" by simp
    then show ?case by (rule rok_mono[OF put1_inv]) auto
  next
    case (3 x r s1 y name dp s2 z none s3 w r' s4 ip)
    then have "fs_inv (inc dp h) s3" using found[of name dp s1 s2 None s3] by simp
    from rokD[OF ITable_alloc_inv[OF this] 3(9)] 3 have "fs_inv (inc ip (inc dp h)) s4" by simp
    then show ?case by (rule create_new_inv)
  next
    case (4 x r s1 y name dp s2 z r' s3 v ip off s4)
    then have "fs_inv (inc ip (inc dp h)) s3" using found[of name dp s1 s2 r' s3] by simp
    from MInode_lock_invD[OF 4(10) this] show ?case by (rule put_result(2))
  next
    case (5 x r s1 y name dp s2 z r' s3 v ip off s4)
    then have "fs_inv (inc ip (inc dp h)) s3" using found[of name dp s1 s2 r' s3] by simp
    from MInode_lock_invD[OF 5(10) this] show ?case by (rule rok_mono[OF put2_inv]) auto
  qed
qed

lemma is_dir_empty_invD:
  "(if c then is_dir_empty a s else Inr (True, s)) = Inr (e, s') \<Longrightarrow> fs_inv h s \<Longrightarrow> fs_inv h s'"
  using rokD[OF is_dir_empty_inv[of h s a]] by (fastforce split: if_splits)

lemma nlink_dec_invD: "(if c then nlink_dec a s else Inr s) = Inr s' \<Longrightarrow> fs_inv h s \<Longrightarrow> h a > 0 \<Longrightarrow> fs_inv h s'"
  using rokD[OF nlink_dec_inv[of h s a]] by (fastforce split: if_splits)

lemma fs_unlink_inv:
  assumes f: "fs_inv h s" and c: "cwd_ok h cwd"
  shows "rok (\<lambda>(r, s'). fs_inv h s') (fs_unlink cwd path s)"
proof -
  have child: "fs_inv (inc ip (inc dp h)) s5"
    if "nameiparent cwd path s = Inr (Some (name, dp), s1)" "MInode_lock dp s1 = Inr s2"
      "dirlookup dp name s2 = Inr (Some (ip, off), s3)" "MInode_lock ip s3 = Inr s4"
      "(if b then is_dir_empty ip s4 else Inr (True, s4)) = Inr (e, s5)"
    for name dp s1 s2 ip off s3 s4 b e s5
    using dirlookup_invD[OF that(3) parent_invD[OF that(1,2) f c]] MInode_lock_invD[OF that(4)] is_dir_empty_invD[OF that(5)]
    by simp
  show ?thesis
    unfolding fs_unlink_def
  proof (intro rok_skip rok_prod rok_option rok_if rok_sum rok_Inl, goal_cases)
    case (1 x r s1)
    then show ?case using nameiparent_invD[OF _ f c] by force
  next
    case (2 x r s1 y name dp s2)
    then have "fs_inv (inc dp h) s2" using parent_invD[OF _ _ f c] by simp
    then show ?case by (rule rok_mono[OF put1_inv]) auto
  next
    case (3 x r s1 y name dp s2 z r' s3)
    then have "fs_inv (inc dp h) s2" using parent_invD[OF _ _ f c] by simp
    then have "fs_inv (inc dp h) s3" using dirlookup_invD[of dp name s2 r' s3] 3 by simp
    then show ?case by (rule rok_mono[OF put1_inv]) auto
  next
    case (4 x r s1 y name dp s2 z r' s3 v ip off s4 w e s5)
    from child[OF 4(1)[unfolded 4(2-4)] 4(5) 4(7)[unfolded 4(8-10)] 4(11) 4(13)[unfolded 4(14)]]
    have "fs_inv (inc ip (inc dp h)) s5" .
    then show ?case by (rule rok_mono[OF put2_inv]) auto
  next
    case (5 x r s1 y name dp s2 z r' s3 v ip off s4 w e s5 u r'' s6 n s7 s8)
    from child[OF 5(1)[unfolded 5(2-4)] 5(5) 5(7)[unfolded 5(8-10)] 5(11) 5(13)[unfolded 5(14)]]
    have "fs_inv (inc ip (inc dp h)) s5" .
    from IData_write_invD[OF 5(16)[unfolded 5(17)] this] have "fs_inv (inc ip (inc dp h)) s6" by simp
    from nlink_dec_invD[OF 5(19) this] have "fs_inv (inc ip (inc dp h)) s7" by simp
    from rokD[OF nlink_dec_inv[OF this] 5(20)] have "fs_inv (inc ip (inc dp h)) s8" by simp
    then show ?case by (rule rok_mono[OF put2_inv]) auto
  qed
qed

lemma fs_link_inv:
  assumes f: "fs_inv h s" and c: "cwd_ok h cwd"
  shows "rok (\<lambda>(r, s'). fs_inv h s') (fs_link cwd old new s)"
proof -
  have c': "cwd_ok (inc ip h) cwd" for ip using cwd_ok_gain[OF c, of "Some ip"] by simp
  have old: "fs_inv (inc ip h) s2" if "namei cwd old s = Inr (Some (x, ip), s1)" "MInode_lock ip s1 = Inr s2" for x ip s1 s2
    using MInode_lock_invD[OF that(2)] namei_invD[OF that(1) f c] by simp
  have none: "rok (\<lambda>(r, s'). fs_inv h s') (put1 ip r s')" if "fs_inv (inc ip h) s'" for ip r s'
    by (rule rok_mono[OF put1_inv[OF that]]) auto
  have both: "rok (\<lambda>(r, s'). fs_inv h s') (put2 dp ip r s')" if "fs_inv (inc dp (inc ip h)) s'" for dp ip r s'
    by (rule rok_mono[OF put2_inv[OF that]]) auto
  show ?thesis
    unfolding fs_link_def
  proof (intro rok_skip rok_prod rok_option rok_if rok_sum rok_Inl, goal_cases)
    case (1 x r s1)
    then show ?case using namei_invD[OF _ f c] by force
  next
    case (2 x r s1 v xa ip s2)
    from old[OF 2(1)[unfolded 2(2-4)] 2(5)] show ?case by (rule none)
  next
    case (3 x r s1 v xa ip s2 y r' s3)
    from nameiparent_invD[OF 3(7)[unfolded 3(8,9)] old[OF 3(1)[unfolded 3(2-4)] 3(5)] c'] show ?case by (intro none) simp
  next
    case (4 x r s1 v xa ip s2 y r' s3 w name dp s4)
    from parent_invD[OF 4(7)[unfolded 4(8-10)] 4(11) old[OF 4(1)[unfolded 4(2-4)] 4(5)] c'] show ?case by (rule both)
  next
    case (5 x r s1 v xa ip s2 y r' s3 w name dp s4 z r'' s5 e)
    from dirlink_invD[OF 5(13)[unfolded 5(14)] parent_invD[OF 5(7)[unfolded 5(8-10)] 5(11) old[OF 5(1)[unfolded 5(2-4)] 5(5)] c']]
    show ?case by (intro both) simp
  next
    case (6 x r s1 v xa ip s2 y r' s3 w name dp s4 z r'' s5 u s6 s7)
    from dirlink_invD[OF 6(13)[unfolded 6(14)] parent_invD[OF 6(7)[unfolded 6(8-10)] 6(11) old[OF 6(1)[unfolded 6(2-4)] 6(5)] c']]
    have "fs_inv (inc dp (inc ip h)) s5" by simp
    from rokD[OF nlink_inc_inv[OF MInode_lock_invD[OF 6(16) this]] 6(17)] show ?case by (intro both) simp
  qed
qed

section \<open>The file system under its clients\<close>

text \<open>
  One call from outside the file system, with the references before and after it. A call that
  panics is no step.
\<close>

inductive fs_step :: "(nat \<Rightarrow> nat) \<times> fsys \<Rightarrow> (nat \<Rightarrow> nat) \<times> fsys \<Rightarrow> bool" where
  namei: "cwd_ok h cwd \<Longrightarrow> namei cwd path s = Inr (r, s') \<Longrightarrow> fs_step (h, s) (gain (map_option snd r) h, s')"
| create: "cwd_ok h cwd \<Longrightarrow> create cwd path ty major minor s = Inr (r, s') \<Longrightarrow> fs_step (h, s) (gain r h, s')"
| link: "cwd_ok h cwd \<Longrightarrow> fs_link cwd old new s = Inr (r, s') \<Longrightarrow> fs_step (h, s) (h, s')"
| unlink: "cwd_ok h cwd \<Longrightarrow> fs_unlink cwd path s = Inr (r, s') \<Longrightarrow> fs_step (h, s) (h, s')"
| dup: "h a > 0 \<Longrightarrow> Inode_dup a s = (b, s') \<Longrightarrow> fs_step (h, s) (inc b h, s')"
| put: "h a > 0 \<Longrightarrow> ITable_put a s = Inr s' \<Longrightarrow> fs_step (h, s) (dec a h, s')"
| lock: "h a > 0 \<Longrightarrow> MInode_lock a s = Inr s' \<Longrightarrow> fs_step (h, s) (h, s')"
| trunc: "h a > 0 \<Longrightarrow> IData_trunc a s = Inr s' \<Longrightarrow> fs_step (h, s) (h, s')"
| read: "h a > 0 \<Longrightarrow> IData_read a (put :: u8 list put) off n m s = Inr (r, m', s') \<Longrightarrow> fs_step (h, s) (h, s')"
| put_bytes: "h a > 0 \<Longrightarrow> IData_write a get off n s = Inr (r, s') \<Longrightarrow> fs_step (h, s) (h, s')"

lemma fs_step_inv: "fs_step x y \<Longrightarrow> fs_inv (fst x) (snd x) \<Longrightarrow> fs_inv (fst y) (snd y)"
proof (induction rule: fs_step.induct)
  case (namei h cwd path s r s')
  then show ?case using namei_invD by simp
next
  case (create h cwd path ty major minor s r s')
  then show ?case using rokD[OF create_inv[of h s cwd path ty major minor]] by fastforce
next
  case (link h cwd old new s r s')
  then show ?case using rokD[OF fs_link_inv[of h s cwd old new]] by fastforce
next
  case (unlink h cwd path s r s')
  then show ?case using rokD[OF fs_unlink_inv[of h s cwd path]] by fastforce
next
  case (dup h a s b s')
  then have "b = a" "s' = add_ref a s" by (auto simp: Inode_dup_def)
  then show ?case using fs_inv_add_ref[of h s a] dup by (simp only: fst_conv snd_conv)
next
  case (put h a s s')
  then show ?case using rokD[OF ITable_put_inv[of h s a]] by (simp only: fst_conv snd_conv)
next
  case (lock h a s s')
  then show ?case using MInode_lock_invD by simp
next
  case (trunc h a s s')
  then show ?case using rokD[OF keeps_IData_trunc[of s a]] fs_inv_keeps[of h s s'] fs_invD[of h s] by simp
next
  case (read h a put off n m s r m' s')
  then show ?case using IData_read_invD by simp
next
  case (put_bytes h a get off n s r s')
  then show ?case using IData_write_invD by simp
qed

lemma fs_reachable_inv: "fs_step\<^sup>*\<^sup>* x y \<Longrightarrow> fs_inv (fst x) (snd x) \<Longrightarrow> fs_inv (fst y) (snd y)"
  by (induction rule: rtranclp_induct) (simp_all add: fs_step_inv)

lemma fs_inv_initial: "typed s \<Longrightarrow> fs_itable s = replicate NINODE None \<Longrightarrow> fs_inv (\<lambda>_. 0) s"
  by (simp add: fs_inv_def slots_ok_empty)

text \<open>
  However clients look up, create, link, unlink, duplicate, drop, lock, truncate, read and
  write files, each call running to its end before the next begins, starting from an empty inode
  table: an inode is in the table exactly when a client has a reference to it, its strong count is
  the number of references and one for the table, and there are never two inodes in memory for the
  same inode on disk. A drop and a lookup that overlap break this, see \<^verbatim>\<open>inode_put_race\<close>.
\<close>

lemma inode_table_consistent:
  assumes "typed s0" and "fs_itable s0 = replicate NINODE None" and "fs_step\<^sup>*\<^sup>* (\<lambda>_. 0, s0) (h, s)"
  shows "(Some a \<in> set (fs_itable s) \<longleftrightarrow> h a > 0) \<and> (h a > 0 \<longrightarrow> mi_refs (fs_inodes s ! a) = h a + 1) \<and>
    (h a > 0 \<and> h b > 0 \<and> mi_dev (fs_inodes s ! a) = mi_dev (fs_inodes s ! b) \<and> mi_inum (fs_inodes s ! a) = mi_inum (fs_inodes s ! b) \<longrightarrow> a = b)"
proof -
  have f: "fs_inv h s" using fs_reachable_inv[OF assms(3)] fs_inv_initial[OF assms(1,2)] by simp
  have "Some a \<in> set (fs_itable s) \<longleftrightarrow> h a > 0" using f slots_ok_mem unfolding fs_inv_def by blast
  moreover have "a = b" if "h a > 0" "h b > 0" "key a s = key b s" using f that unfolding fs_inv_def by blast
  ultimately show ?thesis using fs_invD(3)[OF f] by (auto simp: key_def)
qed

end
