(* ===== verification/KFile.thy ===== *)
theory KFile
  imports FsRefs Channel Tty
begin

text \<open>
  \<^verbatim>\<open>src/kernel/fcntl.rs\<close>, \<^verbatim>\<open>file.rs\<close> and \<^verbatim>\<open>pipe.rs\<close>: open modes, the file table and pipes. The open
  files are numbered in the order of their creation and have the strong count of their \<^verbatim>\<open>Arc\<close>; the
  table has their numbers. A call that has to sleep (in the log, or on a pipe) is \<^term>\<open>None\<close> or says
  how far it came. The device drivers are arguments.
\<close>

section \<open>Open modes\<close>

definition RDONLY :: usize where "RDONLY = 0x000"
definition WRONLY :: usize where "WRONLY = 0x001"
definition RDWR :: usize where "RDWR = 0x002"
definition CREATE :: usize where "CREATE = 0x200"
definition TRUNC :: usize where "TRUNC = 0x400"

record OMode =
  om_read :: bool
  om_write :: bool
  om_truncate :: bool
  om_create :: bool

definition OMode_new :: OMode where
  "OMode_new = \<lparr>om_read = False, om_write = False, om_truncate = False, om_create = False\<rparr>"

definition OMode_from_usize :: "usize \<Rightarrow> OMode" where
  "OMode_from_usize bits =
     OMode_new\<lparr>om_read := True, om_read := bits AND WRONLY = 0, om_write := bits AND WRONLY \<noteq> 0 \<or> bits AND RDWR \<noteq> 0,
       om_create := bits AND CREATE \<noteq> 0, om_truncate := bits AND TRUNC \<noteq> 0\<rparr>"

definition is_rdonly :: "OMode \<Rightarrow> bool" where
  "is_rdonly m = (om_read m \<and> \<not> om_write m)"

section \<open>Pipes\<close>

definition PIPESIZE :: nat where "PIPESIZE = 512"

text \<open>A pipe names the channel it receives from and the one it sends to.\<close>

record Pipe =
  p_rx :: "nat option"
  p_tx :: "nat option"

definition Pipe_get_mode :: "Pipe \<Rightarrow> OMode" where
  "Pipe_get_mode p = OMode_new\<lparr>om_read := p_rx p \<noteq> None, om_write := p_tx p \<noteq> None\<rparr>"

text \<open>
  The loop of \<^verbatim>\<open>write\<close> with \<open>i\<close> bytes sent and \<open>k\<close> to go; \<open>byte\<close> is the byte at \<^verbatim>\<open>src\<close>, \<^term>\<open>None\<close> when
  it cannot be read.
\<close>

fun pipe_send :: "u8 option \<Rightarrow> nat \<Rightarrow> nat \<Rightarrow> u8 channel \<Rightarrow> (read_end \<times> u8 channel) rust" where
  "pipe_send byte i 0 ch = Inr (Returned i, ch)"
| "pipe_send byte i (Suc k) ch =
     (case byte of
        None \<Rightarrow> Inr (Returned i, ch)
      | Some c \<Rightarrow>
          rbind (Semaphore_wait (ch_max ch) (ch_cnt ch)) (\<lambda>w.
          case w of
            None \<Rightarrow> Inr (Sleeping (Suc k), ch)
          | Some cnt \<Rightarrow> pipe_send byte (Suc i) k (send_push c (ch\<lparr>ch_cnt := cnt\<rparr>))))"

fun pipe_recv :: "'m put \<Rightarrow> nat \<Rightarrow> nat \<Rightarrow> u8 channel \<Rightarrow> 'm \<Rightarrow> (read_end \<times> u8 channel \<times> 'm) rust" where
  "pipe_recv put i 0 ch m = Inr (Returned i, ch, m)"
| "pipe_recv put i (Suc k) ch m =
     (case recv_pop ch of
        None \<Rightarrow> Inr (Sleeping (Suc k), ch, m)
      | Some (c, ch1) \<Rightarrow>
          rbind (Semaphore_post (ch_max ch1) (ch_cnt ch1)) (\<lambda>(cnt, wake).
          let (m1, ok) = put 0 [c] m
          in if \<not> ok then Inr (Returned i, ch1\<lparr>ch_cnt := cnt\<rparr>, m1)
             else pipe_recv put (Suc i) k (ch1\<lparr>ch_cnt := cnt\<rparr>) m1))"

section \<open>State\<close>

definition NFILE :: nat where "NFILE = 100"
definition NDEV :: nat where "NDEV = 10"

text \<open>The kinds of open files; a device has its driver and its inode, a file its offset and its inode.\<close>

datatype VFile = VDevice nat nat | VInode nat nat | VPipe Pipe | VNone

record VNode =
  vn_file :: VFile
  vn_refs :: nat

record File =
  f_f :: "nat option"
  f_readable :: bool
  f_writable :: bool

record kfiles =
  kf_table :: "nat option list"
  kf_files :: "VNode list"
  kf_fs :: fsys
  kf_chans :: "u8 channel list"
  kf_devsw :: "nat option list"

definition DevSW_set :: "Major \<Rightarrow> nat \<Rightarrow> nat option list \<Rightarrow> ((nat + unit) \<times> nat option list) rust" where
  "DevSW_set devnum drv t =
     rbind (index t (Major_num devnum)) (\<lambda>e.
     case e of
       Some old \<Rightarrow> Inr (Inl drv, t)
     | None \<Rightarrow> Inr (Inr (), t[Major_num devnum := Some drv]))"

definition DevSW_get :: "Major \<Rightarrow> nat option list \<Rightarrow> nat option rust" where
  "DevSW_get devnum t = index t (Major_num devnum)"

abbreviation vfile :: "nat \<Rightarrow> kfiles \<Rightarrow> VFile" where
  "vfile v S \<equiv> vn_file (kf_files S ! v)"

definition upd_vnode :: "nat \<Rightarrow> (VNode \<Rightarrow> VNode) \<Rightarrow> kfiles \<Rightarrow> kfiles" where
  "upd_vnode v f S = S\<lparr>kf_files := (kf_files S)[v := f (kf_files S ! v)]\<rparr>"

section \<open>Transactions\<close>

definition LOG_begin_op :: "fsys \<Rightarrow> fsys rust option" where
  "LOG_begin_op s =
     (case begin_op (fs_log s) of
        Inl e \<Rightarrow> Some (Inl e)
      | Inr None \<Rightarrow> None
      | Inr (Some log) \<Rightarrow> Some (Inr (s\<lparr>fs_log := log\<rparr>)))"

definition LOG_end_op :: "fsys \<Rightarrow> fsys rust" where
  "LOG_end_op s =
     rbind (end_op_first (fs_log s)) (\<lambda>(last, log).
     if last then
       rbind (commit True log (fs_st s)) (\<lambda>(log1, st). Inr (s\<lparr>fs_log := end_op_last log1, fs_st := st\<rparr>))
     else Inr (s\<lparr>fs_log := log\<rparr>))"

section \<open>Files\<close>

definition u32_add_wrap :: "nat \<Rightarrow> nat \<Rightarrow> nat rust" where
  "u32_add_wrap off r = u32_add off (r mod 2 ^ 32)"

definition set_off :: "nat \<Rightarrow> nat \<Rightarrow> kfiles \<Rightarrow> kfiles" where
  "set_off v off S = upd_vnode v (\<lambda>n. n\<lparr>vn_file := (case vn_file n of VInode o1 ip \<Rightarrow> VInode off ip | x \<Rightarrow> x)\<rparr>) S"

definition FNod_read :: "nat \<Rightarrow> nat \<Rightarrow> nat \<Rightarrow> 'm put \<Rightarrow> nat \<Rightarrow> 'm \<Rightarrow> kfiles \<Rightarrow> ((unit + nat) \<times> 'm \<times> kfiles) rust" where
  "FNod_read v off ip put n m S =
     rbind (MInode_lock ip (kf_fs S)) (\<lambda>s1.
     rbind (IData_read ip put off n m s1) (\<lambda>(r, m1, s2).
     let S1 = S\<lparr>kf_fs := s2\<rparr>
     in case r of
          Inl e \<Rightarrow> Inr (Inl (), m1, S1)
        | Inr k \<Rightarrow> rbind (u32_add_wrap off k) (\<lambda>off1. Inr (Inr k, m1, set_off v off1 S1))))"

definition FNOD_MAX :: nat where
  "FNOD_MAX = ((MAXOPBLOCKS - 1 - 1 - 2) div 2) * BSIZE"

text \<open>One turn of the loop of \<^verbatim>\<open>write\<close>: the bytes it wrote, and the new offset.\<close>

definition fnod_write_chunk :: "nat \<Rightarrow> get \<Rightarrow> nat \<Rightarrow> nat \<Rightarrow> fsys \<Rightarrow> (nat \<times> nat \<times> fsys) rust option" where
  "fnod_write_chunk ip get off n1 s =
     wbind (LOG_begin_op s) (\<lambda>s1. Some (
     rbind (MInode_lock ip s1) (\<lambda>s2.
     rbind (IData_write ip get off n1 s2) (\<lambda>(r, s3).
     rbind (case r of Inl e \<Rightarrow> Inr (0, off) | Inr w \<Rightarrow> rbind (u32_add_wrap off w) (\<lambda>off1. Inr (w, off1))) (\<lambda>(w, off1).
     rbind (LOG_end_op s3) (\<lambda>s4. Inr (w, off1, s4)))))))"

function fnod_write_loop :: "nat \<Rightarrow> get \<Rightarrow> nat \<Rightarrow> nat \<Rightarrow> nat \<Rightarrow> fsys \<Rightarrow> (nat \<times> nat \<times> fsys) rust option" where
  "fnod_write_loop ip get i n off s =
     (if i < n then
        let n1 = min (n - i) FNOD_MAX
        in case fnod_write_chunk ip get off n1 s of
             None \<Rightarrow> None
           | Some (Inl e) \<Rightarrow> Some (Inl e)
           | Some (Inr (r, off1, s1)) \<Rightarrow>
               if r \<noteq> n1 then Some (Inr (i, off1, s1)) else fnod_write_loop ip get (i + r) n off1 s1
      else Some (Inr (i, off, s)))"
  by pat_completeness auto

termination fnod_write_loop
  by (relation "measure (\<lambda>(ip, get, i, n, off, s). n - i)") (auto simp: FNOD_MAX_def MAXOPBLOCKS_def BSIZE_def)

declare fnod_write_loop.simps [simp del]

definition FNod_write :: "nat \<Rightarrow> nat \<Rightarrow> nat \<Rightarrow> get \<Rightarrow> nat \<Rightarrow> kfiles \<Rightarrow> ((unit + nat) \<times> kfiles) rust option" where
  "FNod_write v off ip get n S =
     wbind (fnod_write_loop ip get 0 n off (kf_fs S)) (\<lambda>(i, off1, s1).
     Some (Inr (if i = n then Inr n else Inl (), set_off v off1 (S\<lparr>kf_fs := s1\<rparr>))))"

text \<open>The functions of the drivers are the argument \<open>dev\<close>.\<close>

definition VFile_read ::
  "(nat \<Rightarrow> nat \<Rightarrow> 'm \<Rightarrow> (read_end \<times> 'm) rust) \<Rightarrow> 'm put \<Rightarrow> nat \<Rightarrow> nat \<Rightarrow> 'm \<Rightarrow> kfiles \<Rightarrow> (read_end \<times> 'm \<times> kfiles) rust" where
  "VFile_read dev put v n m S =
     (case vfile v S of
        VDevice drv ip \<Rightarrow> rbind (dev drv n m) (\<lambda>(r, m1). Inr (r, m1, S))
      | VInode off ip \<Rightarrow>
          rbind (FNod_read v off ip put n m S) (\<lambda>(r, m1, S1).
          Inr (case r of Inl u \<Rightarrow> Failed | Inr k \<Rightarrow> Returned k, m1, S1))
      | VPipe p \<Rightarrow>
          (case p_rx p of
             None \<Rightarrow> Inr (Failed, m, S)
           | Some c \<Rightarrow>
               rbind (pipe_recv put 0 n (kf_chans S ! c) m) (\<lambda>(r, ch, m1).
               Inr (r, m1, S\<lparr>kf_chans := (kf_chans S)[c := ch]\<rparr>)))
      | VNone \<Rightarrow> Inl (Panic ''file read''))"

definition VFile_write ::
  "(nat \<Rightarrow> nat \<Rightarrow> read_end rust) \<Rightarrow> get \<Rightarrow> nat \<Rightarrow> nat \<Rightarrow> kfiles \<Rightarrow> (read_end \<times> kfiles) rust option" where
  "VFile_write dev get v n S =
     (case vfile v S of
        VDevice drv ip \<Rightarrow> Some (rbind (dev drv n) (\<lambda>r. Inr (r, S)))
      | VInode off ip \<Rightarrow>
          wbind (FNod_write v off ip get n S) (\<lambda>(r, S1).
          Some (Inr (case r of Inl u \<Rightarrow> Failed | Inr k \<Rightarrow> Returned k, S1)))
      | VPipe p \<Rightarrow> Some
          (case p_tx p of
             None \<Rightarrow> Inr (Failed, S)
           | Some c \<Rightarrow>
               rbind (pipe_send (case get 0 1 of (bs, ok) \<Rightarrow> if ok then Some (hd bs) else None) 0 n (kf_chans S ! c)) (\<lambda>(r, ch).
               Inr (r, S\<lparr>kf_chans := (kf_chans S)[c := ch]\<rparr>)))
      | VNone \<Rightarrow> Some (Inl (Panic ''file write'')))"

text \<open>\<open>put\<close> copies the structure to the user.\<close>

definition VFile_stat :: "(Stat \<Rightarrow> 'm \<Rightarrow> 'm \<times> bool) \<Rightarrow> nat \<Rightarrow> 'm \<Rightarrow> kfiles \<Rightarrow> ((unit + unit) \<times> 'm \<times> kfiles) rust" where
  "VFile_stat put v m S =
     (let go = (\<lambda>ip. rbind (MInode_lock ip (kf_fs S)) (\<lambda>s1.
          let (m1, ok) = put (IData_stat ip s1) m in Inr (if ok then Inr () else Inl (), m1, S\<lparr>kf_fs := s1\<rparr>)))
      in case vfile v S of
           VDevice drv ip \<Rightarrow> go ip
         | VInode off ip \<Rightarrow> go ip
         | _ \<Rightarrow> Inr (Inl (), m, S))"

definition File_read ::
  "(nat \<Rightarrow> nat \<Rightarrow> 'm \<Rightarrow> (read_end \<times> 'm) rust) \<Rightarrow> 'm put \<Rightarrow> File \<Rightarrow> nat \<Rightarrow> 'm \<Rightarrow> kfiles \<Rightarrow> (read_end \<times> 'm \<times> kfiles) rust" where
  "File_read dev put f n m S =
     (if \<not> f_readable f then Inr (Failed, m, S)
      else rbind (unwrap (f_f f)) (\<lambda>v. VFile_read dev put v n m S))"

definition File_write ::
  "(nat \<Rightarrow> nat \<Rightarrow> read_end rust) \<Rightarrow> get \<Rightarrow> File \<Rightarrow> nat \<Rightarrow> kfiles \<Rightarrow> (read_end \<times> kfiles) rust option" where
  "File_write dev get f n S =
     (if \<not> f_writable f then Some (Inr (Failed, S))
      else wbind (Some (unwrap (f_f f))) (\<lambda>v. VFile_write dev get v n S))"

definition File_clone :: "File \<Rightarrow> kfiles \<Rightarrow> File \<times> kfiles" where
  "File_clone f S = (f, case f_f f of None \<Rightarrow> S | Some v \<Rightarrow> upd_vnode v (\<lambda>n. n\<lparr>vn_refs := vn_refs n + 1\<rparr>) S)"

section \<open>Drop and allocation\<close>

fun vfile_ip :: "VFile \<Rightarrow> nat option" where
  "vfile_ip (VDevice drv ip) = Some ip"
| "vfile_ip (VInode off ip) = Some ip"
| "vfile_ip x = None"

definition ftable_remove :: "nat \<Rightarrow> kfiles \<Rightarrow> kfiles" where
  "ftable_remove v S =
     (let n = length (filter (\<lambda>e. e = Some v) (kf_table S))
      in upd_vnode v (\<lambda>x. x\<lparr>vn_refs := vn_refs x - n\<rparr>)
           (S\<lparr>kf_table := map (\<lambda>e. if e = Some v then None else e) (kf_table S)\<rparr>))"

text \<open>\<^verbatim>\<open>Arc::try_unwrap\<close> of the last reference, with the drop of what it returns.\<close>

definition file_unwrap :: "nat \<Rightarrow> kfiles \<Rightarrow> kfiles rust option" where
  "file_unwrap v S =
     (let S1 = upd_vnode v (\<lambda>x. x\<lparr>vn_refs := vn_refs x - 1\<rparr>) S
      in if vn_refs (kf_files S ! v) = 1 then
           (case vfile_ip (vfile v S) of
              None \<Rightarrow> Some (Inr S1)
            | Some ip \<Rightarrow>
                wbind (LOG_begin_op (kf_fs S1)) (\<lambda>s1. Some (
                rbind (ITable_put ip s1) (\<lambda>s2.
                rbind (LOG_end_op s2) (\<lambda>s3. Inr (S1\<lparr>kf_fs := s3\<rparr>))))))
         else Some (Inr S1))"

text \<open>The part of \<^verbatim>\<open>drop\<close> before \<^verbatim>\<open>try_unwrap\<close>.\<close>

definition drop_check :: "nat \<Rightarrow> kfiles \<Rightarrow> kfiles rust" where
  "drop_check v S =
     (if vn_refs (kf_files S ! v) < 2 then Inl (Panic ''file drop'')
      else Inr (if vn_refs (kf_files S ! v) = 2 then ftable_remove v S else S))"

definition File_drop :: "File \<Rightarrow> kfiles \<Rightarrow> kfiles rust option" where
  "File_drop f S =
     wbind (Some (unwrap (f_f f))) (\<lambda>v.
     wbind (Some (drop_check v S)) (file_unwrap v))"

datatype FType = FNode "u8 list" | FPipe Pipe

text \<open>The file that \<^verbatim>\<open>alloc\<close> opens, before it has a slot; \<open>cwd\<close> is the current directory.\<close>

definition alloc_node :: "nat option \<Rightarrow> OMode \<Rightarrow> u8 list \<Rightarrow> nat option list \<Rightarrow> fsys \<Rightarrow> (VFile option \<times> fsys) rust" where
  "alloc_node cwd opts path devsw s =
     rbind (if om_create opts then create cwd path TFile 0 0 s
            else rbind (namei cwd path s) (\<lambda>(r, s1). Inr (map_option snd r, s1))) (\<lambda>(r, s1).
     case r of
       None \<Rightarrow> Inr (None, s1)
     | Some ip \<Rightarrow>
         rbind (MInode_lock ip s1) (\<lambda>s2.
         let ty = i_itype (idat ip s2); mj = i_major (idat ip s2)
         in if \<not> om_create opts \<and> ty = TDir \<and> \<not> is_rdonly opts then put1 ip None s2
            else if ty = TDevice \<and> mj \<noteq> MInvalid \<and> mj \<noteq> MNull then
              rbind (DevSW_get mj devsw) (\<lambda>d. rbind (unwrap d) (\<lambda>drv. Inr (Some (VDevice drv ip), s2)))
            else if ty = TDir \<or> ty = TFile then
              rbind (if om_truncate opts \<and> ty = TFile then IData_trunc ip s2 else Inr s2) (\<lambda>s3.
              Inr (Some (VInode 0 ip), s3))
            else put1 ip None s2))"

definition FTable_alloc :: "nat option \<Rightarrow> OMode \<Rightarrow> FType \<Rightarrow> kfiles \<Rightarrow> (File option \<times> kfiles) rust" where
  "FTable_alloc cwd opts ft S =
     rbind (case ft of
              FNode path \<Rightarrow> alloc_node cwd opts path (kf_devsw S) (kf_fs S)
            | FPipe p \<Rightarrow> Inr (Some (VPipe p), kf_fs S)) (\<lambda>(r, s1).
     let S1 = S\<lparr>kf_fs := s1\<rparr>
     in case r of
          None \<Rightarrow> Inr (None, S1)
        | Some vf \<Rightarrow>
            (case free_slot (kf_table S1) of
               None \<Rightarrow>
                 (case vfile_ip vf of
                    None \<Rightarrow> Inr (None, S1)
                  | Some ip \<Rightarrow> rbind (ITable_put ip s1) (\<lambda>s2. Inr (None, S1\<lparr>kf_fs := s2\<rparr>)))
             | Some j \<Rightarrow>
                 let v = length (kf_files S1)
                 in Inr (Some \<lparr>f_f = Some v, f_readable = om_read opts, f_writable = om_write opts\<rparr>,
                      S1\<lparr>kf_table := (kf_table S1)[j := Some v], kf_files := kf_files S1 @ [\<lparr>vn_file = vf, vn_refs = 2\<rparr>]\<rparr>)))"

definition Pipe_alloc :: "kfiles \<Rightarrow> ((File \<times> File) option \<times> kfiles) rust option" where
  "Pipe_alloc S =
     (let c = length (kf_chans S);
          S1 = S\<lparr>kf_chans := kf_chans S @ [sync_channel PIPESIZE]\<rparr>;
          p0 = \<lparr>p_rx = Some c, p_tx = None\<rparr>; p1 = \<lparr>p_rx = None, p_tx = Some c\<rparr>
      in wbind (Some (FTable_alloc None (Pipe_get_mode p0) (FPipe p0) S1)) (\<lambda>(r0, S2).
         case r0 of
           None \<Rightarrow> Some (Inr (None, S2))
         | Some f0 \<Rightarrow>
             wbind (Some (FTable_alloc None (Pipe_get_mode p1) (FPipe p1) S2)) (\<lambda>(r1, S3).
             case r1 of
               None \<Rightarrow> wbind (File_drop f0 S3) (\<lambda>S4. Some (Inr (None, S4)))
             | Some f1 \<Rightarrow> Some (Inr (Some (f0, f1), S3)))))"

end
