(* ===== verification/FsContent.thy ===== *)
theory FsContent
  imports FsRefs LogProofs
begin

text \<open>
  What is on the disk: inodes survive the way to the disk and back, what a read returns, what a
  directory lookup finds, and what the block allocator takes.
\<close>

section \<open>Inodes on disk\<close>

definition dinode_fits :: "DInode \<Rightarrow> bool" where
  "dinode_fits d \<longleftrightarrow> di_minor d < 2 ^ 16 \<and> di_nlink d < 2 ^ 16 \<and> di_size d < 2 ^ 32 \<and>
     length (di_addrs d) = NDIRECT + 1 \<and> (\<forall>x \<in> set (di_addrs d). x < 2 ^ 32)"

lemma length_le16 [simp]: "length (le16 x) = 2"
  by (simp add: le16_def)

lemma of_le16_le16: "x < 2 ^ 16 \<Longrightarrow> of_le16 (le16 x @ ys) = x"
proof -
  assume x: "x < 2 ^ 16"
  have "(le16 x @ ys) ! i = of_nat (x div 256 ^ i)" if "i < 2" for i
    using that by (simp add: nth_append) (simp add: le16_def)
  then have "of_le16 (le16 x @ ys) = (\<Sum>i<2. (x div 256 ^ i) mod 256 * 256 ^ i)"
    by (simp add: of_le16_def unat_of_nat)
  also have "\<dots> = x" using x by (simp add: sum_digits)
  finally show ?thesis .
qed

lemma length_concat_le32: "length (concat (map le32 xs)) = 4 * length xs"
  by (induction xs) simp_all

lemma u32s_concat: "(\<forall>x \<in> set xs. x < 2 ^ 32) \<Longrightarrow> u32s (concat (map le32 xs)) = xs"
proof (rule nth_equalityI)
  show "length (u32s (concat (map le32 xs))) = length xs" by (simp add: u32s_def length_concat_le32)
next
  fix i
  assume x: "\<forall>x \<in> set xs. x < 2 ^ 32" and "i < length (u32s (concat (map le32 xs)))"
  then have i: "i < length xs" by (simp add: u32s_def length_concat_le32)
  have "drop (4 * i) (concat (map le32 xs)) = le32 (xs ! i) @ concat (map le32 (drop (Suc i) xs))"
    using drop_concat_le32[of i xs "[]"] i by (simp add: Cons_nth_drop_Suc[symmetric])
  then show "u32s (concat (map le32 xs)) ! i = xs ! i"
    using i x of_le32_le32 by (simp add: u32s_def length_concat_le32)
qed

lemma IType_read_num [simp]: "IType_read (IType_num t) = Inr t"
  by (cases t) (simp_all add: IType_read_def)

lemma Major_read_num [simp]: "Major_read (Major_num t) = Inr t"
  by (cases t) (simp_all add: Major_read_def)

lemma DInode_roundtrip:
  assumes "dinode_fits d"
  shows "DInode_read (DInode_bytes d @ rest) = Inr d"
proof -
  have "IType_num (di_itype d) < 2 ^ 16" "Major_num (di_major d) < 2 ^ 16" by (cases "di_itype d"; simp) (cases "di_major d"; simp)
  moreover have "take (4 * (NDIRECT + 1)) (concat (map le32 (di_addrs d)) @ rest) = concat (map le32 (di_addrs d))"
    using assms by (simp add: dinode_fits_def length_concat_le32)
  ultimately show ?thesis
    using assms u32s_concat[of "di_addrs d"]
    by (simp add: DInode_read_def DInode_bytes_def dinode_fits_def of_le16_le16 of_le32_le32)
qed

lemma length_DInode_bytes: "dinode_fits d \<Longrightarrow> length (DInode_bytes d) = DINODE_SIZE"
  by (simp add: DInode_bytes_def DINODE_SIZE_def dinode_fits_def length_concat_le32)

lemma dinode_at_put:
  assumes "dinode_fits d" and "length bp = BSIZE"
  shows "dinode_at (k mod IPB) (dinode_put (k mod IPB) d bp) = Inr d"
proof -
  have "k mod IPB < 16" by (simp add: IPB_def BSIZE_def DINODE_SIZE_def NDIRECT_def)
  then have "DINODE_SIZE * (k mod IPB) \<le> length bp" using assms(2) by (simp add: DINODE_SIZE_def NDIRECT_def BSIZE_def)
  then show ?thesis using DInode_roundtrip[OF assms(1)] by (simp add: dinode_at_def dinode_put_def overwrite_def)
qed

lemma IData_eta:
  "i_valid d \<Longrightarrow> \<lparr>i_dev = i_dev d, i_inum = i_inum d, i_valid = True, i_itype = i_itype d, i_major = i_major d,
     i_minor = i_minor d, i_nlink = i_nlink d, i_size = i_size d, i_addrs = i_addrs d\<rparr> = d"
  by (cases d) simp

text \<open>
  (C18) An inode that was written back and dropped from memory is read back as it was: after
  \<^verbatim>\<open>update\<close>, a fresh copy in memory that is locked has the same type, device, links, size and block
  numbers.
\<close>

theorem inode_update_lock:
  assumes "typed s" and "a < length (fs_inodes s)" and "mi_inum (fs_inodes s ! a) = i_inum (idat a s)"
    and "mi_dev (fs_inodes s ! a) = i_dev (idat a s)" and "i_valid (idat a s)" and "i_itype (idat a s) \<noteq> TNone"
    and "dinode_fits (dinode_of (idat a s))" and "IData_update a s = Inr s1"
  shows "\<exists>s2. MInode_lock a (upd_idat a (\<lambda>_. IData_new dev inum) s1) = Inr s2 \<and> idat a s2 = idat a s"
proof -
  obtain sb b where sb: "fs_sb s = Some sb" "iblock sb (i_inum (idat a s)) = Inr b"
    and w: "LOG_write b (bput b (dinode_put (i_inum (idat a s) mod IPB) (dinode_of (idat a s)) (bget b s)) s) = Inr s1"
    using assms(8) by (auto simp: IData_update_def)
  from LOG_write_fields[OF w] obtain log where
    s1: "s1 = (bput b (dinode_put (i_inum (idat a s) mod IPB) (dinode_of (idat a s)) (bget b s)) s)\<lparr>fs_log := log\<rparr>" .
  define s' where "s' = upd_idat a (\<lambda>_. IData_new dev inum) s1"
  have g: "bget b s' = dinode_put (i_inum (idat a s) mod IPB) (dinode_of (idat a s)) (bget b s)"
    using bget_bput[of b b] by (simp add: s'_def s1 bget_def)
  have i: "inode a s' = (inode a s)\<lparr>mi_data := IData_new dev inum\<rparr>" "fs_sb s' = Some sb" "length (fs_inodes s') = length (fs_inodes s)"
    using assms(2) sb by (simp_all add: s'_def s1 upd_idat_def upd_inode_nth)
  have "dinode_at (mi_inum (inode a s') mod IPB) (bget b s') = Inr (dinode_of (idat a s))"
    using dinode_at_put[OF assms(7), of "bget b s" "i_inum (idat a s)"] assms(1,3) by (simp add: g i typed_def)
  then have "MInode_lock a s' = Inr (upd_idat a (\<lambda>d. idat a s) s')"
    using sb i(1,2) assms(3,4,6) by (simp add: MInode_lock_def IData_new_def dinode_of_def IData_eta[OF assms(5)])
  moreover have "idat a (upd_idat a (\<lambda>d. idat a s) s') = idat a s"
    using i(3) assms(2) by (simp add: upd_idat_def upd_inode_nth)
  ultimately show ?thesis by (simp add: s'_def)
qed

section \<open>Content of files\<close>

definition fblock :: "nat \<Rightarrow> nat \<Rightarrow> fsys \<Rightarrow> nat" where
  "fblock a bn s =
     (let ads = i_addrs (idat a s)
      in if bn < NDIRECT then ads ! bn else if ads ! NDIRECT = 0 then 0 else u32s (bget (ads ! NDIRECT) s) ! (bn - NDIRECT))"

definition file_byte :: "nat \<Rightarrow> fsys \<Rightarrow> nat \<Rightarrow> u8" where
  "file_byte a s i = bget (fblock a (i div BSIZE) s) s ! (i mod BSIZE)"

lemma bmap_allocated: "bn < MAXFILE \<Longrightarrow> fblock a bn s \<noteq> 0 \<Longrightarrow> bmap a bn s = Inr (Inr (fblock a bn s), s)"
  by (auto simp: bmap_def bmap_addr_def fblock_def Let_def MAXFILE_def split: if_splits)

lemma overwrite_overwrite:
  "a + length xs \<le> length m \<Longrightarrow> overwrite (overwrite m a xs) (a + length xs) ys = overwrite m a (xs @ ys)"
  by (cases xs) (auto simp: overwrite_def min_def ac_simps)

lemma take_block:
  assumes "off mod BSIZE = 0" and "k \<le> BSIZE" and "typed s"
  shows "take k (bget (fblock a (off div BSIZE) s) s) = map (file_byte a s) [off..<off + k]"
proof (rule nth_equalityI)
  show "length (take k (bget (fblock a (off div BSIZE) s) s)) = length (map (file_byte a s) [off..<off + k])"
    using assms by (simp add: typed_def)
next
  fix i
  assume "i < length (take k (bget (fblock a (off div BSIZE) s) s))"
  then have i: "i < k" by simp
  have "(off + i) div BSIZE = off div BSIZE" "(off + i) mod BSIZE = i"
    using assms(1,2) i by (auto simp: BSIZE_def)
  then show "take k (bget (fblock a (off div BSIZE) s) s) ! i = map (file_byte a s) [off..<off + k] ! i"
    using i by (simp add: file_byte_def)
qed

lemma read_loop_aligned:
  assumes "tot \<le> n" and "tot < n \<Longrightarrow> off mod BSIZE = 0" and "n \<le> length m" and "typed s"
    and "off + (n - tot) \<le> MAXFILE * BSIZE" and "\<And>i. off \<le> i \<Longrightarrow> i < off + (n - tot) \<Longrightarrow> fblock a (i div BSIZE) s \<noteq> 0"
  shows "read_loop a kput tot off n m s = Inr (Inr n, overwrite m tot (map (file_byte a s) [off..<off + (n - tot)]), s)"
  using assms
proof (induction "n - tot" arbitrary: tot off m rule: less_induct)
  case less
  show ?case
  proof (cases "tot < n")
    case False
    then show ?thesis using less.prems(1) by (simp add: read_loop.simps[of a kput n] overwrite_def)
  next
    case True
    define k where "k = min (n - tot) BSIZE"
    have al: "off mod BSIZE = 0" using less.prems(2) True by simp
    have "off div BSIZE < MAXFILE" using less.prems(5) True al by (simp add: BSIZE_def)
    moreover have "fblock a (off div BSIZE) s \<noteq> 0" using less.prems(6)[of off] True by simp
    ultimately have b: "bmap a (off div BSIZE) s = Inr (Inr (fblock a (off div BSIZE) s), s)" by (rule bmap_allocated)
    have kk: "k \<le> BSIZE" "0 < k" "k \<le> n - tot" using True by (simp_all add: k_def BSIZE_def)
    have len: "length (bget (fblock a (off div BSIZE) s) s) = BSIZE" using less.prems(4) by (simp add: typed_def)
    define xs where "xs = map (file_byte a s) [off..<off + k]"
    have "slice (bget (fblock a (off div BSIZE) s) s) 0 k = Inr xs"
      using kk(1) len take_block[OF al kk(1) less.prems(4), of a] by (simp add: xs_def)
    then have "read_loop a kput tot off n m s = read_loop a kput (tot + k) (off + k) n (overwrite m tot xs) s"
      using True b al by (simp add: read_loop.simps[of a kput tot] Let_def kput_def k_def)
    also have "\<dots> = Inr (Inr n, overwrite (overwrite m tot xs) (tot + k) (map (file_byte a s) [off + k..<off + k + (n - (tot + k))]), s)"
    proof (rule less.hyps)
      show "(off + k) mod BSIZE = 0" if "tot + k < n" using that al by (simp add: k_def BSIZE_def)
    qed (use kk True less.prems in \<open>auto simp: xs_def\<close>)
    also have "overwrite (overwrite m tot xs) (tot + k) (map (file_byte a s) [off + k..<off + k + (n - (tot + k))]) =
        overwrite m tot (map (file_byte a s) [off..<off + (n - tot)])"
      using overwrite_overwrite[of tot xs m] kk less.prems(3) True upt_add_eq_append[of off "off + k" "n - tot - k"]
      by (simp add: xs_def)
    finally show ?thesis .
  qed
qed

lemma read_aligned:
  assumes "typed s" and "off mod BSIZE = 0" and "off \<le> i_size (idat a s)" and "off + n < 2 ^ 64"
    and "i_size (idat a s) \<le> MAXFILE * BSIZE" and "k = min n (i_size (idat a s) - off)" and "k \<le> length m"
    and "\<And>i. off \<le> i \<Longrightarrow> i < off + k \<Longrightarrow> fblock a (i div BSIZE) s \<noteq> 0"
  shows "IData_read a kput off n m s = Inr (Inr k, overwrite m 0 (map (file_byte a s) [off..<off + k]), s)"
proof -
  have "(if off + n > i_size (idat a s) then i_size (idat a s) - off else n) = k" using assms(3,6) by auto
  then have "IData_read a kput off n m s = read_loop a kput 0 off k m s"
    using assms(3,4) by (simp add: IData_read_def Let_def)
  then show ?thesis using read_loop_aligned[of 0 k off m s a] assms by simp
qed

text \<open>
  (C13) A read that starts at a block boundary, of blocks that are allocated, returns exactly the
  bytes of the file up to the end of the request or of the file, whichever is first, and changes
  nothing else.
\<close>

theorem IData_read_aligned:
  assumes "typed s" and "off mod BSIZE = 0" and "off \<le> i_size (idat a s)" and "off + n < 2 ^ 64"
    and "i_size (idat a s) \<le> MAXFILE * BSIZE" and "k = min n (i_size (idat a s) - off)" and "k \<le> length m"
    and "\<And>i. off \<le> i \<Longrightarrow> i < off + k \<Longrightarrow> fblock a (i div BSIZE) s \<noteq> 0"
  shows "IData_read a kput off n m s = Inr (Inr k, overwrite m 0 (map (file_byte a s) [off..<off + k]), s)"
  by (rule read_aligned[OF assms])

section \<open>Directories\<close>

text \<open>A read whose offset in its block is larger than the number of bytes it takes from the block.\<close>

lemma IData_read_unaligned:
  assumes "off + n \<le> i_size (idat a s)" and "i_size (idat a s) \<le> MAXFILE * BSIZE" and "0 < n"
    and "fblock a (off div BSIZE) s \<noteq> 0" and "min n (BSIZE - off mod BSIZE) < off mod BSIZE"
  shows "IData_read a put off n m s = Inl OutOfBounds"
proof -
  have "off div BSIZE < MAXFILE" using assms(1,2,3) by (simp add: BSIZE_def)
  note b = bmap_allocated[OF this assms(4)]
  have "slice (bget (fblock a (off div BSIZE) s) s) (off mod BSIZE) (min n (BSIZE - off mod BSIZE)) = Inl OutOfBounds"
    unfolding slice_def by (rule if_not_P) (use assms(5) in linarith)
  then have "read_loop a put 0 off n m s = Inl OutOfBounds"
    using assms(3) b by (simp add: read_loop.simps[of a put 0] Let_def)
  moreover have "off + n < 2 ^ 64" using assms(1,2) by (simp add: MAXFILE_def NDIRECT_def NINDIRECT_def BSIZE_def)
  ultimately show ?thesis using assms(1) by (simp add: IData_read_def Let_def)
qed

text \<open>The second entry of a directory: the read copies nothing.\<close>

lemma IData_read_second:
  assumes "typed s" and "2 * DIRENT_SIZE \<le> i_size (idat a s)" and "i_size (idat a s) \<le> MAXFILE * BSIZE" and "fblock a 0 s \<noteq> 0"
  shows "IData_read a kput DIRENT_SIZE DIRENT_SIZE m s = Inr (Inr DIRENT_SIZE, m, s)"
proof -
  have "bmap a 0 s = Inr (Inr (fblock a 0 s), s)" by (rule bmap_allocated[OF _ assms(4)]) (simp add: MAXFILE_def NDIRECT_def)
  then have "read_loop a kput 0 DIRENT_SIZE DIRENT_SIZE m s = read_loop a kput DIRENT_SIZE (2 * DIRENT_SIZE) DIRENT_SIZE m s"
    using assms(1)
    by (simp add: read_loop.simps[of a kput 0] Let_def slice_def DIRENT_SIZE_def DIRSIZ_def BSIZE_def typed_def kput_def overwrite_def)
  also have "\<dots> = Inr (Inr DIRENT_SIZE, m, s)" by (simp add: read_loop.simps[of a kput DIRENT_SIZE])
  finally show ?thesis using assms(2) by (simp add: IData_read_def Let_def DIRENT_SIZE_def DIRSIZ_def)
qed

lemma IData_read_first:
  assumes "typed s" and "DIRENT_SIZE \<le> i_size (idat a s)" and "i_size (idat a s) \<le> MAXFILE * BSIZE" and "fblock a 0 s \<noteq> 0"
    and "length m = DIRENT_SIZE"
  shows "IData_read a kput 0 DIRENT_SIZE m s = Inr (Inr DIRENT_SIZE, take DIRENT_SIZE (bget (fblock a 0 s) s), s)"
proof -
  have "fblock a (i div BSIZE) s \<noteq> 0" if "i < DIRENT_SIZE" for i
    using that assms(4) by (simp add: DIRENT_SIZE_def DIRSIZ_def BSIZE_def)
  then have "IData_read a kput 0 DIRENT_SIZE m s = Inr (Inr DIRENT_SIZE, overwrite m 0 (map (file_byte a s) [0..<0 + DIRENT_SIZE]), s)"
    by (intro read_aligned) (use assms in \<open>simp_all add: DIRENT_SIZE_def DIRSIZ_def\<close>)
  then show ?thesis
    using take_block[of 0 DIRENT_SIZE s a] assms(1,5) by (simp add: DIRENT_SIZE_def DIRSIZ_def BSIZE_def overwrite_def)
qed

text \<open>
  (C29) A directory of three or more entries is only ever searched in its first entry: when the
  name is the one of that entry, and the entry is in use, the lookup returns its inode; every other
  lookup panics, because the slice of the third read has its bounds the wrong way round.
\<close>

theorem dirlookup_first_entry:
  assumes "typed s" and "i_itype (idat a s) = TDir" and "3 * DIRENT_SIZE \<le> i_size (idat a s)"
    and "i_size (idat a s) \<le> MAXFILE * BSIZE" and "fblock a 0 s \<noteq> 0"
    and "de = take DIRENT_SIZE (bget (fblock a 0 s) s)"
  shows "dirlookup a name s =
    (if de_inum de = 0 then Inl OutOfBounds
     else if \<not> utf8_valid (de_name de) then Inl UnwrapNone
     else if name = trim_matches 0 (de_name de) then
       rbind (ITable_get (i_dev (idat a s)) (de_inum de) s) (\<lambda>(x, s'). Inr (Some (x, 0), s'))
     else Inl OutOfBounds)"
proof -
  have sz: "DIRENT_SIZE \<le> i_size (idat a s)" "2 * DIRENT_SIZE \<le> i_size (idat a s)" "2 * DIRENT_SIZE < i_size (idat a s)"
    "DIRENT_SIZE < i_size (idat a s)" "0 < i_size (idat a s)"
    using assms(3) by (simp_all add: DIRENT_SIZE_def)
  have third: "dirlookup_from a name (i_size (idat a s)) (DIRENT_SIZE + DIRENT_SIZE) m s = Inl OutOfBounds" for m
  proof -
    have "fblock a (2 * DIRENT_SIZE div BSIZE) s \<noteq> 0" using assms(5) by (simp add: DIRENT_SIZE_def DIRSIZ_def BSIZE_def)
    then have "IData_read a kput (2 * DIRENT_SIZE) DIRENT_SIZE m s = Inl OutOfBounds"
      by (rule IData_read_unaligned[rotated 3]) (use assms(3,4) in \<open>simp_all add: DIRENT_SIZE_def DIRSIZ_def BSIZE_def\<close>)
    then show ?thesis using sz(3) by (simp add: dirlookup_from.simps[of a name _ "DIRENT_SIZE + DIRENT_SIZE"] mult_2)
  qed
  have second: "dirlookup_from a name (i_size (idat a s)) DIRENT_SIZE de s =
      (if de_inum de = 0 then Inl OutOfBounds else if \<not> utf8_valid (de_name de) then Inl UnwrapNone
       else if name = trim_matches 0 (de_name de) then
         rbind (ITable_get (i_dev (idat a s)) (de_inum de) s) (\<lambda>(x, s'). Inr (Some (x, DIRENT_SIZE), s'))
       else Inl OutOfBounds)"
    using IData_read_second[OF assms(1) sz(2) assms(4,5), of de] sz(4) third
    by (simp add: dirlookup_from.simps[of a name _ DIRENT_SIZE])
  have "IData_read a kput 0 DIRENT_SIZE DirEnt_default s = Inr (Inr DIRENT_SIZE, de, s)"
    using IData_read_first[OF assms(1) sz(1) assms(4,5), of DirEnt_default] assms(6) by (simp add: DirEnt_default_def)
  then show ?thesis
    using sz(5) second assms(2) by (simp add: dirlookup_def dirlookup_from.simps[of a name _ 0])
qed

end
