(* ===== verification/FsNames.thy ===== *)
theory FsNames
  imports FsContent
begin

text \<open>
  The names of the file system, the block allocator, and a small file system on which the
  theorems about inodes, directories and files are applied.
\<close>

section \<open>Names\<close>

lemma namex_from_name:
  "rok (\<lambda>(r, s'). \<forall>n x. r = Some (n, x) \<longrightarrow> length n < DIRSIZ) (namex_from parent path ip s)"
proof (induction parent path ip s rule: namex_from.induct)
  case (1 parent path ip s)
  have last: "length n < DIRSIZ" if "skip_elem path = (Some n, None)" for n
    using that by (auto simp: skip_elem_def split: option.splits if_splits)
  show ?case
    unfolding namex_from.simps[of parent path ip s]
  proof (rule rok_skip, goal_cases)
    case l: (1 s1)
    show ?case
    proof (rule rok_if, goal_cases)
      case 1
      then show ?case by (intro rok_skip) simp
    next
      case d: 2
      consider (no) rest where "skip_elem path = (None, rest)" | (last) name where "skip_elem path = (Some name, None)"
        | (step) name npath where "skip_elem path = (Some name, Some npath)"
        by (metis option.exhaust surj_pair)
      then show ?case
      proof cases
        case no
        then show ?thesis by (auto intro!: rok_skip)
      next
        case last
        then show ?thesis using \<open>\<And>n. skip_elem path = (Some n, None) \<Longrightarrow> length n < DIRSIZ\<close> by (auto intro!: rok_skip)
      next
        case step
        then show ?thesis
          using "1.IH"[OF l d step[symmetric] refl refl _ refl] by (auto intro!: rok_skip rok_option)
      qed
    qed
  qed
qed

lemma nameiparent_name: "nameiparent cwd path s = Inr (Some (name, dp), s') \<Longrightarrow> length name < DIRSIZ"
proof -
  assume "nameiparent cwd path s = Inr (Some (name, dp), s')"
  then obtain ip s1 where "namex_from True path ip s1 = Inr (Some (name, dp), s')"
    by (auto simp: nameiparent_def namex_def)
  from rokD[OF namex_from_name this] show ?thesis by simp
qed

lemma dirlink_short: "length name < DIRSIZ \<Longrightarrow> dirlink a name inum s \<noteq> Inr (Inr u, s')"
  by (auto simp: dirlink_def slice_def split: option.splits)

text \<open>
  (C30) No name is ever entered into a directory: \<^verbatim>\<open>link\<close> never succeeds, and \<^verbatim>\<open>create\<close> never
  succeeds for a directory or a device. The names that path lookup returns have fewer than
  fourteen bytes, and \<^verbatim>\<open>dirlink\<close> slices fourteen bytes out of them.
\<close>

theorem no_new_names:
  assumes "ty \<noteq> TFile"
  shows "fs_link cwd old new s \<noteq> Inr (Inr (), s') \<and> create cwd path ty major minor s \<noteq> Inr (Some ip, s')"
proof
  show "fs_link cwd old new s \<noteq> Inr (Inr (), s')"
  proof
    assume "fs_link cwd old new s = Inr (Inr (), s')"
    then obtain name dp s2 s3 i s4 s5 u where n: "nameiparent cwd new s2 = Inr (Some (name, dp), s3)" and d: "dirlink dp name i s4 = Inr (Inr u, s5)"
      by (auto simp: fs_link_def put1_def put2_def split: option.splits if_splits sum.splits) (metis old.unit.exhaust sum.exhaust)
    from dirlink_short[OF nameiparent_name[OF n]] d show False by blast
  qed
  show "create cwd path ty major minor s \<noteq> Inr (Some ip, s')"
  proof
    assume "create cwd path ty major minor s = Inr (Some ip, s')"
    then obtain name dp s1 ip' s4 where n: "nameiparent cwd path s = Inr (Some (name, dp), s1)"
      and c: "create_new name dp ty major minor ip' s4 = Inr (Some ip, s')"
      using assms by (auto simp: create_def put1_def put2_def split: option.splits if_splits)
    from c obtain i s4 s5 u where d: "dirlink dp name i s4 = Inr (Inr u, s5)"
      by (auto simp: create_new_def put2_def split: sum.splits) (metis old.unit.exhaust sum.exhaust)+
    from dirlink_short[OF nameiparent_name[OF n]] d show False by blast
  qed
qed

section \<open>Blocks\<close>

definition map_bit :: "u8 list \<Rightarrow> nat \<Rightarrow> bool" where
  "map_bit bp i = bit (bp ! (i div 8)) (i mod 8)"

lemma and_push_bit:
  fixes w :: u8
  assumes "m < 8"
  shows "w AND push_bit m 1 = 0 \<longleftrightarrow> \<not> bit w m"
proof -
  define e where "e = w AND push_bit m 1"
  have "bit e n \<longleftrightarrow> n = m \<and> bit w m" for n
    using assms by (auto simp: e_def bit_and_iff bit_exp_iff)
  then show ?thesis unfolding e_def[symmetric] word_bits_eq_iff[of e] using assms by auto
qed

lemma balloc_bits_Some:
  "balloc_bits sz b bi bp = Inr (Some k) \<Longrightarrow>
   bi < k \<and> k div 8 < length bp \<and> b + k \<le> sz \<and> \<not> map_bit bp k \<and> (\<forall>j. bi < j \<and> j < k \<longrightarrow> map_bit bp j)"
proof (induction sz b bi bp rule: balloc_bits.induct)
  case (1 sz b bi bp)
  from "1.prems" have h: "bi < BPB" "b + bi < sz" "Suc bi div 8 < length bp"
    by (auto simp: balloc_bits.simps[of sz b bi] u32_add_def get_unwrap_def Let_def split: if_splits)
  have u: "u32_add b bi = Inr (b + bi)" using "1.prems" h by (auto simp: balloc_bits.simps[of sz b bi] u32_add_def split: if_splits)
  note free = and_push_bit[of "Suc bi mod 8" "bp ! (Suc bi div 8)", folded map_bit_def]
  show ?case
  proof (cases "map_bit bp (Suc bi)")
    case False
    then have "k = Suc bi" using "1.prems" h u free by (simp add: balloc_bits.simps[of sz b bi] get_unwrap_def Let_def)
    then show ?thesis using False h by auto
  next
    case True
    then have r: "balloc_bits sz b (bi + 1) bp = Inr (Some k)"
      using "1.prems" h u free by (simp add: balloc_bits.simps[of sz b bi] get_unwrap_def Let_def)
    have nz: "bp ! (Suc bi div 8) AND push_bit (Suc bi mod 8) 1 \<noteq> 0" using True free by simp
    have "Suc bi < k \<and> k div 8 < length bp \<and> b + k \<le> sz \<and> \<not> map_bit bp k \<and> (\<forall>j. Suc bi < j \<and> j < k \<longrightarrow> map_bit bp j)"
      using "1.IH"[OF h(1) u h(2) refl _ _ r, of "bp ! (Suc bi div 8)"] nz h(3) by (simp add: get_unwrap_def)
    then show ?thesis using True by (metis Suc_lessI Suc_lessD)
  qed
qed

lemma bget_log: "LOG_write b s = Inr s' \<Longrightarrow> bget c s' = bget c s"
  by (auto elim!: LOG_write_fields simp: bget_def)

lemma balloc_bits_None:
  "balloc_bits sz b bi bp = Inr None \<Longrightarrow> length bp = BSIZE \<Longrightarrow> bi < BPB \<Longrightarrow> sz < b + BPB"
proof (induction sz b bi bp rule: balloc_bits.induct)
  case (1 sz b bi bp)
  show ?case
  proof (cases "b + bi < sz")
    case False
    then show ?thesis using "1.prems"(3) by simp
  next
    case True
    have u: "u32_add b bi = Inr (b + bi)" using "1.prems" by (auto simp: balloc_bits.simps[of sz b bi] u32_add_def split: if_splits)
    have l: "Suc bi div 8 < BSIZE"
      using "1.prems" True u by (auto simp: balloc_bits.simps[of sz b bi] get_unwrap_def Let_def split: if_splits)
    then have k: "bi + 1 < BPB" by (simp add: BPB_def)
    have g: "get_unwrap bp ((bi + 1) div 8) = Inr (bp ! ((bi + 1) div 8))" using l "1.prems"(2) by (simp add: get_unwrap_def)
    have nz: "bp ! ((bi + 1) div 8) AND push_bit ((bi + 1) mod 8) 1 \<noteq> 0" and r: "balloc_bits sz b (bi + 1) bp = Inr None"
      using "1.prems" True u g by (auto simp: balloc_bits.simps[of sz b bi] Let_def split: if_splits)
    from "1.IH"[OF "1.prems"(3) u True refl g nz r "1.prems"(2) k] show ?thesis .
  qed
qed

text \<open>
  (C23) A block that \<^verbatim>\<open>balloc\<close> returns is a block of the first group, the first one from block 1 on
  that is free in the bitmap it looks at: block 0 is never tested, and the scan of a full first group
  panics at its end before another group is looked at. The block is marked and filled with zeros, and
  no other block of the disk is changed. The bitmap it looks at is the block \<open>BPB + bmapstart\<close>, and
  the last possible result is the size of the file system, one more than its last block.
\<close>

theorem balloc_exact:
  assumes "balloc s = Inr (x, s')" and "fs_sb s = Some sb" and "typed s"
  shows "0 < x \<and> x < BPB \<and> x \<le> sb_size sb \<and>
    (let mb = BPB + sb_bmapstart sb; bp = bget mb s
     in \<not> map_bit bp x \<and> (\<forall>j. 0 < j \<and> j < x \<longrightarrow> map_bit bp j) \<and>
       (\<forall>c. bget c s' = (if c = x then replicate BSIZE 0
          else if c = mb then bp[x div 8 := bp ! (x div 8) OR push_bit (x mod 8) 1] else bget c s)))"
proof -
  define mb where "mb = BPB + sb_bmapstart sb"
  define bp where "bp = bget mb s"
  have f: "balloc_from 0 sb s = Inr (x, s')" using assms(1,2) by (simp add: balloc_def)
  then obtain r where b: "0 < sb_size sb" "bblock sb 0 = Inr mb" "balloc_bits (sb_size sb) 0 0 bp = Inr r"
    by (auto simp: balloc_from.simps[of 0] bblock_def u32_add_def mb_def bp_def split: if_splits)
  have len: "length bp = BSIZE" using assms(3) by (simp add: bp_def typed_def)
  obtain bi where r: "r = Some bi"
  proof (cases r)
    case None
    then have "sb_size sb < BPB" using balloc_bits_None[of _ 0 0 bp] b(3) len by (simp add: BPB_def BSIZE_def)
    then show thesis using f b None by (simp add: balloc_from.simps bp_def)
  qed
  obtain s1 where w: "LOG_write mb (bput mb (bp[bi div 8 := bp ! (bi div 8) OR push_bit (bi mod 8) 1]) s) = Inr s1"
    "x = bi" "bzero x s1 = Inr s'"
    using f b r by (auto simp: balloc_from.simps[of 0] u32_add_def bp_def Let_def split: if_splits)
  note k = balloc_bits_Some[OF b(3)[unfolded r]]
  have "bget c s' = (if c = x then replicate BSIZE 0
      else if c = mb then bp[bi div 8 := bp ! (bi div 8) OR push_bit (bi mod 8) 1] else bget c s)" for c
    using bget_log[OF w(3)[unfolded bzero_def]] bget_log[OF w(1)] by (simp add: bget_bput)
  moreover have "bi < BPB" using k len by (simp add: BPB_def) linarith
  ultimately show ?thesis using k w(2) unfolding Let_def mb_def[symmetric] bp_def[symmetric] by simp
qed

section \<open>A small file system\<close>

text \<open>Its root directory, of the given size, has the entry \<^verbatim>\<open>.\<close> first.\<close>

definition ex_root :: "nat \<Rightarrow> DInode" where
  "ex_root sz = \<lparr>di_itype = TDir, di_major = MNull, di_minor = 0, di_nlink = 1, di_size = sz, di_addrs = 46 # replicate NDIRECT 0\<rparr>"

definition ex_disk :: "nat \<Rightarrow> disk" where
  "ex_disk sz b =
     (if b = 32 then replicate 64 0 @ DInode_bytes (ex_root sz) @ replicate 896 0
      else if b = 46 then le16 1 @ [0x2e] @ replicate 1021 0
      else replicate BSIZE 0)"

definition ex_fs :: "nat \<Rightarrow> fsys" where
  "ex_fs sz = \<lparr>
     fs_sb = Some \<lparr>sb_magic = FSMAGIC, sb_size = 100, sb_nblocks = 54, sb_ninodes = 10, sb_nlog = 30, sb_logstart = 2,
       sb_inodestart = 32, sb_bmapstart = 45\<rparr>,
     fs_log = \<lparr>log_start = 2, log_size = 30, log_dev = 1, log_outstanding = 1, log_committing = False,
       log_lh = \<lparr>lh_n = 0, lh_block = replicate LOGSIZE 0\<rparr>\<rparr>,
     fs_st = \<lparr>bs_base = ex_disk sz, bs_writes = [], bs_cache = (\<lambda>_. None)\<rparr>,
     fs_itable = replicate NINODE None, fs_inodes = []\<rparr>"

lemma bget_ex_fs: "bget b (ex_fs sz) = ex_disk sz b"
  by (simp add: bget_def ex_fs_def bread_def bs_disk_def)

lemma ex_root_fits: "sz < 2 ^ 32 \<Longrightarrow> dinode_fits (ex_root sz)"
  by (simp add: dinode_fits_def ex_root_def)

lemma typed_ex_fs: "sz < 2 ^ 32 \<Longrightarrow> typed (ex_fs sz)"
  using length_DInode_bytes[OF ex_root_fits, of sz]
  by (simp add: typed_def bget_ex_fs ex_disk_def BSIZE_def DINODE_SIZE_def NDIRECT_def) (simp add: ex_fs_def)

text \<open>The file system with the root inode in memory, valid, with \<open>r\<close> strong references.\<close>

definition ex_idata :: "nat \<Rightarrow> IData" where
  "ex_idata sz = \<lparr>i_dev = 1, i_inum = 1, i_valid = True, i_itype = TDir, i_major = MNull, i_minor = 0, i_nlink = 1,
     i_size = sz, i_addrs = 46 # replicate NDIRECT 0\<rparr>"

definition ex_fs1 :: "nat \<Rightarrow> nat \<Rightarrow> fsys" where
  "ex_fs1 sz r = (ex_fs sz)\<lparr>fs_itable := Some 0 # replicate 49 None,
     fs_inodes := [\<lparr>mi_dev = 1, mi_inum = 1, mi_data = ex_idata sz, mi_refs = r\<rparr>]\<rparr>"

lemma ex_fs1_fields [simp]:
  "fs_inodes (ex_fs1 sz r) = [\<lparr>mi_dev = 1, mi_inum = 1, mi_data = ex_idata sz, mi_refs = r\<rparr>]"
  "fs_itable (ex_fs1 sz r) = Some 0 # replicate 49 None" "fs_sb (ex_fs1 sz r) = fs_sb (ex_fs sz)"
  "fs_log (ex_fs1 sz r) = fs_log (ex_fs sz)" "bget b (ex_fs1 sz r) = ex_disk sz b"
  using bget_ex_fs by (simp_all add: ex_fs1_def)

lemma ex_upd: "upd_inode 0 (\<lambda>i. i\<lparr>mi_refs := g (mi_refs i)\<rparr>) (ex_fs1 sz r) = ex_fs1 sz (g r)"
  by (simp add: upd_inode_def) (simp add: ex_fs1_def)

lemma ex_get: "ITable_get 1 1 (ex_fs1 sz r) = Inr (0, ex_fs1 sz (r + 1))"
  using ex_upd[of "\<lambda>r. r + 1"] by (simp add: ITable_get_def add_ref_def)

lemma ex_put: "r \<noteq> 2 \<Longrightarrow> ITable_put 0 (ex_fs1 sz r) = Inr (ex_fs1 sz (r - 1))"
  using ex_upd[of "\<lambda>r. r - 1"] by (simp add: ITable_put_def drop_ref_def)

lemma ex_lock: "MInode_lock 0 (ex_fs1 sz r) = Inr (ex_fs1 sz r)"
  by (simp add: MInode_lock_def ex_idata_def) (simp add: ex_fs_def)

lemma typed_ex_fs1: "sz < 2 ^ 32 \<Longrightarrow> typed (ex_fs1 sz r)"
  using typed_ex_fs[of sz] by (simp add: typed_def bget_ex_fs) (simp add: ex_idata_def)

lemma ex_fblock: "fblock 0 0 (ex_fs1 sz r) = 46"
  by (simp add: fblock_def ex_idata_def NDIRECT_def)

lemma ex_entry: "take DIRENT_SIZE (bget (fblock 0 0 (ex_fs1 sz r)) (ex_fs1 sz r)) = le16 1 @ [0x2e] @ replicate 13 0"
  by (simp add: ex_fblock ex_disk_def DIRENT_SIZE_def DIRSIZ_def)

lemma ex_inum: "de_inum (le16 (Suc 0) @ x) = 1"
  using of_le16_le16[of 1 x] by (simp add: de_inum_def)

lemma ex_name: "de_name (le16 (Suc 0) @ x) = x"
  by (simp add: de_name_def)

lemma ex_utf8: "utf8_valid ([0x2e] @ replicate 13 0)"
proof -
  have z: "utf8_valid (replicate n 0)" for n
    by (induction n) (simp_all add: utf8_valid.simps utf8_first_def)
  then show ?thesis by (simp add: utf8_valid.simps[of "0x2e # x" for x] utf8_first_def)
qed

lemma dropWhile_replicate: "dropWhile (\<lambda>x. x = c) (replicate n c @ ys) = dropWhile (\<lambda>x. x = c) ys"
  by (induction n) simp_all

lemma ex_trim: "trim_matches 0 ([0x2e] @ replicate 13 0) = [0x2e :: u8]"
  by (simp add: trim_matches_def dropWhile_replicate)

lemma ex_dirlookup: "dirlookup 0 [0x2e] (ex_fs1 16 r) = Inr (Some (0, 0), ex_fs1 16 (r + 1))"
proof -
  have "IData_read 0 kput 0 DIRENT_SIZE DirEnt_default (ex_fs1 16 r) = Inr (Inr DIRENT_SIZE, le16 1 @ [0x2e] @ replicate 13 0, ex_fs1 16 r)"
    using IData_read_first[of "ex_fs1 16 r" 0 DirEnt_default] typed_ex_fs1[of 16 r]
    by (simp only: ex_entry ex_fblock) (simp add: ex_idata_def DIRENT_SIZE_def DIRSIZ_def MAXFILE_def NDIRECT_def BSIZE_def DirEnt_default_def ex_disk_def)
  then show ?thesis
    using ex_get[of 16 r] ex_utf8 ex_trim
    by (simp add: dirlookup_def dirlookup_from.simps[of 0 _ _ 0] ex_idata_def ex_inum ex_name)
qed

lemma ex_get_new: "ITable_get ROOTDEV ROOTINO (ex_fs sz) = Inr (0, upd_idat 0 (\<lambda>_. IData_new 1 1) (ex_fs1 sz 2))"
  by (simp add: ITable_get_def ROOTDEV_def ROOTINO_def ex_fs_def ex_fs1_def add_ref_def upd_inode_def upd_idat_def MInode_new_def NINODE_def numeral_eq_Suc)

lemma ex_lock_new:
  assumes "sz < 2 ^ 32"
  shows "MInode_lock 0 (upd_idat 0 (\<lambda>_. IData_new 1 1) (ex_fs1 sz r)) = Inr (ex_fs1 sz r)"
proof -
  define s where "s = upd_idat 0 (\<lambda>_. IData_new 1 1) (ex_fs1 sz r)"
  have i: "fs_inodes s = [\<lparr>mi_dev = 1, mi_inum = 1, mi_data = IData_new 1 1, mi_refs = r\<rparr>]" "fs_sb s = fs_sb (ex_fs sz)"
    by (simp_all add: s_def upd_idat_def upd_inode_def)
  have "dinode_at 1 (bget 32 s) = Inr (ex_root sz)"
    using DInode_roundtrip[OF ex_root_fits[OF assms]]
    by (simp add: s_def dinode_at_def ex_disk_def DINODE_SIZE_def NDIRECT_def)
  then have "MInode_lock 0 s = Inr (upd_idat 0 (\<lambda>_. ex_idata sz) s)"
    by (simp add: MInode_lock_def i IData_new_def del: rbind_Inr_iff)
      (simp del: rbind_Inr_iff add: i ex_fs_def iblock_def u32_add_def IPB_def BSIZE_def DINODE_SIZE_def NDIRECT_def ex_root_def ex_idata_def)
  also have "upd_idat 0 (\<lambda>_. ex_idata sz) s = ex_fs1 sz r"
    by (simp add: s_def upd_idat_def upd_inode_def ex_fs1_def)
  finally show ?thesis by (simp add: s_def)
qed

lemma ex_skip: "skip_elem [0x2f, 0x2e, 0x2f, 0x2e] = (Some [0x2e], Some [0x2e])" "skip_elem [0x2e] = (Some [0x2e], None)"
  by (simp_all add: skip_elem_def trim_matches_def SLASH_def DIRSIZ_def)

lemma ex_namei: "namei None [0x2f, 0x2e, 0x2f, 0x2e] (ex_fs 16) = Inr (Some ([0x2e], 0), ex_fs1 16 2)"
proof -
  have d: "i_itype (idat 0 (ex_fs1 16 2)) = TDir" by (simp add: ex_idata_def)
  have "namex_from False [0x2e] 0 (ex_fs1 16 2) = Inr (Some ([0x2e], 0), ex_fs1 16 2)"
    using ex_lock[of 16 2] ex_dirlookup[of 2] ex_put[of 3 16] d by (simp add: namex_from.simps[of _ "[0x2e]"] ex_skip)
  then have "namex_from False [0x2f, 0x2e, 0x2f, 0x2e] 0 (upd_idat 0 (\<lambda>_. IData_new 1 1) (ex_fs1 16 2)) = Inr (Some ([0x2e], 0), ex_fs1 16 2)"
    using ex_lock_new[of 16 2] ex_dirlookup[of 2] ex_put[of 3 16] d by (simp add: namex_from.simps[of _ "[0x2f, 0x2e, 0x2f, 0x2e]"] ex_skip)
  then show ?thesis using ex_get_new[of 16] by (simp add: namei_def namex_def SLASH_def)
qed

theorem dirlookup_first_entry_witness:
  "3 * DIRENT_SIZE \<le> i_size (idat 0 (ex_fs1 48 2)) \<and> dirlookup 0 [0x2e, 0x2e] (ex_fs1 48 2) = Inl OutOfBounds"
proof -
  have h: "i_itype (idat 0 (ex_fs1 48 2)) = TDir" "3 * DIRENT_SIZE \<le> i_size (idat 0 (ex_fs1 48 2))"
    "i_size (idat 0 (ex_fs1 48 2)) \<le> MAXFILE * BSIZE" "fblock 0 0 (ex_fs1 48 2) \<noteq> 0"
    by (simp_all add: ex_idata_def DIRENT_SIZE_def DIRSIZ_def MAXFILE_def NDIRECT_def BSIZE_def ex_fblock)
  have "typed (ex_fs1 48 2)" by (simp add: typed_ex_fs1)
  from dirlookup_first_entry[OF this h refl, of "[0x2e, 0x2e]"] h(2) show ?thesis
    unfolding ex_entry using ex_utf8 ex_trim by (simp add: ex_inum ex_name)
qed

theorem IData_read_aligned_witness:
  "IData_read 0 kput 0 DIRENT_SIZE DirEnt_default (ex_fs1 16 2) =
     Inr (Inr 16, overwrite DirEnt_default 0 (map (file_byte 0 (ex_fs1 16 2)) [0..<16]), ex_fs1 16 2) \<and>
   file_byte 0 (ex_fs1 16 2) 2 = 0x2e"
proof -
  have b: "fblock 0 (i div BSIZE) (ex_fs1 16 2) \<noteq> 0" if "i < 16" for i
    using that ex_fblock[of 16 2] by (simp add: BSIZE_def)
  have "IData_read 0 kput 0 DIRENT_SIZE DirEnt_default (ex_fs1 16 2) =
     Inr (Inr 16, overwrite DirEnt_default 0 (map (file_byte 0 (ex_fs1 16 2)) [0..<0 + 16]), ex_fs1 16 2)"
    by (rule IData_read_aligned) (use typed_ex_fs1[of 16 2] b in \<open>simp_all add: ex_idata_def DIRENT_SIZE_def DIRSIZ_def MAXFILE_def NDIRECT_def BSIZE_def DirEnt_default_def\<close>)
  then show ?thesis using ex_fblock[of 16 2] by (simp add: file_byte_def BSIZE_def ex_disk_def nth_append le16_def)
qed

theorem no_new_names_witness:
  "fs_link None [] [] (ex_fs 16) \<noteq> Inr (Inr (), ex_fs 16) \<and> create None [0x2f] TDir 0 0 (ex_fs 16) \<noteq> Inr (Some 0, ex_fs 16)"
  using no_new_names[of TDir] by simp

lemma ex_log_write: "fs_log s = fs_log (ex_fs sz) \<Longrightarrow> \<exists>s'. LOG_write b s = Inr s' \<and> log_outstanding (fs_log s') = 1 \<and>
    lh_n (log_lh (fs_log s')) = 1 \<and> log_size (fs_log s') = 30 \<and> length (lh_block (log_lh (fs_log s'))) = LOGSIZE"
  by (simp add: LOG_write_def Log_write_def ex_fs_def LOGSIZE_def MAXOPBLOCKS_def)

lemma ex_log_write2:
  "log_outstanding (fs_log s) = 1 \<Longrightarrow> lh_n (log_lh (fs_log s)) = 1 \<Longrightarrow> log_size (fs_log s) = 30 \<Longrightarrow>
   length (lh_block (log_lh (fs_log s))) = LOGSIZE \<Longrightarrow> \<exists>s'. LOG_write b s = Inr s'"
  by (auto simp: LOG_write_def Log_write_def LOGSIZE_def MAXOPBLOCKS_def)

theorem inode_update_lock_witness:
  "\<exists>s1 s2. IData_update 0 (ex_fs1 16 2) = Inr s1 \<and> MInode_lock 0 (upd_idat 0 (\<lambda>_. IData_new 1 1) s1) = Inr s2 \<and>
     idat 0 s2 = ex_idata 16"
proof -
  have "\<exists>s1. IData_update 0 (ex_fs1 16 2) = Inr s1"
    using ex_log_write[of "bput 32 x (ex_fs1 16 2)" 16 32 for x]
    by (simp add: IData_update_def ex_idata_def) (simp add: ex_fs_def iblock_def u32_add_def IPB_def BSIZE_def DINODE_SIZE_def NDIRECT_def, blast)
  then obtain s1 where s1: "IData_update 0 (ex_fs1 16 2) = Inr s1" by blast
  have "dinode_fits (dinode_of (ex_idata 16))" by (simp add: dinode_fits_def dinode_of_def ex_idata_def)
  with inode_update_lock[of "ex_fs1 16 2" 0 s1 1 1] s1 typed_ex_fs1[of 16 2] show ?thesis by (simp add: ex_idata_def)
qed

theorem balloc_exact_witness:
  "\<exists>x s'. balloc (ex_fs 16) = Inr (x, s') \<and> x \<le> 100 \<and> bget x s' = replicate BSIZE 0"
proof -
  obtain s1 where s1: "LOG_write 8237 (bput 8237 ((replicate BSIZE 0)[0 := 2]) (ex_fs 16)) = Inr s1" "log_outstanding (fs_log s1) = 1"
    "lh_n (log_lh (fs_log s1)) = 1" "log_size (fs_log s1) = 30" "length (lh_block (log_lh (fs_log s1))) = LOGSIZE"
    using ex_log_write[of "bput 8237 ((replicate BSIZE 0)[0 := 2]) (ex_fs 16)" 16 8237] by auto
  then obtain s2 where s2: "bzero 1 s1 = Inr s2"
    using ex_log_write2[of "bput 1 (replicate BSIZE 0) s1" 1] by (auto simp: bzero_def)
  have "balloc_bits 100 0 0 (replicate BSIZE 0) = Inr (Some 1)"
    by (simp add: balloc_bits.simps[of _ _ 0] BPB_def BSIZE_def u32_add_def get_unwrap_def)
  then have "balloc (ex_fs 16) = Inr (1, s2)"
    using s1(1) s2 bget_ex_fs[of 8237 16]
    by (simp add: balloc_def ex_fs_def balloc_from.simps[of 0] bblock_def u32_add_def BPB_def BSIZE_def ex_disk_def)
  moreover have "fs_sb (ex_fs 16) = Some (the (fs_sb (ex_fs 16)))" "sb_size (the (fs_sb (ex_fs 16))) = 100" by (simp_all add: ex_fs_def)
  ultimately show ?thesis using balloc_exact[of "ex_fs 16" 1 s2 "the (fs_sb (ex_fs 16))"] typed_ex_fs[of 16] by (auto simp: Let_def)
qed

end
