(* ===== verification/FileInv.thy ===== *)
theory FileInv
  imports KFile FsNames
begin

text \<open>
  The file table on top of the inode table. Functions \<open>g\<close> and \<open>h\<close> count the references to open files
  and to inodes that processes have; every open file has a reference to its inode, and what the two
  tables count agrees with that.
\<close>

section \<open>Transactions\<close>

definition blocks_ok :: "bstore \<Rightarrow> bool" where
  "blocks_ok st \<longleftrightarrow> (\<forall>b. length (bread b st) = BSIZE)"

lemma commit_ok:
  assumes st: "blocks_ok st" and l: "length (lh_block (log_lh log)) = LOGSIZE"
  shows "rok (\<lambda>(log', st'). blocks_ok st' \<and> length (lh_block (log_lh log')) = LOGSIZE) (commit True log st)"
  using assms by (auto simp: rok_def dest: commit_True split: sum.splits)

lemma typed_blocks: "typed s \<Longrightarrow> blocks_ok (fs_st s)"
  by (simp add: typed_def blocks_ok_def bget_def)

lemma keeps_log_st:
  "typed s \<Longrightarrow> blocks_ok st \<Longrightarrow> length (lh_block (log_lh log)) = LOGSIZE \<Longrightarrow> keeps s (s\<lparr>fs_log := log, fs_st := st\<rparr>)"
  by (simp add: typed_def blocks_ok_def bget_def core_def)

lemma LOG_begin_op_inv: "LOG_begin_op s = Some (Inr s') \<Longrightarrow> fs_inv h s \<Longrightarrow> fs_inv h s'"
proof -
  assume "LOG_begin_op s = Some (Inr s')" and f: "fs_inv h s"
  then obtain log where l: "begin_op (fs_log s) = Inr (Some log)" and s': "s' = s\<lparr>fs_log := log\<rparr>"
    by (auto simp: LOG_begin_op_def split: sum.splits option.splits)
  have "log_lh log = log_lh (fs_log s)" using l by (auto simp: begin_op_def split: if_splits)
  then have "keeps s s'" using fs_invD(1)[OF f] by (simp add: s' typed_def core_def bget_def)
  then show ?thesis by (rule fs_inv_keeps[OF f])
qed

lemma LOG_end_op_inv:
  assumes f: "fs_inv h s"
  shows "rok (fs_inv h) (LOG_end_op s)"
  unfolding LOG_end_op_def
proof (intro rok_skip rok_prod rok_if, goal_cases)
  case (1 x fin log y log1 st)
  have t: "typed s" by (rule fs_invD(1)[OF f])
  have "length (lh_block (log_lh log)) = LOGSIZE"
    using 1(1,2) t by (auto simp: end_op_first_def Let_def typed_def split: if_splits)
  from rokD[OF commit_ok[OF typed_blocks[OF t] this] 1(4)] 1(5) have c: "blocks_ok st" "length (lh_block (log_lh log1)) = LOGSIZE" by simp_all
  have "keeps s (s\<lparr>fs_log := end_op_last log1, fs_st := st\<rparr>)" by (rule keeps_log_st[OF t c(1)]) (simp add: c(2) end_op_last_def)
  then show ?case using fs_inv_keeps[OF f] by simp
next
  case (2 x fin log)
  have t: "typed s" by (rule fs_invD(1)[OF f])
  have "length (lh_block (log_lh log)) = LOGSIZE"
    using 2(1,2) t by (auto simp: end_op_first_def Let_def typed_def split: if_splits)
  then have "keeps s (s\<lparr>fs_log := log\<rparr>)" using t by (simp add: typed_def core_def bget_def)
  then show ?case using fs_inv_keeps[OF f] by simp
qed

section \<open>Invariant\<close>

definition holders :: "(nat \<Rightarrow> nat) \<Rightarrow> kfiles \<Rightarrow> nat \<Rightarrow> nat set" where
  "holders g S a = {v. v < length (kf_files S) \<and> g v > 0 \<and> vfile_ip (vfile v S) = Some a}"

definition refs :: "(nat \<Rightarrow> nat) \<Rightarrow> (nat \<Rightarrow> nat) \<Rightarrow> kfiles \<Rightarrow> nat \<Rightarrow> nat" where
  "refs g h S a = h a + card (holders g S a)"

definition kf_inv :: "(nat \<Rightarrow> nat) \<Rightarrow> (nat \<Rightarrow> nat) \<Rightarrow> kfiles \<Rightarrow> bool" where
  "kf_inv g h S \<longleftrightarrow> length (kf_table S) = NFILE \<and> slots_ok (kf_table S) g \<and>
     (\<forall>v. g v > 0 \<longrightarrow> v < length (kf_files S) \<and> vn_refs (kf_files S ! v) = g v + 1) \<and> fs_inv (refs g h S) (kf_fs S)"

lemma finite_holders [simp]: "finite (holders g S a)"
  by (rule finite_subset[of _ "{..<length (kf_files S)}"]) (auto simp: holders_def)

lemma kf_invD:
  assumes "kf_inv g h S"
  shows "g v > 0 \<Longrightarrow> v < length (kf_files S)" "g v > 0 \<Longrightarrow> vn_refs (kf_files S ! v) = g v + 1"
    "fs_inv (refs g h S) (kf_fs S)" "slots_ok (kf_table S) g" "length (kf_table S) = NFILE"
  using assms by (simp_all add: kf_inv_def)

text \<open>A change of the file system only, and one that keeps the kinds of the files.\<close>

lemma refs_fs [simp]: "refs g h (S\<lparr>kf_fs := s\<rparr>) = refs g h S" "refs g h (S\<lparr>kf_chans := c\<rparr>) = refs g h S"
  "refs g h (S\<lparr>kf_table := t\<rparr>) = refs g h S"
  by (simp_all add: refs_def holders_def fun_eq_iff)

lemma kf_inv_fs: "kf_inv g h S \<Longrightarrow> fs_inv (refs g h S) s \<Longrightarrow> kf_inv g h (S\<lparr>kf_fs := s\<rparr>)"
  by (simp add: kf_inv_def)

lemma upd_vnode_nth:
  "kf_files (upd_vnode v f S) ! w = (if w = v \<and> v < length (kf_files S) then f (kf_files S ! v) else kf_files S ! w)"
  by (cases "v < length (kf_files S)") (auto simp: upd_vnode_def nth_list_update list_update_beyond)

lemma upd_vnode_fields [simp]:
  "length (kf_files (upd_vnode v f S)) = length (kf_files S)" "kf_table (upd_vnode v f S) = kf_table S"
  "kf_fs (upd_vnode v f S) = kf_fs S"
  by (simp_all add: upd_vnode_def)

lemma holders_upd:
  "(\<And>n. vfile_ip (vn_file (f n)) = vfile_ip (vn_file n)) \<Longrightarrow> holders g (upd_vnode v f S) a = holders g S a"
  by (auto simp: holders_def upd_vnode_nth)

lemma refs_upd: "(\<And>n. vfile_ip (vn_file (f n)) = vfile_ip (vn_file n)) \<Longrightarrow> refs g h (upd_vnode v f S) = refs g h S"
  by (simp add: refs_def holders_upd fun_eq_iff)

lemma kf_inv_set_off: "kf_inv g h S \<Longrightarrow> kf_inv g h (set_off v off S)"
proof -
  assume k: "kf_inv g h S"
  have "refs g h (set_off v off S) = refs g h S"
    unfolding set_off_def by (rule refs_upd) (simp split: VFile.splits)
  then show ?thesis using k by (simp add: kf_inv_def) (simp add: set_off_def upd_vnode_nth)
qed

lemma refs_open: "g v > 0 \<Longrightarrow> v < length (kf_files S) \<Longrightarrow> vfile_ip (vfile v S) = Some a \<Longrightarrow> refs g h S a > 0"
proof -
  assume "g v > 0" "v < length (kf_files S)" "vfile_ip (vfile v S) = Some a"
  then have "v \<in> holders g S a" by (simp add: holders_def)
  then have "card (holders g S a) > 0" by (auto simp: card_gt_0_iff)
  then show ?thesis by (simp add: refs_def)
qed

section \<open>Reads and writes\<close>

lemma FNod_read_inv: "FNod_read v off ip put n m S = Inr (r, m', S') \<Longrightarrow> kf_inv g h S \<Longrightarrow> kf_inv g h S'"
proof -
  assume rd: "FNod_read v off ip put n m S = Inr (r, m', S')" and k: "kf_inv g h S"
  then obtain s1 where l: "MInode_lock ip (kf_fs S) = Inr s1" by (auto simp: FNod_read_def)
  with rd obtain r1 m1 s2 where d: "IData_read ip put off n m s1 = Inr (r1, m1, s2)" by (auto simp: FNod_read_def)
  have S': "S' = S\<lparr>kf_fs := s2\<rparr> \<or> (\<exists>off1. S' = set_off v off1 (S\<lparr>kf_fs := s2\<rparr>))"
    using rd l d by (cases r1) (auto simp: FNod_read_def)
  note s = l d
  have "fs_inv (refs g h S) s2" using IData_read_invD[OF s(2) MInode_lock_invD[OF s(1) kf_invD(3)[OF k]]] .
  then show ?thesis using S' kf_inv_fs[OF k] kf_inv_set_off by blast
qed

lemma fnod_write_chunk_inv:
  assumes w: "fnod_write_chunk ip get off n1 s = Some (Inr (w, off1, s'))" and f: "fs_inv hh s" and ip: "hh ip > 0"
  shows "fs_inv hh s'"
proof -
  from w obtain s1 s2 r s3 where s: "LOG_begin_op s = Some (Inr s1)" "MInode_lock ip s1 = Inr s2"
    "IData_write ip get off n1 s2 = Inr (r, s3)" "LOG_end_op s3 = Inr s'"
    unfolding fnod_write_chunk_def wbind_Some by (auto simp: case_prod_beta)
  from IData_write_invD[OF s(3) MInode_lock_invD[OF s(2) LOG_begin_op_inv[OF s(1) f]] ip] show ?thesis
    using rokD[OF LOG_end_op_inv s(4)] by blast
qed

lemma fnod_write_loop_inv:
  "fnod_write_loop ip get i n off s = Some (Inr (i', off', s')) \<Longrightarrow> fs_inv hh s \<Longrightarrow> hh ip > 0 \<Longrightarrow> fs_inv hh s'"
proof (induction ip get i n off s rule: fnod_write_loop.induct)
  case (1 ip get i n off s)
  show ?case
  proof (cases "i < n")
    case False
    then show ?thesis using 1 by (simp add: fnod_write_loop.simps[of ip get i])
  next
    case True
    define n1 where "n1 = min (n - i) FNOD_MAX"
    obtain r off1 s1 where c: "fnod_write_chunk ip get off n1 s = Some (Inr (r, off1, s1))"
      using "1.prems"(1) True by (auto simp: fnod_write_loop.simps[of ip get i] n1_def Let_def split: option.splits sum.splits)
    have f1: "fs_inv hh s1" by (rule fnod_write_chunk_inv[OF c "1.prems"(2,3)])
    show ?thesis
    proof (cases "r = n1")
      case False
      then show ?thesis using "1.prems"(1) True c f1 by (simp add: fnod_write_loop.simps[of ip get i] n1_def)
    next
      case eq: True
      then have "fnod_write_loop ip get (i + r) n off1 s1 = Some (Inr (i', off', s'))"
        using "1.prems"(1) True c by (simp add: fnod_write_loop.simps[of ip get i] n1_def)
      from "1.IH"[OF True n1_def c refl refl refl _ this f1 "1.prems"(3)] eq show ?thesis by simp
    qed
  qed
qed

lemma FNod_write_inv:
  "FNod_write v off ip get n S = Some (Inr (r, S')) \<Longrightarrow> kf_inv g h S \<Longrightarrow> refs g h S ip > 0 \<Longrightarrow> kf_inv g h S'"
proof -
  assume w: "FNod_write v off ip get n S = Some (Inr (r, S'))" and k: "kf_inv g h S" and ip: "refs g h S ip > 0"
  then obtain i off1 s1 where s: "fnod_write_loop ip get 0 n off (kf_fs S) = Some (Inr (i, off1, s1))" "S' = set_off v off1 (S\<lparr>kf_fs := s1\<rparr>)"
    unfolding FNod_write_def wbind_Some by auto
  from kf_inv_fs[OF k fnod_write_loop_inv[OF s(1) kf_invD(3)[OF k] ip]] show ?thesis
    unfolding s(2) by (rule kf_inv_set_off)
qed

lemma kf_inv_chans: "kf_inv g h S \<Longrightarrow> kf_inv g h (S\<lparr>kf_chans := c\<rparr>)"
  by (simp add: kf_inv_def)

lemma VFile_read_inv: "VFile_read dev put v n m S = Inr (r, m', S') \<Longrightarrow> kf_inv g h S \<Longrightarrow> kf_inv g h S'"
  by (auto simp: VFile_read_def kf_inv_chans split: VFile.splits option.splits dest: FNod_read_inv)

lemma VFile_write_inv:
  "VFile_write dev get v n S = Some (Inr (r, S')) \<Longrightarrow> kf_inv g h S \<Longrightarrow> g v > 0 \<Longrightarrow> kf_inv g h S'"
proof -
  assume w: "VFile_write dev get v n S = Some (Inr (r, S'))" and k: "kf_inv g h S" and v: "g v > 0"
  show ?thesis
  proof (cases "vfile v S")
    case (VInode off ip)
    then have "refs g h S ip > 0" using refs_open[of g v S ip h] kf_invD(1)[OF k v] v by simp
    then show ?thesis using w VInode FNod_write_inv[OF _ k] by (auto simp: VFile_write_def wbind_Some)
  qed (use w k in \<open>auto simp: VFile_write_def kf_inv_chans split: option.splits\<close>)
qed

lemma VFile_stat_inv: "VFile_stat put v m S = Inr (r, m', S') \<Longrightarrow> kf_inv g h S \<Longrightarrow> kf_inv g h S'"
  using MInode_lock_invD[OF _ kf_invD(3)]
  by (auto simp: VFile_stat_def Let_def case_prod_beta split: VFile.splits intro: kf_inv_fs)

section \<open>Open, duplicate and close\<close>

lemma alloc_node_inv:
  assumes f: "fs_inv hh s" and c: "cwd_ok hh cwd"
  shows "rok (\<lambda>(r, s'). fs_inv (gain (Option.bind r vfile_ip) hh) s') (alloc_node cwd opts path devsw s)"
proof -
  have op: "rok (\<lambda>(r, s1). fs_inv (gain r hh) s1) (if om_create opts then create cwd path TFile 0 0 s
            else rbind (namei cwd path s) (\<lambda>(r, s1). Inr (map_option snd r, s1)))"
    using create_inv[OF f c] namei_invD[OF _ f c] by (auto intro!: rok_skip)
  have none: "rok (\<lambda>(r, s'). fs_inv (gain (Option.bind r vfile_ip) hh) s') (put1 ip None s2)" if "fs_inv (inc ip hh) s2" for ip s2
    by (rule rok_mono[OF put1_inv[OF that]]) auto
  have trunc: "rok (fs_inv (inc ip hh)) (if b then IData_trunc ip s2 else Inr s2)" if "fs_inv (inc ip hh) s2" for ip s2 b
    using that fs_invD(1)[OF that] fs_invD(2)[OF that, of ip] fs_inv_keeps[OF that]
    by (auto intro!: rok_mono[OF keeps_IData_trunc])
  show ?thesis
    unfolding alloc_node_def
  proof (rule rok_bind[OF op], intro rok_prod rok_option rok_skip, goal_cases)
    case (2 x r s1 ip s2)
    then have f2: "fs_inv (inc ip hh) s2" using MInode_lock_invD[of ip s1 s2] by simp
    show ?case unfolding Let_def
      by (intro rok_if none rok_skip rok_bind[OF trunc] f2) (use f2 in simp_all)
  qed simp
qed

lemma holders_cong: "(\<And>v. g' v > 0 \<longleftrightarrow> g v > 0) \<Longrightarrow> holders g' S a = holders g S a"
  by (simp add: holders_def)

lemma kf_inv_new:
  assumes k: "kf_inv g h S" and j: "free_slot (kf_table S) = Some j" and f: "fs_inv (gain (vfile_ip vf) (refs g h S)) s"
    and v: "v = length (kf_files S)"
  shows "g v = 0 \<and> kf_inv (g(v := 1)) h (S\<lparr>kf_fs := s, kf_table := (kf_table S)[j := Some v], kf_files := kf_files S @ [\<lparr>vn_file = vf, vn_refs = 2\<rparr>]\<rparr>)"
proof -
  have g0: "g v = 0" using kf_invD(1)[OF k, of v] v by auto
  let ?S = "S\<lparr>kf_fs := s, kf_table := (kf_table S)[j := Some v], kf_files := kf_files S @ [\<lparr>vn_file = vf, vn_refs = 2\<rparr>]\<rparr>"
  have "holders (g(v := 1)) ?S a = holders g S a \<union> (if vfile_ip vf = Some a then {v} else {})" for a
    using v g0 by (auto simp: holders_def nth_append)
  moreover have "v \<notin> holders g S a" for a using v by (simp add: holders_def)
  ultimately have "refs (g(v := 1)) h ?S = gain (vfile_ip vf) (refs g h S)"
    by (cases "vfile_ip vf") (auto simp: refs_def fun_eq_iff)
  moreover have "slots_ok ((kf_table S)[j := Some v]) (g(v := 1))"
    by (rule slots_ok_insert[OF kf_invD(4)[OF k] j g0]) simp
  ultimately show ?thesis
    using k f g0 v by (auto simp: kf_inv_def nth_append less_SucI)
qed

lemma FTable_alloc_inv:
  assumes k: "kf_inv g h S" and c: "cwd_ok h cwd" and al: "FTable_alloc cwd opts ft S = Inr (r, S')"
  shows "case r of None \<Rightarrow> kf_inv g h S' | Some f \<Rightarrow> (\<exists>v. f_f f = Some v \<and> kf_inv (inc v g) h S')"
proof -
  have c': "cwd_ok (refs g h S) cwd" using c by (auto simp: cwd_ok_def refs_def)
  obtain vo s1 where a: "(case ft of FNode path \<Rightarrow> alloc_node cwd opts path (kf_devsw S) (kf_fs S) | FPipe p \<Rightarrow> Inr (Some (VPipe p), kf_fs S)) = Inr (vo, s1)"
    using al by (auto simp: FTable_alloc_def)
  have f: "fs_inv (gain (Option.bind vo vfile_ip) (refs g h S)) s1"
    using a rokD[OF alloc_node_inv[OF kf_invD(3)[OF k] c']] kf_invD(3)[OF k] by (cases ft) fastforce+
  show ?thesis
  proof (cases vo)
    case None
    then show ?thesis using al a f kf_inv_fs[OF k] by (auto simp: FTable_alloc_def)
  next
    case (Some vf)
    show ?thesis
    proof (cases "free_slot (kf_table S)")
      case None
      show ?thesis
      proof (cases "vfile_ip vf")
        case None
        then show ?thesis using al a f kf_inv_fs[OF k] \<open>vo = Some vf\<close> \<open>free_slot (kf_table S) = None\<close> by (auto simp: FTable_alloc_def)
      next
        case (Some ip)
        then obtain s2 where s2: "ITable_put ip s1 = Inr s2" "r = None" "S' = S\<lparr>kf_fs := s2\<rparr>"
          using al a \<open>vo = Some vf\<close> \<open>free_slot (kf_table S) = None\<close> by (auto simp: FTable_alloc_def)
        have "fs_inv (inc ip (refs g h S)) s1" using f Some \<open>vo = Some vf\<close> by simp
        from kf_inv_fs[OF k rokD[OF put_inv[OF this] s2(1)]] show ?thesis by (simp only: s2(2,3) option.case)
      qed
    next
      case (Some j)
      then show ?thesis
        using al a \<open>vo = Some vf\<close> kf_inv_new[OF k Some _ refl, of vf s1] f by (auto simp: FTable_alloc_def Let_def)
    qed
  qed
qed

lemma File_clone_inv:
  assumes k: "kf_inv g h S" and v: "g v > 0" "f_f f = Some v" and cl: "File_clone f S = (f', S')"
  shows "f' = f \<and> kf_inv (inc v g) h S'"
proof -
  have S': "S' = upd_vnode v (\<lambda>n. n\<lparr>vn_refs := vn_refs n + 1\<rparr>) S" "f' = f" using cl v(2) by (auto simp: File_clone_def)
  have p: "inc v g w > 0 \<longleftrightarrow> g w > 0" for w using v by simp
  have "refs (inc v g) h S' = refs g h S"
    unfolding S' refs_def holders_cong[of "inc v g" g, OF p] by (simp add: holders_upd)
  moreover have "slots_ok (kf_table S') (inc v g)" by (rule slots_ok_cong[of _ g]) (use kf_invD(4)[OF k] p S' in simp_all)
  ultimately show ?thesis using k v by (auto simp: kf_inv_def S' upd_vnode_nth)
qed

lemma filter_eq_count: "distinct xs \<Longrightarrow> length (filter (\<lambda>e. e = x) xs) = (if x \<in> set xs then 1 else 0)"
proof (induction xs)
  case (Cons y ys)
  then show ?case by (cases "x = y") (auto simp: filter_empty_conv)
qed simp

lemma slots_ok_count:
  assumes "slots_ok t g" and "g v > 0"
  shows "length (filter (\<lambda>e. e = Some v) t) = 1"
proof -
  have "filter (\<lambda>e. e = Some v) t = filter (\<lambda>e. e = Some v) (filter (\<lambda>e. e \<noteq> None) t)" by (induction t) auto
  moreover have "distinct (filter (\<lambda>e. e \<noteq> None) t)" "Some v \<in> set t" using assms by (simp_all add: slots_ok_def)
  ultimately show ?thesis using filter_eq_count[of "filter (\<lambda>e. e \<noteq> None) t" "Some v"] by simp
qed

text \<open>The last reference: the file leaves the table, and its inode is put.\<close>

lemma kf_inv_drop_last:
  assumes k: "kf_inv g h S" and v: "g v = 1"
    and f: "fs_inv (refs g h S) s0 \<Longrightarrow> fs_inv (case vfile_ip (vfile v S) of None \<Rightarrow> refs g h S | Some ip \<Rightarrow> dec ip (refs g h S)) s"
    and s0: "fs_inv (refs g h S) s0"
  shows "kf_inv (dec v g) h ((upd_vnode v (\<lambda>x. x\<lparr>vn_refs := vn_refs x - 1\<rparr>) (ftable_remove v S))\<lparr>kf_fs := s\<rparr>)"
proof -
  let ?S = "(upd_vnode v (\<lambda>x. x\<lparr>vn_refs := vn_refs x - 1\<rparr>) (ftable_remove v S))\<lparr>kf_fs := s\<rparr>"
  have lv: "v < length (kf_files S)" using kf_invD(1)[OF k] v by simp
  have len: "length (kf_files ?S) = length (kf_files S)" by (simp add: ftable_remove_def Let_def)
  have other: "kf_files ?S ! w = kf_files S ! w" if "w \<noteq> v" for w
    using that by (simp add: ftable_remove_def Let_def upd_vnode_nth)
  have ho: "holders (dec v g) ?S a = holders g S a - {v}" for a
    using v other len by (auto simp: holders_def)
  have mem: "v \<in> holders g S a \<longleftrightarrow> vfile_ip (vfile v S) = Some a" for a using lv v by (simp add: holders_def)
  have "refs (dec v g) h ?S = (case vfile_ip (vfile v S) of None \<Rightarrow> refs g h S | Some ip \<Rightarrow> dec ip (refs g h S))"
  proof
    fix a
    have pos: "card (holders g S a) > 0" if "v \<in> holders g S a" using that by (auto simp: card_gt_0_iff)
    show "refs (dec v g) h ?S a = (case vfile_ip (vfile v S) of None \<Rightarrow> refs g h S | Some ip \<Rightarrow> dec ip (refs g h S)) a"
      unfolding refs_def[of "dec v g"] ho
      using pos mem[of a] by (cases "vfile_ip (vfile v S)") (auto simp: refs_def card_Diff_singleton_if)
  qed
  then have "fs_inv (refs (dec v g) h ?S) (kf_fs ?S)" using f[OF s0] by simp
  moreover have "slots_ok (kf_table ?S) (dec v g)"
    using slots_ok_remove[OF kf_invD(4)[OF k], of v] v by (simp add: ftable_remove_def Let_def)
  moreover have "length (kf_table ?S) = NFILE" using kf_invD(5)[OF k] by (simp add: ftable_remove_def Let_def)
  moreover have "w < length (kf_files ?S) \<and> vn_refs (kf_files ?S ! w) = dec v g w + 1" if "dec v g w > 0" for w
  proof -
    have "w \<noteq> v" "g w > 0" using that v by (auto split: if_splits)
    then show ?thesis using other[of w] len kf_invD(1,2)[OF k, of w] by simp
  qed
  ultimately show ?thesis unfolding kf_inv_def by blast
qed

lemma File_drop_inv:
  assumes k: "kf_inv g h S" and v: "g v > 0" "f_f f = Some v" and d: "File_drop f S = Some (Inr S')"
  shows "kf_inv (dec v g) h S'"
proof (cases "g v = 1")
  case True
  then have r: "vn_refs (kf_files S ! v) = 2" using kf_invD(2)[OF k v(1)] by simp
  have lv: "v < length (kf_files S)" using kf_invD(1)[OF k v(1)] .
  define S1 where "S1 = upd_vnode v (\<lambda>x. x\<lparr>vn_refs := vn_refs x - 1\<rparr>) (ftable_remove v S)"
  have r1: "vn_refs (kf_files (ftable_remove v S) ! v) = 1" "vfile v (ftable_remove v S) = vfile v S"
    using r lv slots_ok_count[OF kf_invD(4)[OF k] v(1)] by (simp_all add: ftable_remove_def Let_def upd_vnode_nth)
  have un: "file_unwrap v (ftable_remove v S) = Some (Inr S')" using d v(2) r by (simp add: File_drop_def drop_check_def wbind_def)
  have fs: "kf_fs S1 = kf_fs S" by (simp add: S1_def ftable_remove_def Let_def)
  show ?thesis
  proof (cases "vfile_ip (vfile v S)")
    case None
    then have "S' = S1\<lparr>kf_fs := kf_fs S\<rparr>" using un r1 fs by (simp add: file_unwrap_def S1_def)
    then show ?thesis using kf_inv_drop_last[OF k True _ kf_invD(3)[OF k], of "kf_fs S"] None by (simp add: S1_def)
  next
    case (Some ip)
    obtain s1 s2 s3 where s: "LOG_begin_op (kf_fs S) = Some (Inr s1)" "ITable_put ip s1 = Inr s2" "LOG_end_op s2 = Inr s3" "S' = S1\<lparr>kf_fs := s3\<rparr>"
      using un r1 Some fs unfolding file_unwrap_def Let_def S1_def[symmetric] by (auto simp: wbind_Some)
    have ip: "refs g h S ip > 0" using refs_open[of g v S ip h] v(1) lv Some by simp
    have "fs_inv (dec ip (refs g h S)) s3"
      using rokD[OF LOG_end_op_inv[OF rokD[OF ITable_put_inv[OF LOG_begin_op_inv[OF s(1) kf_invD(3)[OF k]] ip] s(2)]] s(3)] .
    then show ?thesis using kf_inv_drop_last[OF k True _ kf_invD(3)[OF k], of s3] Some s(4) by (simp add: S1_def)
  qed
next
  case False
  then have g: "g v > 1" using v(1) by simp
  have r: "vn_refs (kf_files S ! v) = g v + 1" by (rule kf_invD(2)[OF k v(1)])
  then have S': "S' = upd_vnode v (\<lambda>x. x\<lparr>vn_refs := vn_refs x - 1\<rparr>) S"
    using d v(2) g by (simp add: File_drop_def drop_check_def wbind_def file_unwrap_def Let_def)
  have p: "dec v g w > 0 \<longleftrightarrow> g w > 0" for w using g by simp
  have "refs (dec v g) h S' = refs g h S"
    unfolding S' refs_def holders_cong[of "dec v g" g, OF p] by (simp add: holders_upd)
  moreover have "slots_ok (kf_table S') (dec v g)" by (rule slots_ok_cong[of _ g]) (use kf_invD(4)[OF k] p S' in simp_all)
  ultimately show ?thesis using k g r by (auto simp: kf_inv_def S' upd_vnode_nth)
qed

end
