(* ===== verification/FileProps.thy ===== *)
theory FileProps
  imports FileInv
begin

text \<open>
  What the file table promises under all processes, and what a pipe carries.
\<close>

section \<open>The file table under all processes\<close>

text \<open>
  One call of a process, with the references to open files and to inodes that the processes have
  before and after it. A call that panics or sleeps is no step.
\<close>

inductive kf_step :: "(nat \<Rightarrow> nat) \<times> (nat \<Rightarrow> nat) \<times> kfiles \<Rightarrow> (nat \<Rightarrow> nat) \<times> (nat \<Rightarrow> nat) \<times> kfiles \<Rightarrow> bool" where
  alloc: "cwd_ok h cwd \<Longrightarrow> FTable_alloc cwd opts ft S = Inr (Some f, S') \<Longrightarrow> f_f f = Some v \<Longrightarrow> kf_step (g, h, S) (inc v g, h, S')"
| refuse: "cwd_ok h cwd \<Longrightarrow> FTable_alloc cwd opts ft S = Inr (None, S') \<Longrightarrow> kf_step (g, h, S) (g, h, S')"
| pipe: "Pipe_alloc S = Some (Inr (Some (f0, f1), S')) \<Longrightarrow> f_f f0 = Some v \<Longrightarrow> f_f f1 = Some w \<Longrightarrow>
    kf_step (g, h, S) (inc w (inc v g), h, S')"
| pipe_refuse: "Pipe_alloc S = Some (Inr (None, S')) \<Longrightarrow> kf_step (g, h, S) (g, h, S')"
| dup: "g v > 0 \<Longrightarrow> f_f f = Some v \<Longrightarrow> File_clone f S = (f', S') \<Longrightarrow> kf_step (g, h, S) (inc v g, h, S')"
| close: "g v > 0 \<Longrightarrow> f_f f = Some v \<Longrightarrow> File_drop f S = Some (Inr S') \<Longrightarrow> kf_step (g, h, S) (dec v g, h, S')"
| read: "g v > 0 \<Longrightarrow> f_f f = Some v \<Longrightarrow> File_read dev (put :: u8 list put) f n m S = Inr (r, m', S') \<Longrightarrow> kf_step (g, h, S) (g, h, S')"
| put_bytes: "g v > 0 \<Longrightarrow> f_f f = Some v \<Longrightarrow> File_write wdev get f n S = Some (Inr (r, S')) \<Longrightarrow> kf_step (g, h, S) (g, h, S')"
| stat: "g v > 0 \<Longrightarrow> VFile_stat (cp :: Stat \<Rightarrow> u8 list \<Rightarrow> u8 list \<times> bool) v m S = Inr (r, m', S') \<Longrightarrow> kf_step (g, h, S) (g, h, S')"
| chdir: "cwd_ok h cwd \<Longrightarrow> namei cwd path (kf_fs S) = Inr (r, s') \<Longrightarrow>
    kf_step (g, h, S) (g, gain (map_option snd r) h, S\<lparr>kf_fs := s'\<rparr>)"
| put: "h a > 0 \<Longrightarrow> ITable_put a (kf_fs S) = Inr s' \<Longrightarrow> kf_step (g, h, S) (g, dec a h, S\<lparr>kf_fs := s'\<rparr>)"
| link: "cwd_ok h cwd \<Longrightarrow> fs_link cwd old new (kf_fs S) = Inr (r, s') \<Longrightarrow> kf_step (g, h, S) (g, h, S\<lparr>kf_fs := s'\<rparr>)"
| unlink: "cwd_ok h cwd \<Longrightarrow> fs_unlink cwd path (kf_fs S) = Inr (r, s') \<Longrightarrow> kf_step (g, h, S) (g, h, S\<lparr>kf_fs := s'\<rparr>)"

lemma cwd_ok_refs: "cwd_ok h cwd \<Longrightarrow> cwd_ok (refs g h S) cwd"
  by (auto simp: cwd_ok_def refs_def)

lemma kf_inv_h: "kf_inv g h S \<Longrightarrow> fs_inv (\<lambda>a. h' a + card (holders g S a)) s \<Longrightarrow> kf_inv g h' (S\<lparr>kf_fs := s\<rparr>)"
proof -
  assume k: "kf_inv g h S" and f: "fs_inv (\<lambda>a. h' a + card (holders g S a)) s"
  have "refs g h' (S\<lparr>kf_fs := s\<rparr>) = (\<lambda>a. h' a + card (holders g S a))" by (simp add: refs_def fun_eq_iff holders_def)
  then show ?thesis using k f by (simp add: kf_inv_def)
qed

lemma Pipe_alloc_inv:
  assumes k: "kf_inv g h S" and p: "Pipe_alloc S = Some (Inr (r, S'))"
  shows "case r of None \<Rightarrow> kf_inv g h S' | Some (f0, f1) \<Rightarrow> \<exists>v w. f_f f0 = Some v \<and> f_f f1 = Some w \<and> kf_inv (inc w (inc v g)) h S'"
proof -
  define c where "c = length (kf_chans S)"
  define Sa where "Sa = S\<lparr>kf_chans := kf_chans S @ [sync_channel PIPESIZE]\<rparr>"
  define p0 where "p0 = \<lparr>p_rx = Some c, p_tx = None\<rparr>"
  define p1 where "p1 = \<lparr>p_rx = None, p_tx = Some c\<rparr>"
  have k1: "kf_inv g h Sa" using kf_inv_chans[OF k] by (simp add: Sa_def)
  have nc: "cwd_ok h None" by (simp add: cwd_ok_def)
  obtain r0 Sb where a0: "FTable_alloc None (Pipe_get_mode p0) (FPipe p0) Sa = Inr (r0, Sb)"
    using p unfolding Pipe_alloc_def Let_def c_def[symmetric] Sa_def[symmetric] p0_def[symmetric] p1_def[symmetric]
    by (auto simp: wbind_Some)
  show ?thesis
  proof (cases r0)
    case None
    then have "r = None \<and> S' = Sb"
      using p a0 unfolding Pipe_alloc_def Let_def c_def[symmetric] Sa_def[symmetric] p0_def[symmetric] by (auto simp: wbind_Some)
    then show ?thesis using FTable_alloc_inv[OF k1 nc a0] None by simp
  next
    case (Some f0)
    then obtain v where v: "f_f f0 = Some v" "kf_inv (inc v g) h Sb" using FTable_alloc_inv[OF k1 nc a0] by auto
    obtain r1 S3 where a1: "FTable_alloc None (Pipe_get_mode p1) (FPipe p1) Sb = Inr (r1, S3)"
      and q: "(case r1 of None \<Rightarrow> wbind (File_drop f0 S3) (\<lambda>S4. Some (Inr (None, S4))) | Some f1 \<Rightarrow> Some (Inr (Some (f0, f1), S3))) = Some (Inr (r, S'))"
      using p a0 Some unfolding Pipe_alloc_def Let_def c_def[symmetric] Sa_def[symmetric] p0_def[symmetric] p1_def[symmetric]
      by (auto simp: wbind_Some)
    note i1 = FTable_alloc_inv[OF v(2) nc a1]
    show ?thesis
    proof (cases r1)
      case None
      then have d: "File_drop f0 S3 = Some (Inr S')" "r = None" using q by (auto simp: wbind_Some)
      have "kf_inv (inc v g) h S3" using i1 None by simp
      from File_drop_inv[OF this _ v(1) d(1)] show ?thesis by (simp add: d(2))
    next
      case (Some f1)
      then have "r = Some (f0, f1)" "S' = S3" using q by auto
      then show ?thesis using i1 Some v(1) by auto
    qed
  qed
qed

lemma kf_step_inv: "kf_step x y \<Longrightarrow> (case x of (g, h, S) \<Rightarrow> kf_inv g h S) \<Longrightarrow> (case y of (g, h, S) \<Rightarrow> kf_inv g h S)"
proof (induction rule: kf_step.induct)
  case (alloc h cwd opts ft S f S' v g)
  then show ?case using FTable_alloc_inv[OF _ alloc(1,2)] by fastforce
next
  case (refuse h cwd opts ft S S' g)
  then show ?case using FTable_alloc_inv[OF _ refuse(1,2)] by fastforce
next
  case (pipe S f0 f1 S' v w g h)
  then show ?case using Pipe_alloc_inv[OF _ pipe(1)] by fastforce
next
  case (pipe_refuse S S' g h)
  then show ?case using Pipe_alloc_inv[OF _ pipe_refuse(1)] by fastforce
next
  case (dup g v f S f' S' h)
  then show ?case using File_clone_inv[where g = g, OF _ dup(1-3)] by (simp only: prod.case)
next
  case (close g v f S S' h)
  then show ?case using File_drop_inv[where g = g, OF _ close(1-3)] by (simp only: prod.case)
next
  case (read g v f dev put n m S r m' S' h)
  then show ?case using VFile_read_inv by (fastforce simp: File_read_def split: if_splits)
next
  case (put_bytes g v f wdev get n S r S' h)
  then show ?case using VFile_write_inv[of wdev get v n S r S' g h] by (auto simp: File_write_def wbind_Some split: if_splits)
next
  case (stat g v cp m S r m' S' h)
  then show ?case using VFile_stat_inv by fastforce
next
  case (chdir h cwd path S r s' g)
  have e: "gain (map_option snd r) (refs g h S) = (\<lambda>a. gain (map_option snd r) h a + card (holders g S a))"
    by (cases r) (auto simp: refs_def fun_eq_iff)
  have k: "kf_inv g h S" using chdir(3) by simp
  from kf_inv_h[OF k namei_invD[OF chdir(2) kf_invD(3)[OF k] cwd_ok_refs[OF chdir(1)], unfolded e]] show ?case by simp
next
  case (put h a S s' g)
  have e: "dec a (refs g h S) = (\<lambda>b. dec a h b + card (holders g S b))" using put(1) by (auto simp: refs_def fun_eq_iff)
  have "refs g h S a > 0" using put(1) by (simp add: refs_def)
  moreover have k: "kf_inv g h S" using put(3) by simp
  ultimately have "fs_inv (\<lambda>b. dec a h b + card (holders g S b)) s'"
    using rokD[OF ITable_put_inv[OF kf_invD(3)[OF k]] put(2)] unfolding e by blast
  from kf_inv_h[OF k this] show ?case by (simp only: prod.case)
next
  case (link h cwd old new S r s' g)
  then show ?case using rokD[OF fs_link_inv[OF kf_invD(3) cwd_ok_refs[OF link(1)]] link(2)] kf_inv_fs by auto
next
  case (unlink h cwd path S r s' g)
  then show ?case using rokD[OF fs_unlink_inv[OF kf_invD(3) cwd_ok_refs[OF unlink(1)]] unlink(2)] kf_inv_fs by auto
qed

lemma kf_reachable_inv: "kf_step\<^sup>*\<^sup>* x y \<Longrightarrow> (case x of (g, h, S) \<Rightarrow> kf_inv g h S) \<Longrightarrow> (case y of (g, h, S) \<Rightarrow> kf_inv g h S)"
  by (induction rule: rtranclp_induct) (simp_all only: kf_step_inv)

definition kf_initial :: "kfiles \<Rightarrow> bool" where
  "kf_initial S \<longleftrightarrow> kf_table S = replicate NFILE None \<and> kf_files S = [] \<and> typed (kf_fs S) \<and> fs_itable (kf_fs S) = replicate NINODE None"

lemma kf_inv_initial: "kf_initial S \<Longrightarrow> kf_inv (\<lambda>_. 0) (\<lambda>_. 0) S"
proof -
  assume i: "kf_initial S"
  have "refs (\<lambda>_. 0) (\<lambda>_. 0) S = (\<lambda>_. 0)" by (simp add: refs_def holders_def fun_eq_iff)
  then show ?thesis using i fs_inv_initial by (simp add: kf_inv_def kf_initial_def slots_ok_empty)
qed

text \<open>
  (C10) As long as calls do not overlap, that is when every call runs to its end before the next
  begins, whatever they are (open, duplicate, close, read and write of files and pipes, lookup, link
  and unlink of paths): an open file is in the file table exactly when a process has a reference to
  it, its strong count is the number of references and one for the table; and an inode
  is in the inode table exactly when an open file or a process refers to it, with a strong count
  of the processes' references, one for each open file on it, and one for the table. Calls that
  overlap break both halves: see \<^verbatim>\<open>file_drop_race\<close> and \<^verbatim>\<open>inode_put_race\<close> below. A call that panics ends
  the run, as the commit of a transaction with blocks in it does.
\<close>

theorem file_table_consistent:
  assumes "kf_initial Si" and "kf_step\<^sup>*\<^sup>* (\<lambda>_. 0, \<lambda>_. 0, Si) (g, h, S)"
    and "n = h a + card {v. v < length (kf_files S) \<and> g v > 0 \<and> vfile_ip (vn_file (kf_files S ! v)) = Some a}"
  shows "(Some v \<in> set (kf_table S) \<longleftrightarrow> g v > 0) \<and> (g v > 0 \<longrightarrow> vn_refs (kf_files S ! v) = g v + 1) \<and>
    (Some a \<in> set (fs_itable (kf_fs S)) \<longleftrightarrow> n > 0) \<and> (n > 0 \<longrightarrow> mi_refs (fs_inodes (kf_fs S) ! a) = n + 1)"
proof -
  have k: "kf_inv g h S" using kf_reachable_inv[OF assms(2)] kf_inv_initial[OF assms(1)] by simp
  have n: "refs g h S a = n" by (simp add: refs_def holders_def assms(3))
  have f: "fs_inv (refs g h S) (kf_fs S)" by (rule kf_invD(3)[OF k])
  have "slots_ok (fs_itable (kf_fs S)) (refs g h S)" using f by (simp add: fs_inv_def)
  then have "Some a \<in> set (fs_itable (kf_fs S)) \<longleftrightarrow> n > 0" using slots_ok_mem[of _ "refs g h S" a] n by simp
  moreover have "n > 0 \<longrightarrow> mi_refs (inode a (kf_fs S)) = n + 1" using fs_invD(3)[OF f, of a] n by simp
  ultimately show ?thesis using slots_ok_mem[OF kf_invD(4)[OF k], of v] kf_invD(2)[OF k, of v] by blast
qed

definition ex_files :: kfiles where
  "ex_files = \<lparr>kf_table = replicate NFILE None, kf_files = [], kf_fs = ex_fs 16, kf_chans = [], kf_devsw = replicate NDEV None\<rparr>"

definition ex_open :: kfiles where
  "ex_open = \<lparr>kf_table = (replicate NFILE None)[0 := Some 0], kf_files = [\<lparr>vn_file = VInode 0 0, vn_refs = 2\<rparr>],
     kf_fs = ex_fs1 16 2, kf_chans = [], kf_devsw = replicate NDEV None\<rparr>"

lemma ex_alloc:
  "FTable_alloc None (OMode_from_usize RDONLY) (FNode [0x2f, 0x2e, 0x2f, 0x2e]) ex_files =
     Inr (Some \<lparr>f_f = Some 0, f_readable = True, f_writable = False\<rparr>, ex_open)"
proof -
  have m: "OMode_from_usize RDONLY = \<lparr>om_read = True, om_write = False, om_truncate = False, om_create = False\<rparr>"
    by (simp add: OMode_from_usize_def OMode_new_def RDONLY_def)
  have "alloc_node None (OMode_from_usize RDONLY) [0x2f, 0x2e, 0x2f, 0x2e] d (ex_fs 16) = Inr (Some (VInode 0 0), ex_fs1 16 2)" for d
    using ex_namei ex_lock[of 16 2] by (simp add: alloc_node_def m is_rdonly_def ex_idata_def)
  moreover have "free_slot (replicate NFILE (None :: nat option)) = Some 0" by (simp add: NFILE_def numeral_eq_Suc)
  ultimately show ?thesis by (simp add: FTable_alloc_def ex_files_def ex_open_def m Let_def)
qed

theorem file_table_consistent_witness:
  "kf_initial ex_files \<and> kf_step\<^sup>*\<^sup>* (\<lambda>_. 0, \<lambda>_. 0, ex_files) (inc 0 (\<lambda>_. 0), \<lambda>_. 0, ex_open) \<and>
   Some 0 \<in> set (kf_table ex_open) \<and> mi_refs (fs_inodes (kf_fs ex_open) ! 0) = 2"
proof -
  have i: "kf_initial ex_files" using typed_ex_fs[of 16] by (simp add: kf_initial_def ex_files_def) (simp add: ex_fs_def)
  have s: "kf_step\<^sup>*\<^sup>* (\<lambda>_. 0, \<lambda>_. 0, ex_files) (inc 0 (\<lambda>_. 0), \<lambda>_. 0, ex_open)"
    by (rule r_into_rtranclp[of kf_step, OF kf_step.alloc[OF _ ex_alloc]]) (simp_all add: cwd_ok_def)
  have c: "{v. v < length (kf_files ex_open) \<and> inc 0 (\<lambda>_. 0) v > (0::nat) \<and> vfile_ip (vn_file (kf_files ex_open ! v)) = Some 0} = {0}"
    by (auto simp: ex_open_def)
  from file_table_consistent[OF i s refl, of 0 0] i s show ?thesis unfolding c by simp
qed

text \<open>
  (C32) Two processes that close the last two references to a file at the same time leak it: when
  both compare the strong count before either has given its reference back, neither takes the file
  out of the table, and it stays there with the reference of the table only.
\<close>

theorem file_drop_race:
  assumes "kf_inv g h S" and "g v = 2"
  shows "drop_check v S = Inr S \<and> (\<exists>Sa Sb. file_unwrap v S = Some (Inr Sa) \<and> file_unwrap v Sa = Some (Inr Sb) \<and>
    Some v \<in> set (kf_table Sb) \<and> vn_refs (kf_files Sb ! v) = 1)"
proof -
  have v: "v < length (kf_files S)" "vn_refs (kf_files S ! v) = 3" "Some v \<in> set (kf_table S)"
    using kf_invD(1,2)[OF assms(1), of v] slots_ok_mem[OF kf_invD(4)[OF assms(1)], of v] assms(2) by simp_all
  define Sa where "Sa = upd_vnode v (\<lambda>x. x\<lparr>vn_refs := vn_refs x - 1\<rparr>) S"
  have "file_unwrap v S = Some (Inr Sa)" using v(2) by (simp add: file_unwrap_def Sa_def)
  moreover have "vn_refs (kf_files Sa ! v) = 2" "length (kf_files Sa) = length (kf_files S)" using v by (simp_all add: Sa_def upd_vnode_nth)
  moreover from this have "file_unwrap v Sa = Some (Inr (upd_vnode v (\<lambda>x. x\<lparr>vn_refs := vn_refs x - 1\<rparr>) Sa))"
    by (simp add: file_unwrap_def)
  ultimately show ?thesis using v by (simp add: drop_check_def upd_vnode_nth) (simp add: Sa_def)
qed

definition ex_dup :: kfiles where
  "ex_dup = ex_open\<lparr>kf_files := [\<lparr>vn_file = VInode 0 0, vn_refs = 3\<rparr>]\<rparr>"

lemma ex_open_inv: "kf_inv (inc 0 (\<lambda>_. 0)) (\<lambda>_. 0) ex_open"
proof -
  have "kf_initial ex_files" using typed_ex_fs[of 16] by (simp add: kf_initial_def ex_files_def) (simp add: ex_fs_def)
  then show ?thesis
    using kf_step_inv[OF kf_step.alloc[OF _ ex_alloc, of "\<lambda>_. 0" 0 "\<lambda>_. 0"]] kf_inv_initial by (simp add: cwd_ok_def)
qed

lemma ex_dup_inv: "kf_inv (inc 0 (inc 0 (\<lambda>_. 0))) (\<lambda>_. 0) ex_dup"
proof -
  let ?f = "\<lparr>f_f = Some 0, f_readable = True, f_writable = False\<rparr>"
  note ex_open_inv
  moreover have "File_clone ?f ex_open = (?f, ex_dup)" by (simp add: File_clone_def ex_dup_def ex_open_def upd_vnode_def)
  ultimately show ?thesis using kf_step_inv[OF kf_step.dup[of "inc 0 (\<lambda>_. 0)" 0 ?f ex_open ?f ex_dup]] by simp
qed

theorem file_drop_race_witness:
  "drop_check 0 ex_dup = Inr ex_dup \<and> (\<exists>Sa Sb. file_unwrap 0 ex_dup = Some (Inr Sa) \<and> file_unwrap 0 Sa = Some (Inr Sb) \<and>
    Some 0 \<in> set (kf_table Sb) \<and> vn_refs (kf_files Sb ! 0) = 1)"
  by (rule file_drop_race[OF ex_dup_inv]) simp

text \<open>
  The window of \<^verbatim>\<open>ITable::put\<close>: between \<^verbatim>\<open>Mutex::unlock(guard)\<close> and \<^verbatim>\<open>itable.lock()\<close> another
  process can take a reference to the inode.
\<close>

lemma itable_find_key:
  assumes "fs_inv h s" and "h a > 0"
  shows "itable_find (mi_dev (inode a s)) (mi_inum (inode a s)) (fs_inodes s) (fs_itable s) = Some a"
proof -
  have m: "Some b \<in> set (fs_itable s) \<longleftrightarrow> h b > 0" for b using assms(1) slots_ok_mem by (auto simp: fs_inv_def)
  have "itable_find (mi_dev (inode a s)) (mi_inum (inode a s)) (fs_inodes s) (fs_itable s) \<noteq> None"
    using itable_find_None[of _ _ "fs_inodes s" "fs_itable s" a] m assms(2) by blast
  then obtain b where b: "itable_find (mi_dev (inode a s)) (mi_inum (inode a s)) (fs_inodes s) (fs_itable s) = Some b" by blast
  then have "h b > 0" "key b s = key a s" using itable_find_Some[OF b] m by (simp_all add: key_def)
  then show ?thesis using b assms unfolding fs_inv_def by metis
qed

text \<open>
  (C33) A last drop of an inode and a lookup of it that overlap break the inode table. The drop finds
  that its reference is the last one and releases the lock of the table; a lookup then finds the inode
  and takes a reference; the drop takes the lock again and removes the entry. Now the inode is
  referenced but not in the table, and the next lookup creates a second inode in memory
  for the same inode on disk.
\<close>

theorem inode_put_race:
  assumes "fs_inv h s" and "h a = 1" and "i_nlink (idat a s) \<noteq> 0"
    and "dev = mi_dev (inode a s)" and "inum = mi_inum (inode a s)"
  shows "ITable_put a s = Inr (drop_ref a (put_remove a s)) \<and> mi_refs (inode a s) = 2 \<and>
    (\<exists>s1 s2 b s3. ITable_get dev inum s = Inr (a, s1) \<and> s2 = drop_ref a (put_remove a s1) \<and>
      Some a \<notin> set (fs_itable s2) \<and> mi_refs (inode a s2) = 1 \<and>
      ITable_get dev inum s2 = Inr (b, s3) \<and> b \<noteq> a \<and> mi_refs (inode a s3) = 1 \<and> mi_refs (inode b s3) = 2 \<and>
      mi_dev (inode b s3) = mi_dev (inode a s3) \<and> mi_inum (inode b s3) = mi_inum (inode a s3))"
proof -
  define s1 where "s1 = add_ref a s"
  define s2 where "s2 = drop_ref a (put_remove a s1)"
  have ha: "h a > 0" and r: "mi_refs (inode a s) = 2" and la: "a < length (fs_inodes s)"
    using assms(2) fs_invD(2,3)[OF assms(1), of a] by simp_all
  have so: "slots_ok (fs_itable s) h" using assms(1) by (simp add: fs_inv_def)
  have g1: "ITable_get dev inum s = Inr (a, s1)" using itable_find_key[OF assms(1) ha] assms(4,5) by (simp add: ITable_get_def s1_def)
  have tab: "fs_itable s2 = map (\<lambda>e. if e = Some a then None else e) (fs_itable s)"
    by (simp add: s2_def s1_def drop_ref_def put_remove_def add_ref_def Let_def)
  have len: "length (fs_inodes s2) = length (fs_inodes s)" by (simp add: s2_def s1_def drop_ref_def put_remove_def add_ref_def Let_def)
  have dk: "mi_dev (inode b s2) = mi_dev (inode b s)" "mi_inum (inode b s2) = mi_inum (inode b s)" for b
    by (simp_all add: s2_def s1_def drop_ref_def put_remove_def add_ref_def Let_def upd_inode_nth)
  have ra: "mi_refs (inode a s2) = 1"
    using la r slots_ok_count[OF so ha] by (simp add: s2_def s1_def drop_ref_def put_remove_def add_ref_def Let_def upd_inode_nth)
  have "itable_find dev inum (fs_inodes s2) (fs_itable s2) = None"
  proof (rule ccontr)
    assume "itable_find dev inum (fs_inodes s2) (fs_itable s2) \<noteq> None"
    then obtain b where b: "itable_find dev inum (fs_inodes s2) (fs_itable s2) = Some b" by blast
    have "Some b \<in> set (fs_itable s)" "b \<noteq> a" "key b s = key a s"
      using itable_find_Some[OF b] dk assms(4,5) by (auto simp: tab key_def split: if_splits)
    then show False using assms(1) ha slots_ok_mem[OF so] unfolding fs_inv_def by metis
  qed
  moreover obtain j where "free_slot (fs_itable s2) = Some j"
  proof -
    have "None \<in> set (fs_itable s2)" using slots_ok_mem[OF so, of a] ha by (force simp: tab)
    moreover have "None \<in> set es \<Longrightarrow> free_slot es \<noteq> None" for es :: "nat option list" by (induction es rule: free_slot.induct) auto
    ultimately show thesis using that by blast
  qed
  ultimately have g2: "ITable_get dev inum s2 = Inr (length (fs_inodes s2), add_ref (length (fs_inodes s2))
      (s2\<lparr>fs_inodes := fs_inodes s2 @ [MInode_new dev inum], fs_itable := (fs_itable s2)[j := Some (length (fs_inodes s2))]\<rparr>))"
    by (simp add: ITable_get_def Let_def)
  define s3 where "s3 = add_ref (length (fs_inodes s2))
      (s2\<lparr>fs_inodes := fs_inodes s2 @ [MInode_new dev inum], fs_itable := (fs_itable s2)[j := Some (length (fs_inodes s2))]\<rparr>)"
  have "inode a s3 = inode a s2" using la len by (simp add: s3_def add_ref_def upd_inode_nth nth_append)
  moreover have "inode (length (fs_inodes s2)) s3 = (MInode_new dev inum)\<lparr>mi_refs := 2\<rparr>"
    by (simp add: s3_def add_ref_def upd_inode_nth MInode_new_def)
  moreover have "Some a \<notin> set (fs_itable s2)" by (auto simp: tab split: if_splits)
  moreover have "ITable_put a s = Inr (drop_ref a (put_remove a s))" using assms(3) r by (simp add: ITable_put_def put_free_def)
  ultimately show ?thesis using g1 g2 ra r la len assms(4,5) dk[of a]
    by (intro conjI exI[of _ s1] exI[of _ s2] exI[of _ "length (fs_inodes s2)"] exI[of _ s3]) (simp_all add: s2_def s3_def MInode_new_def)
qed

theorem inode_put_race_witness:
  "\<exists>s1 b s3. ITable_get 1 1 (kf_fs ex_open) = Inr (0, s1) \<and> ITable_get 1 1 (drop_ref 0 (put_remove 0 s1)) = Inr (b, s3) \<and> b \<noteq> 0"
proof -
  note f = kf_invD(3)[OF ex_open_inv]
  have h: "refs (inc 0 (\<lambda>_. 0)) (\<lambda>_. 0) ex_open 0 = 1"
    by (simp add: refs_def holders_def ex_open_def cong: conj_cong)
  have "i_nlink (idat 0 (kf_fs ex_open)) \<noteq> 0" "mi_dev (inode 0 (kf_fs ex_open)) = 1" "mi_inum (inode 0 (kf_fs ex_open)) = 1"
    by (simp_all add: ex_open_def ex_idata_def)
  from inode_put_race[OF f h this(1) this(2,3)[symmetric]] show ?thesis by blast
qed

section \<open>Pipes\<close>

lemma pipe_send_all:
  "cnt + k \<le> lim \<Longrightarrow> lim < 2 ^ 64 \<Longrightarrow>
   pipe_send (Some c) i k \<lparr>ch_cnt = cnt, ch_max = lim, ch_buf = bs\<rparr> =
     Inr (Returned (i + k), \<lparr>ch_cnt = cnt + k, ch_max = lim, ch_buf = bs @ replicate k c\<rparr>)"
proof (induction k arbitrary: i cnt bs)
  case (Suc k)
  then have "Semaphore_wait lim cnt = Inr (Some (cnt + 1))" by (simp add: Semaphore_wait_def uadd_def)
  then show ?case using Suc.IH[of "cnt + 1" "Suc i" "bs @ [c]"] Suc.prems by (simp add: send_push_def replicate_append_same)
qed simp

lemma pipe_recv_all:
  "m \<noteq> [] \<Longrightarrow> pipe_recv kput i k \<lparr>ch_cnt = k, ch_max = lim, ch_buf = replicate k c\<rparr> m =
     Inr (Returned (i + k), \<lparr>ch_cnt = 0, ch_max = lim, ch_buf = []\<rparr>, if k = 0 then m else m[0 := c])"
proof (induction k arbitrary: i m)
  case (Suc k)
  have "overwrite m 0 [c] = m[0 := c]" using Suc.prems by (cases m) (simp_all add: overwrite_def)
  then show ?case
    using Suc.IH[of "m[0 := c]" "Suc i"] Suc.prems by (simp add: recv_pop_def Semaphore_post_def kput_def rassert_def)
qed simp

text \<open>
  (C31) A pipe carries one byte however long the transfer is: neither \<^verbatim>\<open>write\<close> nor \<^verbatim>\<open>read\<close> advances the
  address of the user. A write of \<open>n\<close> bytes whose first is \<open>c\<close>, and a read of \<open>n\<close> bytes, both return
  \<open>n\<close>, leave the pipe empty, and change only the first byte of the destination, to \<open>c\<close>.
\<close>

theorem pipe_carries_one_byte:
  assumes "0 < n" and "n \<le> PIPESIZE" and "m \<noteq> []"
  shows "\<exists>ch. pipe_send (Some c) 0 n (sync_channel PIPESIZE) = Inr (Returned n, ch) \<and>
    pipe_recv kput 0 n ch m = Inr (Returned n, sync_channel PIPESIZE, m[0 := c])"
  using pipe_send_all[of 0 n PIPESIZE c 0 "[]"] pipe_recv_all[of m 0 n PIPESIZE c] assms
  by (simp add: sync_channel_def PIPESIZE_def)

theorem pipe_carries_one_byte_witness:
  "\<exists>ch. pipe_send (Some 7) 0 3 (sync_channel PIPESIZE) = Inr (Returned 3, ch) \<and>
    pipe_recv kput 0 3 ch [0, 0, 0] = Inr (Returned 3, sync_channel PIPESIZE, [7, 0, 0])"
  using pipe_carries_one_byte[of 3 "[0, 0, 0]" 7] by (simp add: PIPESIZE_def)

end
