(* ===== verification/VmUser.thy ===== *)
theory VmUser
  imports VmProps Outcome
begin

text \<open>
  \<^verbatim>\<open>src/kernel/vm.rs\<close> and \<^verbatim>\<open>proc.rs\<close>: the creation, the copy and the release of a user space. A
  \<^verbatim>\<open>Uvm\<close> is a structure with one pointer, to its page table; \<open>ualloc\<close> and \<open>ufree\<close> allocate and free
  the eight bytes of a box of it. \<open>freewalk\<close> has the depth of the recursion as its fuel and is
  \<^term>\<open>None\<close> when it is not enough. Following a null or unaligned pointer is undefined.
\<close>

section \<open>Boxes of user spaces\<close>

text \<open>\<^verbatim>\<open>Box::<Uvm>::try_new_zeroed\<close>, and the value of eight bytes that are zero.\<close>

definition poke :: "nat \<Rightarrow> u8 list \<Rightarrow> 's vmst \<Rightarrow> 's vmst" where
  "poke a bs st = (let b = rounddown a in st\<lparr>vm_pg := (vm_pg st)(b := overwrite (vm_pg st b) (a - b) bs)\<rparr>)"

definition Uvm_box :: "'s palloc \<Rightarrow> 's vmst \<Rightarrow> (nat option \<times> 's vmst) rust" where
  "Uvm_box ualloc st =
     rbind (ualloc (vm_alloc st)) (\<lambda>(r, s).
     Inr (r, case r of None \<Rightarrow> st\<lparr>vm_alloc := s\<rparr> | Some a \<Rightarrow> poke a (replicate 8 0) (st\<lparr>vm_alloc := s\<rparr>)))"

text \<open>A user space in its box: the address of the box and the pointer in it.\<close>

definition Uvm_create :: "'s palloc \<Rightarrow> 's vmst \<Rightarrow> ((nat \<times> nat) option \<times> 's vmst) rust" where
  "Uvm_create ualloc st =
     rbind (Uvm_box ualloc st) (\<lambda>(r, st1). Inr (case r of None \<Rightarrow> None | Some mem \<Rightarrow> Some (mem, 0), st1))"

definition table_ptr :: "nat \<Rightarrow> unit rust" where
  "table_ptr ptr = (if ptr = 0 \<or> \<not> is_aligned ptr then Inl Undefined else Inr ())"

section \<open>Release\<close>

text \<open>
  The page of an inner entry is taken for a \<^verbatim>\<open>PageTable\<close>, the structure with the pointer: its first
  eight bytes, the first entry of the table, are followed. \<^verbatim>\<open>drop(self)\<close> drops a reference.
\<close>

function freewalk :: "nat \<Rightarrow> nat \<Rightarrow> 's vmst \<Rightarrow> 's vmst rust option"
  and freewalk_from :: "nat \<Rightarrow> nat \<Rightarrow> nat \<Rightarrow> nat \<Rightarrow> 's vmst \<Rightarrow> 's vmst rust option" where
  "freewalk 0 ptr st = None"
| "freewalk (Suc d) ptr st = wbind (Some (table_ptr ptr)) (\<lambda>_. freewalk_from d ptr 0 (length (vm_pt st ptr)) st)"
| "freewalk_from d ptr i 0 st = Some (Inr st)"
| "freewalk_from d ptr i (Suc n) st =
     (let pte = read_pte st (ptr, i)
      in if is_v pte \<and> \<not> is_leaf pte then
           wbind (freewalk d (unat (read_pte st (to_pa pte, 0))) st) (\<lambda>st1.
           freewalk_from d ptr (Suc i) n (write_pte st1 (ptr, i) 0))
         else if is_v pte then Some (Inl (Panic ''freewalk: leaf''))
         else freewalk_from d ptr (Suc i) n st)"
  by pat_completeness auto

termination
  by (relation "measures [\<lambda>x. case x of Inl (d, ptr, st) \<Rightarrow> 2 * d | Inr (d, ptr, i, n, st) \<Rightarrow> 2 * d + 1,
       \<lambda>x. case x of Inl (d, ptr, st) \<Rightarrow> 0 | Inr (d, ptr, i, n, st) \<Rightarrow> n]") auto

declare freewalk.simps [simp del] freewalk_from.simps [simp del]

definition Uvm_free :: "nat \<Rightarrow> 's palloc \<Rightarrow> 's pfree \<Rightarrow> nat \<Rightarrow> nat \<Rightarrow> 's vmst \<Rightarrow> 's vmst rust option" where
  "Uvm_free d palloc pfree root sz st =
     wbind (Some (if sz > 0 then
                    rbind (pgroundup sz) (\<lambda>z.
                    rbind (table_ptr root) (\<lambda>_. Uvm_unmap palloc pfree root 0 (z div PGSIZE) True st))
                  else Inr st)) (\<lambda>st1.
     freewalk d root st1)"

definition proc_uvmfree :: "nat \<Rightarrow> 's palloc \<Rightarrow> 's pfree \<Rightarrow> nat \<Rightarrow> nat \<Rightarrow> 's vmst \<Rightarrow> 's vmst rust option" where
  "proc_uvmfree d palloc pfree root sz st =
     wbind (Some (rbind (table_ptr root) (\<lambda>_.
                  rbind (Uvm_unmap palloc pfree root TRAMPOLINE 1 False st) (\<lambda>st1.
                  Uvm_unmap palloc pfree root TRAPFLAME 1 False st1)))) (\<lambda>st2.
     Uvm_free d palloc pfree root sz st2)"

section \<open>Creation\<close>

text \<open>\<open>code\<close> is the address of the trampoline, \<open>tf\<close> that of the trap frame.\<close>

definition proc_uvmcreate ::
  "nat \<Rightarrow> 's palloc \<Rightarrow> 's pfree \<Rightarrow> 's palloc \<Rightarrow> 's pfree \<Rightarrow> nat \<Rightarrow> nat option \<Rightarrow> 's vmst \<Rightarrow>
   ((nat \<times> nat) option \<times> 's vmst) rust option" where
  "proc_uvmcreate d ualloc ufree palloc pfree code tf st =
     wbind (Some (Uvm_create ualloc st)) (\<lambda>(r, st1).
     case r of
       None \<Rightarrow> Some (Inr (None, st1))
     | Some (mem, root) \<Rightarrow>
         let fail = (\<lambda>st. wbind (Uvm_free d palloc pfree root 0 st) (\<lambda>st'.
               Some (rbind (Page_drop ufree mem st') (\<lambda>st''. Inr (None, st'')))))
         in wbind (Some (rbind (table_ptr root) (\<lambda>_.
                         mappages palloc root TRAMPOLINE code PGSIZE (PTE_R OR PTE_X) st1))) (\<lambda>(ok, st2).
            if \<not> ok then fail st2
            else
              wbind (Some (rbind (unwrap tf) (\<lambda>pa.
                           mappages palloc root TRAPFLAME pa PGSIZE (PTE_R OR PTE_W) st2))) (\<lambda>(ok, st3).
              if \<not> ok then wbind (Some (Uvm_unmap palloc pfree root TRAMPOLINE 1 False st3)) fail
              else Some (Inr (Some (mem, root), st3)))))"

section \<open>Copy\<close>

text \<open>The box of a page is a box of a \<^verbatim>\<open>Uvm\<close>, so that eight bytes of each page are copied.\<close>

function uvm_copy_loop ::
  "'s palloc \<Rightarrow> 's pfree \<Rightarrow> 's palloc \<Rightarrow> 's pfree \<Rightarrow> nat \<Rightarrow> nat \<Rightarrow> nat \<Rightarrow> nat \<Rightarrow> 's vmst \<Rightarrow> (bool \<times> 's vmst) rust" where
  "uvm_copy_loop ualloc ufree palloc pfree root new va sz st =
     (if va < sz then
        rbind (walk palloc root va False st) (\<lambda>(r, st1).
        case r of
          None \<Rightarrow> Inl (Panic ''uvmcopy: pte should exist'')
        | Some loc \<Rightarrow>
            let pte = read_pte st1 loc; pa = to_pa pte; flags = pte_flags pte;
                undo = (\<lambda>st. rbind (table_ptr new) (\<lambda>_.
                  rbind (Uvm_unmap palloc pfree new 0 (va div PGSIZE) True st) (\<lambda>st'. Inr (False, st'))))
            in if \<not> is_v pte then Inl (Panic ''uvmcopy: page not present'')
               else rbind (Uvm_box ualloc st1) (\<lambda>(m, st2).
               case m of
                 None \<Rightarrow> undo st2
               | Some mem \<Rightarrow>
                   rbind (table_ptr new) (\<lambda>_.
                   rbind (mappages palloc new va mem PGSIZE flags (poke mem (take 8 (vm_pg st2 pa)) st2)) (\<lambda>(ok, st3).
                   if \<not> ok then rbind (Page_drop ufree mem st3) undo
                   else rbind (uadd va PGSIZE) (\<lambda>va1.
                        uvm_copy_loop ualloc ufree palloc pfree root new va1 sz st3)))))
      else Inr (True, st))"
  by pat_completeness auto

termination
  by (relation "measure (\<lambda>(ualloc, ufree, palloc, pfree, root, new, va, sz, st). sz - va)")
    (auto simp: uadd_Inr_iff PGSIZE_def)

declare uvm_copy_loop.simps [simp del]

definition Uvm_copy ::
  "'s palloc \<Rightarrow> 's pfree \<Rightarrow> 's palloc \<Rightarrow> 's pfree \<Rightarrow> nat \<Rightarrow> nat \<Rightarrow> nat \<Rightarrow> 's vmst \<Rightarrow> (bool \<times> 's vmst) rust" where
  "Uvm_copy ualloc ufree palloc pfree root new sz st =
     (if 0 < sz then rbind (table_ptr root) (\<lambda>_. uvm_copy_loop ualloc ufree palloc pfree root new 0 sz st)
      else Inr (True, st))"

section \<open>Properties\<close>

text \<open>The layout of a \<^verbatim>\<open>Uvm\<close>, one pointer, and its boxes from the allocator of the kernel.\<close>

definition uvm_layout :: layout where
  "uvm_layout = \<lparr>ly_size = 8, ly_align = 8\<rparr>"

definition uvm_new :: "kmem \<Rightarrow> (nat option \<times> kmem) rust" where
  "uvm_new s =
     rbind (Kmem_alloc (fst s) (snd s) uvm_layout) (\<lambda>(p, b, h). Inr (if p = 0 then None else Some p, (b, h)))"

lemma uvm_new_panics:
  assumes "kmem_inv s"
  shows "uvm_new s = Inl OutOfBounds"
proof -
  from assms obtain r where b: "buddy_inv r (fst s) (snd s)" and z: "bd_base (fst s) + blk_size (bd_nsize (fst s) - 1) \<le> 2 ^ 64"
    by (auto simp: kmem_inv_def)
  have "16 * (2::nat) ^ (bd_nsize (fst s) - 1) \<le> 2 ^ 64" using z by (simp add: blk_size_def LEAF_SIZE_def)
  then have "(2::nat) ^ (bd_nsize (fst s) - 1 + 4) \<le> 2 ^ 64" by (simp add: power_add)
  then have "bd_nsize (fst s) - 1 + 4 \<le> 64" by (rule power_le_imp_le_exp[rotated]) simp
  then have "bd_nsize (fst s) < 64" by linarith
  moreover have "bd_sizes (fst s) \<noteq> None" using b by (auto simp: buddy_inv_def)
  ultimately show ?thesis
    using firstk_small[of 8] by (auto simp: uvm_new_def Kmem_alloc_def Buddy_alloc_def uvm_layout_def MAX_ALIGN_def)
qed

lemma Uvm_box_panics: "kmem_inv (vm_alloc st) \<Longrightarrow> Uvm_box uvm_new st = Inl OutOfBounds"
  by (simp add: Uvm_box_def uvm_new_panics)

lemma proc_uvmcreate_never: "proc_uvmcreate d ualloc ufree palloc pfree code tf st \<noteq> Some (Inr (Some m, st'))"
  by (auto simp: proc_uvmcreate_def Uvm_create_def table_ptr_def wbind_Some Let_def split: option.splits)

text \<open>
  (C27) No process gets a user space. The box that \<^verbatim>\<open>Uvm::create\<close> allocates has the size of a
  \<^verbatim>\<open>Uvm\<close>, the eight bytes of a pointer, and not of a page: the allocator of the kernel panics on a
  request of that size. With any other allocator the pointer in the new box is null, and the first
  mapping follows it; \<^verbatim>\<open>proc_uvmcreate\<close> never returns a space. A copy of a space with a page, for
  \<^verbatim>\<open>fork\<close>, panics at its first page.
\<close>

theorem no_user_space:
  assumes "uvm_ok kmem_inv kmem_pages root st" and "user_frame (vm_pt st) root 0 \<noteq> None" and "0 < sz"
  shows "proc_uvmcreate d uvm_new ufree page_new page_drop code tf st = Some (Inl OutOfBounds) \<and>
    (\<forall>ualloc m st'. proc_uvmcreate d ualloc ufree page_new page_drop code tf st \<noteq> Some (Inr (Some m, st'))) \<and>
    Uvm_copy uvm_new ufree page_new page_drop root new sz st = Inl OutOfBounds"
proof (intro conjI allI)
  have ok: "vm_ok kmem_inv kmem_pages root st" and inv: "kmem_inv (vm_alloc st)"
    using assms(1) by (auto simp: uvm_ok_def vm_ok_def)
  show "proc_uvmcreate d uvm_new ufree page_new page_drop code tf st = Some (Inl OutOfBounds)"
    by (simp add: proc_uvmcreate_def Uvm_create_def Uvm_box_panics[OF inv])
  show "proc_uvmcreate d ualloc ufree page_new page_drop code tf st \<noteq> Some (Inr (Some m, st'))" for ualloc m st'
    by (rule proc_uvmcreate_never)
  obtain e where e: "leafmap (vm_pt st) root 0 = Some e"
    using assms(2) by (auto simp: user_frame_def split: option.splits if_splits)
  have "subtable (vm_pt st) root [] = Some root" "tpath []" by (simp_all add: tpath_def subtable.simps)
  then have "root \<in> kmem_pages (vm_alloc st)" using ok unfolding vm_ok_def wf_tables_def by blast
  then have p: "table_ptr root = Inr ()" using kmem.pages_addr[OF inv] by (simp add: table_ptr_def page_addr_def is_aligned_def PGSIZE_def)
  have "walk page_new root 0 False st = Inr (Some (t, px 0 0), st)" if "subtable (vm_pt st) root [px 0 2, px 0 1] = Some t" for t
    by (rule kmem.walk_ok[OF ok, of 0 False]) (use that in \<open>simp_all add: MAXVA_def\<close>)
  then obtain t where "walk page_new root 0 False st = Inr (Some (t, px 0 0), st)" "is_v (vm_pt st t ! px 0 0)"
    using e by (auto simp: leafmap_def split: option.splits if_splits)
  then show "Uvm_copy uvm_new ufree page_new page_drop root new sz st = Inl OutOfBounds"
    using assms(3) p by (simp add: Uvm_copy_def uvm_copy_loop.simps Uvm_box_panics[OF inv] read_pte_def)
qed

theorem no_user_space_witness:
  "\<exists>root st. uvm_ok kmem_inv kmem_pages root st \<and>
     Uvm_copy uvm_new page_drop page_new page_drop root 4096 100 st = Inl OutOfBounds"
proof -
  obtain root st where d: "uvm_ok kmem_inv kmem_pages root st" "\<forall>x. ubyte st root x = (if x < 4096 then Some 0 else None)"
    using demo_mapped by blast
  from d(2) have "user_frame (vm_pt st) root 0 \<noteq> None" by (auto simp: ubyte_def split: option.splits dest: spec[of _ 0])
  then have "Uvm_copy uvm_new page_drop page_new page_drop root 4096 100 st = Inl OutOfBounds"
    using no_user_space[OF d(1), of 100] by simp
  with d(1) show ?thesis by blast
qed

lemma freewalk_from_skip:
  "(\<And>j. k \<le> j \<Longrightarrow> j < k + m \<Longrightarrow> \<not> is_v (vm_pt st root ! j)) \<Longrightarrow>
   freewalk_from d root k (m + n) st = freewalk_from d root (k + m) n st"
proof (induction m arbitrary: k)
  case (Suc m)
  have "\<not> is_v (vm_pt st root ! k)" by (rule Suc.prems) simp_all
  moreover have "freewalk_from d root (Suc k) (m + n) st = freewalk_from d root (Suc k + m) n st"
    by (rule Suc.IH) (use Suc.prems in simp_all)
  ultimately show ?case by (simp add: read_pte_def freewalk_from.simps)
qed simp

lemma valid_unaligned: "is_v e \<Longrightarrow> \<not> is_aligned (unat e)"
proof
  assume v: "is_v e" and a: "is_aligned (unat e)"
  have "odd (unat e)" using v unfolding is_v_bit by transfer (simp add: bit_0 even_nat_iff even_take_bit_eq)
  moreover have "even (unat e)" using a by (auto simp: is_aligned_def PGSIZE_def dvd_def)
  ultimately show False by simp
qed

text \<open>
  Releasing page tables is undefined: the page of an inner entry is taken for the structure
  that points to a table, so that the first entry of the table below is followed. In a table where
  it is empty or valid, as in every table the kernel builds, that is a null or an unaligned pointer.
\<close>

theorem freewalk_undefined:
  assumes "table_ptr root = Inr ()" and "i < length (vm_pt st root)" and "1 < d"
    and "is_v (vm_pt st root ! i)" and "\<not> is_leaf (vm_pt st root ! i)"
    and "\<And>j. j < i \<Longrightarrow> \<not> is_v (vm_pt st root ! j)"
    and "first = vm_pt st (to_pa (vm_pt st root ! i)) ! 0" and "first = 0 \<or> is_v first"
  shows "freewalk d root st = Some (Inl Undefined)"
proof -
  obtain d' where d: "d = Suc (Suc d')" using assms(3) by (cases d; cases "d - 1") auto
  obtain n where n: "length (vm_pt st root) = i + Suc n" using assms(2) less_iff_Suc_add by auto
  have "freewalk_from (Suc d') root 0 (i + Suc n) st = freewalk_from (Suc d') root (0 + i) (Suc n) st"
    by (rule freewalk_from_skip) (use assms(6) in simp)
  moreover have "table_ptr (unat first) = Inl Undefined"
    using assms(8) valid_unaligned[of first] by (auto simp: table_ptr_def)
  ultimately show ?thesis
    using assms(1,4,5,7) unfolding d freewalk.simps n by (simp add: freewalk_from.simps freewalk.simps read_pte_def)
qed

definition ex_tables :: "unit vmst" where
  "ex_tables = \<lparr>vm_alloc = (), vm_pt = (\<lambda>_. replicate 512 0)(4096 := (replicate 512 0)[1 := pte_set 8192 PTE_V]), vm_pg = (\<lambda>_. [])\<rparr>"

theorem freewalk_undefined_witness: "freewalk 3 4096 ex_tables = Some (Inl Undefined)"
  by (rule freewalk_undefined[where i = 1 and first = 0])
    (simp_all add: is_v_def ex_tables_def table_ptr_def is_aligned_def PGSIZE_def is_leaf_def pte_set_def PTE_V_def to_pa_def)

end
