(* ===== verification/Exec.thy ===== *)
theory Exec
  imports VmUser FileProps Proc
begin

text \<open>
  \<^verbatim>\<open>src/kernel/elf.rs\<close> and \<^verbatim>\<open>exec.rs\<close>: the headers of a program, the load of its segments, and the
  stack of its arguments. The state of a system call is the process table, the memory, the open
  files with the file system, and the ticks of the clock. A call that has to sleep is \<^term>\<open>None\<close>.
\<close>

section \<open>State of a system call\<close>

text \<open>A user space is its box and the pointer in it.\<close>

record 's ksys =
  k_ps :: "(nat \<times> nat, File) psys"
  k_vm :: "'s vmst"
  k_kf :: kfiles
  k_ticks :: nat

text \<open>The allocators, the depth for \<open>freewalk\<close>, and the addresses of the trampoline and the trap frames.\<close>

record 's uenv =
  ue_palloc :: "'s palloc"
  ue_pfree :: "'s pfree"
  ue_ualloc :: "'s palloc"
  ue_ufree :: "'s pfree"
  ue_depth :: nat
  ue_code :: nat
  ue_tf :: "nat \<Rightarrow> nat"

abbreviation pslot :: "'s ksys \<Rightarrow> nat \<Rightarrow> (nat \<times> nat, File) proc" where
  "pslot S i \<equiv> slot (k_ps S) i"

definition upd_slot :: "nat \<Rightarrow> ((nat \<times> nat, File) proc \<Rightarrow> (nat \<times> nat, File) proc) \<Rightarrow> 's ksys \<Rightarrow> 's ksys" where
  "upd_slot i f S = S\<lparr>k_ps := set_slot i (f (pslot S i)) (k_ps S)\<rparr>"

definition upd_fs :: "fsys \<Rightarrow> 's ksys \<Rightarrow> 's ksys" where
  "upd_fs s S = S\<lparr>k_kf := (k_kf S)\<lparr>kf_fs := s\<rparr>\<rparr>"

section \<open>Headers\<close>

text \<open>Little-endian numbers of any width.\<close>

definition of_le :: "u8 list \<Rightarrow> nat" where
  "of_le bs = foldr (\<lambda>b n. unat b + 256 * n) bs 0"

fun to_le :: "nat \<Rightarrow> nat \<Rightarrow> u8 list" where
  "to_le 0 x = []"
| "to_le (Suc k) x = of_nat (x mod 256) # to_le k (x div 256)"

definition ELFMAG :: "u8 list" where "ELFMAG = [127, 0x45, 0x4c, 0x46]"

definition PT_LOAD :: nat where "PT_LOAD = 1"

record ElfHdr =
  e_ident :: "u8 list"
  e_type :: nat
  e_cpu :: nat
  e_version :: nat
  e_entry :: nat
  e_phoff :: nat
  e_shoff :: nat
  e_flags :: nat
  e_ehsize :: nat
  e_phsize :: nat
  e_phnum :: nat
  e_shsize :: nat
  e_shnum :: nat
  e_shname :: nat

definition fld :: "nat \<Rightarrow> nat \<Rightarrow> u8 list \<Rightarrow> nat" where
  "fld a k bs = of_le (take k (drop a bs))"

definition ElfHdr_read :: "u8 list \<Rightarrow> ElfHdr" where
  "ElfHdr_read bs =
     \<lparr>e_ident = take 16 bs, e_type = fld 16 2 bs, e_cpu = fld 18 2 bs, e_version = fld 20 4 bs, e_entry = fld 24 8 bs,
      e_phoff = fld 32 8 bs, e_shoff = fld 40 8 bs, e_flags = fld 48 4 bs, e_ehsize = fld 52 2 bs, e_phsize = fld 54 2 bs,
      e_phnum = fld 56 2 bs, e_shsize = fld 58 2 bs, e_shnum = fld 60 2 bs, e_shname = fld 62 2 bs\<rparr>"

definition ELFHDR_SIZE :: nat where "ELFHDR_SIZE = 64"

record ProgHdr =
  p_type :: nat
  p_flags :: nat
  p_offset :: nat
  p_vaddr :: nat
  p_paddr :: nat
  p_fsize :: nat
  p_msize :: nat
  p_align :: nat

definition ProgHdr_read :: "u8 list \<Rightarrow> ProgHdr" where
  "ProgHdr_read bs =
     \<lparr>p_type = fld 0 4 bs, p_flags = fld 4 4 bs, p_offset = fld 8 8 bs, p_vaddr = fld 16 8 bs, p_paddr = fld 24 8 bs,
      p_fsize = fld 32 8 bs, p_msize = fld 40 8 bs, p_align = fld 48 8 bs\<rparr>"

definition PROGHDR_SIZE :: nat where "PROGHDR_SIZE = 56"

definition flags2perm :: "nat \<Rightarrow> usize" where
  "flags2perm flags =
     (let perm = (if flags mod 2 \<noteq> 0 then PTE_X else 0)
      in if (flags div 2) mod 2 \<noteq> 0 then perm OR PTE_W else perm)"

section \<open>Loading\<close>

text \<open>Bytes from a file go to the frame at \<open>pa\<close>.\<close>

definition phys_put :: "nat \<Rightarrow> 's vmst put" where
  "phys_put pa off bs st = (poke (pa + off) bs st, True)"

function loadseg_from ::
  "'s palloc \<Rightarrow> nat \<Rightarrow> nat \<Rightarrow> nat \<Rightarrow> nat \<Rightarrow> nat \<Rightarrow> nat \<Rightarrow> 's vmst \<Rightarrow> fsys \<Rightarrow> (bool \<times> 's vmst \<times> fsys) rust" where
  "loadseg_from palloc root va ip offset sz i st s =
     (if i < sz then
        rbind (uadd va i) (\<lambda>a.
        rbind (walkaddr palloc root a st) (\<lambda>(r, st1).
        case r of
          None \<Rightarrow> Inl (Panic ''loadseg: address should exsits'')
        | Some pa \<Rightarrow>
            let n = (if sz - i < PGSIZE then sz - i else PGSIZE)
            in rbind (uadd offset i) (\<lambda>fo.
               rbind (IData_read ip (phys_put pa) (fo mod 2 ^ 32) n st1 s) (\<lambda>(k, st2, s1).
               if k \<noteq> Inr n then Inr (False, st2, s1)
               else rbind (uadd i PGSIZE) (\<lambda>i1. loadseg_from palloc root va ip offset sz i1 st2 s1)))))
      else Inr (True, st, s))"
  by pat_completeness auto

termination
  by (relation "measure (\<lambda>(palloc, root, va, ip, offset, sz, i, st, s). sz - i)") (auto simp: uadd_Inr_iff PGSIZE_def)

declare loadseg_from.simps [simp del]

definition loadseg :: "'s palloc \<Rightarrow> nat \<Rightarrow> nat \<Rightarrow> nat \<Rightarrow> nat \<Rightarrow> nat \<Rightarrow> 's vmst \<Rightarrow> fsys \<Rightarrow> (bool \<times> 's vmst \<times> fsys) rust" where
  "loadseg palloc root va ip offset sz st s =
     (if \<not> is_aligned va then Inl (Panic ''loadseg(): va must be aligned.'')
      else loadseg_from palloc root va ip offset sz 0 st s)"

text \<open>
  The loop over the \<open>n\<close> program headers from the offset \<open>off\<close> on: whether it succeeded, and the size
  of the space. A header that is not loaded leaves the offset as it is.
\<close>

fun load_phdrs ::
  "'s uenv \<Rightarrow> nat \<Rightarrow> nat \<Rightarrow> nat \<Rightarrow> nat \<Rightarrow> nat \<Rightarrow> 's vmst \<Rightarrow> fsys \<Rightarrow> (bool \<times> nat \<times> 's vmst \<times> fsys) rust" where
  "load_phdrs E root ip 0 off sz st s = Inr (True, sz, st, s)"
| "load_phdrs E root ip (Suc n) off sz st s =
     rbind (IData_read ip kput (off mod 2 ^ 32) PROGHDR_SIZE (replicate PROGHDR_SIZE 0) s) (\<lambda>(r, bs, s1).
     if r \<noteq> Inr PROGHDR_SIZE then Inr (False, sz, st, s1)
     else let ph = ProgHdr_read bs
     in if p_type ph \<noteq> PT_LOAD \<or> p_fsize ph = 0 then load_phdrs E root ip n off sz st s1
        else if p_msize ph < p_fsize ph then Inr (False, sz, st, s1)
        else rbind (uadd (p_vaddr ph) (p_msize ph)) (\<lambda>end_va.
          if end_va < p_msize ph then Inr (False, sz, st, s1)
          else if p_vaddr ph mod PGSIZE \<noteq> 0 then Inr (False, sz, st, s1)
          else rbind (Uvm_alloc (ue_palloc E) (ue_pfree E) root sz end_va (flags2perm (p_flags ph)) st) (\<lambda>(z, st1).
          case z of
            None \<Rightarrow> Inr (False, sz, st1, s1)
          | Some sz1 \<Rightarrow>
              rbind (loadseg (ue_palloc E) root (p_vaddr ph) ip (p_offset ph) (p_fsize ph) st1 s1) (\<lambda>(ok, st2, s2).
              if \<not> ok then Inr (False, sz1, st2, s2)
              else rbind (uadd off PROGHDR_SIZE) (\<lambda>off1. load_phdrs E root ip n off1 sz1 st2 s2)))))"

text \<open>
  The closure \<open>load\<close> with the transaction around it: whether it succeeded, the new space, its size
  and the header.
\<close>

definition exec_load ::
  "'s uenv \<Rightarrow> nat \<Rightarrow> u8 list \<Rightarrow> 's ksys \<Rightarrow> ((bool \<times> (nat \<times> nat) option \<times> nat \<times> ElfHdr) \<times> 's ksys) rust option" where
  "exec_load E i path S =
     wbind (LOG_begin_op (kf_fs (k_kf S))) (\<lambda>s0.
     let fin = (\<lambda>x vm s. wbind (Some (LOG_end_op s)) (\<lambda>s'. Some (Inr (x, upd_fs s' (S\<lparr>k_vm := vm\<rparr>)))));
         leave = (\<lambda>ip x vm s. wbind (Some (ITable_put ip s)) (fin x vm));
         vm0 = k_vm S
     in wbind (Some (namei (p_cwd (pslot S i)) path s0)) (\<lambda>(r, s1).
        case r of
          None \<Rightarrow> fin (False, None, 0, ElfHdr_read (replicate ELFHDR_SIZE 0)) vm0 s1
        | Some (nm, ip) \<Rightarrow>
            wbind (Some (rbind (MInode_lock ip s1) (IData_read ip kput 0 ELFHDR_SIZE (replicate ELFHDR_SIZE 0)))) (\<lambda>(k, bs, s2).
            let elf = ElfHdr_read bs
            in if k \<noteq> Inr ELFHDR_SIZE \<or> take 4 (e_ident elf) \<noteq> ELFMAG then leave ip (False, None, 0, elf) vm0 s2
               else
                 wbind (proc_uvmcreate (ue_depth E) (ue_ualloc E) (ue_ufree E) (ue_palloc E) (ue_pfree E) (ue_code E)
                          (map_option (\<lambda>_. ue_tf E i) (p_trapframe (pslot S i))) vm0) (\<lambda>(u, vm1).
                 case u of
                   None \<Rightarrow> leave ip (False, None, 0, elf) vm1 s2
                 | Some (mem, root) \<Rightarrow>
                     wbind (Some (load_phdrs E root ip (e_phnum elf) (e_phoff elf) 0 vm1 s2)) (\<lambda>(ok, sz, vm2, s3).
                     leave ip (ok, u, sz, elf) vm2 s3)))))"

section \<open>The stack of arguments\<close>

definition MAXARG :: nat where "MAXARG = 32"

text \<open>
  The loop over the argument strings: the stack pointer, the array \<^verbatim>\<open>ustack\<close> of addresses and
  lengths, and the number of arguments; \<^term>\<open>None\<close> for the error.
\<close>

fun push_args ::
  "'s palloc \<Rightarrow> nat \<Rightarrow> nat \<Rightarrow> nat \<Rightarrow> nat list \<Rightarrow> nat \<Rightarrow> u8 list list \<Rightarrow> 's vmst \<Rightarrow>
   ((nat \<times> nat list \<times> nat) option \<times> 's vmst) rust" where
  "push_args palloc root base sp ustack argc [] st = Inr (Some (sp, ustack, argc), st)"
| "push_args palloc root base sp ustack argc (arg # args) st =
     rbind (usub sp (length arg)) (\<lambda>x.
     let sp1 = x - x mod 16
     in if sp1 < base then Inr (None, st)
        else rbind (copyout palloc root sp1 arg st) (\<lambda>(ok, st1).
          if \<not> ok \<or> length ustack \<le> argc * 2 + 1 then Inr (None, st1)
          else push_args palloc root base sp1 (ustack[argc * 2 := sp1, argc * 2 + 1 := length arg]) (argc + 1) args st1))"

definition exec_stack :: "'s palloc \<Rightarrow> nat \<Rightarrow> nat \<Rightarrow> u8 list list \<Rightarrow> 's vmst \<Rightarrow> (nat option \<times> 's vmst) rust" where
  "exec_stack palloc root sz args st =
     rbind (usub sz PGSIZE) (\<lambda>base.
     rbind (push_args palloc root base sz (replicate (MAXARG * 2) 0) 0 args st) (\<lambda>(r, st1).
     case r of
       None \<Rightarrow> Inr (None, st1)
     | Some (sp, ustack, n) \<Rightarrow>
         let argc = n + 1
         in rbind (usub sp (argc * 2 * 8)) (\<lambda>x.
            let sp1 = x - x mod 16
            in if sp1 < base then Inr (None, st1)
               else rbind (slice ustack 0 (argc * 2)) (\<lambda>v.
                 rbind (copyout palloc root sp1 (concat (map (to_le 8) v)) st1) (\<lambda>(ok, st2).
                 if \<not> ok then Inr (None, st2)
                 else rbind (usub sp1 16) (\<lambda>y.
                   let sp2 = y - y mod 16
                   in if sp2 < base then Inr (None, st2)
                      else rbind (copyout palloc root sp2 (to_le 8 sp1 @ to_le 8 argc) st2) (\<lambda>(ok, st3).
                        Inr (if ok then Some sp2 else None, st3))))))))"

section \<open>exec\<close>

definition exec_fail :: "'s uenv \<Rightarrow> (nat \<times> nat) option \<Rightarrow> nat \<Rightarrow> 's ksys \<Rightarrow> ((unit + nat) \<times> 's ksys) rust option" where
  "exec_fail E u sz S =
     (case u of
        None \<Rightarrow> Some (Inr (Inl (), S))
      | Some (mem, root) \<Rightarrow>
          wbind (proc_uvmfree (ue_depth E) (ue_palloc E) (ue_pfree E) root sz (k_vm S)) (\<lambda>vm.
          Some (rbind (Page_drop (ue_ufree E) mem vm) (\<lambda>vm1. Inr (Inl (), S\<lparr>k_vm := vm1\<rparr>)))))"

definition exec :: "'s uenv \<Rightarrow> u8 list \<Rightarrow> u8 list option list \<Rightarrow> nat \<Rightarrow> 's ksys \<Rightarrow> ((unit + nat) \<times> 's ksys) rust option" where
  "exec E path argv i S =
     wbind (exec_load E i path S) (\<lambda>((ok, u, sz, elf), S1).
     if \<not> ok then exec_fail E u sz S1
     else
       wbind (Some (unwrap (p_trapframe (pslot S1 i)))) (\<lambda>tf.
       wbind (Some (pgroundup sz)) (\<lambda>sz1.
       wbind (Some (unwrap u)) (\<lambda>(mem, root).
       wbind (Some (rbind (uadd sz1 (2 * PGSIZE)) (\<lambda>z.
                    Uvm_alloc (ue_palloc E) (ue_pfree E) root sz1 z PTE_W (k_vm S1)))) (\<lambda>(z, vm1).
       case z of
         None \<Rightarrow> exec_fail E u sz1 (S1\<lparr>k_vm := vm1\<rparr>)
       | Some sz2 \<Rightarrow>
           wbind (Some (rbind (usub sz2 (2 * PGSIZE)) (\<lambda>guard.
                        rbind (Uvm_clear (ue_palloc E) root guard vm1)
                          (exec_stack (ue_palloc E) root sz2 (map the (takeWhile (\<lambda>e. e \<noteq> None) argv)))))) (\<lambda>(r, vm2).
           case r of
             None \<Rightarrow> exec_fail E u sz2 (S1\<lparr>k_vm := vm2\<rparr>)
           | Some sp \<Rightarrow>
               let p = pslot S1 i;
                   nm = (case file_name path of None \<Rightarrow> p_name p | Some bs \<Rightarrow> map (\<lambda>b. char_of (unat b)) bs);
                   p1 = p\<lparr>p_name := nm, p_uvm := u, p_sz := sz2,
                          p_trapframe := Some (tf(Epc := of_nat (e_entry elf), Tf SP := of_nat sp))\<rparr>
               in wbind (Some (unwrap (p_uvm p))) (\<lambda>(mem0, root0).
                  wbind (proc_uvmfree (ue_depth E) (ue_palloc E) (ue_pfree E) root0 (p_sz p) vm2) (\<lambda>vm3.
                  Some (rbind (Page_drop (ue_ufree E) mem0 vm3) (\<lambda>vm4.
                  Inr (Inr sp, upd_slot i (\<lambda>_. p1) (S1\<lparr>k_vm := vm4\<rparr>))))))))))))"

end
