(* ===== verification/ExecProofs.thy ===== *)
theory ExecProofs
  imports Exec
begin

text \<open>
  The stack that \<^verbatim>\<open>exec\<close> builds: the strings, the vector of their addresses and lengths, and the
  slice that the program gets, read back from the user memory.
\<close>

section \<open>Copies into a mapped range\<close>

definition mapped_range :: "nat \<Rightarrow> nat \<Rightarrow> nat \<Rightarrow> kmem vmst \<Rightarrow> bool" where
  "mapped_range root lo hi st \<longleftrightarrow>
     vm_ok kmem_inv kmem_pages root st \<and> uspace_ok root st \<and> (\<forall>x. lo \<le> x \<and> x < hi \<longrightarrow> user_frame (vm_pt st) root x \<noteq> None)"

definition holds :: "kmem vmst \<Rightarrow> nat \<Rightarrow> nat \<Rightarrow> u8 list \<Rightarrow> bool" where
  "holds st root a bs \<longleftrightarrow> (\<forall>j<length bs. ubyte st root (a + j) = Some (bs ! j))"

lemma holds_cong: "holds st root a bs \<Longrightarrow> (\<And>x. a \<le> x \<Longrightarrow> x < a + length bs \<Longrightarrow> ubyte st' root x = ubyte st root x) \<Longrightarrow> holds st' root a bs"
  by (simp add: holds_def)

lemma copyout_mapped:
  assumes "mapped_range root lo hi st" and "lo \<le> a" and "a + length bs \<le> hi" and "hi < 2 ^ 64"
  obtains st' where "copyout page_new root a bs st = Inr (True, st')" and "mapped_range root lo hi st'"
    and "holds st' root a bs" and "\<And>x. x < a \<or> a + length bs \<le> x \<Longrightarrow> ubyte st' root x = ubyte st root x"
proof -
  have m: "vm_ok kmem_inv kmem_pages root st" "uspace_ok root st" and a: "a < 2 ^ 64"
    using assms by (simp_all add: mapped_range_def)
  have len: "0 + length bs = length bs" by simp
  obtain b st' n where c: "copyout page_new root a bs st = Inr (b, st')" "vm_alloc st' = vm_alloc st" "vm_pt st' = vm_pt st"
    "uspace_ok root st'" "if b then n = length bs else n < length bs \<and> user_frame (vm_pt st) root (a + n) = None"
    "\<forall>x. ubyte st' root x = (if a \<le> x \<and> x < a + n then Some (bs ! (0 + (x - a))) else ubyte st root x)"
    using kmem.copyout_loop_ok[OF m a len] unfolding copyout_def[symmetric] by (elim exE conjE) (rule that; assumption)
  have b: b using c(5) assms(1-3) by (cases b) (auto simp: mapped_range_def dest: spec[of _ "a + n"])
  show thesis
  proof (rule that[of st'])
    show "copyout page_new root a bs st = Inr (True, st')" using c(1) b by simp
    show "mapped_range root lo hi st'" using assms(1) c(2-4) by (simp add: mapped_range_def vm_ok_def)
    show "holds st' root a bs" using c(5,6) b by (simp add: holds_def)
    show "ubyte st' root x = ubyte st root x" if "x < a \<or> a + length bs \<le> x" for x using c(5,6) b that by auto
  qed
qed

section \<open>The strings\<close>

definition room :: "u8 list list \<Rightarrow> nat" where
  "room args = sum_list (map (\<lambda>a. length a + 15) args)"

text \<open>What the loop has done for the arguments from \<open>argc\<close> on, between \<open>lo\<close> and \<open>hi\<close>.\<close>

definition pushed :: "kmem vmst \<Rightarrow> nat \<Rightarrow> nat \<Rightarrow> nat \<Rightarrow> nat list \<Rightarrow> nat \<Rightarrow> u8 list list \<Rightarrow> bool" where
  "pushed st root lo hi ustack argc args \<longleftrightarrow>
     (\<forall>k<length args. ustack ! (2 * (argc + k) + 1) = length (args ! k) \<and> lo \<le> ustack ! (2 * (argc + k)) \<and>
        ustack ! (2 * (argc + k)) + length (args ! k) \<le> hi \<and> ustack ! (2 * (argc + k)) mod 16 = 0 \<and>
        holds st root (ustack ! (2 * (argc + k))) (args ! k))"

lemma push_args_ok:
  assumes "mapped_range root base hi st" and "base + room args \<le> sp" and "sp \<le> hi" and "hi < 2 ^ 64"
    and "2 * (argc + length args) \<le> length ustack"
  shows "\<exists>sp' us' st'. push_args page_new root base sp ustack argc args st = Inr (Some (sp', us', argc + length args), st') \<and>
    mapped_range root base hi st' \<and> sp \<le> sp' + room args \<and> sp' \<le> sp \<and> length us' = length ustack \<and>
    (\<forall>k. k < 2 * argc \<or> 2 * (argc + length args) \<le> k \<longrightarrow> us' ! k = ustack ! k) \<and> pushed st' root sp' sp us' argc args \<and>
    (\<forall>x. x < sp' \<or> sp \<le> x \<longrightarrow> ubyte st' root x = ubyte st root x)"
  using assms
proof (induction args arbitrary: sp argc ustack st)
  case (Cons a args)
  define x where "x = sp - length a"
  define q where "q = x - x mod 16"
  have r: "room (a # args) = length a + 15 + room args" by (simp add: room_def)
  have x: "usub sp (length a) = Inr x" using Cons.prems(2) r by (simp add: usub_def x_def)
  have "x mod 16 < 16" by simp
  then have q: "base + room args \<le> q" "q + length a \<le> sp" "sp \<le> q + length a + 15"
    using Cons.prems(2) r unfolding q_def x_def by linarith+
  have q16: "q mod 16 = 0" by (simp add: q_def minus_mod_eq_mult_div)
  obtain st1 where c: "copyout page_new root q a st = Inr (True, st1)" "mapped_range root base hi st1" "holds st1 root q a"
    "\<And>x. x < q \<or> q + length a \<le> x \<Longrightarrow> ubyte st1 root x = ubyte st root x"
    using copyout_mapped[OF Cons.prems(1), of q a] q Cons.prems(3,4) by auto
  define us where "us = ustack[argc * 2 := q, argc * 2 + 1 := length a]"
  obtain sp' us' st' where IH: "push_args page_new root base q us (argc + 1) args st1 = Inr (Some (sp', us', argc + 1 + length args), st')"
    "mapped_range root base hi st'" "q \<le> sp' + room args" "sp' \<le> q" "length us' = length us"
    "\<forall>k. k < 2 * (argc + 1) \<or> 2 * (argc + 1 + length args) \<le> k \<longrightarrow> us' ! k = us ! k" "pushed st' root sp' q us' (argc + 1) args"
    "\<forall>x. x < sp' \<or> q \<le> x \<longrightarrow> ubyte st' root x = ubyte st1 root x"
    using Cons.IH[OF c(2), of q "argc + 1" us] q Cons.prems(3-5) by (auto simp: us_def)
  have l: "argc * 2 + 1 < length ustack" using Cons.prems(5) by simp
  have "push_args page_new root base sp ustack argc (a # args) st = Inr (Some (sp', us', argc + length (a # args)), st')"
    using x c(1) q(1) l IH(1) unfolding us_def q_def by simp
  moreover have "pushed st' root sp' sp us' argc (a # args)"
    unfolding pushed_def
  proof (intro allI impI)
    fix k assume k: "k < length (a # args)"
    show "us' ! (2 * (argc + k) + 1) = length ((a # args) ! k) \<and> sp' \<le> us' ! (2 * (argc + k)) \<and>
      us' ! (2 * (argc + k)) + length ((a # args) ! k) \<le> sp \<and> us' ! (2 * (argc + k)) mod 16 = 0 \<and>
      holds st' root (us' ! (2 * (argc + k))) ((a # args) ! k)"
    proof (cases k)
      case 0
      have "holds st' root q a" by (rule holds_cong[OF c(3)]) (use IH(8) in simp)
      then show ?thesis using 0 IH(4,6) q(2) q16 l by (simp add: us_def mult.commute)
    next
      case (Suc j)
      then show ?thesis using IH(7) k q(2) unfolding pushed_def by (auto dest!: spec[of _ j])
    qed
  qed
  moreover have "\<forall>k. k < 2 * argc \<or> 2 * (argc + length (a # args)) \<le> k \<longrightarrow> us' ! k = ustack ! k"
    using IH(6) by (simp add: us_def)
  moreover have "\<forall>x. x < sp' \<or> sp \<le> x \<longrightarrow> ubyte st' root x = ubyte st root x"
    using IH(4,8) c(4) q(2) by simp
  ultimately show ?case using IH(2-5) q(2,3) r by (intro exI[of _ sp'] exI[of _ us'] exI[of _ st']) (simp add: us_def)
qed (auto simp: room_def pushed_def)

section \<open>The whole stack\<close>

lemma holds_append: "holds st root a (xs @ ys) \<longleftrightarrow> holds st root a xs \<and> holds st root (a + length xs) ys"
proof -
  have "holds st root a xs \<and> holds st root (a + length xs) ys" if h: "holds st root a (xs @ ys)"
    unfolding holds_def
  proof (intro conjI allI impI)
    show "ubyte st root (a + j) = Some (xs ! j)" if "j < length xs" for j
      using h that unfolding holds_def by (auto simp: nth_append dest: spec[of _ j])
    show "ubyte st root (a + length xs + j) = Some (ys ! j)" if "j < length ys" for j
      using h that unfolding holds_def by (auto simp: nth_append add.assoc dest: spec[of _ "length xs + j"])
  qed
  moreover have "holds st root a (xs @ ys)" if "holds st root a xs" "holds st root (a + length xs) ys"
    unfolding holds_def
  proof (intro allI impI)
    fix j assume j: "j < length (xs @ ys)"
    show "ubyte st root (a + j) = Some ((xs @ ys) ! j)"
    proof (cases "j < length xs")
      case False
      then obtain i where i: "j = length xs + i" using le_Suc_ex[of "length xs" j] by auto
      then show ?thesis using that(2) j unfolding holds_def by (simp add: add.assoc)
    qed (use that(1) in \<open>simp add: holds_def nth_append\<close>)
  qed
  ultimately show ?thesis by blast
qed

lemma length_to_le [simp]: "length (to_le k x) = k"
  by (induction k arbitrary: x) simp_all

lemma holds_words: "holds st root a (concat (map (to_le 8) v)) \<Longrightarrow> k < length v \<Longrightarrow> holds st root (a + 8 * k) (to_le 8 (v ! k))"
proof (induction v arbitrary: a k)
  case (Cons w v)
  then show ?case by (cases k) (auto simp: holds_append add.assoc dest!: Cons.IH)
qed simp

text \<open>
  (C15) \<^verbatim>\<open>exec\<close> puts the arguments on the stack page of the new program so that they can be read
  back: with room for them, it returns a stack pointer that is aligned and inside the page and
  points to the address of a vector and its length; entry \<open>k\<close> of the vector is the address and the
  length of argument \<open>k\<close>, and its bytes are there. No byte outside the page changes. The vector is
  one entry longer than there are arguments, and that entry is a null pointer.
\<close>

theorem exec_stack_layout:
  assumes "mapped_range root (sz - PGSIZE) sz st" and "PGSIZE \<le> sz" and "sz < 2 ^ 64"
    and "length args < MAXARG" and "room args + 16 * length args + 47 \<le> PGSIZE"
  shows "\<exists>sp v ptr st'. exec_stack page_new root sz args st = Inr (Some sp, st') \<and> sp mod 16 = 0 \<and> sz - PGSIZE \<le> sp \<and> sp < sz \<and>
    holds st' root sp (to_le 8 v @ to_le 8 (length args + 1)) \<and>
    (\<forall>k<length args. holds st' root (v + 16 * k) (to_le 8 (ptr k) @ to_le 8 (length (args ! k))) \<and> holds st' root (ptr k) (args ! k)) \<and>
    holds st' root (v + 16 * length args) (to_le 8 0 @ to_le 8 0) \<and>
    (\<forall>x. x < sz - PGSIZE \<or> sz \<le> x \<longrightarrow> ubyte st' root x = ubyte st root x)"
proof -
  define n where "n = length args"
  define base where "base = sz - PGSIZE"
  have p: "base + room args \<le> sz" "2 * (0 + length args) \<le> length (replicate (MAXARG * 2) (0::nat))"
    using assms(2,4,5) by (simp_all add: base_def)
  obtain q us st1 where a: "push_args page_new root base sz (replicate (MAXARG * 2) 0) 0 args st = Inr (Some (q, us, 0 + length args), st1)"
    "mapped_range root base sz st1" "sz \<le> q + room args" "q \<le> sz" "length us = length (replicate (MAXARG * 2) (0::nat))"
    "\<forall>k. k < 2 * 0 \<or> 2 * (0 + length args) \<le> k \<longrightarrow> us ! k = replicate (MAXARG * 2) 0 ! k" "pushed st1 root q sz us 0 args"
    "\<forall>x. x < q \<or> sz \<le> x \<longrightarrow> ubyte st1 root x = ubyte st root x"
    using push_args_ok[OF assms(1)[folded base_def] p(1) order.refl assms(3) p(2)] by (elim exE conjE) (rule that; assumption)
  define x where "x = q - (n + 1) * 2 * 8"
  define v where "v = x - x mod 16"
  define sp where "sp = v - 16"
  have q: "base + 16 * n + 47 \<le> q" using a(3) assms(2,5) unfolding n_def base_def by linarith
  then have "x + 16 * (n + 1) = q" unfolding x_def by simp
  moreover obtain m where "v + m = x" "m < 16" by (rule that[of "x mod 16"]) (simp_all add: v_def)
  ultimately have b: "(n + 1) * 2 * 8 \<le> q" "base + 16 \<le> v" "v + 16 * (n + 1) \<le> q" using q by simp_all
  have v16: "v mod 16 = 0" by (simp add: v_def minus_mod_eq_mult_div)
  then have sp16: "sp mod 16 = 0" using b(2) by (simp add: sp_def mod_diff_eq[symmetric]) presburger
  define w where "w = take ((n + 1) * 2) us"
  have lw: "length w = (n + 1) * 2" using a(5) assms(4) by (simp add: w_def n_def)
  have lc: "length (concat (map (to_le 8) w)) = 16 * (n + 1)" using lw by (simp add: length_concat comp_def sum_list_triv)
  obtain st2 where c: "copyout page_new root v (concat (map (to_le 8) w)) st1 = Inr (True, st2)" "mapped_range root base sz st2"
    "holds st2 root v (concat (map (to_le 8) w))"
    "\<And>y. y < v \<or> v + 16 * (n + 1) \<le> y \<Longrightarrow> ubyte st2 root y = ubyte st1 root y"
    using copyout_mapped[OF a(2), of v "concat (map (to_le 8) w)"] b a(4) assms(3) unfolding lc by auto
  have sb: "base \<le> sp" "sp + 16 = v" using b(2) by (simp_all add: sp_def)
  obtain st3 where e: "copyout page_new root sp (to_le 8 v @ to_le 8 (n + 1)) st2 = Inr (True, st3)"
    "holds st3 root sp (to_le 8 v @ to_le 8 (n + 1))" "\<And>y. y < sp \<or> v \<le> y \<Longrightarrow> ubyte st3 root y = ubyte st2 root y"
    using copyout_mapped[OF c(2) sb(1), of "to_le 8 v @ to_le 8 (n + 1)"] sb b a(4) assms(3) by auto
  have ex: "exec_stack page_new root sz args st = Inr (Some sp, st3)"
    using a(1,5) b c(1) e(1) assms(2,4) sp16 sb
    unfolding n_def exec_stack_def w_def v_def x_def base_def sp_def by (simp add: usub_def Let_def slice_def)
  have pair: "holds st3 root (v + 16 * k) (to_le 8 (us ! (2 * k)) @ to_le 8 (us ! (2 * k + 1)))" if "k \<le> n" for k
  proof -
    have "holds st3 root (v + 8 * j) (to_le 8 (us ! j))" if "j < 2 * (n + 1)" for j
      by (rule holds_cong[of st2]) (use holds_words[OF c(3), of j] that lw e(3) in \<open>simp_all add: w_def\<close>)
    from this[of "2 * k"] this[of "2 * k + 1"] show ?thesis using that by (simp add: holds_append algebra_simps)
  qed
  have "holds st3 root (v + 16 * k) (to_le 8 (us ! (2 * k)) @ to_le 8 (length (args ! k))) \<and> holds st3 root (us ! (2 * k)) (args ! k)"
    if "k < n" for k
  proof -
    have h: "us ! (2 * k + 1) = length (args ! k)" "q \<le> us ! (2 * k)" "holds st1 root (us ! (2 * k)) (args ! k)"
      using a(7) that by (simp_all add: pushed_def n_def)
    have "holds st3 root (us ! (2 * k)) (args ! k)"
      by (rule holds_cong[OF h(3)]) (use h(2) b(3) c(4) e(3) in simp)
    with pair[of k] h(1) that show ?thesis by simp
  qed
  moreover have "us ! (2 * n) = 0" "us ! (2 * n + 1) = 0" using a(6) assms(4) by (simp_all add: n_def)
  moreover have "\<forall>y. y < base \<or> sz \<le> y \<longrightarrow> ubyte st3 root y = ubyte st root y"
    using a(4,8) b(2,3) c(4) e(3) sb by simp
  ultimately show ?thesis
    using ex e(2) sp16 sb b(3) a(4) pair[of n] unfolding n_def base_def
    by (rule_tac x = sp in exI, rule_tac x = v in exI, rule_tac x = "\<lambda>k. us ! (2 * k)" in exI, rule_tac x = st3 in exI) auto
qed

theorem exec_stack_layout_witness:
  "\<exists>root st sp v st'. exec_stack page_new root 4096 [[7, 8]] st = Inr (Some sp, st') \<and>
     holds st' root sp (to_le 8 v @ to_le 8 2)"
proof -
  obtain root st where d: "uvm_ok kmem_inv kmem_pages root st" "\<forall>x. ubyte st root x = (if x < 4096 then Some 0 else None)"
    using demo_mapped by blast
  from d(2) have f: "x < 4096 \<Longrightarrow> user_frame (vm_pt st) root x \<noteq> None" for x
    by (auto simp: ubyte_def split: option.splits)
  then have m: "mapped_range root (4096 - PGSIZE) 4096 st"
    using uvm_okD(1,2)[OF d(1)] by (simp add: mapped_range_def PGSIZE_def)
  have h: "PGSIZE \<le> 4096" "(4096::nat) < 2 ^ 64" "length [[7, 8 :: u8]] < MAXARG"
    "room [[7, 8]] + 16 * length [[7, 8 :: u8]] + 47 \<le> PGSIZE" by (simp_all add: PGSIZE_def MAXARG_def room_def)
  obtain sp v st' where "exec_stack page_new root 4096 [[7, 8]] st = Inr (Some sp, st')"
    "holds st' root sp (to_le 8 v @ to_le 8 (length [[7, 8 :: u8]] + 1))"
    using exec_stack_layout[OF m h] by blast
  moreover have "length [[7, 8 :: u8]] + 1 = 2" by simp
  ultimately show ?thesis by metis
qed

section \<open>exec\<close>

lemma exec_load_fails: "exec_load E i path S = Some (Inr ((ok, u, sz, elf), S')) \<Longrightarrow> \<not> ok"
  unfolding exec_load_def Let_def wbind_Some
  by (auto simp: proc_uvmcreate_never wbind_Some split: option.splits if_splits)

text \<open>
  (C28) \<^verbatim>\<open>exec\<close> never succeeds, whatever the program, the arguments and the allocators are: it needs
  a new user space, and \<^verbatim>\<open>proc_uvmcreate\<close> never returns one.
\<close>

theorem exec_never_succeeds: "exec E path argv i S \<noteq> Some (Inr (Inr v, S'))"
proof
  assume x: "exec E path argv i S = Some (Inr (Inr v, S'))"
  then obtain ok u sz elf Sa where l: "exec_load E i path S = Some (Inr ((ok, u, sz, elf), Sa))"
    unfolding exec_def wbind_Some by fastforce
  with x have "exec_fail E u sz Sa = Some (Inr (Inr v, S'))" using exec_load_fails[OF l] by (simp add: exec_def)
  then show False by (auto simp: exec_fail_def wbind_Some split: option.splits prod.splits)
qed

end
