(* ===== verification/Spec2Isabelle.thy ===== *)
theory Spec2Isabelle
  imports VmProps Boot Spinlock RwLock OnceCell ProcProofs Scheduler Channel BioProofs LogProofs VirtioProofs TtyProofs FileProps ExecProofs
begin

text \<open>
  Octox is a small Unix-like kernel in Rust for a RISC-V machine with several harts
  (\<^verbatim>\<open>src/kernel\<close>), with a program that builds its disk image (\<^verbatim>\<open>src/mkfs\<close>). This development is a
  shallow embedding of the kernel: every type of the source is a datatype or record, every function
  a HOL function of the same name (a method is \<^verbatim>\<open>Type_method\<close>), and concurrency a step relation.

  \<^bold>\<open>Conventions.\<close> A function that can panic returns \<^typ>\<open>'a rust\<close>: \<^term>\<open>Inl\<close> is the panic, with the
  checked arithmetic and the bounds checks of a debug build written out (\<^verbatim>\<open>OctoxPrelude\<close>); the panic
  \<^term>\<open>Undefined\<close> stands for undefined behaviour. Machine words are words where bits or wrap-around matter, and natural
  numbers with checked operations elsewhere. A function that may have to sleep, or that may need more
  fuel than it has, returns an option, and \<^term>\<open>None\<close> is that case (\<^term>\<open>wbind\<close> of \<^verbatim>\<open>Outcome\<close>). A
  reference count of an \<^verbatim>\<open>Rc\<close> or \<^verbatim>\<open>Arc\<close> is a number, and every drop of the source is a call at its place. A critical
  section of a spin lock is one step. Reads and writes of memory take effect in order, except where a theory says otherwise (\<^verbatim>\<open>RwLock\<close>). Code that is not part of the repository, as the hardware, is a
  parameter.

  \<^bold>\<open>Memory.\<close> \<^verbatim>\<open>LinkedList\<close> is \<^verbatim>\<open>list.rs\<close>; \<^verbatim>\<open>Buddy\<close> is \<^verbatim>\<open>buddy.rs\<close> and \<^verbatim>\<open>kalloc.rs\<close>, with the abstract
  buddy system in \<^verbatim>\<open>BuddySpec\<close>, the arithmetic in \<^verbatim>\<open>BuddyBits\<close>, and the refinement in \<^verbatim>\<open>BuddyProofs\<close>,
  \<^verbatim>\<open>BuddyCorrect\<close> and \<^verbatim>\<open>Kalloc\<close>: allocation returns an aligned block that overlaps no block in use, for
  every run of clients. The locale of \<^verbatim>\<open>PageAlloc\<close> is what page tables need of an allocator, and the
  kernel's is an interpretation. \<^verbatim>\<open>Vm\<close> is \<^verbatim>\<open>vm.rs\<close>: page tables as pages of entries; \<^verbatim>\<open>VmTables\<close>,
  \<^verbatim>\<open>VmProofs\<close>, \<^verbatim>\<open>VmSpace\<close>, \<^verbatim>\<open>VmCopy\<close> and \<^verbatim>\<open>VmProps\<close> show that they implement partial maps, and what
  growing, shrinking and copying do to the bytes of a user. \<^verbatim>\<open>VmUser\<close> has the creation, copy and
  release of a user space. A page has a view as a table and one as bytes; that no page is used as both is part of the
  invariant of a user space.

  \<^bold>\<open>The machine.\<close> \<^verbatim>\<open>Riscv\<close> is \<^verbatim>\<open>riscv.rs\<close>; \<^verbatim>\<open>Hart\<close> executes the assembly of \<^verbatim>\<open>trampoline.rs\<close>,
  \<^verbatim>\<open>kernelvec.rs\<close>, \<^verbatim>\<open>swtch.rs\<close>, \<^verbatim>\<open>entry.rs\<close> and \<^verbatim>\<open>start.rs\<close> instruction by instruction; \<^verbatim>\<open>HartProofs\<close> and
  \<^verbatim>\<open>Boot\<close> show which registers survive a trap and a switch, and what the boot leaves behind.

  \<^bold>\<open>Synchronisation and processes.\<close> \<^verbatim>\<open>Spinlock\<close>, \<^verbatim>\<open>RwLock\<close>, \<^verbatim>\<open>OnceCell\<close> (\<^verbatim>\<open>sync.rs\<close>), \<^verbatim>\<open>SleepLock\<close> and
  \<^verbatim>\<open>Channel\<close> (\<^verbatim>\<open>semaphore.rs\<close>, \<^verbatim>\<open>condvar.rs\<close>, \<^verbatim>\<open>mpmc.rs\<close>) are step relations over any number of cores or
  threads, with mutual exclusion and first-in first-out order as invariants of all reachable states. The relaxed loads of
  \<^verbatim>\<open>RwLock\<close> may return any value: a failed write attempt then still locks the lock for good, while readers and
  writers exclude each other only if the loads return current values. \<^verbatim>\<open>Proc\<close> and \<^verbatim>\<open>ProcProofs\<close>
  are \<^verbatim>\<open>proc.rs\<close>: the process table, sleeping and waking, exit and wait as moves of the table. \<^verbatim>\<open>Scheduler\<close> has the
  loop of every processor, \<^verbatim>\<open>sched\<close> and \<^verbatim>\<open>fork_ret\<close> with the locks of the slots, and shows that a process that leaves its
  processor keeps its lock and never runs again.

  \<^bold>\<open>Devices.\<close> \<^verbatim>\<open>Ring\<close> has the laws of ring buffers; \<^verbatim>\<open>Tty\<close> is \<^verbatim>\<open>uart.rs\<close> and \<^verbatim>\<open>console.rs\<close>, and \<^verbatim>\<open>TtyProofs\<close> shows
  that output is a queue and that the console is line editing with readers. \<^verbatim>\<open>VirtioDisk\<close> is \<^verbatim>\<open>virtio_disk.rs\<close>;
  \<^verbatim>\<open>VirtioProofs\<close> has the allocation of descriptors and shows that the wait for a request never ends.

  \<^bold>\<open>Storage.\<close> \<^verbatim>\<open>Bio\<close> is \<^verbatim>\<open>bio.rs\<close>, the buffer cache as linked nodes with counts; dropping a node drops
  what it links to, with the number of nodes as fuel, which is enough since every drop of a last reference removes a node.
  \<^verbatim>\<open>Log\<close> is \<^verbatim>\<open>log.rs\<close>, with the test of \<^verbatim>\<open>BufGuard::write\<close>, which refuses the owner of a buffer: \<^verbatim>\<open>LogProofs\<close> shows
  that therefore nothing is ever committed, what the reservation of space is worth, and that behind that test the
  protocol is right, since a crash at any write would leave none or all of a transaction. \<^verbatim>\<open>Fs\<close>, \<^verbatim>\<open>Inode\<close> and \<^verbatim>\<open>FsPath\<close> are \<^verbatim>\<open>fs.rs\<close>: blocks, inodes, directories and
  path names over the blocks of the log. \<^verbatim>\<open>RefTable\<close>, \<^verbatim>\<open>FsInv\<close> and \<^verbatim>\<open>FsRefs\<close> have the invariant of the inode table under
  calls that do not overlap, \<^verbatim>\<open>FsContent\<close> and \<^verbatim>\<open>FsNames\<close> what is read and written. \<^verbatim>\<open>KFile\<close> is \<^verbatim>\<open>fcntl.rs\<close>,
  \<^verbatim>\<open>file.rs\<close> and \<^verbatim>\<open>pipe.rs\<close>; \<^verbatim>\<open>FileInv\<close> and \<^verbatim>\<open>FileProps\<close> have the invariant of the file table, which
  contains that of the inode table, and the two races that break them when calls overlap. The operations of the file
  system run on blocks that the cache and the disk deliver; that a third read and every request to the disk hang is
  shown in \<^verbatim>\<open>BioProofs\<close> and \<^verbatim>\<open>VirtioProofs\<close>.

  \<^bold>\<open>Programs.\<close> \<^verbatim>\<open>Exec\<close> is \<^verbatim>\<open>elf.rs\<close> and \<^verbatim>\<open>exec.rs\<close>; \<^verbatim>\<open>ExecProofs\<close> shows where the arguments of a program
  are.

  \<^bold>\<open>Bounds.\<close> \<^term>\<open>freewalk\<close> has the depth of its recursion as fuel; every property about it holds from
  depth two on. Walks along the buffer cache are partial functions; that they end, or do not, is
  proved. All other recursions have a termination proof.

  \<^bold>\<open>Not modelled.\<close> \<^verbatim>\<open>printf.rs\<close> and \<^verbatim>\<open>procdump\<close> only print. \<^verbatim>\<open>lib.rs\<close>, \<^verbatim>\<open>defs.rs\<close> and \<^verbatim>\<open>main.rs\<close> list modules, define a macro
  and call the initialisation functions in their order. \<^verbatim>\<open>build.rs\<close> runs cargo, and the programs in \<^verbatim>\<open>src/user\<close> are a
  stub. The sleep locks of the inodes are not part of the state of the file system; their exclusion
  is in \<^verbatim>\<open>SleepLock\<close>. The trap handlers (\<^verbatim>\<open>trap.rs\<close>, \<^verbatim>\<open>plic.rs\<close>), the dispatch of system calls
  (\<^verbatim>\<open>syscall.rs\<close>) and \<^verbatim>\<open>src/mkfs\<close> call the modelled functions and are not themselves modelled.
\<close>

end
